(* ===== verification/Prelude.thy ===== *)
theory Prelude
  imports Main "HOL-Library.Word"
begin

text \<open>
  Shared vocabulary of the development: the fixed-width integer types of the C++ sources,
  two collections of simplification facts, and the generic lemmas on words and lists the
  component theories use. \<open>size_t\<close> and pointers are 64 bits wide throughout (the 64-bit targets).
\<close>

unbundle bit_operations_syntax

named_theorems panda_defs \<open>definitions of the model that proofs unfold\<close>
named_theorems panda_simps \<open>characteristic equations of the operations\<close>

type_synonym u8 = "8 word"
type_synonym u16 = "16 word"
type_synonym u32 = "32 word"
type_synonym u64 = "64 word"
type_synonym bytes = "8 word list"

subsection \<open>Words\<close>

lemma unat_lt_2p: "unat (x :: 'a::len word) < 2 ^ LENGTH('a)"
  by (rule unsigned_less)

lemma word_eqI_unat: "unat x = unat y \<Longrightarrow> x = y"
  by (simp add: word_unat_eq_iff)

lemma unat_drop_bit: "unat (drop_bit n x) = unat x div 2 ^ n"
  by (simp add: unat_drop_bit_eq drop_bit_eq_div [of n "unat x"])

lemma unat_take_bit: "unat (take_bit n x) = unat x mod 2 ^ n"
  by (simp add: unsigned_take_bit_eq take_bit_eq_mod [of n "unat x"])

lemma unat_push_bit_small:
  assumes "unat x * 2 ^ n < 2 ^ LENGTH('a)"
  shows "unat (push_bit n (x :: 'a::len word)) = unat x * 2 ^ n"
  unfolding unsigned_push_bit_eq push_bit_eq_mult [of n "unat x"]
  using assms by (simp add: take_bit_nat_eq_self)

lemma and_mask_take_bit: "x AND mask n = take_bit n x"
  by (simp add: take_bit_eq_mask)

lemma unat_ucast_small:
  assumes "unat (x :: 'a::len word) < 2 ^ LENGTH('b)"
  shows "unat (ucast x :: 'b::len word) = unat x"
  using assms by (simp add: unsigned_ucast_eq take_bit_nat_eq_self)

lemma bit_unat_less:
  assumes "unat (x :: 'a::len word) < 2 ^ n" "n \<le> m"
  shows "\<not> bit x m"
proof -
  have "take_bit n x = x"
    using assms(1) by (simp add: word_unat_eq_iff unat_take_bit)
  then show ?thesis
    using assms(2) by (metis bit_take_bit_iff not_le)
qed

lemma bit_imp_exp_le_unat: "bit x n \<Longrightarrow> 2 ^ n \<le> unat x"
  using bit_unat_less [of x n n] by (meson le_refl not_le)

lemma unat_less_if_bits:
  assumes "\<And>n. s \<le> n \<Longrightarrow> \<not> bit (x :: 'a::len word) n"
  shows "unat x < 2 ^ s"
proof -
  have "take_bit s x = x"
    using assms by (intro bit_word_eqI) (auto simp: bit_simps not_less[symmetric])
  then show ?thesis by (metis unat_take_bit mod_less_divisor zero_less_numeral zero_less_power)
qed

lemma or_disjoint_add:
  assumes "x AND y = (0 :: 'a::len word)"
  shows "x OR y = x + y"
  using assms by (simp add: disjunctive_add_eq_or)

lemma split_at_bit: "x = take_bit n x OR push_bit n (drop_bit n (x :: 'a::len word))"
proof (rule bit_word_eqI)
  fix m assume "m < LENGTH('a)"
  then show "bit x m \<longleftrightarrow> bit (take_bit n x OR push_bit n (drop_bit n x)) m"
    by (cases "m < n") (auto simp: bit_simps)
qed

lemma sint_word_of_int_id:
  "- (2 ^ (LENGTH('a) - 1)) \<le> k \<Longrightarrow> k < 2 ^ (LENGTH('a) - 1) \<Longrightarrow> sint (word_of_int k :: 'a::len word) = k"
  by (simp add: signed_of_int signed_take_bit_int_eq_self)

lemma bit_sdrop:
  "bit (signed_drop_bit k (y :: 'a::len word)) n \<longleftrightarrow> bit y (min (k + n) (LENGTH('a) - 1)) \<and> n < LENGTH('a)"
  by (cases "k + n < LENGTH('a) - 1"; cases "k + n = LENGTH('a) - 1")
    (auto simp: bit_signed_drop_bit_iff min_def add.commute dest: bit_imp_le_length)

end
