(* ===== verification/BitUtils.thy ===== *)
theory BitUtils
  imports Prelude
begin

text \<open>
  \<open>libpandabase/utils/bit_utils.h\<close>: counting, rounding and reversing bits. The template
  parameter \<open>T\<close> (an unsigned type of 8, 16, 32 or 64 bits) is the type variable of
  \<open>'a word\<close>.
\<close>

subsection \<open>The compiler builtins the header is written with\<close>

fun clz_from :: "nat \<Rightarrow> 'a::len word \<Rightarrow> nat" where
  "clz_from 0 w = 0"
| "clz_from (Suc n) w = (if bit w n then 0 else Suc (clz_from n w))"

definition builtin_clz :: "'a::len word \<Rightarrow> nat" where
  "builtin_clz w = clz_from LENGTH('a) w"

fun ctz_from :: "nat \<Rightarrow> nat \<Rightarrow> 'a::len word \<Rightarrow> nat" where
  "ctz_from 0 i w = 0"
| "ctz_from (Suc n) i w = (if bit w i then 0 else Suc (ctz_from n (Suc i) w))"

definition builtin_ctz :: "'a::len word \<Rightarrow> nat" where
  "builtin_ctz w = ctz_from LENGTH('a) 0 w"

fun popcount_from :: "nat \<Rightarrow> 'a::len word \<Rightarrow> nat" where
  "popcount_from 0 w = 0"
| "popcount_from (Suc n) w = (if bit w n then 1 else 0) + popcount_from n w"

definition builtin_popcount :: "'a::len word \<Rightarrow> nat" where
  "builtin_popcount w = popcount_from LENGTH('a) w"

definition builtin_ffs :: "'a::len word \<Rightarrow> nat" where
  "builtin_ffs w = (if w = 0 then 0 else Suc (builtin_ctz w))"

subsection \<open>Counting\<close>

text \<open>\<open>Clz\<close> and \<open>Ctz\<close> assert that their argument is not zero, for which the builtins are undefined.\<close>

definition Clz :: "'a::len word \<Rightarrow> nat option" where
  "Clz x = (if x = 0 then None
            else if LENGTH('a) = 64 then Some (builtin_clz (ucast x :: u64))
            else Some (builtin_clz (ucast x :: u32) - (32 - LENGTH('a))))"

definition Ctz :: "'a::len word \<Rightarrow> nat option" where
  "Ctz x = (if x = 0 then None
            else if LENGTH('a) = 64 then Some (builtin_ctz (ucast x :: u64)) else Some (builtin_ctz (ucast x :: u32)))"

definition Popcount :: "'a::len word \<Rightarrow> nat" where
  "Popcount x = (if LENGTH('a) = 64 then builtin_popcount (ucast x :: u64)
                 else builtin_popcount (ucast x :: u32))"

text \<open>The early return of \<open>MinimumBitsToStore\<close> makes the assertion of \<open>Clz\<close> hold: \<open>the\<close> is applied to a \<open>Some\<close>.\<close>

definition MinimumBitsToStore :: "'a::len word \<Rightarrow> nat" where
  "MinimumBitsToStore x = (if x = 0 then 0 else LENGTH('a) - the (Clz x))"

definition Ffs :: "'a::len word \<Rightarrow> nat" where
  "Ffs x = (if LENGTH('a) = 64 then builtin_ffs (ucast x :: u64) else builtin_ffs (ucast x :: u32))"

subsection \<open>Alignment\<close>

definition IsAligned :: "u64 \<Rightarrow> u64 \<Rightarrow> bool option" where
  "IsAligned value n = (if n = 0 then None else Some (value mod n = 0))"

definition RoundUp :: "u64 \<Rightarrow> u64 \<Rightarrow> u64" where
  "RoundUp x n = (x + n - 1) AND (- n)"

definition BitsToBytesRoundUp :: "u64 \<Rightarrow> u64" where
  "BitsToBytesRoundUp num_bits = RoundUp num_bits 8 div 8"

definition RoundDown :: "u64 \<Rightarrow> u64 \<Rightarrow> u64" where
  "RoundDown x n = x AND (- n)"

subsection \<open>Swapping and extracting\<close>

definition SwapBits :: "'a::len word \<Rightarrow> 'a word \<Rightarrow> nat \<Rightarrow> 'a word" where
  "SwapBits value m offset = (drop_bit offset value AND m) OR push_bit offset (value AND m)"

definition GetByteFrom :: "'a::len word \<Rightarrow> nat \<Rightarrow> u8" where
  "GetByteFrom value index = ucast (drop_bit (index * 8) value AND 0xff)"

definition ReverseBytes16 :: "u16 \<Rightarrow> u16" where
  "ReverseBytes16 value = push_bit 8 value OR drop_bit 8 value"

definition ReverseBytes32 :: "u32 \<Rightarrow> u32" where
  "ReverseBytes32 value =
     (let value = SwapBits value 0xff00ff 8
      in drop_bit 16 value OR push_bit 16 value)"

definition ReverseBytes64 :: "u64 \<Rightarrow> u64" where
  "ReverseBytes64 value =
     (let value = SwapBits value 0xff00ff00ff00ff 8;
          value = SwapBits value 0xffff0000ffff 16
      in drop_bit 32 value OR push_bit 32 value)"

definition ReverseBits32 :: "u32 \<Rightarrow> u32" where
  "ReverseBits32 value =
     (let value = SwapBits value 0x55555555 1;
          value = SwapBits value 0x33333333 2;
          value = SwapBits value 0x0f0f0f0f 4
      in ReverseBytes32 value)"

definition ReverseBits64 :: "u64 \<Rightarrow> u64" where
  "ReverseBits64 value =
     (let value = SwapBits value 0x5555555555555555 1;
          value = SwapBits value 0x3333333333333333 2;
          value = SwapBits value 0x0f0f0f0f0f0f0f0f 4
      in ReverseBytes64 value)"

definition BitCount :: "'a::len word \<Rightarrow> nat" where
  "BitCount value = popcount_from LENGTH('a) value"

text \<open>
  \<open>ExtractBits\<close> builds its mask with the 32-bit literal \<open>1U\<close>: a count of 32 or more shifts
  it by its width or more, which is undefined. \<open>None\<close> is a failed \<open>ASSERT\<close> or such a shift.
\<close>

definition ExtractBits :: "'a::len word \<Rightarrow> nat \<Rightarrow> nat \<Rightarrow> 'a word option" where
  "ExtractBits value offset count =
     (if LENGTH('a) < offset + count \<or> 32 \<le> count \<or> LENGTH('a) \<le> offset then None
      else Some (drop_bit offset value AND ucast (push_bit count (1 :: u32) - 1)))"

definition Low32Bits :: "u64 \<Rightarrow> u32" where
  "Low32Bits value = ucast value"

definition High32Bits :: "u64 \<Rightarrow> u32" where
  "High32Bits value = ucast (drop_bit 32 value)"

subsection \<open>What the counts mean\<close>

lemma clz_from_le: "clz_from n w \<le> n"
  by (induction n) auto

lemma clz_from_high_clear: "n - clz_from n w \<le> m \<Longrightarrow> m < n \<Longrightarrow> \<not> bit w m"
proof (induction n)
  case 0
  then show ?case by simp
next
  case (Suc n)
  then show ?case by (cases "m = n") (auto split: if_splits)
qed

lemma clz_from_top_bit: "clz_from n w < n \<Longrightarrow> bit w (n - clz_from n w - 1)"
  by (induction n) (auto split: if_splits)

lemma clz_from_all: "clz_from n w = n \<Longrightarrow> m < n \<Longrightarrow> \<not> bit w m"
  using clz_from_high_clear [of n w m] by simp

lemma clz_from_ucast:
  assumes "n \<le> LENGTH('a)" "LENGTH('a) \<le> LENGTH('b)"
  shows "clz_from n (ucast (x :: 'a::len word) :: 'b::len word) = clz_from n x"
  using assms(1)
  by (induction n) (use assms(2) in \<open>auto simp: bit_simps\<close>)

lemma clz_from_ucast_ext:
  assumes "LENGTH('a) + k \<le> LENGTH('b)"
  shows "clz_from (LENGTH('a) + k) (ucast (x :: 'a::len word) :: 'b::len word)
           = k + clz_from LENGTH('a) x"
  using assms
proof (induction k)
  case 0
  then show ?case by (simp add: clz_from_ucast)
next
  case (Suc k)
  have "\<not> bit (ucast x :: 'b word) (LENGTH('a) + k)"
    by (auto simp: bit_simps dest: bit_imp_le_length)
  then show ?case using Suc by simp
qed

lemma Clz_eq:
  assumes "LENGTH('a) \<le> 32 \<or> LENGTH('a) = 64" "x \<noteq> 0"
  shows "Clz (x :: 'a::len word) = Some (clz_from LENGTH('a) x)"
proof (cases "LENGTH('a) = 64")
  case True
  then show ?thesis
    using clz_from_ucast [of "LENGTH('a)" x, where ?'b = 64] assms(2)
    by (simp add: Clz_def builtin_clz_def)
next
  case False
  then have le: "LENGTH('a) \<le> 32" using assms by simp
  then have "clz_from 32 (ucast x :: u32) = (32 - LENGTH('a)) + clz_from LENGTH('a) x"
    using clz_from_ucast_ext [where k = "32 - LENGTH('a)" and x = x and ?'b = 32] by simp
  then show ?thesis using False assms(2) by (simp add: Clz_def builtin_clz_def)
qed

lemma MinimumBitsToStore_bounds:
  fixes x :: "'a::len word"
  assumes "LENGTH('a) \<le> 32 \<or> LENGTH('a) = 64" "x \<noteq> 0"
  shows "2 ^ (MinimumBitsToStore x - 1) \<le> unat x" "unat x < 2 ^ MinimumBitsToStore x"
    "0 < MinimumBitsToStore x" "MinimumBitsToStore x \<le> LENGTH('a)"
proof -
  let ?c = "clz_from LENGTH('a) x"
  have m: "MinimumBitsToStore x = LENGTH('a) - ?c"
    using assms by (simp add: MinimumBitsToStore_def Clz_eq)
  have "?c \<noteq> LENGTH('a)"
  proof
    assume "?c = LENGTH('a)"
    then have "\<not> bit x n" for n
      using clz_from_all [of "LENGTH('a)" x n] bit_imp_le_length [of x n] by blast
    then have "x = 0" by (simp add: bit_eq_iff)
    then show False using assms(2) by simp
  qed
  then have lt: "?c < LENGTH('a)"
    using clz_from_le [of "LENGTH('a)" x] by simp
  then show "0 < MinimumBitsToStore x" "MinimumBitsToStore x \<le> LENGTH('a)"
    by (simp_all add: m)
  show "2 ^ (MinimumBitsToStore x - 1) \<le> unat x"
    using bit_imp_exp_le_unat [OF clz_from_top_bit [OF lt]] by (simp add: m)
  have "take_bit (MinimumBitsToStore x) x = x"
  proof (rule bit_word_eqI)
    fix n assume n: "n < LENGTH('a)"
    show "bit (take_bit (MinimumBitsToStore x) x) n \<longleftrightarrow> bit x n"
      using clz_from_high_clear [of "LENGTH('a)" x n] n
      by (cases "n < MinimumBitsToStore x") (auto simp: bit_simps m)
  qed
  then show "unat x < 2 ^ MinimumBitsToStore x"
    by (metis unat_take_bit mod_less_divisor zero_less_numeral zero_less_power)
qed

lemma MinimumBitsToStore_le_iff:
  fixes x :: "'a::len word"
  assumes "LENGTH('a) \<le> 32 \<or> LENGTH('a) = 64"
  shows "MinimumBitsToStore x \<le> k \<longleftrightarrow> unat x < 2 ^ k"
proof (cases "x = 0")
  case True
  then show ?thesis by (simp add: MinimumBitsToStore_def)
next
  case False
  note b = MinimumBitsToStore_bounds [OF assms False]
  show ?thesis
  proof
    assume "MinimumBitsToStore x \<le> k"
    then show "unat x < 2 ^ k"
      using b(2) power_increasing [of "MinimumBitsToStore x" k "2::nat"] by linarith
  next
    assume "unat x < 2 ^ k"
    with b(1) have "(2::nat) ^ (MinimumBitsToStore x - 1) < 2 ^ k" by (rule le_less_trans)
    then have "MinimumBitsToStore x - 1 < k" by simp
    then show "MinimumBitsToStore x \<le> k" using b(3) by simp
  qed
qed

end
