(* ===== verification/Leb128.thy ===== *)
theory Leb128
  imports BitUtils
begin

text \<open>
  \<open>libpandabase/utils/leb128.h\<close>: the variable-length integers of the bytecode file format.
  The \<open>data\<close> pointer of the decoders is a list of bytes; reading past its end is \<open>None\<close>.
  A decoder returns the value, the number of bytes read and the \<open>is_full\<close> flag.
  The type variable is the C++ template parameter; signed values are words read with \<open>sint\<close>.
\<close>

abbreviation PAYLOAD_WIDTH :: nat where "PAYLOAD_WIDTH \<equiv> 7"
abbreviation PAYLOAD_MASK :: u8 where "PAYLOAD_MASK \<equiv> 0x7f"
abbreviation EXTENSION_BIT :: u8 where "EXTENSION_BIT \<equiv> 0x80"
abbreviation SIGN_BIT :: u8 where "SIGN_BIT \<equiv> 0x40"

definition leb_groups :: "nat \<Rightarrow> nat" where
  "leb_groups bitwidth = (bitwidth + PAYLOAD_WIDTH - 1) div PAYLOAD_WIDTH"

subsection \<open>Decoding\<close>

fun DecodeUnsigned_loop ::
    "nat \<Rightarrow> bytes \<Rightarrow> 'a::len word \<Rightarrow> nat \<Rightarrow> ('a word \<times> nat \<times> bool) option" where
  "DecodeUnsigned_loop 0 data result i = Some (result, i, False)"
| "DecodeUnsigned_loop (Suc n) data result i =
     (if length data \<le> i then None
      else let byte = data ! i AND PAYLOAD_MASK;
               shift = i * PAYLOAD_WIDTH;
               result = result OR push_bit shift (ucast byte)
           in if data ! i AND EXTENSION_BIT = 0
              then Some (result, i + 1, MinimumBitsToStore byte \<le> LENGTH('a) - shift)
              else DecodeUnsigned_loop n data result (i + 1))"

definition DecodeUnsigned :: "bytes \<Rightarrow> ('a::len word \<times> nat \<times> bool) option" where
  "DecodeUnsigned data = DecodeUnsigned_loop (leb_groups LENGTH('a)) data 0 0"

fun DecodeSigned_loop ::
    "nat \<Rightarrow> bytes \<Rightarrow> 'a::len word \<Rightarrow> nat \<Rightarrow> ('a word \<times> nat \<times> bool) option" where
  "DecodeSigned_loop 0 data result i = Some (result, i, False)"
| "DecodeSigned_loop (Suc n) data result i =
     (if length data \<le> i then None
      else let byte = data ! i;
               shift = i * PAYLOAD_WIDTH;
               result = result OR push_bit shift (ucast (byte AND PAYLOAD_MASK))
           in if byte AND EXTENSION_BIT = 0
              then let shift = LENGTH('a) - shift;
                       signed_extended = signed_drop_bit 1 (push_bit 1 byte);
                       masked = (signed_extended XOR signed_drop_bit PAYLOAD_WIDTH signed_extended) OR 1;
                       is_full = MinimumBitsToStore masked \<le> shift;
                       result = (if PAYLOAD_WIDTH < shift
                                 then signed_drop_bit (shift - PAYLOAD_WIDTH)
                                        (push_bit (shift - PAYLOAD_WIDTH) result)
                                 else result)
                   in Some (result, i + 1, is_full)
              else DecodeSigned_loop n data result (i + 1))"

definition DecodeSigned :: "bytes \<Rightarrow> ('a::len word \<times> nat \<times> bool) option" where
  "DecodeSigned data = DecodeSigned_loop (leb_groups LENGTH('a)) data 0 0"

subsection \<open>Encoding\<close>

function EncodeUnsigned :: "'a::len word \<Rightarrow> bytes" where
  "EncodeUnsigned data =
     (let byte = ucast data AND PAYLOAD_MASK;
          data = drop_bit PAYLOAD_WIDTH data
      in if data \<noteq> 0 then (byte OR EXTENSION_BIT) # EncodeUnsigned data else [byte])"
  by pat_completeness auto
termination
proof (relation "measure unat")
  fix data :: "'a word" and x xa
  assume xa: "xa = drop_bit PAYLOAD_WIDTH data" "xa \<noteq> 0"
  have "unat xa = unat data div 128" by (simp add: xa(1) unat_drop_bit)
  moreover have "unat xa \<noteq> 0" using xa(2) by (simp add: unat_eq_zero)
  ultimately show "(xa, data) \<in> measure unat" by simp
qed simp

text \<open>The magnitude that shrinks while a signed value is shifted right.\<close>

definition leb_mag :: "'a::len word \<Rightarrow> nat" where
  "leb_mag x = nat (if 0 \<le> sint x then sint x else - 1 - sint x)"

lemma sint_signed_drop_bit: "sint (signed_drop_bit n x) = sint x div 2 ^ n"
  by (simp add: sint_signed_drop_bit_eq drop_bit_eq_div)

definition leb_payload :: "'a::len word \<Rightarrow> u8" where
  "leb_payload data = ucast ((scast data :: u64) AND 0x7f)"

lemma leb_payload_bit: "bit (leb_payload x) n \<longleftrightarrow> n < 7 \<and> bit (x :: 'a::len word) (min n (LENGTH('a) - 1))"
proof -
  have "leb_payload x = ucast ((scast x :: u64) AND mask 7)"
    by (simp add: leb_payload_def mask_eq_exp_minus_1)
  then have "bit (leb_payload x) n \<longleftrightarrow> n < 7 \<and> bit (scast x :: u64) n"
    by (auto simp: bit_simps)
  also have "\<dots> \<longleftrightarrow> n < 7 \<and> bit x (min n (LENGTH('a) - 1))"
    by (cases "n = LENGTH('a) - 1") (auto simp: bit_signed_iff min_def)
  finally show ?thesis .
qed

definition leb_last :: "'a::len word \<Rightarrow> bool" where
  "leb_last x = (let byte = leb_payload x; data = signed_drop_bit PAYLOAD_WIDTH x
                 in (data = 0 \<and> byte AND SIGN_BIT = 0) \<or> (data = - 1 \<and> byte AND SIGN_BIT \<noteq> 0))"

lemma leb_last_of_small: "leb_mag x = 0 \<Longrightarrow> leb_last x"
proof -
  assume "leb_mag x = 0"
  then have "sint x = 0 \<or> sint x = - 1" by (auto simp: leb_mag_def split: if_splits)
  then have "x = 0 \<or> x = - 1" by (metis sint_n1 signed_0 signed_word_eqI)
  moreover have "leb_payload (0 :: 'a word) = 0" "leb_payload (- 1 :: 'a word) = 0x7f"
    by (simp_all add: leb_payload_def)
  ultimately show ?thesis by (auto simp: leb_last_def)
qed

function EncodeSigned :: "'a::len word \<Rightarrow> bytes" where
  "EncodeSigned data =
     (let byte = leb_payload data;
          data = signed_drop_bit PAYLOAD_WIDTH data;
          more = (\<not> ((data = 0 \<and> byte AND SIGN_BIT = 0) \<or> (data = - 1 \<and> byte AND SIGN_BIT \<noteq> 0)))
      in if more then (byte OR EXTENSION_BIT) # EncodeSigned data else [byte])"
  by pat_completeness auto
termination
proof (relation "measure leb_mag")
  fix data :: "'a word" and x xa xb
  assume x: "x = leb_payload data" and xa: "xa = signed_drop_bit PAYLOAD_WIDTH data"
    and xb: "xb = (\<not> ((xa = 0 \<and> x AND SIGN_BIT = 0) \<or> (xa = - 1 \<and> x AND SIGN_BIT \<noteq> 0)))" "xb"
  have "\<not> leb_last data" using x xa xb by (auto simp: leb_last_def Let_def)
  then have "leb_mag data \<noteq> 0" using leb_last_of_small by blast
  moreover have "sint xa = sint data div 128" by (simp add: xa sint_signed_drop_bit)
  ultimately show "(xa, data) \<in> measure leb_mag"
    by (auto simp: leb_mag_def split: if_splits)
qed simp

definition UnsignedEncodingSize :: "'a::len word \<Rightarrow> nat" where
  "UnsignedEncodingSize data = (MinimumBitsToStore (data OR 1) + PAYLOAD_WIDTH - 1) div PAYLOAD_WIDTH"

definition SignedEncodingSize :: "'a::len word \<Rightarrow> nat" where
  "SignedEncodingSize data =
     (let udata = data XOR signed_drop_bit (LENGTH('a) - 2) data
      in MinimumBitsToStore (udata OR 1) div PAYLOAD_WIDTH + 1)"

declare EncodeUnsigned.simps [simp del] EncodeSigned.simps [simp del]

subsection \<open>Bytes of an encoding\<close>

lemma payload_take_bit: "(b :: u8) AND PAYLOAD_MASK = take_bit 7 b"
  by (simp add: take_bit_eq_mask mask_eq_exp_minus_1)

lemma extension_clear_iff: "(b :: u8) AND EXTENSION_BIT = 0 \<longleftrightarrow> \<not> bit b 7"
  using and_exp_eq_0_iff_not_bit [of b 7] by simp

lemma sign_clear_iff: "(b :: u8) AND SIGN_BIT = 0 \<longleftrightarrow> \<not> bit b 6"
  using and_exp_eq_0_iff_not_bit [of b 6] by simp

lemma extension_bit_exp: "EXTENSION_BIT = 2 ^ 7"
  by simp

lemma extended_payload:
  "take_bit 7 (take_bit 7 b OR EXTENSION_BIT) = take_bit 7 (b :: u8)"
  "bit (take_bit 7 b OR EXTENSION_BIT) 7" "\<not> bit (take_bit 7 b) 7"
  unfolding extension_bit_exp
  by (auto simp: bit_eq_iff bit_simps)

lemma take_bit_next_group:
  fixes y :: "'a::len word"
  assumes "\<And>n. i * 7 + n < LENGTH('a) \<Longrightarrow> bit b n \<longleftrightarrow> n < 7 \<and> bit y (i * 7 + n)"
  shows "take_bit (i * 7) y OR push_bit (i * 7) (ucast (b :: u8)) = take_bit (Suc i * 7) y"
proof (rule bit_word_eqI)
  fix n assume n: "n < LENGTH('a)"
  show "bit (take_bit (i * 7) y OR push_bit (i * 7) (ucast b)) n \<longleftrightarrow> bit (take_bit (Suc i * 7) y) n"
  proof (cases "n < i * 7")
    case True
    then show ?thesis by (simp add: bit_simps)
  next
    case False
    then obtain k where k: "n = i * 7 + k" by (metis le_add_diff_inverse not_less)
    then have "bit b k \<longleftrightarrow> k < 7 \<and> bit y (i * 7 + k)"
      using assms [of k] n by simp
    then show ?thesis using n k by (auto simp: bit_simps dest: bit_imp_le_length)
  qed
qed

lemma leb_groups_gt: "i * 7 < n \<longleftrightarrow> i < leb_groups n"
  by (auto simp: leb_groups_def)

lemma drop_eq_ConsD: "drop i xs = y # ys \<Longrightarrow> i < length xs \<and> xs ! i = y \<and> drop (Suc i) xs = ys"
  by (metis Cons_nth_drop_Suc drop_all list.inject list.simps(3) not_less)

subsection \<open>Unsigned round trip\<close>

lemma EncodeUnsigned_cases:
  "EncodeUnsigned x =
     (if drop_bit 7 x \<noteq> 0 then (take_bit 7 (ucast x) OR EXTENSION_BIT) # EncodeUnsigned (drop_bit 7 x)
      else [take_bit 7 (ucast x)])"
  by (subst EncodeUnsigned.simps) (simp add: Let_def payload_take_bit)

lemma EncodeUnsigned_ne: "EncodeUnsigned x \<noteq> []"
  by (subst EncodeUnsigned_cases) simp

lemma DecodeUnsigned_loop_encode:
  fixes y x :: "'a::len word"
  assumes L: "LENGTH('a) \<le> 32 \<or> LENGTH('a) = 64"
    and "x = drop_bit (i * 7) y" "drop i data = EncodeUnsigned x @ rest" "i * 7 < LENGTH('a)"
  shows "DecodeUnsigned_loop (leb_groups LENGTH('a) - i) data (take_bit (i * 7) y) i
           = Some (y, i + length (EncodeUnsigned x), True)"
  using assms(2-)
proof (induction x arbitrary: i rule: EncodeUnsigned.induct)
  case (1 x)
  let ?b = "take_bit 7 (ucast x :: u8)"
  obtain n where n: "leb_groups LENGTH('a) - i = Suc n" "n = leb_groups LENGTH('a) - Suc i"
    using "1.prems"(3) by (metis Suc_diff_Suc leb_groups_gt)
  have grp: "take_bit (i * 7) y OR push_bit (i * 7) (ucast ?b) = take_bit (Suc i * 7) y"
    by (rule take_bit_next_group)
      (auto simp: "1.prems"(1) bit_simps mult.commute dest: bit_imp_le_length)
  show ?case
  proof (cases "drop_bit 7 x = 0")
    case True
    with "1.prems"(2) have d: "i < length data" "data ! i = ?b"
      by (auto simp: EncodeUnsigned_cases [of x] dest!: drop_eq_ConsD)
    have full: "take_bit (Suc i * 7) y = y"
    proof -
      have "drop_bit (Suc i * 7) y = 0"
        using True by (simp add: "1.prems"(1) drop_bit_drop_bit add.commute)
      then show ?thesis using split_at_bit [of y "Suc i * 7"] by simp
    qed
    have "unat ?b \<le> unat x"
      by (simp add: unat_take_bit unsigned_ucast_eq take_bit_nat_def)
    also have "unat x < 2 ^ (LENGTH('a) - i * 7)"
      using unat_lt_2p [of y] "1.prems"(3)
      by (simp add: "1.prems"(1) unat_drop_bit less_mult_imp_div_less flip: power_add)
    finally have "MinimumBitsToStore ?b \<le> LENGTH('a) - i * 7"
      by (simp add: MinimumBitsToStore_le_iff)
    then show ?thesis
      using d grp full True
      by (simp add: n(1) Let_def payload_take_bit extension_clear_iff extended_payload EncodeUnsigned_cases [of x])
  next
    case False
    with "1.prems"(2) have d: "i < length data" "data ! i = ?b OR EXTENSION_BIT"
      "drop (Suc i) data = EncodeUnsigned (drop_bit 7 x) @ rest"
      by (auto simp: EncodeUnsigned_cases [of x] dest!: drop_eq_ConsD)
    have lt: "Suc i * 7 < LENGTH('a)"
    proof (rule ccontr)
      assume "\<not> Suc i * 7 < LENGTH('a)"
      then have "drop_bit (Suc i * 7) y = 0"
        by (intro bit_word_eqI) (auto simp: bit_simps dest: bit_imp_le_length)
      then show False using False by (simp add: "1.prems"(1) drop_bit_drop_bit add.commute)
    qed
    have "DecodeUnsigned_loop n data (take_bit (Suc i * 7) y) (Suc i)
            = Some (y, Suc i + length (EncodeUnsigned (drop_bit 7 x)), True)"
      unfolding n(2)
      using "1.IH" [OF refl refl False, of "Suc i"] d(3) lt
      by (simp add: "1.prems"(1) drop_bit_drop_bit add.commute)
    then show ?thesis
      using d grp False
      by (simp add: n(1) Let_def payload_take_bit extension_clear_iff extended_payload EncodeUnsigned_cases [of x])
  qed
qed

subsection \<open>Signed round trip\<close>

lemma EncodeSigned_cases:
  "EncodeSigned x =
     (if leb_last x then [leb_payload x]
      else (leb_payload x OR EXTENSION_BIT) # EncodeSigned (signed_drop_bit 7 x))"
  by (subst EncodeSigned.simps) (simp add: Let_def leb_last_def)

lemma EncodeSigned_ne: "EncodeSigned x \<noteq> []"
  by (subst EncodeSigned_cases) simp

lemma leb_payload_take_bit: "take_bit 7 (leb_payload x) = leb_payload x"
  by (rule bit_word_eqI) (auto simp: bit_simps leb_payload_bit)

lemma leb_payload_sdrop_bit:
  assumes "8 \<le> LENGTH('a)"
  shows "bit (leb_payload (signed_drop_bit k (y :: 'a::len word))) n
     \<longleftrightarrow> n < 7 \<and> bit y (min (k + n) (LENGTH('a) - 1))"
  using assms by (auto simp: leb_payload_bit bit_sdrop min_def)

text \<open>The last group is the one from which every higher bit repeats bit 6.\<close>

lemma leb_last_iff:
  assumes "8 \<le> LENGTH('a)"
  shows "leb_last (x :: 'a::len word) \<longleftrightarrow> (\<forall>m. 6 \<le> m \<longrightarrow> m < LENGTH('a) \<longrightarrow> (bit x m \<longleftrightarrow> bit x 6))"
    (is "_ \<longleftrightarrow> ?rep")
proof
  assume "leb_last x"
  then have d: "(signed_drop_bit 7 x = 0 \<and> \<not> bit x 6) \<or> (signed_drop_bit 7 x = - 1 \<and> bit x 6)"
    using assms by (auto simp: leb_last_def sign_clear_iff leb_payload_bit)
  show ?rep
  proof (intro allI impI)
    fix m assume m: "6 \<le> m" "m < LENGTH('a)"
    show "bit x m \<longleftrightarrow> bit x 6"
    proof (cases "m = 6")
      case False
      with m have "bit (signed_drop_bit 7 x) (m - 7) \<longleftrightarrow> bit x m" by (auto simp: bit_sdrop)
      with d m show ?thesis by auto
    qed simp
  qed
next
  assume rep: ?rep
  have b: "bit (signed_drop_bit 7 x) n \<longleftrightarrow> n < LENGTH('a) \<and> bit x 6" for n
    using rep [rule_format, of "min (7 + n) (LENGTH('a) - 1)"] assms
    by (simp only: bit_sdrop) fastforce
  show "leb_last x"
  proof (cases "bit x 6")
    case True
    then have "signed_drop_bit 7 x = - 1" by (intro bit_word_eqI) (simp add: b)
    with True assms show ?thesis by (simp add: leb_last_def sign_clear_iff leb_payload_bit)
  next
    case False
    then have "signed_drop_bit 7 x = 0" by (intro bit_word_eqI) (simp add: b)
    with False assms show ?thesis by (simp add: leb_last_def sign_clear_iff leb_payload_bit)
  qed
qed

lemma sign_extend_group:
  fixes y :: "'a::len word"
  assumes L: "8 \<le> LENGTH('a)" and rep: "leb_last (signed_drop_bit (i * 7) y)"
    and lt: "7 < LENGTH('a) - i * 7"
  shows "signed_drop_bit (LENGTH('a) - i * 7 - 7) (push_bit (LENGTH('a) - i * 7 - 7) (take_bit (Suc i * 7) y)) = y"
proof (rule bit_word_eqI)
  fix n assume n: "n < LENGTH('a)"
  let ?s = "LENGTH('a) - i * 7 - 7"
  have y: "bit y m \<longleftrightarrow> bit y (i * 7 + 6)" if "i * 7 + 6 \<le> m" "m < LENGTH('a)" for m
  proof -
    have "bit (signed_drop_bit (i * 7) y) (m - i * 7) \<longleftrightarrow> bit (signed_drop_bit (i * 7) y) 6"
      using rep [unfolded leb_last_iff [OF L], rule_format, of "m - i * 7"] that by simp
    then show ?thesis using that lt by (auto simp: bit_sdrop)
  qed
  have "bit (signed_drop_bit ?s (push_bit ?s (take_bit (Suc i * 7) y))) n
          \<longleftrightarrow> bit (take_bit (Suc i * 7) y) (min (?s + n) (LENGTH('a) - 1) - ?s)"
    using n lt by (auto simp: bit_sdrop bit_push_bit_iff min_def)
  also have "min (?s + n) (LENGTH('a) - 1) - ?s = min n (i * 7 + 6)"
    using lt by linarith
  also have "bit (take_bit (Suc i * 7) y) (min n (i * 7 + 6)) \<longleftrightarrow> bit y (min n (i * 7 + 6))"
    by (auto simp: bit_simps)
  also have "\<dots> \<longleftrightarrow> bit y n"
    using y [of n] n by (auto simp: min_def)
  finally show "bit (signed_drop_bit ?s (push_bit ?s (take_bit (Suc i * 7) y))) n \<longleftrightarrow> bit y n" .
qed

lemma leb_last_sdrop:
  assumes "8 \<le> LENGTH('a)" "\<not> leb_last (signed_drop_bit (i * 7) (y :: 'a::len word))"
  shows "Suc i * 7 < LENGTH('a)"
proof (rule ccontr)
  assume "\<not> Suc i * 7 < LENGTH('a)"
  then have "min (i * 7 + m) (LENGTH('a) - 1) = LENGTH('a) - 1" if "6 \<le> m" for m using that by simp
  then have "leb_last (signed_drop_bit (i * 7) y)"
    using assms(1) by (simp add: leb_last_iff bit_sdrop)
  with assms(2) show False by simp
qed

definition leb_masked :: "u8 \<Rightarrow> u8" where
  "leb_masked byte =
     (let signed_extended = signed_drop_bit 1 (push_bit 1 byte)
      in (signed_extended XOR signed_drop_bit 7 signed_extended) OR 1)"

lemma leb_masked_eq:
  "leb_masked byte = (signed_drop_bit 1 (push_bit 1 byte) XOR signed_drop_bit 7 (signed_drop_bit 1 (push_bit 1 byte))) OR 1"
  by (simp only: leb_masked_def Let_def)

lemma leb_masked_bit: "bit (leb_masked b) n \<longleftrightarrow> n = 0 \<or> n < 6 \<and> bit b n \<noteq> bit b 6"
proof (cases "n < 8")
  case True
  let ?se = "signed_drop_bit 1 (push_bit 1 b)"
  have se: "bit ?se k \<longleftrightarrow> bit b (min k 6)" if "k < 8" for k
  proof -
    have m: "min (1 + k) (8 - 1) = 1 + min k 6" by linarith
    show ?thesis using that by (simp only: bit_sdrop bit_push_bit_iff len_bit0 len_num1 m) auto
  qed
  have m: "min (7 + n) 7 = (7 :: nat)" "min 7 6 = (6 :: nat)" by simp_all
  have "bit (signed_drop_bit 7 ?se) n \<longleftrightarrow> bit ?se 7"
    using True by (simp only: bit_sdrop [of 7 ?se]) (simp add: m)
  then have "bit (leb_masked b) n \<longleftrightarrow> bit b (min n 6) \<noteq> bit b 6 \<or> n = 0"
    using se [of 7] se [of n] True by (simp only: leb_masked_eq bit_or_iff bit_xor_iff bit_1_iff m)
  then show ?thesis by (cases "n < 6") (auto simp: min_def)
next
  case False
  then have "\<not> bit (leb_masked b) n" by (auto dest: bit_imp_le_length)
  with False show ?thesis by simp
qed

lemma leb_masked_fits:
  fixes y :: "'a::len word"
  assumes L: "8 \<le> LENGTH('a)" and lt: "i * 7 < LENGTH('a)"
  shows "MinimumBitsToStore (leb_masked (leb_payload (signed_drop_bit (i * 7) y))) \<le> LENGTH('a) - i * 7"
proof -
  let ?b = "leb_payload (signed_drop_bit (i * 7) y)"
  have "\<not> bit (leb_masked ?b) n" if n: "LENGTH('a) - i * 7 \<le> n" for n
  proof -
    have "n \<noteq> 0" using n lt by linarith
    moreover have "bit ?b n \<longleftrightarrow> bit ?b 6" if "n < 6"
    proof -
      have "min (i * 7 + n) (LENGTH('a) - 1) = min (i * 7 + 6) (LENGTH('a) - 1)"
        using n that by linarith
      with that show ?thesis by (simp only: leb_payload_sdrop_bit [OF L]) simp
    qed
    ultimately show ?thesis by (auto simp only: leb_masked_bit)
  qed
  then have "unat (leb_masked ?b) < 2 ^ (LENGTH('a) - i * 7)" by (rule unat_less_if_bits)
  then show ?thesis by (subst MinimumBitsToStore_le_iff) simp_all
qed

lemma DecodeSigned_loop_encode:
  fixes y x :: "'a::len word"
  assumes L: "8 \<le> LENGTH('a)"
    and "x = signed_drop_bit (i * 7) y" "drop i data = EncodeSigned x @ rest" "i * 7 < LENGTH('a)"
  shows "DecodeSigned_loop (leb_groups LENGTH('a) - i) data (take_bit (i * 7) y) i
           = Some (y, i + length (EncodeSigned x), True)"
  using assms(2-)
proof (induction x arbitrary: i rule: EncodeSigned.induct)
  case (1 x)
  let ?b = "leb_payload x"
  obtain n where n: "leb_groups LENGTH('a) - i = Suc n" "n = leb_groups LENGTH('a) - Suc i"
    using "1.prems"(3) by (metis Suc_diff_Suc leb_groups_gt)
  have grp: "take_bit (i * 7) y OR push_bit (i * 7) (ucast ?b) = take_bit (Suc i * 7) y"
    by (rule take_bit_next_group) (auto simp: "1.prems"(1) leb_payload_sdrop_bit [OF L] min_def)
  have b7: "\<not> bit ?b 7" by (simp add: leb_payload_bit)
  show ?case
  proof (cases "leb_last x")
    case True
    with "1.prems"(2) have d: "i < length data" "data ! i = ?b"
      by (auto simp: EncodeSigned_cases [of x] dest!: drop_eq_ConsD)
    have short: "take_bit (Suc i * 7) y = y" if "LENGTH('a) - i * 7 \<le> 7"
      using that by (intro bit_word_eqI) (auto simp: bit_simps)
    have ext: "signed_drop_bit (LENGTH('a) - i * 7 - 7)
        (push_bit (LENGTH('a) - i * 7 - 7) (take_bit (Suc i * 7) y)) = y" if "7 < LENGTH('a) - i * 7"
      using sign_extend_group [OF L _ that] True "1.prems"(1) by simp
    have fits: "MinimumBitsToStore (leb_masked ?b) \<le> LENGTH('a) - i * 7"
      using leb_masked_fits [OF L "1.prems"(3)] "1.prems"(1) by simp
    have "data ! i AND PAYLOAD_MASK = ?b" "data ! i AND EXTENSION_BIT = 0"
      using d(2) b7 by (simp_all only: payload_take_bit leb_payload_take_bit extension_clear_iff simp_thms)
    then show ?thesis
      using d(1) short ext True fits [unfolded leb_masked_eq]
      by (cases "7 < LENGTH('a) - i * 7")
        (simp_all add: n(1) d(2) grp EncodeSigned_cases [of x] Let_def not_less)
  next
    case False
    with "1.prems"(2) have d: "i < length data" "data ! i = ?b OR EXTENSION_BIT"
      "drop (Suc i) data = EncodeSigned (signed_drop_bit 7 x) @ rest"
      by (auto simp: EncodeSigned_cases [of x] dest!: drop_eq_ConsD)
    have lt: "Suc i * 7 < LENGTH('a)"
      using leb_last_sdrop [OF L] False "1.prems"(1) by auto
    have next_x: "signed_drop_bit 7 x = signed_drop_bit (Suc i * 7) y"
      by (rule bit_word_eqI) (auto simp: "1.prems"(1) bit_sdrop min_def)
    have more: "\<not> (signed_drop_bit 7 x = 0 \<and> ?b AND SIGN_BIT = 0 \<or> signed_drop_bit 7 x = - 1 \<and> ?b AND SIGN_BIT \<noteq> 0)"
      using False by (auto simp: leb_last_def)
    have "DecodeSigned_loop n data (take_bit (Suc i * 7) y) (Suc i)
            = Some (y, Suc i + length (EncodeSigned (signed_drop_bit 7 x)), True)"
      unfolding n(2) using "1.IH" [OF refl refl refl more next_x d(3) lt] .
    moreover have "data ! i AND PAYLOAD_MASK = ?b" "data ! i AND EXTENSION_BIT \<noteq> 0"
      using extended_payload [of ?b] d(2)
      by (simp_all only: payload_take_bit leb_payload_take_bit extension_clear_iff simp_thms)
    ultimately show ?thesis
      using d(1) grp False
      by (simp add: n(1) Let_def EncodeSigned_cases [of x] del: DecodeSigned_loop.simps(1))
  qed
qed

subsection \<open>Encoding sizes\<close>

lemma length_EncodeUnsigned_le_iff:
  "length (EncodeUnsigned x) \<le> Suc k \<longleftrightarrow> unat x < 2 ^ (7 * Suc k)"
proof (induction k arbitrary: x)
  case 0
  have "drop_bit 7 x = 0 \<longleftrightarrow> unat x < 128"
    by (simp add: word_eq_iff_unsigned unat_drop_bit [of 7 x, simplified] div_eq_0_iff flip: unat_eq_zero)
  then show ?case by (subst EncodeUnsigned_cases) (auto simp: not_le Suc_le_eq length_greater_0_conv EncodeUnsigned_ne)
next
  case (Suc k)
  have "drop_bit 7 x = 0 \<longrightarrow> unat x < 2 ^ (7 * Suc (Suc k))"
  proof
    assume "drop_bit 7 x = 0"
    then have "unat x div 128 = 0" using unat_drop_bit [of 7 x] by simp
    then have "unat x < 2 ^ 7" by simp
    also have "(2 :: nat) ^ 7 \<le> 2 ^ (7 * Suc (Suc k))" by (rule power_increasing) simp_all
    finally show "unat x < 2 ^ (7 * Suc (Suc k))" .
  qed
  moreover have "unat (drop_bit 7 x) < 2 ^ (7 * Suc k) \<longleftrightarrow> unat x < 2 ^ (7 * Suc (Suc k))"
    by (simp add: unat_drop_bit div_less_iff_less_mult power_add)
  ultimately show ?case using Suc.IH [of "drop_bit 7 x"]
    by (subst EncodeUnsigned_cases) auto
qed

lemma eq_if_same_bounds:
  assumes "\<And>k. a \<le> Suc k \<longleftrightarrow> b \<le> Suc k" "0 < a" "0 < b"
  shows "a = (b :: nat)"
  using assms(1) [of "a - 1"] assms(1) [of "b - 1"] assms(2,3) by simp

lemma unat_less_iff_bits: "unat (x :: 'a::len word) < 2 ^ k \<longleftrightarrow> (\<forall>n. k \<le> n \<longrightarrow> \<not> bit x n)"
proof
  assume x: "unat x < 2 ^ k"
  show "\<forall>n. k \<le> n \<longrightarrow> \<not> bit x n"
  proof (intro allI impI notI)
    fix n assume "k \<le> n" "bit x n"
    have "(2 :: nat) ^ k \<le> 2 ^ n" using \<open>k \<le> n\<close> by (rule power_increasing) simp
    also have "\<dots> \<le> unat x" using \<open>bit x n\<close> by (rule bit_imp_exp_le_unat)
    finally show False using x by simp
  qed
qed (simp add: unat_less_if_bits)

lemma unat_or_1_less_iff: "0 < k \<Longrightarrow> unat (x OR 1) < 2 ^ k \<longleftrightarrow> unat (x :: 'a::len word) < 2 ^ k"
  by (auto simp: unat_less_iff_bits bit_or_iff bit_1_iff)

lemma div_7_le_iff: "(n + 7 - 1) div 7 \<le> Suc k \<longleftrightarrow> n \<le> 7 * Suc k"
  by auto

lemma UnsignedEncodingSize_le_iff:
  assumes "LENGTH('a) \<le> 32 \<or> LENGTH('a) = 64"
  shows "UnsignedEncodingSize (x :: 'a::len word) \<le> Suc k \<longleftrightarrow> unat x < 2 ^ (7 * Suc k)"
proof -
  have "(0 :: nat) < 7 * Suc k" by simp
  then show ?thesis
    by (simp only: UnsignedEncodingSize_def div_7_le_iff MinimumBitsToStore_le_iff [OF assms] unat_or_1_less_iff)
qed

lemma MinimumBitsToStore_or_1_pos:
  assumes "LENGTH('a) \<le> 32 \<or> LENGTH('a) = 64"
  shows "0 < MinimumBitsToStore ((x :: 'a::len word) OR 1)"
proof -
  have "bit (x OR 1) 0" by (simp only: bit_or_iff bit_1_iff simp_thms)
  then have "\<not> unat (x OR 1) < 2 ^ 0" unfolding unat_less_iff_bits by blast
  then show ?thesis
    unfolding MinimumBitsToStore_le_iff [OF assms, symmetric] by simp
qed

lemma leb_last_sdrop_iff:
  assumes L: "8 \<le> LENGTH('a)"
  shows "leb_last (signed_drop_bit k (x :: 'a::len word))
     \<longleftrightarrow> (\<forall>m. k + 6 \<le> m \<longrightarrow> m < LENGTH('a) \<longrightarrow> (bit x m \<longleftrightarrow> bit x (LENGTH('a) - 1)))"
    (is "_ \<longleftrightarrow> ?rep")
proof
  assume "leb_last (signed_drop_bit k x)"
  note l = this [unfolded leb_last_iff [OF L], rule_format]
  show ?rep
  proof (intro allI impI)
    fix m assume m: "k + 6 \<le> m" "m < LENGTH('a)"
    have "bit (signed_drop_bit k x) (m - k) \<longleftrightarrow> bit (signed_drop_bit k x) (LENGTH('a) - 1 - k)"
      using l [of "m - k"] l [of "LENGTH('a) - 1 - k"] m by simp
    moreover have "min (k + (m - k)) (LENGTH('a) - 1) = m" "min (k + (LENGTH('a) - 1 - k)) (LENGTH('a) - 1) = LENGTH('a) - 1"
      "m - k < LENGTH('a)" "LENGTH('a) - 1 - k < LENGTH('a)"
      using m by simp_all
    ultimately show "bit x m \<longleftrightarrow> bit x (LENGTH('a) - 1)" by (simp only: bit_sdrop simp_thms)
  qed
next
  assume rep: ?rep
  have top: "bit x (min (k + m) (LENGTH('a) - 1)) \<longleftrightarrow> bit x (LENGTH('a) - 1)" if "6 \<le> m" for m
    using rep [rule_format, of "k + m"] that by (cases "k + m < LENGTH('a)") (simp_all add: min_def)
  show "leb_last (signed_drop_bit k x)"
    unfolding leb_last_iff [OF L] bit_sdrop using top L by auto
qed

lemma length_EncodeSigned_le_iff:
  fixes x :: "'a::len word"
  assumes L: "8 \<le> LENGTH('a)"
  shows "length (EncodeSigned x) \<le> Suc k \<longleftrightarrow> leb_last (signed_drop_bit (7 * k) x)"
proof (induction k arbitrary: x)
  case 0
  show ?case by (subst EncodeSigned_cases) (auto simp: EncodeSigned_ne)
next
  case (Suc k)
  have "signed_drop_bit (7 * k) (signed_drop_bit 7 x) = signed_drop_bit (7 * Suc k) x"
    by (rule bit_word_eqI) (auto simp: bit_sdrop min_def add_ac)
  moreover have "leb_last (signed_drop_bit (7 * Suc k) x)" if "leb_last x"
  proof -
    have "leb_last (signed_drop_bit 0 x)" using that by simp
    then show ?thesis unfolding leb_last_sdrop_iff [OF L] by (meson add_le_mono1 le_trans zero_le)
  qed
  ultimately show ?case
    using Suc.IH [of "signed_drop_bit 7 x"] by (subst EncodeSigned_cases) auto
qed

lemma SignedEncodingSize_le_iff:
  assumes L: "8 \<le> LENGTH('a)" and W: "LENGTH('a) \<le> 32 \<or> LENGTH('a) = 64"
  shows "SignedEncodingSize (x :: 'a::len word) \<le> Suc k \<longleftrightarrow> leb_last (signed_drop_bit (7 * k) x)"
proof -
  let ?u = "x XOR signed_drop_bit (LENGTH('a) - 2) x"
  have u: "bit ?u m \<longleftrightarrow> m < LENGTH('a) \<and> bit x m \<noteq> bit x (LENGTH('a) - 1)" if "0 < m" for m
  proof -
    have "min (LENGTH('a) - 2 + m) (LENGTH('a) - 1) = LENGTH('a) - 1" using that L by linarith
    then show ?thesis by (auto simp: bit_xor_iff bit_sdrop dest: bit_imp_le_length)
  qed
  have "SignedEncodingSize x \<le> Suc k \<longleftrightarrow> MinimumBitsToStore (?u OR 1) \<le> 7 * k + 6"
    unfolding SignedEncodingSize_def Let_def by auto
  also have "\<dots> \<longleftrightarrow> unat ?u < 2 ^ (7 * k + 6)"
    by (simp add: MinimumBitsToStore_le_iff [OF W] unat_or_1_less_iff)
  also have "\<dots> \<longleftrightarrow> leb_last (signed_drop_bit (7 * k) x)"
  proof -
    have "bit ?u m \<longleftrightarrow> m < LENGTH('a) \<and> bit x m \<noteq> bit x (LENGTH('a) - 1)" if "7 * k + 6 \<le> m" for m
      by (rule u) (use that in simp)
    then show ?thesis unfolding unat_less_iff_bits leb_last_sdrop_iff [OF L] by blast
  qed
  finally show ?thesis .
qed

subsection \<open>Properties\<close>

text \<open>
  C14: every unsigned value of a width the file format uses is read back from its encoding: the decoder returns the
  value, stops exactly at the end of the encoding whatever bytes follow, and reports it complete.
\<close>

theorem unsigned_roundtrip:
  fixes x :: "'a::len word"
  assumes "LENGTH('a) \<le> 32 \<or> LENGTH('a) = 64"
  shows "DecodeUnsigned (EncodeUnsigned x @ rest) = Some (x, length (EncodeUnsigned x), True)"
  using DecodeUnsigned_loop_encode [OF assms, of x 0 x "EncodeUnsigned x @ rest" rest]
  by (simp add: DecodeUnsigned_def)

theorem unsigned_roundtrip_witness:
  "DecodeUnsigned (EncodeUnsigned (300 :: u32) @ [7]) = Some (300 :: u32, length (EncodeUnsigned (300 :: u32)), True)"
  by (rule unsigned_roundtrip) simp

text \<open>
  C15: every signed value is read back from its encoding, sign included, with the reading position at the end of
  the encoding and the flag saying it is complete.
\<close>

theorem signed_roundtrip:
  fixes x :: "'a::len word"
  assumes "8 \<le> LENGTH('a)"
  shows "DecodeSigned (EncodeSigned x @ rest) = Some (x, length (EncodeSigned x), True)"
  using DecodeSigned_loop_encode [OF assms, of x 0 x "EncodeSigned x @ rest" rest]
  by (simp add: DecodeSigned_def)

theorem signed_roundtrip_witness:
  "DecodeSigned (EncodeSigned (- 300 :: u32) @ [7]) = Some (- 300 :: u32, length (EncodeSigned (- 300 :: u32)), True)"
  by (rule signed_roundtrip) simp

text \<open>
  The sizes computed ahead of writing are exact: they are the numbers of bytes the two encoders write.
\<close>

theorem encoding_sizes_exact:
  fixes x :: "'a::len word"
  assumes "8 \<le> LENGTH('a)" and "LENGTH('a) \<le> 32 \<or> LENGTH('a) = 64"
  shows "length (EncodeUnsigned x) = UnsignedEncodingSize x \<and> length (EncodeSigned x) = SignedEncodingSize x"
proof (intro conjI eq_if_same_bounds)
  show "length (EncodeUnsigned x) \<le> Suc k \<longleftrightarrow> UnsignedEncodingSize x \<le> Suc k" for k
    by (simp only: length_EncodeUnsigned_le_iff UnsignedEncodingSize_le_iff [OF assms(2)])
  show "length (EncodeSigned x) \<le> Suc k \<longleftrightarrow> SignedEncodingSize x \<le> Suc k" for k
    by (simp only: length_EncodeSigned_le_iff [OF assms(1)] SignedEncodingSize_le_iff [OF assms])
  show "0 < UnsignedEncodingSize x"
    using MinimumBitsToStore_or_1_pos [OF assms(2), of x] by (simp add: UnsignedEncodingSize_def)
qed (simp_all add: EncodeUnsigned_ne EncodeSigned_ne SignedEncodingSize_def Let_def)

theorem encoding_sizes_exact_witness:
  "length (EncodeUnsigned (300 :: u32)) = UnsignedEncodingSize (300 :: u32)
     \<and> length (EncodeSigned (300 :: u32)) = SignedEncodingSize (300 :: u32)"
  by (rule encoding_sizes_exact) simp_all

text \<open>
  The completeness flag of the signed decoder is too generous at the last group: whatever the first four groups of a
  32-bit encoding are, a last group from 8 to 15 stands for a number of at least 2^31, which 32 signed bits do not hold. It
  decodes to a negative number and is reported complete.
\<close>

theorem decode_signed_accepts_overflow:
  assumes "bit b0 7" "bit b1 7" "bit b2 7" "bit b3 7" "8 \<le> b4" "b4 < 16"
  shows "\<exists>r :: u32. DecodeSigned [b0, b1, b2, b3, b4] = Some (r, 5, True) \<and> sint r < 0"
proof -
  have b4: "b4 \<in> {8, 9, 10, 11, 12, 13, 14, 15}"
  proof -
    have "unat b4 \<in> {8..<16}" using assms(5,6) by (simp add: word_le_nat_alt word_less_nat_alt)
    then have "unat b4 \<in> {8, 9, 10, 11, 12, 13, 14, 15}" by auto
    then show ?thesis by (auto simp: word_unat_eq_iff)
  qed
  have e: "b0 AND EXTENSION_BIT \<noteq> 0" "b1 AND EXTENSION_BIT \<noteq> 0" "b2 AND EXTENSION_BIT \<noteq> 0" "b3 AND EXTENSION_BIT \<noteq> 0" "b4 AND EXTENSION_BIT = 0"
    using assms(1-4) b4 by (auto simp: extension_clear_iff)
  have m: "MinimumBitsToStore (leb_masked b4) \<le> 4" using b4 by (elim insertE emptyE) (simp, code_simp)+
  let ?d = "[b0, b1, b2, b3, b4]"
  define f where "f i w = w OR push_bit (i * PAYLOAD_WIDTH) (ucast (?d ! i AND PAYLOAD_MASK))" for i and w :: u32
  have more: "DecodeSigned_loop (Suc n) ?d w i = DecodeSigned_loop n ?d (f i w) (Suc i)" if "i < 4" for i n w
  proof -
    have "i \<in> {0, 1, 2, 3}" using that by auto
    then have "?d ! i AND EXTENSION_BIT \<noteq> 0" using e by auto
    moreover have "\<not> length ?d \<le> i" using that by simp
    ultimately show ?thesis unfolding DecodeSigned_loop.simps Let_def f_def by (simp only: if_False) simp
  qed
  define r0 where "r0 = f (Suc (Suc (Suc 0))) (f (Suc (Suc 0)) (f (Suc 0) (f 0 0)))"
  have "leb_groups LENGTH(32) = Suc (Suc (Suc (Suc (Suc 0))))" by (simp add: leb_groups_def)
  then have "DecodeSigned ?d = DecodeSigned_loop (Suc 0) ?d r0 (Suc (Suc (Suc (Suc 0))))"
    by (simp add: DecodeSigned_def r0_def more del: DecodeSigned_loop.simps)
  moreover define r where "r = r0 OR push_bit 28 (ucast (b4 AND PAYLOAD_MASK))"
  moreover have "DecodeSigned_loop (Suc 0) ?d r0 (Suc (Suc (Suc (Suc 0)))) = Some (r, 5, True)"
    using e(5) m unfolding leb_masked_def Let_def by (simp add: r_def Let_def)
  ultimately have "DecodeSigned ?d = Some (r, 5, True)" by simp
  moreover have "bit r 31" using b4 by (auto simp: r_def bit_simps)
  then have "sint r < 0" by (simp add: bit_last_iff [of r, simplified])
  ultimately show ?thesis by blast
qed

end
