(* ===== verification/MarkWord.thy ===== *)
theory MarkWord
  imports BitUtils
begin

text \<open>
  \<open>runtime/mark_word.h\<close>, \<open>runtime/mark_word.cpp\<close> and \<open>runtime/object_header_config.h\<close>: the mark word of an object header,
  whose two low bits say how the rest is read (a light lock, a monitor, a hash or a forwarding address).
  The memory model configuration is an argument; \<open>markWordSize\<close> is the word type. The abstract view of a mark
  word is a value of \<open>mark_view\<close> together with its two flag bits.
\<close>

subsection \<open>Configuration, masks and shifts\<close>

record mark_config =
  BITS :: nat
  LOCK_THREADID_SIZE :: nat
  IS_HASH_IN_OBJ_HEADER :: bool

definition HighEndConfig32 :: mark_config where
  "HighEndConfig32 = \<lparr>BITS = 32, LOCK_THREADID_SIZE = 13, IS_HASH_IN_OBJ_HEADER = True\<rparr>"

definition HighEndConfig64 :: mark_config where
  "HighEndConfig64 = \<lparr>BITS = 64, LOCK_THREADID_SIZE = 29, IS_HASH_IN_OBJ_HEADER = True\<rparr>"

definition LowEndConfig32 :: mark_config where
  "LowEndConfig32 = \<lparr>BITS = 16, LOCK_THREADID_SIZE = 7, IS_HASH_IN_OBJ_HEADER = True\<rparr>"

abbreviation (input) STATUS_SIZE :: nat where "STATUS_SIZE \<equiv> 2"
abbreviation (input) GC_STATUS_SIZE :: nat where "GC_STATUS_SIZE \<equiv> 1"
abbreviation (input) RB_STATUS_SIZE :: nat where "RB_STATUS_SIZE \<equiv> 1"

definition HASH_STATUS_SIZE :: "mark_config \<Rightarrow> nat" where
  "HASH_STATUS_SIZE c = (if IS_HASH_IN_OBJ_HEADER c then 0 else 1)"

definition MONITOR_POINTER_SIZE :: "mark_config \<Rightarrow> nat" where
  "MONITOR_POINTER_SIZE c = BITS c - STATUS_SIZE - GC_STATUS_SIZE - RB_STATUS_SIZE - HASH_STATUS_SIZE c"

definition HASH_SIZE :: "mark_config \<Rightarrow> nat" where
  "HASH_SIZE c = (if HASH_STATUS_SIZE c \<noteq> 0 then 0 else BITS c - STATUS_SIZE - GC_STATUS_SIZE - RB_STATUS_SIZE)"

definition FORWARDING_ADDRESS_SIZE :: "mark_config \<Rightarrow> nat" where
  "FORWARDING_ADDRESS_SIZE c = BITS c - STATUS_SIZE - HASH_STATUS_SIZE c"

definition LIGHT_LOCK_LOCK_COUNT_SIZE :: "mark_config \<Rightarrow> nat" where
  "LIGHT_LOCK_LOCK_COUNT_SIZE c = MONITOR_POINTER_SIZE c - LOCK_THREADID_SIZE c"

definition MONITOR_POINTER_SHIFT :: "mark_config \<Rightarrow> nat" where
  "MONITOR_POINTER_SHIFT c = BITS c - MONITOR_POINTER_SIZE c"

definition LIGHT_LOCK_LOCK_COUNT_SHIFT :: "mark_config \<Rightarrow> nat" where
  "LIGHT_LOCK_LOCK_COUNT_SHIFT c = BITS c - MONITOR_POINTER_SIZE c"

definition LIGHT_LOCK_THREADID_SHIFT :: "mark_config \<Rightarrow> nat" where
  "LIGHT_LOCK_THREADID_SHIFT c = BITS c - MONITOR_POINTER_SIZE c + LIGHT_LOCK_LOCK_COUNT_SIZE c"

definition HASH_SHIFT :: "mark_config \<Rightarrow> nat" where
  "HASH_SHIFT c = BITS c - HASH_SIZE c"

definition FORWARDING_ADDRESS_SHIFT :: "mark_config \<Rightarrow> nat" where
  "FORWARDING_ADDRESS_SHIFT c = BITS c - FORWARDING_ADDRESS_SIZE c"

definition HASH_STATUS_SHIFT :: nat where
  "HASH_STATUS_SHIFT = STATUS_SIZE + GC_STATUS_SIZE + RB_STATUS_SIZE"

text \<open>A mask of \<open>n\<close> ones, and that mask moved to its place.\<close>

definition field_mask :: "nat \<Rightarrow> 'w::len word" where
  "field_mask n = push_bit n 1 - 1"

definition mask_in_place :: "nat \<Rightarrow> nat \<Rightarrow> 'w::len word" where
  "mask_in_place n shift = push_bit shift (field_mask n)"

definition UNLOCKED_STATE_MASK_IN_PLACE :: "mark_config \<Rightarrow> 'w::len word" where
  "UNLOCKED_STATE_MASK_IN_PLACE c = mask_in_place (MONITOR_POINTER_SIZE c) (BITS c - MONITOR_POINTER_SIZE c)"

definition LIGHT_LOCK_LOCK_COUNT_MASK_IN_PLACE :: "mark_config \<Rightarrow> 'w::len word" where
  "LIGHT_LOCK_LOCK_COUNT_MASK_IN_PLACE c = mask_in_place (LIGHT_LOCK_LOCK_COUNT_SIZE c) (LIGHT_LOCK_LOCK_COUNT_SHIFT c)"

definition LIGHT_LOCK_THREADID_MASK_IN_PLACE :: "mark_config \<Rightarrow> 'w::len word" where
  "LIGHT_LOCK_THREADID_MASK_IN_PLACE c = mask_in_place (LOCK_THREADID_SIZE c) (LIGHT_LOCK_THREADID_SHIFT c)"

definition MONITOR_POINTER_MASK_IN_PLACE :: "mark_config \<Rightarrow> 'w::len word" where
  "MONITOR_POINTER_MASK_IN_PLACE c = mask_in_place (MONITOR_POINTER_SIZE c) (MONITOR_POINTER_SHIFT c)"

definition HASH_MASK_IN_PLACE :: "mark_config \<Rightarrow> 'w::len word" where
  "HASH_MASK_IN_PLACE c = mask_in_place (HASH_SIZE c) (HASH_SHIFT c)"

definition FORWARDING_ADDRESS_MASK_IN_PLACE :: "mark_config \<Rightarrow> 'w::len word" where
  "FORWARDING_ADDRESS_MASK_IN_PLACE c = mask_in_place (FORWARDING_ADDRESS_SIZE c) (FORWARDING_ADDRESS_SHIFT c)"

definition STATUS_MASK_IN_PLACE :: "'w::len word" where
  "STATUS_MASK_IN_PLACE = mask_in_place STATUS_SIZE 0"

definition GC_STATUS_MASK_IN_PLACE :: "'w::len word" where
  "GC_STATUS_MASK_IN_PLACE = mask_in_place GC_STATUS_SIZE STATUS_SIZE"

definition RB_STATUS_MASK_IN_PLACE :: "'w::len word" where
  "RB_STATUS_MASK_IN_PLACE = mask_in_place RB_STATUS_SIZE (STATUS_SIZE + GC_STATUS_SIZE)"

definition HASH_STATUS_MASK_IN_PLACE :: "mark_config \<Rightarrow> 'w::len word" where
  "HASH_STATUS_MASK_IN_PLACE c = mask_in_place (HASH_STATUS_SIZE c) HASH_STATUS_SHIFT"

definition LIGHT_LOCK_LOCK_MAX_COUNT :: "mark_config \<Rightarrow> 'w::len word" where
  "LIGHT_LOCK_LOCK_MAX_COUNT c = field_mask (LIGHT_LOCK_LOCK_COUNT_SIZE c)"

abbreviation (input) STATUS_UNLOCKED :: "'w::len word" where "STATUS_UNLOCKED \<equiv> 0"
abbreviation (input) STATUS_LIGHTWEIGHT_LOCK :: "'w::len word" where "STATUS_LIGHTWEIGHT_LOCK \<equiv> 0"
abbreviation (input) STATUS_HEAVYWEIGHT_LOCK :: "'w::len word" where "STATUS_HEAVYWEIGHT_LOCK \<equiv> 1"
abbreviation (input) STATUS_HASHED :: "'w::len word" where "STATUS_HASHED \<equiv> 2"
abbreviation (input) STATUS_GC :: "'w::len word" where "STATUS_GC \<equiv> 3"

datatype ObjectState = STATE_UNLOCKED | STATE_LIGHT_LOCKED | STATE_HEAVY_LOCKED | STATE_HASHED | STATE_GC

subsection \<open>Operations\<close>

definition DecodeFromMonitor :: "mark_config \<Rightarrow> 'w::len word \<Rightarrow> u64 \<Rightarrow> 'w word" where
  "DecodeFromMonitor c v monitor =
     (let temp = v AND NOT (MONITOR_POINTER_MASK_IN_PLACE c OR STATUS_MASK_IN_PLACE);
          monitor_in_place = push_bit (MONITOR_POINTER_SHIFT c) (ucast monitor AND field_mask (MONITOR_POINTER_SIZE c))
      in temp OR monitor_in_place OR STATUS_HEAVYWEIGHT_LOCK)"

definition DecodeFromHash :: "mark_config \<Rightarrow> 'w::len word \<Rightarrow> u32 \<Rightarrow> 'w word" where
  "DecodeFromHash c v hash =
     (if IS_HASH_IN_OBJ_HEADER c
      then let temp = v AND NOT (HASH_MASK_IN_PLACE c OR STATUS_MASK_IN_PLACE);
               hash_in_place = push_bit (HASH_SHIFT c) (ucast hash AND field_mask (HASH_SIZE c))
           in temp OR hash_in_place OR STATUS_HASHED
      else 0)"

definition DecodeFromForwardingAddressField :: "mark_config \<Rightarrow> 'w::len word \<Rightarrow> 'w word option" where
  "DecodeFromForwardingAddressField c forwarding_address =
     (if forwarding_address \<le> drop_bit (FORWARDING_ADDRESS_SHIFT c) (- 1)
      then Some (push_bit (FORWARDING_ADDRESS_SHIFT c) (forwarding_address AND field_mask (FORWARDING_ADDRESS_SIZE c))
                 OR STATUS_GC)
      else None)"

definition DecodeFromForwardingAddress :: "mark_config \<Rightarrow> 'w::len word \<Rightarrow> 'w word option" where
  "DecodeFromForwardingAddress c forwarding_address =
     (if forwarding_address AND FORWARDING_ADDRESS_MASK_IN_PLACE c = forwarding_address
      then DecodeFromForwardingAddressField c (drop_bit (FORWARDING_ADDRESS_SHIFT c) forwarding_address)
      else None)"

definition DecodeFromLightLock :: "mark_config \<Rightarrow> 'w::len word \<Rightarrow> u32 \<Rightarrow> u32 \<Rightarrow> 'w word" where
  "DecodeFromLightLock c v thread_id count =
     (let temp = v AND NOT (LIGHT_LOCK_THREADID_MASK_IN_PLACE c OR LIGHT_LOCK_LOCK_COUNT_MASK_IN_PLACE c
                            OR STATUS_MASK_IN_PLACE);
          lightlock_thread_in_place =
            push_bit (LIGHT_LOCK_THREADID_SHIFT c) (ucast thread_id AND field_mask (LOCK_THREADID_SIZE c));
          lightlock_lock_count_in_place =
            push_bit (LIGHT_LOCK_LOCK_COUNT_SHIFT c) (ucast count AND field_mask (LIGHT_LOCK_LOCK_COUNT_SIZE c))
      in temp OR lightlock_thread_in_place OR lightlock_lock_count_in_place OR STATUS_LIGHTWEIGHT_LOCK)"

definition DecodeFromUnlocked :: "mark_config \<Rightarrow> 'w::len word \<Rightarrow> 'w word" where
  "DecodeFromUnlocked c v = (v AND NOT (UNLOCKED_STATE_MASK_IN_PLACE c OR STATUS_MASK_IN_PLACE)) OR STATUS_UNLOCKED"

definition IsMarkedForGC :: "'w::len word \<Rightarrow> bool" where
  "IsMarkedForGC v \<longleftrightarrow> v AND GC_STATUS_MASK_IN_PLACE \<noteq> 0"

definition IsReadBarrierSet :: "'w::len word \<Rightarrow> bool" where
  "IsReadBarrierSet v \<longleftrightarrow> v AND RB_STATUS_MASK_IN_PLACE \<noteq> 0"

definition IsHashed :: "mark_config \<Rightarrow> 'w::len word \<Rightarrow> bool" where
  "IsHashed c v \<longleftrightarrow> \<not> IS_HASH_IN_OBJ_HEADER c \<and> v AND HASH_STATUS_MASK_IN_PLACE c \<noteq> 0"

definition SetMarkedForGC :: "'w::len word \<Rightarrow> 'w word" where
  "SetMarkedForGC v = (v AND NOT GC_STATUS_MASK_IN_PLACE) OR GC_STATUS_MASK_IN_PLACE"

definition SetUnMarkedForGC :: "'w::len word \<Rightarrow> 'w word" where
  "SetUnMarkedForGC v = v AND NOT GC_STATUS_MASK_IN_PLACE"

definition SetReadBarrier :: "'w::len word \<Rightarrow> 'w word" where
  "SetReadBarrier v = (v AND NOT RB_STATUS_MASK_IN_PLACE) OR RB_STATUS_MASK_IN_PLACE"

definition ClearReadBarrier :: "'w::len word \<Rightarrow> 'w word" where
  "ClearReadBarrier v = v AND NOT RB_STATUS_MASK_IN_PLACE"

definition SetHashed :: "mark_config \<Rightarrow> 'w::len word \<Rightarrow> 'w word" where
  "SetHashed c v =
     (if IS_HASH_IN_OBJ_HEADER c then 0
      else (v AND NOT (HASH_STATUS_MASK_IN_PLACE c)) OR HASH_STATUS_MASK_IN_PLACE c)"

definition GetState :: "mark_config \<Rightarrow> 'w::len word \<Rightarrow> ObjectState" where
  "GetState c v =
     (let status = v AND field_mask STATUS_SIZE
      in if status = STATUS_HEAVYWEIGHT_LOCK then STATE_HEAVY_LOCKED
         else if status = STATUS_HASHED then STATE_HASHED
         else if status = STATUS_GC then STATE_GC
         else if status = STATUS_UNLOCKED
         then (if v AND UNLOCKED_STATE_MASK_IN_PLACE c = 0 then STATE_UNLOCKED else STATE_LIGHT_LOCKED)
         else STATE_GC)"

definition GetThreadId :: "mark_config \<Rightarrow> 'w::len word \<Rightarrow> u32" where
  "GetThreadId c v = ucast (drop_bit (LIGHT_LOCK_THREADID_SHIFT c) v AND field_mask (LOCK_THREADID_SIZE c))"

definition GetLockCount :: "mark_config \<Rightarrow> 'w::len word \<Rightarrow> u32" where
  "GetLockCount c v = ucast (drop_bit (LIGHT_LOCK_LOCK_COUNT_SHIFT c) v AND field_mask (LIGHT_LOCK_LOCK_COUNT_SIZE c))"

definition GetHash :: "mark_config \<Rightarrow> 'w::len word \<Rightarrow> u32" where
  "GetHash c v = (if IS_HASH_IN_OBJ_HEADER c then ucast (drop_bit (HASH_SHIFT c) v AND field_mask (HASH_SIZE c)) else 0)"

definition GetForwardingAddressField :: "mark_config \<Rightarrow> 'w::len word \<Rightarrow> 'w word" where
  "GetForwardingAddressField c v = drop_bit (FORWARDING_ADDRESS_SHIFT c) v AND field_mask (FORWARDING_ADDRESS_SIZE c)"

definition GetForwardingAddress :: "mark_config \<Rightarrow> 'w::len word \<Rightarrow> 'w word" where
  "GetForwardingAddress c v = push_bit (FORWARDING_ADDRESS_SHIFT c) (GetForwardingAddressField c v)"

definition GetMonitorId :: "mark_config \<Rightarrow> 'w::len word \<Rightarrow> u64" where
  "GetMonitorId c v = ucast (drop_bit (MONITOR_POINTER_SHIFT c) v AND field_mask (MONITOR_POINTER_SIZE c))"

subsection \<open>Bits of the fields\<close>

definition wf_mark_config :: "nat \<Rightarrow> mark_config \<Rightarrow> bool" where
  "wf_mark_config width c \<longleftrightarrow> BITS c = width \<and> width \<le> 64 \<and> 0 < LOCK_THREADID_SIZE c \<and> LOCK_THREADID_SIZE c \<le> 32
     \<and> LOCK_THREADID_SIZE c < MONITOR_POINTER_SIZE c \<and> LIGHT_LOCK_LOCK_COUNT_SIZE c \<le> 32"

lemma wf_configs:
  "wf_mark_config 32 HighEndConfig32" "wf_mark_config 64 HighEndConfig64" "wf_mark_config 16 LowEndConfig32"
  by (simp_all add: wf_mark_config_def HighEndConfig32_def HighEndConfig64_def LowEndConfig32_def
      MONITOR_POINTER_SIZE_def LIGHT_LOCK_LOCK_COUNT_SIZE_def HASH_STATUS_SIZE_def)

lemma field_mask_eq: "field_mask n = mask n"
  by (simp add: field_mask_def mask_eq_exp_minus_1 push_bit_eq_mult)

lemma bit_mask_in_place: "bit (mask_in_place n s :: 'w::len word) k \<longleftrightarrow> k < LENGTH('w) \<and> s \<le> k \<and> k < s + n"
  by (auto simp: mask_in_place_def field_mask_eq bit_simps)

lemma get_field: "drop_bit s v AND field_mask n = take_bit n (drop_bit s v)"
  by (simp add: field_mask_eq take_bit_eq_mask)

lemma put_field: "ucast x AND field_mask n = (take_bit n (ucast x) :: 'w::len word)"
  by (simp add: field_mask_eq take_bit_eq_mask)

lemma bit_put_field:
  "bit (push_bit s (take_bit n (ucast (x :: 'v::len word))) :: 'w::len word) k
     \<longleftrightarrow> k < LENGTH('w) \<and> s \<le> k \<and> k < s + n \<and> bit x (k - s)"
  by (auto simp: bit_simps dest: bit_imp_le_length)

lemma flag_iff: "s < LENGTH('w) \<Longrightarrow> v AND mask_in_place 1 s \<noteq> 0 \<longleftrightarrow> bit (v :: 'w::len word) s"
proof -
  assume "s < LENGTH('w)"
  then have "mask_in_place 1 s = (2 ^ s :: 'w word)"
    by (intro bit_word_eqI) (auto simp: bit_mask_in_place bit_exp_iff)
  then show ?thesis by (simp add: and_exp_eq_0_iff_not_bit)
qed

lemma bit_2_3_int: "bit (2 :: int) k \<longleftrightarrow> k = 1" "bit (3 :: int) k \<longleftrightarrow> k = 0 \<or> k = 1"
proof -
  show "bit (2 :: int) k \<longleftrightarrow> k = 1" using bit_exp_iff [where 'a = int, of 1 k] by auto
  have "(3 :: int) = mask 2" by (simp add: mask_eq_exp_minus_1)
  then show "bit (3 :: int) k \<longleftrightarrow> k = 0 \<or> k = 1" by (simp only: bit_mask_iff) auto
qed

text \<open>The layout of a well-formed configuration: status, GC, read barrier, hash status, then the payload.\<close>

definition payload_shift :: "mark_config \<Rightarrow> nat" where
  "payload_shift c = 4 + HASH_STATUS_SIZE c"

lemma layout:
  assumes "wf_mark_config width c"
  shows "MONITOR_POINTER_SHIFT c = payload_shift c" "LIGHT_LOCK_LOCK_COUNT_SHIFT c = payload_shift c"
    "BITS c - MONITOR_POINTER_SIZE c = payload_shift c"
    "LIGHT_LOCK_THREADID_SHIFT c = payload_shift c + LIGHT_LOCK_LOCK_COUNT_SIZE c"
    "payload_shift c + MONITOR_POINTER_SIZE c = width"
    "LIGHT_LOCK_LOCK_COUNT_SIZE c + LOCK_THREADID_SIZE c = MONITOR_POINTER_SIZE c"
    "FORWARDING_ADDRESS_SHIFT c = STATUS_SIZE + HASH_STATUS_SIZE c"
    "FORWARDING_ADDRESS_SHIFT c + FORWARDING_ADDRESS_SIZE c = width"
    "HASH_STATUS_SIZE c \<le> 1" "0 < LIGHT_LOCK_LOCK_COUNT_SIZE c" "payload_shift c < width"
  using assms
  by (auto simp: wf_mark_config_def MONITOR_POINTER_SHIFT_def LIGHT_LOCK_LOCK_COUNT_SHIFT_def payload_shift_def
      LIGHT_LOCK_THREADID_SHIFT_def FORWARDING_ADDRESS_SHIFT_def FORWARDING_ADDRESS_SIZE_def
      LIGHT_LOCK_LOCK_COUNT_SIZE_def MONITOR_POINTER_SIZE_def HASH_STATUS_SIZE_def)

lemma hash_layout:
  assumes "wf_mark_config width c" "IS_HASH_IN_OBJ_HEADER c"
  shows "HASH_SHIFT c = payload_shift c" "HASH_SIZE c = MONITOR_POINTER_SIZE c" "payload_shift c = 4"
  using assms
  by (auto simp: wf_mark_config_def HASH_SHIFT_def HASH_SIZE_def payload_shift_def MONITOR_POINTER_SIZE_def HASH_STATUS_SIZE_def)

text \<open>What each constructor writes into each bit: the payload, the status, and the flag bits it keeps.\<close>

lemma bit_DecodeFromMonitor:
  assumes "wf_mark_config LENGTH('w) c" "k < LENGTH('w)"
  shows "bit (DecodeFromMonitor c (v :: 'w::len word) m) k \<longleftrightarrow>
    (if k < 2 then k = 0 else if k < payload_shift c then bit v k else bit m (k - payload_shift c))"
  using layout [OF assms(1)] assms(2)
  by (auto simp: DecodeFromMonitor_def Let_def put_field bit_put_field bit_or_iff bit_and_iff bit_not_iff bit_1_iff bit_2_3_int
      MONITOR_POINTER_MASK_IN_PLACE_def STATUS_MASK_IN_PLACE_def bit_mask_in_place payload_shift_def)

lemma bit_DecodeFromHash:
  assumes "wf_mark_config LENGTH('w) c" "IS_HASH_IN_OBJ_HEADER c" "k < LENGTH('w)"
  shows "bit (DecodeFromHash c (v :: 'w::len word) h) k \<longleftrightarrow>
    (if k < 2 then k = 1 else if k < payload_shift c then bit v k else bit h (k - payload_shift c))"
  using layout [OF assms(1)] hash_layout [OF assms(1,2)] assms(2,3)
  by (auto simp: DecodeFromHash_def Let_def put_field bit_put_field bit_or_iff bit_and_iff bit_not_iff bit_1_iff bit_2_3_int
      HASH_MASK_IN_PLACE_def STATUS_MASK_IN_PLACE_def bit_mask_in_place)

lemma bit_DecodeFromLightLock:
  assumes "wf_mark_config LENGTH('w) c" "k < LENGTH('w)"
  shows "bit (DecodeFromLightLock c (v :: 'w::len word) t n) k \<longleftrightarrow>
    (if k < 2 then False else if k < payload_shift c then bit v k
     else if k < payload_shift c + LIGHT_LOCK_LOCK_COUNT_SIZE c then bit n (k - payload_shift c)
     else bit t (k - payload_shift c - LIGHT_LOCK_LOCK_COUNT_SIZE c))"
  using layout [OF assms(1)] assms(2)
  by (auto simp: DecodeFromLightLock_def Let_def put_field bit_put_field bit_or_iff bit_and_iff bit_not_iff
      LIGHT_LOCK_THREADID_MASK_IN_PLACE_def LIGHT_LOCK_LOCK_COUNT_MASK_IN_PLACE_def STATUS_MASK_IN_PLACE_def
      bit_mask_in_place payload_shift_def)

lemma bit_DecodeFromUnlocked:
  assumes "wf_mark_config LENGTH('w) c" "k < LENGTH('w)"
  shows "bit (DecodeFromUnlocked c (v :: 'w::len word)) k \<longleftrightarrow> 2 \<le> k \<and> k < payload_shift c \<and> bit v k"
  using layout [OF assms(1)] assms(2)
  by (auto simp: DecodeFromUnlocked_def bit_and_iff bit_or_iff bit_not_iff UNLOCKED_STATE_MASK_IN_PLACE_def
      STATUS_MASK_IN_PLACE_def bit_mask_in_place payload_shift_def)

lemma status_eq_iff:
  fixes v x :: "'w::len word"
  assumes "2 \<le> LENGTH('w)" "take_bit 2 x = x"
  shows "take_bit 2 v = x \<longleftrightarrow> (bit v 0 \<longleftrightarrow> bit x 0) \<and> (bit v 1 \<longleftrightarrow> bit x 1)"
proof
  assume "take_bit 2 v = x"
  then show "(bit v 0 \<longleftrightarrow> bit x 0) \<and> (bit v 1 \<longleftrightarrow> bit x 1)" by (auto simp: bit_take_bit_iff)
next
  assume eq: "(bit v 0 \<longleftrightarrow> bit x 0) \<and> (bit v 1 \<longleftrightarrow> bit x 1)"
  have "take_bit 2 v = take_bit 2 x"
  proof (rule bit_word_eqI)
    fix n show "bit (take_bit 2 v) n \<longleftrightarrow> bit (take_bit 2 x) n"
      using eq by (cases "n = 0"; cases "n = 1") (auto simp: bit_take_bit_iff)
  qed
  with assms(2) show "take_bit 2 v = x" by simp
qed

lemma payload_zero_iff:
  assumes "wf_mark_config LENGTH('w) c"
  shows "(v :: 'w::len word) AND UNLOCKED_STATE_MASK_IN_PLACE c = 0
           \<longleftrightarrow> (\<forall>k < LENGTH('w). payload_shift c \<le> k \<longrightarrow> \<not> bit v k)"
  using layout [OF assms]
  by (auto simp: UNLOCKED_STATE_MASK_IN_PLACE_def bit_eq_iff [where 'a = "'w word"] bit_and_iff bit_mask_in_place)

lemma GetState_bits:
  assumes "wf_mark_config LENGTH('w) c"
  shows "GetState c (v :: 'w::len word) =
    (if bit v 0 then (if bit v 1 then STATE_GC else STATE_HEAVY_LOCKED)
     else if bit v 1 then STATE_HASHED
     else if \<forall>k < LENGTH('w). payload_shift c \<le> k \<longrightarrow> \<not> bit v k then STATE_UNLOCKED else STATE_LIGHT_LOCKED)"
proof -
  have L: "2 \<le> LENGTH('w)" using layout(11) [OF assms] by (simp add: payload_shift_def)
  have m: "v AND field_mask 2 = take_bit 2 v" by (simp add: field_mask_eq take_bit_eq_mask)
  have t: "take_bit 2 (0 :: 'w word) = 0" "take_bit 2 (1 :: 'w word) = 1"
    "take_bit 2 (2 :: 'w word) = 2" "take_bit 2 (3 :: 'w word) = 3"
    using L by (auto intro!: bit_word_eqI simp: bit_take_bit_iff bit_1_iff bit_2_3_int)
  show ?thesis
    unfolding GetState_def Let_def m payload_zero_iff [OF assms]
      status_eq_iff [OF L t(1)] status_eq_iff [OF L t(2)] status_eq_iff [OF L t(3)] status_eq_iff [OF L t(4)]
    using L by (auto simp: bit_1_iff bit_2_3_int)
qed

subsection \<open>Abstract view\<close>

datatype 'w mark_view = Unlocked | LightLocked u32 u32 | HeavyLocked u64 | Hashed u32 | Forwarded 'w

definition mark_view :: "mark_config \<Rightarrow> 'w::len word \<Rightarrow> 'w word mark_view" where
  "mark_view c v =
     (case GetState c v of
        STATE_UNLOCKED \<Rightarrow> Unlocked
      | STATE_LIGHT_LOCKED \<Rightarrow> LightLocked (GetThreadId c v) (GetLockCount c v)
      | STATE_HEAVY_LOCKED \<Rightarrow> HeavyLocked (GetMonitorId c v)
      | STATE_HASHED \<Rightarrow> Hashed (GetHash c v)
      | STATE_GC \<Rightarrow> Forwarded (GetForwardingAddress c v))"

definition mark_flags :: "'w::len word \<Rightarrow> bool \<times> bool" where
  "mark_flags v = (IsMarkedForGC v, IsReadBarrierSet v)"

lemma mark_flags_bits: "4 < LENGTH('w) \<Longrightarrow> mark_flags (v :: 'w::len word) = (bit v 2, bit v 3)"
  using flag_iff [of 2 v] flag_iff [of 3 v]
  by (simp add: mark_flags_def IsMarkedForGC_def IsReadBarrierSet_def GC_STATUS_MASK_IN_PLACE_def RB_STATUS_MASK_IN_PLACE_def)

lemma view_DecodeFromMonitor:
  assumes wf: "wf_mark_config LENGTH('w) c"
  shows "mark_view c (DecodeFromMonitor c (v :: 'w::len word) m) = HeavyLocked (take_bit (MONITOR_POINTER_SIZE c) m)"
proof -
  note [simp] = layout [OF wf]
  have "2 < LENGTH('w)" using layout(11) [OF wf] by (simp only: payload_shift_def)
  then have "GetState c (DecodeFromMonitor c v m) = STATE_HEAVY_LOCKED"
    by (simp add: GetState_bits [OF wf] bit_DecodeFromMonitor [OF wf])
  moreover have "GetMonitorId c (DecodeFromMonitor c v m) = take_bit (MONITOR_POINTER_SIZE c) m"
  proof (rule bit_word_eqI)
    fix k assume "k < LENGTH(64)"
    show "bit (GetMonitorId c (DecodeFromMonitor c v m)) k \<longleftrightarrow> bit (take_bit (MONITOR_POINTER_SIZE c) m) k"
      using layout(5) [OF wf] \<open>k < LENGTH(64)\<close>
      by (cases "k < MONITOR_POINTER_SIZE c")
        (auto simp: GetMonitorId_def get_field bit_simps bit_DecodeFromMonitor [OF wf] payload_shift_def)
  qed
  ultimately show ?thesis by (simp add: mark_view_def)
qed

lemma view_DecodeFromUnlocked:
  assumes wf: "wf_mark_config LENGTH('w) c"
  shows "mark_view c (DecodeFromUnlocked c (v :: 'w::len word)) = Unlocked"
proof -
  have "2 < LENGTH('w)" using layout(11) [OF wf] by (simp only: payload_shift_def)
  then show ?thesis
    by (simp add: mark_view_def GetState_bits [OF wf] bit_DecodeFromUnlocked [OF wf])
qed

lemma view_DecodeFromHash:
  assumes wf: "wf_mark_config LENGTH('w) c" and h: "IS_HASH_IN_OBJ_HEADER c"
  shows "mark_view c (DecodeFromHash c (v :: 'w::len word) x) = Hashed (take_bit (HASH_SIZE c) x)"
proof -
  note [simp] = layout [OF wf] hash_layout [OF wf h]
  have "2 < LENGTH('w)" using layout(11) [OF wf] by (simp only: payload_shift_def)
  then have "GetState c (DecodeFromHash c v x) = STATE_HASHED"
    by (simp add: GetState_bits [OF wf] bit_DecodeFromHash [OF wf h])
  moreover have "GetHash c (DecodeFromHash c v x) = take_bit (HASH_SIZE c) x"
  proof (rule bit_word_eqI)
    fix k assume "k < LENGTH(32)"
    show "bit (GetHash c (DecodeFromHash c v x)) k \<longleftrightarrow> bit (take_bit (HASH_SIZE c) x) k"
      using layout(5) [OF wf] \<open>k < LENGTH(32)\<close>
      by (cases "k < MONITOR_POINTER_SIZE c")
        (auto simp: GetHash_def h get_field bit_simps bit_DecodeFromHash [OF wf h])
  qed
  ultimately show ?thesis by (simp add: mark_view_def)
qed

lemma GetThreadId_LightLock:
  assumes wf: "wf_mark_config LENGTH('w) c"
  shows "GetThreadId c (DecodeFromLightLock c (v :: 'w::len word) t n) = take_bit (LOCK_THREADID_SIZE c) t"
proof (rule bit_word_eqI)
  fix k assume k: "k < LENGTH(32)"
  note l = layout [OF wf]
  show "bit (GetThreadId c (DecodeFromLightLock c v t n)) k \<longleftrightarrow> bit (take_bit (LOCK_THREADID_SIZE c) t) k"
  proof (cases "k < LOCK_THREADID_SIZE c")
    case True
    then have "payload_shift c + LIGHT_LOCK_LOCK_COUNT_SIZE c + k < LENGTH('w)" using l(5,6) by linarith
    then show ?thesis using True k l(4)
      by (auto simp: GetThreadId_def get_field bit_simps bit_DecodeFromLightLock [OF wf] payload_shift_def)
  qed (auto simp: GetThreadId_def get_field bit_simps)
qed

lemma GetLockCount_LightLock:
  assumes wf: "wf_mark_config LENGTH('w) c"
  shows "GetLockCount c (DecodeFromLightLock c (v :: 'w::len word) t n) = take_bit (LIGHT_LOCK_LOCK_COUNT_SIZE c) n"
proof (rule bit_word_eqI)
  fix k assume k: "k < LENGTH(32)"
  note l = layout [OF wf]
  show "bit (GetLockCount c (DecodeFromLightLock c v t n)) k \<longleftrightarrow> bit (take_bit (LIGHT_LOCK_LOCK_COUNT_SIZE c) n) k"
  proof (cases "k < LIGHT_LOCK_LOCK_COUNT_SIZE c")
    case True
    then have "payload_shift c + k < LENGTH('w)" using l(5,6) by linarith
    then show ?thesis using True k l(2)
      by (auto simp: GetLockCount_def get_field bit_simps bit_DecodeFromLightLock [OF wf] payload_shift_def)
  qed (auto simp: GetLockCount_def get_field bit_simps)
qed

lemma view_DecodeFromLightLock:
  assumes wf: "wf_mark_config LENGTH('w) c"
    and ne: "take_bit (LIGHT_LOCK_LOCK_COUNT_SIZE c) n \<noteq> 0"
  shows "mark_view c (DecodeFromLightLock c (v :: 'w::len word) t n) =
     LightLocked (take_bit (LOCK_THREADID_SIZE c) t) (take_bit (LIGHT_LOCK_LOCK_COUNT_SIZE c) n)"
proof -
  note l = layout [OF wf]
  have L: "2 < LENGTH('w)" using l(11) by (simp only: payload_shift_def)
  obtain k where k: "k < LIGHT_LOCK_LOCK_COUNT_SIZE c" "bit n k"
    using ne by (auto simp: bit_eq_iff [where 'a = u32] bit_take_bit_iff)
  then have "payload_shift c + k < LENGTH('w)" using l(5,6) by linarith
  then have "\<exists>j < LENGTH('w). payload_shift c \<le> j \<and> bit (DecodeFromLightLock c v t n) j"
    using k by (intro exI [of _ "payload_shift c + k"]) (simp add: bit_DecodeFromLightLock [OF wf] payload_shift_def)
  then have "GetState c (DecodeFromLightLock c v t n) = STATE_LIGHT_LOCKED"
    using L by (auto simp: GetState_bits [OF wf] bit_DecodeFromLightLock [OF wf, of 0] bit_DecodeFromLightLock [OF wf, of "Suc 0"])
  then show ?thesis
    by (simp add: mark_view_def GetThreadId_LightLock [OF wf] GetLockCount_LightLock [OF wf])
qed

lemma bit_replace_field:
  "bit (push_bit s (drop_bit s x AND field_mask n) :: 'w::len word) k \<longleftrightarrow> s \<le> k \<and> k < s + n \<and> bit x k"
  unfolding get_field
  by (cases "s \<le> k") (auto simp: bit_push_bit_iff bit_take_bit_iff bit_drop_bit_eq dest: bit_imp_le_length)

lemma DecodeFromForwardingAddress_Some:
  assumes wf: "wf_mark_config LENGTH('w) c"
    and al: "take_bit (FORWARDING_ADDRESS_SHIFT c) (a :: 'w::len word) = 0"
  shows "DecodeFromForwardingAddress c a = Some (a OR 3)"
proof -
  note l = layout [OF wf]
  let ?s = "FORWARDING_ADDRESS_SHIFT c"
  have low: "\<not> bit a k" if "k < ?s" for k
    using al that by (metis bit_take_bit_iff bit_0_eq bot_apply bot_bool_def)
  have m: "a AND FORWARDING_ADDRESS_MASK_IN_PLACE c = a"
    using low l(8) by (intro bit_word_eqI) (auto simp: FORWARDING_ADDRESS_MASK_IN_PLACE_def bit_and_iff bit_mask_in_place not_less [symmetric])
  have r: "push_bit ?s (drop_bit ?s a AND field_mask (FORWARDING_ADDRESS_SIZE c)) = a"
    using low l(8) by (intro bit_word_eqI) (auto simp only: bit_replace_field not_less [symmetric])
  have "unat a \<le> unat (- 1 :: 'w word)" by (simp only: word_n1_ge flip: word_le_nat_alt)
  then have "drop_bit ?s a \<le> drop_bit ?s (- 1)"
    by (simp only: word_le_nat_alt unat_drop_bit div_le_mono)
  then show ?thesis
    by (simp only: DecodeFromForwardingAddress_def m DecodeFromForwardingAddressField_def r if_True simp_thms)
qed

lemma view_DecodeFromForwardingAddress:
  assumes wf: "wf_mark_config LENGTH('w) c"
    and al: "take_bit (FORWARDING_ADDRESS_SHIFT c) (a :: 'w::len word) = 0"
  shows "mark_view c (a OR 3) = Forwarded a"
proof -
  note l = layout [OF wf]
  let ?s = "FORWARDING_ADDRESS_SHIFT c"
  have low: "\<not> bit a k" if "k < ?s" for k
    using al that by (metis bit_take_bit_iff bit_0_eq bot_apply bot_bool_def)
  have L: "2 < LENGTH('w)" using l(11) by (simp only: payload_shift_def)
  then have "GetState c (a OR 3) = STATE_GC"
    by (simp add: GetState_bits [OF wf] bit_or_iff bit_2_3_int)
  moreover have "GetForwardingAddress c (a OR 3) = a"
  proof (rule bit_word_eqI)
    fix n assume n: "n < LENGTH('w)"
    have "\<not> bit (3 :: 'w word) n" if "?s \<le> n" using that l(7) by (auto simp: bit_2_3_int)
    then show "bit (GetForwardingAddress c (a OR 3)) n \<longleftrightarrow> bit a n"
      unfolding GetForwardingAddress_def GetForwardingAddressField_def bit_replace_field bit_or_iff
      using low [of n] n l(8) by (cases "?s \<le> n") auto
  qed
  ultimately show ?thesis by (simp add: mark_view_def)
qed

lemma flags_Decode:
  assumes wf: "wf_mark_config LENGTH('w) c"
  shows "mark_flags (DecodeFromMonitor c (v :: 'w::len word) m) = mark_flags v"
    "mark_flags (DecodeFromLightLock c v t n) = mark_flags v"
    "mark_flags (DecodeFromUnlocked c v) = mark_flags v"
    "IS_HASH_IN_OBJ_HEADER c \<Longrightarrow> mark_flags (DecodeFromHash c v x) = mark_flags v"
proof -
  have p: "4 \<le> payload_shift c" "4 < LENGTH('w)" using layout(11) [OF wf] by (simp_all add: payload_shift_def)
  then show "mark_flags (DecodeFromMonitor c v m) = mark_flags v" "mark_flags (DecodeFromLightLock c v t n) = mark_flags v"
    "mark_flags (DecodeFromUnlocked c v) = mark_flags v"
    by (simp_all add: mark_flags_bits bit_DecodeFromMonitor [OF wf] bit_DecodeFromLightLock [OF wf] bit_DecodeFromUnlocked [OF wf])
  show "mark_flags (DecodeFromHash c v x) = mark_flags v" if "IS_HASH_IN_OBJ_HEADER c"
    using p by (simp add: mark_flags_bits bit_DecodeFromHash [OF wf that])
qed

lemma flag_op_bits:
  assumes "4 < LENGTH('w)"
  shows "bit (SetMarkedForGC (v :: 'w::len word)) k \<longleftrightarrow> k = 2 \<or> bit v k"
    "bit (SetUnMarkedForGC v) k \<longleftrightarrow> k \<noteq> 2 \<and> bit v k"
    "bit (SetReadBarrier v) k \<longleftrightarrow> k = 3 \<or> bit v k"
    "bit (ClearReadBarrier v) k \<longleftrightarrow> k \<noteq> 3 \<and> bit v k"
  using assms
  by (auto simp: SetMarkedForGC_def SetUnMarkedForGC_def SetReadBarrier_def ClearReadBarrier_def GC_STATUS_MASK_IN_PLACE_def
      RB_STATUS_MASK_IN_PLACE_def bit_and_iff bit_or_iff bit_not_iff bit_mask_in_place dest: bit_imp_le_length)

lemma view_cong_payload:
  assumes wf: "wf_mark_config LENGTH('w) c"
    and eq: "\<And>k. k \<noteq> 2 \<Longrightarrow> k \<noteq> 3 \<Longrightarrow> bit (v :: 'w::len word) k \<longleftrightarrow> bit w k" and st: "GetState c v \<noteq> STATE_GC"
  shows "mark_view c w = mark_view c v"
proof -
  note l = layout [OF wf]
  have p: "4 \<le> payload_shift c" by (simp add: payload_shift_def)
  have ps: "bit w k \<longleftrightarrow> bit v k" if "payload_shift c \<le> k" for k using eq [of k] that p by auto
  have st': "GetState c w = GetState c v"
    using eq [of 0] eq [of 1] ps by (auto simp: GetState_bits [OF wf])
  have f: "take_bit n (drop_bit s w) = take_bit n (drop_bit s v)" if "payload_shift c \<le> s" for s n
    using ps that by (intro bit_word_eqI) (auto simp: bit_take_bit_iff bit_drop_bit_eq)
  have h: "GetHash c w = GetHash c v"
    using f [of 4 "MONITOR_POINTER_SIZE c"] hash_layout [OF wf] by (auto simp: GetHash_def get_field)
  show ?thesis
    using st f h l(1-4)
    by (auto simp: mark_view_def st' GetThreadId_def GetLockCount_def GetMonitorId_def get_field split: ObjectState.split)
qed

lemma light_lock_count_fits:
  assumes "wf_mark_config width c" "0 < n" "n < 2 ^ LIGHT_LOCK_LOCK_COUNT_SIZE c"
  shows "take_bit (LIGHT_LOCK_LOCK_COUNT_SIZE c) (of_nat n :: u32) = of_nat n" "of_nat n \<noteq> (0 :: u32)"
proof -
  have "(2 :: nat) ^ LIGHT_LOCK_LOCK_COUNT_SIZE c \<le> 2 ^ 32"
    using assms(1) by (intro power_increasing) (auto simp: wf_mark_config_def)
  then have "unat (of_nat n :: u32) = n" using assms(3) by (simp add: unsigned_of_nat take_bit_nat_eq_self)
  then show "take_bit (LIGHT_LOCK_LOCK_COUNT_SIZE c) (of_nat n :: u32) = of_nat n" "of_nat n \<noteq> (0 :: u32)"
    using assms(2,3) by (auto intro!: word_eqI_unat simp: unat_take_bit)
qed

subsection \<open>Properties\<close>

text \<open>
  C7: the mark word implements the abstract view of an object's lock state, in each memory model configuration: what
  each constructor encodes (a monitor id, a light lock of a thread with its depth, a hash, nothing) is what the
  accessors read back, reduced to the width of its field, and the GC and read barrier flags are kept.
\<close>

theorem mark_word_refines_view:
  fixes v :: "'w::len word"
  assumes "wf_mark_config LENGTH('w) c"
  shows "(mark_view c (DecodeFromMonitor c v m) = HeavyLocked (take_bit (MONITOR_POINTER_SIZE c) m)
          \<and> mark_flags (DecodeFromMonitor c v m) = mark_flags v)
       \<and> (mark_view c (DecodeFromUnlocked c v) = Unlocked \<and> mark_flags (DecodeFromUnlocked c v) = mark_flags v)
       \<and> (take_bit (LIGHT_LOCK_LOCK_COUNT_SIZE c) n \<noteq> 0 \<longrightarrow>
          mark_view c (DecodeFromLightLock c v t n) =
            LightLocked (take_bit (LOCK_THREADID_SIZE c) t) (take_bit (LIGHT_LOCK_LOCK_COUNT_SIZE c) n)
          \<and> mark_flags (DecodeFromLightLock c v t n) = mark_flags v)
       \<and> (IS_HASH_IN_OBJ_HEADER c \<longrightarrow>
          mark_view c (DecodeFromHash c v x) = Hashed (take_bit (HASH_SIZE c) x)
          \<and> mark_flags (DecodeFromHash c v x) = mark_flags v)"
  using assms
  by (simp add: view_DecodeFromMonitor view_DecodeFromUnlocked view_DecodeFromLightLock view_DecodeFromHash flags_Decode)

theorem mark_word_refines_view_witness:
  "mark_view HighEndConfig32 (DecodeFromMonitor HighEndConfig32 (4 :: u32) 9) = HeavyLocked 9
     \<and> mark_view HighEndConfig32 (DecodeFromLightLock HighEndConfig32 (4 :: u32) 7 3) = LightLocked 7 3
     \<and> mark_view HighEndConfig32 (DecodeFromHash HighEndConfig32 (4 :: u32) 77) = Hashed 77"
proof -
  have wf: "wf_mark_config LENGTH(32) HighEndConfig32" using wf_configs(1) by simp
  have "take_bit (LIGHT_LOCK_LOCK_COUNT_SIZE HighEndConfig32) (3 :: u32) = 3"
    "take_bit (LOCK_THREADID_SIZE HighEndConfig32) (7 :: u32) = 7"
    "take_bit (MONITOR_POINTER_SIZE HighEndConfig32) (9 :: u64) = 9"
    "take_bit (HASH_SIZE HighEndConfig32) (77 :: u32) = 77" "IS_HASH_IN_OBJ_HEADER HighEndConfig32"
    by (simp_all add: LIGHT_LOCK_LOCK_COUNT_SIZE_def MONITOR_POINTER_SIZE_def HASH_SIZE_def HASH_STATUS_SIZE_def HighEndConfig32_def)
  then show ?thesis using mark_word_refines_view [OF wf, of 4 9 3 7 77] by simp
qed

text \<open>
  C34: a forwarding address round-trips exactly when its low bits, which the status bits occupy, are zero, as the
  assertion of \<open>DecodeFromForwardingAddress\<close> demands; the word then reads as forwarded to that address.
\<close>

theorem forwarding_address_roundtrip:
  fixes a :: "'w::len word"
  assumes "wf_mark_config LENGTH('w) c"
  shows "case DecodeFromForwardingAddress c a of
           Some w \<Rightarrow> take_bit (FORWARDING_ADDRESS_SHIFT c) a = 0 \<and> mark_view c w = Forwarded a
         | None \<Rightarrow> take_bit (FORWARDING_ADDRESS_SHIFT c) a \<noteq> 0"
proof (cases "take_bit (FORWARDING_ADDRESS_SHIFT c) a = 0")
  case True
  then show ?thesis
    by (simp add: DecodeFromForwardingAddress_Some [OF assms] view_DecodeFromForwardingAddress [OF assms])
next
  case False
  then obtain k where k: "k < FORWARDING_ADDRESS_SHIFT c" "bit a k"
    by (auto simp: bit_eq_iff [where 'a = "'w word"] bit_take_bit_iff)
  then have "\<not> bit (a AND FORWARDING_ADDRESS_MASK_IN_PLACE c) k"
    by (simp add: FORWARDING_ADDRESS_MASK_IN_PLACE_def bit_and_iff bit_mask_in_place)
  then have "a AND FORWARDING_ADDRESS_MASK_IN_PLACE c \<noteq> a" using k(2) by auto
  then show ?thesis using False by (simp add: DecodeFromForwardingAddress_def)
qed

theorem forwarding_address_roundtrip_witness:
  "mark_view HighEndConfig32 (0x1003 :: u32) = Forwarded 0x1000"
proof -
  have wf: "wf_mark_config LENGTH(32) HighEndConfig32" using wf_configs(1) by simp
  have "DecodeFromForwardingAddress HighEndConfig32 (0x1000 :: u32) = Some 0x1003"
    by (simp add: DecodeFromForwardingAddress_def DecodeFromForwardingAddressField_def FORWARDING_ADDRESS_MASK_IN_PLACE_def
        mask_in_place_def field_mask_def mask_eq_exp_minus_1 FORWARDING_ADDRESS_SHIFT_def FORWARDING_ADDRESS_SIZE_def HASH_STATUS_SIZE_def
        HighEndConfig32_def)
  then show ?thesis using forwarding_address_roundtrip [OF wf, of "0x1000"] by simp
qed

text \<open>
  Marking an object for the collector and setting its read barrier change that flag and nothing else: outside the
  forwarded state, where these bits belong to the address, the lock state, owner, depth, monitor and hash stay.
\<close>

theorem flag_updates_keep_view:
  fixes v :: "'w::len word"
  assumes "wf_mark_config LENGTH('w) c" "GetState c v \<noteq> STATE_GC"
  shows "mark_view c (SetMarkedForGC v) = mark_view c v \<and> mark_flags (SetMarkedForGC v) = (True, snd (mark_flags v))
    \<and> mark_view c (SetUnMarkedForGC v) = mark_view c v \<and> mark_flags (SetUnMarkedForGC v) = (False, snd (mark_flags v))
    \<and> mark_view c (SetReadBarrier v) = mark_view c v \<and> mark_flags (SetReadBarrier v) = (fst (mark_flags v), True)
    \<and> mark_view c (ClearReadBarrier v) = mark_view c v \<and> mark_flags (ClearReadBarrier v) = (fst (mark_flags v), False)"
proof -
  have L: "4 < LENGTH('w)" using layout(11) [OF assms(1)] by (simp add: payload_shift_def)
  show ?thesis
    by (intro conjI view_cong_payload [OF assms(1) _ assms(2)]) (simp_all add: mark_flags_bits [OF L] flag_op_bits [OF L])
qed

theorem flag_updates_keep_view_witness:
  "mark_view HighEndConfig32 (SetMarkedForGC (1 :: u32)) = mark_view HighEndConfig32 1"
proof -
  have wf: "wf_mark_config LENGTH(32) HighEndConfig32" using wf_configs(1) by simp
  have "GetState HighEndConfig32 (1 :: u32) \<noteq> STATE_GC" by (simp add: GetState_bits [OF wf])
  then show ?thesis using flag_updates_keep_view [OF wf] by blast
qed

end
