(* ===== verification/Transitions.thy ===== *)
theory Transitions
  imports Prelude
begin

text \<open>
  Interleaved executions of threads: reachability under a step relation, and the interface through which the
  components use it. A component supplies its initial states, its steps and an inductive invariant; every fact that
  follows from the invariant alone then holds in each state of each interleaving.
\<close>

inductive reachable :: "('s \<Rightarrow> bool) \<Rightarrow> ('s \<Rightarrow> 's \<Rightarrow> bool) \<Rightarrow> 's \<Rightarrow> bool"
  for init :: "'s \<Rightarrow> bool" and step :: "'s \<Rightarrow> 's \<Rightarrow> bool" where
  start: "init s \<Longrightarrow> reachable init step s"
| more: "reachable init step s \<Longrightarrow> step s s' \<Longrightarrow> reachable init step s'"

inductive steps :: "('s \<Rightarrow> 's \<Rightarrow> bool) \<Rightarrow> 's \<Rightarrow> 's \<Rightarrow> bool" for step :: "'s \<Rightarrow> 's \<Rightarrow> bool" where
  none: "steps step s s"
| snoc: "steps step s s' \<Longrightarrow> step s' s'' \<Longrightarrow> steps step s s''"

lemma steps_one: "step s s' \<Longrightarrow> steps step s s'"
  by (rule steps.snoc [OF steps.none])

lemma steps_trans: "steps step s' s'' \<Longrightarrow> steps step s s' \<Longrightarrow> steps step s s''"
  by (induction rule: steps.induct) (auto intro: steps.snoc)

lemma reachable_steps: "steps step s s' \<Longrightarrow> reachable init step s \<Longrightarrow> reachable init step s'"
  by (induction rule: steps.induct) (auto intro: reachable.more)

locale inductive_invariant =
  fixes init :: "'s \<Rightarrow> bool" and step :: "'s \<Rightarrow> 's \<Rightarrow> bool" and inv :: "'s \<Rightarrow> bool"
  assumes inv_init: "init s \<Longrightarrow> inv s"
    and inv_step: "inv s \<Longrightarrow> step s s' \<Longrightarrow> inv s'"
begin

lemma reachable_inv: "reachable init step s \<Longrightarrow> inv s"
  by (induction rule: reachable.induct) (auto intro: inv_init inv_step)

lemma reachable_imp: "reachable init step s \<Longrightarrow> (\<And>x. inv x \<Longrightarrow> P x) \<Longrightarrow> P s"
  using reachable_inv by blast

end

text \<open>
  Threads are named by their 32-bit identifiers; 0 is the identifier of none. A set of threads is small enough that the
  signed 32-bit counters of the locks do not overflow.
\<close>

type_synonym tid = u32

definition thread_set :: "tid set \<Rightarrow> bool" where
  "thread_set T \<longleftrightarrow> finite T \<and> 0 \<notin> T \<and> card T < 2 ^ 30"

text \<open>Counting the threads whose program counter satisfies a predicate.\<close>

definition threads_at :: "'t set \<Rightarrow> ('p \<Rightarrow> bool) \<Rightarrow> ('t \<Rightarrow> 'p) \<Rightarrow> 't set" where
  "threads_at T P pc = {t \<in> T. P (pc t)}"

lemma finite_threads_at [simp, intro]: "finite T \<Longrightarrow> finite (threads_at T P pc)"
  by (simp add: threads_at_def)

lemma card_threads_at_le: "finite T \<Longrightarrow> card (threads_at T P pc) \<le> card T"
  by (auto simp: threads_at_def intro: card_mono)

lemma threads_at_update:
  "t \<in> T \<Longrightarrow> threads_at T P (pc(t := p)) = (if P p then insert t (threads_at T P pc) else threads_at T P pc - {t})"
  by (auto simp: threads_at_def)

lemma card_threads_at_update:
  assumes "finite T" "t \<in> T"
  shows "card (threads_at T P (pc(t := p))) =
    (if P p then (if P (pc t) then card (threads_at T P pc) else Suc (card (threads_at T P pc)))
     else if P (pc t) then card (threads_at T P pc) - 1 else card (threads_at T P pc))"
proof -
  have "t \<in> threads_at T P pc \<longleftrightarrow> P (pc t)" using assms by (simp add: threads_at_def)
  then show ?thesis
    using assms by (auto simp: threads_at_update card_insert_if insert_absorb)
qed

lemma card_threads_at_pos: "finite T \<Longrightarrow> t \<in> T \<Longrightarrow> P (pc t) \<Longrightarrow> 0 < card (threads_at T P pc)"
  by (auto simp: threads_at_def card_gt_0_iff)

lemma card_threads_at_less: "finite T \<Longrightarrow> t \<in> T \<Longrightarrow> \<not> P (pc t) \<Longrightarrow> card (threads_at T P pc) < card T"
  by (rule psubset_card_mono) (auto simp: threads_at_def)

end
