(* ===== verification/FutexMutex.thy ===== *)
theory FutexMutex
  imports Transitions
begin

text \<open>
  \<open>libpandabase/os/unix/futex/mutex.cpp\<close> and \<open>mutex.h\<close>, class \<open>Mutex\<close> (and \<open>RecursiveMutex\<close>): the futex mutex every other
  lock of the runtime is built on. Each thread has a program counter naming the atomic access it performs next,
  with the local \<open>cur_state\<close> where the code holds one; a step is one access of one thread, so all interleavings are
  covered (under sequential consistency: the memory orders of the accesses are not modelled). \<open>recursive_count_\<close> is no
  atomic: only the owner touches it, in the step that precedes or follows its access of an atomic. A weak
  compare-exchange may fail at any time, and a futex wait may return at any time (\<open>EINTR\<close>); a failed \<open>ASSERT\<close> or a
  \<open>LOG(FATAL)\<close> is the program counter \<open>Fatal\<close>. The threads use the mutex as meant: \<open>Unlock\<close> is
  called only by the holder, a mutex that is not recursive is not locked again by its holder (\<open>call_Unlock\<close>, \<open>call_Lock\<close> and
  \<open>call_TryLock\<close> have the fatal outcome of any other call), and the recursion count does not overflow. A futex wait on the
  mapped and aligned lock word fails with \<open>EAGAIN\<close> or \<open>EINTR\<close> only: the \<open>LOG(FATAL)\<close> on another \<open>errno\<close> has no step.
\<close>

subsection \<open>State\<close>

abbreviation (input) HELD_MASK :: u32 where "HELD_MASK \<equiv> 1"
abbreviation (input) WAITER_INCREMENT :: u32 where "WAITER_INCREMENT \<equiv> 2"

definition held :: "u32 \<Rightarrow> bool" where
  "held cur_state \<longleftrightarrow> cur_state AND HELD_MASK \<noteq> 0"

datatype mutex_pc =
    Idle
  | LockLoad | LockCas u32 | LockBrief u32 nat | LockIncr u32
  | LockTest u32 | LockFutex u32 | LockAsleep | LockReload | LockDecr
  | TryLoad "nat option" | TryTest "nat option" u32 | TryCas "nat option" u32 | TryBrief nat nat
  | LockOwn | LockOwner | LockStore | LockCount | Critical
  | UnlockLoad | UnlockOwner u32 | UnlockCas u32 | UnlockWake
  | Fatal

record mutex =
  state_and_waiters :: u32
  exclusive_owner :: tid
  recursive_count :: u32
  mpc :: "tid \<Rightarrow> mutex_pc"

definition goto :: "tid \<Rightarrow> mutex_pc \<Rightarrow> mutex \<Rightarrow> mutex" where
  "goto t p s = s\<lparr>mpc := (mpc s)(t := p)\<rparr>"

definition IsHeld :: "mutex \<Rightarrow> tid \<Rightarrow> bool" where
  "IsHeld s t \<longleftrightarrow> exclusive_owner s = t"

abbreviation (input) MAX_ITER :: nat where "MAX_ITER \<equiv> 50"
abbreviation (input) MAX_SPIN_ITER :: nat where "MAX_SPIN_ITER \<equiv> 10"

subsection \<open>Steps\<close>

text \<open>The local part of each operation, by program counter: what one thread does with the shared words.\<close>

definition call_Lock :: "bool \<Rightarrow> tid \<Rightarrow> mutex \<Rightarrow> mutex" where
  "call_Lock recursive_mutex t s =
     (if recursive_mutex \<and> IsHeld s t then s\<lparr>recursive_count := recursive_count s + 1\<rparr>
      else if IsHeld s t then goto t Fatal s else goto t LockLoad s)"

definition call_TryLock :: "bool \<Rightarrow> nat option \<Rightarrow> tid \<Rightarrow> mutex \<Rightarrow> mutex" where
  "call_TryLock recursive_mutex spin t s =
     (if recursive_mutex \<and> IsHeld s t then s\<lparr>recursive_count := recursive_count s + 1\<rparr>
      else if IsHeld s t then goto t Fatal s else goto t (TryLoad spin) s)"

definition call_Unlock :: "bool \<Rightarrow> tid \<Rightarrow> mutex \<Rightarrow> mutex" where
  "call_Unlock recursive_mutex t s =
     (if \<not> IsHeld s t then goto t Fatal s
      else let s = s\<lparr>recursive_count := recursive_count s - 1\<rparr>
           in if recursive_mutex \<and> 0 < recursive_count s then s
              else if recursive_count s \<noteq> 0 then goto t Fatal s
              else goto t UnlockLoad s)"

inductive mutex_step :: "bool \<Rightarrow> tid set \<Rightarrow> mutex \<Rightarrow> mutex \<Rightarrow> bool" for rec :: bool and T :: "tid set" where
  Lock: "t \<in> T \<Longrightarrow> mpc s t = Idle \<Longrightarrow> mutex_step rec T s (call_Lock rec t s)"
| Lock_again: "t \<in> T \<Longrightarrow> rec \<Longrightarrow> mpc s t = Critical \<Longrightarrow> recursive_count s + 1 \<noteq> 0 \<Longrightarrow>
    mutex_step rec T s (call_Lock rec t s)"
| TryLock: "t \<in> T \<Longrightarrow> mpc s t = Idle \<Longrightarrow> mutex_step rec T s (call_TryLock rec None t s)"
| TryLock_again: "t \<in> T \<Longrightarrow> rec \<Longrightarrow> mpc s t = Critical \<Longrightarrow> recursive_count s + 1 \<noteq> 0 \<Longrightarrow>
    mutex_step rec T s (call_TryLock rec None t s)"
| TryLockWithSpinning_again: "t \<in> T \<Longrightarrow> rec \<Longrightarrow> mpc s t = Critical \<Longrightarrow> recursive_count s + 1 \<noteq> 0 \<Longrightarrow>
    mutex_step rec T s (call_TryLock rec (Some MAX_SPIN_ITER) t s)"
| TryLockWithSpinning: "t \<in> T \<Longrightarrow> mpc s t = Idle \<Longrightarrow> mutex_step rec T s (call_TryLock rec (Some MAX_SPIN_ITER) t s)"
| Unlock: "t \<in> T \<Longrightarrow> mpc s t = Critical \<Longrightarrow> mutex_step rec T s (call_Unlock rec t s)"
| lock_load: "t \<in> T \<Longrightarrow> mpc s t = LockLoad \<Longrightarrow>
    mutex_step rec T s (let cur = state_and_waiters s
                        in goto t (if held cur then LockBrief cur 1 else LockCas cur) s)"
| lock_cas: "t \<in> T \<Longrightarrow> mpc s t = LockCas cur \<Longrightarrow> state_and_waiters s = cur \<Longrightarrow>
    mutex_step rec T s (goto t LockOwn (s\<lparr>state_and_waiters := cur OR HELD_MASK\<rparr>))"
| lock_cas_fail: "t \<in> T \<Longrightarrow> mpc s t = LockCas cur \<Longrightarrow> mutex_step rec T s (goto t LockLoad s)"
| lock_brief: "t \<in> T \<Longrightarrow> mpc s t = LockBrief cur i \<Longrightarrow>
    mutex_step rec T s (if \<not> held (state_and_waiters s) then goto t LockLoad s
                        else if i < MAX_ITER then goto t (LockBrief cur (i + 1)) s else goto t (LockIncr cur) s)"
| lock_incr: "t \<in> T \<Longrightarrow> mpc s t = LockIncr cur \<Longrightarrow>
    mutex_step rec T s (goto t (LockTest (cur + WAITER_INCREMENT))
                          (s\<lparr>state_and_waiters := state_and_waiters s + WAITER_INCREMENT\<rparr>))"
| lock_test: "t \<in> T \<Longrightarrow> mpc s t = LockTest cur \<Longrightarrow>
    mutex_step rec T s (goto t (if held cur then LockFutex cur else LockDecr) s)"
| futex_wait: "t \<in> T \<Longrightarrow> mpc s t = LockFutex cur \<Longrightarrow>
    mutex_step rec T s (goto t (if state_and_waiters s = cur then LockAsleep else LockReload) s)"
| futex_eintr: "t \<in> T \<Longrightarrow> mpc s t = LockAsleep \<Longrightarrow> mutex_step rec T s (goto t LockReload s)"
| lock_reload: "t \<in> T \<Longrightarrow> mpc s t = LockReload \<Longrightarrow>
    mutex_step rec T s (goto t (LockTest (state_and_waiters s)) s)"
| lock_decr: "t \<in> T \<Longrightarrow> mpc s t = LockDecr \<Longrightarrow>
    mutex_step rec T s (goto t LockLoad (s\<lparr>state_and_waiters := state_and_waiters s - WAITER_INCREMENT\<rparr>))"
| try_load: "t \<in> T \<Longrightarrow> mpc s t = TryLoad k \<Longrightarrow> mutex_step rec T s (goto t (TryTest k (state_and_waiters s)) s)"
| try_test: "t \<in> T \<Longrightarrow> mpc s t = TryTest k cur \<Longrightarrow>
    mutex_step rec T s (goto t (if held cur then (case k of None \<Rightarrow> Idle | Some r \<Rightarrow> TryBrief r 1) else TryCas k cur) s)"
| try_cas: "t \<in> T \<Longrightarrow> mpc s t = TryCas k cur \<Longrightarrow> state_and_waiters s = cur \<Longrightarrow>
    mutex_step rec T s (goto t LockOwn (s\<lparr>state_and_waiters := cur OR HELD_MASK\<rparr>))"
| try_cas_fail: "t \<in> T \<Longrightarrow> mpc s t = TryCas k cur \<Longrightarrow>
    mutex_step rec T s (goto t (TryTest k (state_and_waiters s)) s)"
| try_brief: "t \<in> T \<Longrightarrow> mpc s t = TryBrief r i \<Longrightarrow>
    mutex_step rec T s (if \<not> held (state_and_waiters s) then goto t (if r \<le> 1 then Idle else TryLoad (Some (r - 1))) s
                        else if i < MAX_ITER then goto t (TryBrief r (i + 1)) s else goto t Idle s)"
| lock_own: "t \<in> T \<Longrightarrow> mpc s t = LockOwn \<Longrightarrow>
    mutex_step rec T s (goto t (if held (state_and_waiters s) then LockOwner else Fatal) s)"
| lock_owner: "t \<in> T \<Longrightarrow> mpc s t = LockOwner \<Longrightarrow>
    mutex_step rec T s (goto t (if exclusive_owner s = 0 then LockStore else Fatal) s)"
| lock_store: "t \<in> T \<Longrightarrow> mpc s t = LockStore \<Longrightarrow> mutex_step rec T s (goto t LockCount (s\<lparr>exclusive_owner := t\<rparr>))"
| lock_count: "t \<in> T \<Longrightarrow> mpc s t = LockCount \<Longrightarrow>
    mutex_step rec T s (let n = recursive_count s + 1
                        in goto t (if n = 1 then Critical else Fatal) (s\<lparr>recursive_count := n\<rparr>))"
| unlock_load: "t \<in> T \<Longrightarrow> mpc s t = UnlockLoad \<Longrightarrow> mutex_step rec T s (goto t (UnlockOwner (state_and_waiters s)) s)"
| unlock_owner: "t \<in> T \<Longrightarrow> mpc s t = UnlockOwner cur \<Longrightarrow>
    mutex_step rec T s (if \<not> held cur then goto t Fatal s else goto t (UnlockCas cur) (s\<lparr>exclusive_owner := 0\<rparr>))"
| unlock_cas: "t \<in> T \<Longrightarrow> mpc s t = UnlockCas cur \<Longrightarrow> state_and_waiters s = cur \<Longrightarrow>
    mutex_step rec T s (let new_state = cur AND NOT HELD_MASK
                        in goto t (if new_state \<noteq> 0 then UnlockWake else Idle) (s\<lparr>state_and_waiters := new_state\<rparr>))"
| unlock_cas_fail: "t \<in> T \<Longrightarrow> mpc s t = UnlockCas cur \<Longrightarrow>
    mutex_step rec T s (goto t (UnlockOwner (state_and_waiters s)) s)"
| unlock_wake: "t \<in> T \<Longrightarrow> mpc s t = UnlockWake \<Longrightarrow> w \<in> T \<Longrightarrow> mpc s w = LockAsleep \<Longrightarrow>
    mutex_step rec T s (goto t Idle (goto w LockReload s))"
| unlock_wake_none: "t \<in> T \<Longrightarrow> mpc s t = UnlockWake \<Longrightarrow> \<forall>w\<in>T. mpc s w \<noteq> LockAsleep \<Longrightarrow>
    mutex_step rec T s (goto t Idle s)"

definition mutex_init :: "mutex \<Rightarrow> bool" where
  "mutex_init s \<longleftrightarrow> state_and_waiters s = 0 \<and> exclusive_owner s = 0 \<and> recursive_count s = 0 \<and> (\<forall>t. mpc s t = Idle)"

definition LockForOther :: "tid \<Rightarrow> mutex \<Rightarrow> mutex option" where
  "LockForOther thread s =
     (if state_and_waiters s = 0
      then Some (s\<lparr>state_and_waiters := HELD_MASK, recursive_count := 1, exclusive_owner := thread\<rparr>) else None)"

definition UnlockForOther :: "tid \<Rightarrow> mutex \<Rightarrow> mutex option" where
  "UnlockForOther thread s =
     (if IsHeld s thread \<and> state_and_waiters s = HELD_MASK
      then Some (s\<lparr>state_and_waiters := 0, recursive_count := 0, exclusive_owner := 0\<rparr>) else None)"

definition destroy_ok :: "mutex \<Rightarrow> bool" where
  "destroy_ok s \<longleftrightarrow> state_and_waiters s = 0 \<and> exclusive_owner s = 0"

subsection \<open>Invariant\<close>

lemma bit_0_of_nat: "bit (of_nat n :: u32) 0 \<longleftrightarrow> odd n"
  by (simp only: bit_of_nat_iff bit_0) simp

lemma held_of_nat: "held (of_nat n) \<longleftrightarrow> odd n"
  unfolding held_def using and_exp_eq_0_iff_not_bit [of "of_nat n :: u32" 0] by (simp add: bit_0_of_nat del: bit_0)

lemma set_held: "even n \<Longrightarrow> of_nat n OR (1 :: u32) = of_nat (Suc n)"
  by (simp add: or_one_eq)

lemma clear_held: "odd n \<Longrightarrow> of_nat n AND NOT (1 :: u32) = of_nat (n - 1)"
proof -
  assume "odd n"
  then have e: "even (n - 1)" "n = Suc (n - 1)" by (auto elim: oddE)
  have "of_nat n = of_nat (n - 1) OR (1 :: u32)" using set_held [OF e(1)] e(2) by simp
  then show ?thesis
    using e(1) bit_0_of_nat [of "n - 1"]
    by (intro bit_word_eqI) (auto simp: bit_and_iff bit_or_iff bit_not_iff bit_1_iff simp del: bit_0 intro!: gr0I)
qed

fun holding :: "mutex_pc \<Rightarrow> bool" where
  "holding LockOwn = True"
| "holding LockOwner = True"
| "holding LockStore = True"
| "holding LockCount = True"
| "holding Critical = True"
| "holding UnlockLoad = True"
| "holding (UnlockOwner _) = True"
| "holding (UnlockCas _) = True"
| "holding _ = False"

fun waiting :: "mutex_pc \<Rightarrow> bool" where
  "waiting (LockTest _) = True"
| "waiting (LockFutex _) = True"
| "waiting LockAsleep = True"
| "waiting LockReload = True"
| "waiting LockDecr = True"
| "waiting _ = False"

text \<open>The threads that will look at the lock word again without anybody's help.\<close>

fun contending :: "mutex_pc \<Rightarrow> bool" where
  "contending LockLoad = True"
| "contending (LockCas _) = True"
| "contending (LockBrief _ _) = True"
| "contending (LockIncr _) = True"
| "contending (LockTest _) = True"
| "contending (LockFutex _) = True"
| "contending LockReload = True"
| "contending LockDecr = True"
| "contending _ = False"

fun owner_ok :: "tid \<Rightarrow> mutex_pc \<Rightarrow> tid \<Rightarrow> u32 \<Rightarrow> bool \<Rightarrow> bool" where
  "owner_ok t Critical own n rec \<longleftrightarrow> own = t \<and> n \<noteq> 0 \<and> (\<not> rec \<longrightarrow> n = 1)"
| "owner_ok t UnlockLoad own n rec \<longleftrightarrow> own = t \<and> n = 0"
| "owner_ok t (UnlockOwner cur) own n rec \<longleftrightarrow> (own = t \<or> own = 0) \<and> n = 0 \<and> held cur"
| "owner_ok t (UnlockCas cur) own n rec \<longleftrightarrow> own = 0 \<and> n = 0 \<and> held cur"
| "owner_ok t LockOwn own n rec \<longleftrightarrow> own = 0 \<and> n = 0"
| "owner_ok t LockOwner own n rec \<longleftrightarrow> own = 0 \<and> n = 0"
| "owner_ok t LockStore own n rec \<longleftrightarrow> own = 0 \<and> n = 0"
| "owner_ok t LockCount own n rec \<longleftrightarrow> own = t \<and> n = 0"
| "owner_ok t Fatal own n rec \<longleftrightarrow> False"
| "owner_ok t (LockCas cur) own n rec \<longleftrightarrow> \<not> held cur"
| "owner_ok t (TryCas k cur) own n rec \<longleftrightarrow> \<not> held cur"
| "owner_ok t (LockFutex cur) own n rec \<longleftrightarrow> held cur"
| "owner_ok t _ own n rec \<longleftrightarrow> True"

abbreviation holders :: "tid set \<Rightarrow> mutex \<Rightarrow> nat" where
  "holders T s \<equiv> card (threads_at T holding (mpc s))"

abbreviation waiters :: "tid set \<Rightarrow> mutex \<Rightarrow> nat" where
  "waiters T s \<equiv> card (threads_at T waiting (mpc s))"

text \<open>The lock word counts one holder and twice the waiters.\<close>

definition word_inv :: "tid set \<Rightarrow> mutex \<Rightarrow> bool" where
  "word_inv T s \<longleftrightarrow> state_and_waiters s = of_nat (holders T s + 2 * waiters T s) \<and> holders T s \<le> 1"

definition owner_inv :: "bool \<Rightarrow> tid set \<Rightarrow> mutex \<Rightarrow> bool" where
  "owner_inv rec T s \<longleftrightarrow> (holders T s = 0 \<longrightarrow> exclusive_owner s = 0 \<and> recursive_count s = 0)
     \<and> (\<forall>t\<in>T. owner_ok t (mpc s t) (exclusive_owner s) (recursive_count s) rec)"

definition wake_inv :: "tid set \<Rightarrow> mutex \<Rightarrow> bool" where
  "wake_inv T s \<longleftrightarrow> ((\<exists>t\<in>T. mpc s t = LockAsleep) \<longrightarrow>
     holders T s = 1 \<or> (\<exists>u\<in>T. mpc s u = UnlockWake \<or> contending (mpc s u)))"

definition mutex_inv :: "bool \<Rightarrow> tid set \<Rightarrow> mutex \<Rightarrow> bool" where
  "mutex_inv rec T s \<longleftrightarrow> word_inv T s \<and> owner_inv rec T s \<and> wake_inv T s"

lemma goto_simps [simp]:
  "state_and_waiters (goto t p s) = state_and_waiters s" "exclusive_owner (goto t p s) = exclusive_owner s"
  "recursive_count (goto t p s) = recursive_count s" "mpc (goto t p s) = (mpc s)(t := p)"
  by (simp_all add: goto_def)

lemma held_iff_holder: "word_inv T s \<Longrightarrow> held (state_and_waiters s) \<longleftrightarrow> holders T s = 1"
  unfolding word_inv_def by (elim conjE, simp only: held_of_nat) (cases "holders T s", auto)

text \<open>One thread moves: the effect on the two counts.\<close>

lemma holders_goto:
  "thread_set T \<Longrightarrow> t \<in> T \<Longrightarrow> card (threads_at T holding ((mpc s)(t := p))) =
     (if holding p then (if holding (mpc s t) then holders T s else Suc (holders T s))
      else if holding (mpc s t) then holders T s - 1 else holders T s)"
  by (simp add: card_threads_at_update thread_set_def)

lemma waiters_goto:
  "thread_set T \<Longrightarrow> t \<in> T \<Longrightarrow> card (threads_at T waiting ((mpc s)(t := p))) =
     (if waiting p then (if waiting (mpc s t) then waiters T s else Suc (waiters T s))
      else if waiting (mpc s t) then waiters T s - 1 else waiters T s)"
  by (simp add: card_threads_at_update thread_set_def)

lemma holder_pos: "thread_set T \<Longrightarrow> t \<in> T \<Longrightarrow> holding (mpc s t) \<Longrightarrow> 0 < holders T s"
  by (auto simp: thread_set_def intro: card_threads_at_pos)

lemma waiter_pos: "thread_set T \<Longrightarrow> t \<in> T \<Longrightarrow> waiting (mpc s t) \<Longrightarrow> 0 < waiters T s"
  by (auto simp: thread_set_def intro: card_threads_at_pos)

lemma only_holder:
  assumes "thread_set T" "holders T s \<le> 1" "t \<in> T" "u \<in> T" "holding (mpc s t)" "holding (mpc s u)"
  shows "t = u"
proof -
  have "t \<in> threads_at T holding (mpc s)" "u \<in> threads_at T holding (mpc s)" using assms by (auto simp: threads_at_def)
  moreover have "finite (threads_at T holding (mpc s))" using assms(1) by (simp add: thread_set_def)
  ultimately show ?thesis using assms(2) by (metis card_le_Suc0_iff_eq One_nat_def)
qed

lemma word_inv_goto:
  assumes "thread_set T" "t \<in> T" "word_inv T s"
    and "holding p = holding (mpc s t)" "waiting p = waiting (mpc s t)"
    and "state_and_waiters s' = state_and_waiters s" "mpc s' = (mpc s)(t := p)"
  shows "word_inv T s'"
  using assms holder_pos [OF assms(1,2), of s] waiter_pos [OF assms(1,2), of s]
  by (auto simp: word_inv_def holders_goto waiters_goto)

lemma word_inv_acquire:
  assumes "thread_set T" "t \<in> T" "word_inv T s" "\<not> held (state_and_waiters s)"
    and "\<not> holding (mpc s t)" "\<not> waiting (mpc s t)"
  shows "word_inv T (goto t LockOwn (s\<lparr>state_and_waiters := state_and_waiters s OR HELD_MASK\<rparr>))"
proof -
  have h: "holders T s = 0" using assms(3,4) held_iff_holder [of T s] by (auto simp: word_inv_def le_Suc_eq)
  then have "state_and_waiters s = of_nat (2 * waiters T s)" using assms(3) by (simp add: word_inv_def)
  then have "state_and_waiters s OR 1 = of_nat (Suc (2 * waiters T s))" using set_held [of "2 * waiters T s"] by simp
  then show ?thesis using assms h by (simp add: word_inv_def holders_goto waiters_goto)
qed

lemma word_inv_release:
  assumes "thread_set T" "t \<in> T" "word_inv T s" "holding (mpc s t)" "\<not> holding p" "\<not> waiting p"
  shows "word_inv T (goto t p (s\<lparr>state_and_waiters := state_and_waiters s AND NOT HELD_MASK\<rparr>))"
    and "state_and_waiters s AND NOT HELD_MASK = of_nat (2 * waiters T s)"
proof -
  have h: "holders T s = 1" using assms(3) holder_pos [OF assms(1,2,4)] by (auto simp: word_inv_def)
  then have "state_and_waiters s = of_nat (1 + 2 * waiters T s)" using assms(3) by (simp add: word_inv_def)
  then show w: "state_and_waiters s AND NOT 1 = of_nat (2 * waiters T s)"
    using clear_held [of "1 + 2 * waiters T s"] by simp
  have "\<not> waiting (mpc s t)" using assms(4) by (cases "mpc s t") auto
  then show "word_inv T (goto t p (s\<lparr>state_and_waiters := state_and_waiters s AND NOT 1\<rparr>))"
    unfolding w using assms h by (simp add: word_inv_def holders_goto waiters_goto)
qed

lemma word_inv_wait:
  assumes "thread_set T" "t \<in> T" "word_inv T s" "\<not> holding (mpc s t)" "\<not> waiting (mpc s t)" "waiting p" "\<not> holding p"
  shows "word_inv T (goto t p (s\<lparr>state_and_waiters := state_and_waiters s + WAITER_INCREMENT\<rparr>))"
  using assms by (simp add: word_inv_def holders_goto waiters_goto)

lemma word_inv_unwait:
  assumes "thread_set T" "t \<in> T" "word_inv T s" "\<not> holding (mpc s t)" "waiting (mpc s t)" "\<not> waiting p" "\<not> holding p"
  shows "word_inv T (goto t p (s\<lparr>state_and_waiters := state_and_waiters s - WAITER_INCREMENT\<rparr>))"
proof -
  obtain w where "waiters T s = Suc w" using waiter_pos [OF assms(1,2,5)] by (metis gr0_implies_Suc)
  then show ?thesis using assms by (simp add: word_inv_def holders_goto waiters_goto)
qed

lemma waiters_nonzero:
  assumes "thread_set T" "u \<in> T" "waiting (mpc s u)"
  shows "(of_nat (2 * waiters T s) :: u32) \<noteq> 0"
proof -
  have "waiters T s \<le> card T" using assms(1) by (simp add: card_threads_at_le thread_set_def)
  then have "2 * waiters T s < 2 ^ 32" using assms(1) by (simp add: thread_set_def)
  then have "unat (of_nat (2 * waiters T s) :: u32) = 2 * waiters T s"
    by (simp add: unsigned_of_nat take_bit_nat_eq_self del: of_nat_mult)
  then show ?thesis using waiter_pos [OF assms] by (metis mult_eq_0_iff unat_eq_zero less_irrefl zero_neq_numeral)
qed

lemma word_inv_upd [simp]:
  "word_inv T (s\<lparr>exclusive_owner := x\<rparr>) = word_inv T s" "word_inv T (s\<lparr>recursive_count := y\<rparr>) = word_inv T s"
  "word_inv T (s\<lparr>exclusive_owner := x, recursive_count := y\<rparr>) = word_inv T s"
  by (simp_all add: word_inv_def)

lemma word_inv_move:
  "thread_set T \<Longrightarrow> t \<in> T \<Longrightarrow> word_inv T s \<Longrightarrow> holding p = holding (mpc s t) \<Longrightarrow> waiting p = waiting (mpc s t) \<Longrightarrow>
     word_inv T (goto t p s)"
  by (rule word_inv_goto) simp_all

lemma owner_invD: "owner_inv rec T s \<Longrightarrow> t \<in> T \<Longrightarrow> owner_ok t (mpc s t) (exclusive_owner s) (recursive_count s) rec"
  by (simp add: owner_inv_def)

text \<open>A thread that does not hold the mutex is not its recorded owner.\<close>

lemma idle_not_owner:
  assumes "thread_set T" "word_inv T s" "owner_inv rec T s" "t \<in> T" "\<not> holding (mpc s t)"
  shows "exclusive_owner s \<noteq> t"
proof (cases "holders T s = 0")
  case True
  then show ?thesis using assms(1,3,4) by (auto simp: owner_inv_def thread_set_def)
next
  case False
  then have "threads_at T holding (mpc s) \<noteq> {}" by auto
  then obtain u where u: "u \<in> T" "holding (mpc s u)" by (auto simp: threads_at_def)
  then have "exclusive_owner s = u \<or> exclusive_owner s = 0"
    using owner_invD [OF assms(3) u(1)] by (cases "mpc s u") auto
  then show ?thesis using u assms(1,4,5) by (auto simp: thread_set_def)
qed

lemma word_inv_step:
  assumes "mutex_step rec T s s'" "thread_set T" "word_inv T s" "owner_inv rec T s"
  shows "word_inv T s'"
  using assms(1)
proof (cases rule: mutex_step.cases)
  case (Lock t)
  then show ?thesis using idle_not_owner [OF assms(2-4), of t]
    by (simp add: call_Lock_def IsHeld_def word_inv_move assms(2,3))
next
  case (Lock_again t)
  then show ?thesis using owner_invD [OF assms(4), of t]
    by (simp add: call_Lock_def IsHeld_def assms(3))
next
  case (TryLock t)
  then show ?thesis using idle_not_owner [OF assms(2-4), of t]
    by (simp add: call_TryLock_def IsHeld_def word_inv_move assms(2,3))
next
  case (TryLock_again t)
  then show ?thesis using owner_invD [OF assms(4), of t]
    by (simp add: call_TryLock_def IsHeld_def assms(3))
next
  case (TryLockWithSpinning t)
  then show ?thesis using idle_not_owner [OF assms(2-4), of t]
    by (simp add: call_TryLock_def IsHeld_def word_inv_move assms(2,3))
next
  case (Unlock t)
  then show ?thesis using owner_invD [OF assms(4), of t]
    by (auto simp: call_Unlock_def IsHeld_def Let_def word_inv_move assms(2,3) word_gt_0)
next
  case (lock_own t)
  then show ?thesis using held_iff_holder [OF assms(3)] holder_pos [OF assms(2), of t s]
    assms(3) by (auto simp: word_inv_move assms(2) word_inv_def [of T s])
next
  case (lock_owner t)
  then show ?thesis using owner_invD [OF assms(4), of t] by (simp add: word_inv_move assms(2,3))
next
  case (lock_store t)
  then show ?thesis by (simp add: word_inv_move assms(2,3))
next
  case (lock_count t)
  then show ?thesis using owner_invD [OF assms(4), of t] by (simp add: word_inv_move assms(2,3))
next
  case (TryLockWithSpinning_again t)
  then show ?thesis using owner_invD [OF assms(4), of t]
    by (simp add: call_TryLock_def IsHeld_def assms(3))
next
  case (unlock_owner t cur)
  then show ?thesis using owner_invD [OF assms(4), of t] by (simp add: word_inv_move assms(2,3))
next
  case (lock_cas t cur)
  then show ?thesis using owner_invD [OF assms(4), of t] word_inv_acquire [of T t s] assms by simp
next
  case (try_cas t k cur)
  then show ?thesis using owner_invD [OF assms(4), of t] word_inv_acquire [of T t s] assms by simp
next
  case (lock_incr t cur)
  then show ?thesis using assms word_inv_wait [of T t s "LockTest (cur + 2)"] by simp
next
  case (lock_decr t)
  then show ?thesis using assms word_inv_unwait [of T t s LockLoad] by simp
next
  case (unlock_cas t cur)
  show ?thesis unfolding unlock_cas(1) Let_def unlock_cas(4) [symmetric]
    by (rule word_inv_release(1)) (use unlock_cas assms in auto)
next
  case (unlock_wake t w)
  have "word_inv T (goto w LockReload s)" using unlock_wake by (simp add: word_inv_move assms(2,3))
  then show ?thesis unfolding unlock_wake(1)
    by (rule word_inv_move [OF assms(2) unlock_wake(2)]) (use unlock_wake in auto)
qed (auto simp: word_inv_move assms(2,3) Let_def split: option.split)

lemma owner_ok_other: "\<not> holding p \<Longrightarrow> owner_ok u p own n rec = owner_ok u p own' n' rec"
  by (cases p) auto

lemma owner_inv_move:
  assumes "thread_set T" "t \<in> T" "owner_inv rec T s" "holding p = holding (mpc s t)"
    and "owner_ok t p (exclusive_owner s) (recursive_count s) rec"
    and "mpc s' = (mpc s)(t := p)" "exclusive_owner s' = exclusive_owner s" "recursive_count s' = recursive_count s"
  shows "owner_inv rec T s'"
  using assms holder_pos [OF assms(1,2), of s] by (auto simp: owner_inv_def holders_goto)

lemma owner_inv_upd [simp]: "owner_inv rec T (s\<lparr>state_and_waiters := x\<rparr>) = owner_inv rec T s"
  by (simp add: owner_inv_def)

lemma owner_inv_goto:
  "thread_set T \<Longrightarrow> t \<in> T \<Longrightarrow> owner_inv rec T s \<Longrightarrow> holding p = holding (mpc s t) \<Longrightarrow>
     owner_ok t p (exclusive_owner s) (recursive_count s) rec \<Longrightarrow> owner_inv rec T (goto t p s)"
  by (rule owner_inv_move) simp_all

lemma owner_inv_holder:
  assumes "thread_set T" "t \<in> T" "word_inv T s" "owner_inv rec T s" "holding (mpc s t)"
    and "mpc s' = (mpc s)(t := p)" "owner_ok t p (exclusive_owner s') (recursive_count s') rec"
    and "\<not> holding p \<Longrightarrow> exclusive_owner s' = 0 \<and> recursive_count s' = 0"
  shows "owner_inv rec T s'"
proof -
  have "owner_ok u (mpc s' u) (exclusive_owner s') (recursive_count s') rec" if "u \<in> T" for u
  proof (cases "u = t")
    case False
    then have "\<not> holding (mpc s u)" using only_holder [OF assms(1) _ assms(2) that assms(5)] assms(3) by (auto simp: word_inv_def)
    then have "owner_ok u (mpc s u) (exclusive_owner s') (recursive_count s') rec"
      using owner_invD [OF assms(4) that] owner_ok_other by blast
    with False show ?thesis by (simp add: assms(6))
  qed (use assms in simp)
  moreover have "exclusive_owner s' = 0 \<and> recursive_count s' = 0" if "holders T s' = 0"
  proof (rule assms(8), rule notI)
    assume "holding p"
    then show False using that holder_pos [OF assms(1,2), of s'] by (simp add: assms(6))
  qed
  ultimately show ?thesis by (simp add: owner_inv_def)
qed

lemma owner_inv_acquire:
  assumes "thread_set T" "t \<in> T" "word_inv T s" "owner_inv rec T s" "\<not> held (state_and_waiters s)"
    and "mpc s' = (mpc s)(t := LockOwn)" "exclusive_owner s' = exclusive_owner s" "recursive_count s' = recursive_count s"
  shows "owner_inv rec T s'"
proof -
  have "holders T s = 0" using assms(3,5) held_iff_holder [of T s] by (auto simp: word_inv_def le_Suc_eq)
  then have "exclusive_owner s = 0 \<and> recursive_count s = 0" using assms(4) by (simp add: owner_inv_def)
  then show ?thesis using assms(4,6-) by (auto simp: owner_inv_def)
qed

lemma owner_inv_step:
  assumes "mutex_step rec T s s'" "thread_set T" "word_inv T s" "owner_inv rec T s"
  shows "owner_inv rec T s'"
  using assms(1)
proof (cases rule: mutex_step.cases)
  case (Lock t)
  then show ?thesis using idle_not_owner [OF assms(2-4), of t]
    by (simp add: call_Lock_def IsHeld_def owner_inv_goto assms(2,4))
next
  case (Lock_again t)
  then show ?thesis using owner_invD [OF assms(4), of t]
    by (intro owner_inv_holder [OF assms(2) _ assms(3,4), of t _ Critical]) (auto simp: call_Lock_def IsHeld_def)
next
  case (TryLock t)
  then show ?thesis using idle_not_owner [OF assms(2-4), of t]
    by (simp add: call_TryLock_def IsHeld_def owner_inv_goto assms(2,4))
next
  case (TryLock_again t)
  then show ?thesis using owner_invD [OF assms(4), of t]
    by (intro owner_inv_holder [OF assms(2) _ assms(3,4), of t _ Critical]) (auto simp: call_TryLock_def IsHeld_def)
next
  case (TryLockWithSpinning t)
  then show ?thesis using idle_not_owner [OF assms(2-4), of t]
    by (simp add: call_TryLock_def IsHeld_def owner_inv_goto assms(2,4))
next
  case (Unlock t)
  show ?thesis
  proof (cases "rec \<and> recursive_count s - 1 \<noteq> 0")
    case True
    then show ?thesis using Unlock owner_invD [OF assms(4), of t]
      by (intro owner_inv_holder [OF assms(2) _ assms(3,4), of t _ Critical])
        (auto simp: call_Unlock_def IsHeld_def Let_def word_gt_0)
  next
    case False
    then have "recursive_count s - 1 = 0" using Unlock owner_invD [OF assms(4), of t] by auto
    then show ?thesis using Unlock owner_invD [OF assms(4), of t]
      by (intro owner_inv_holder [OF assms(2) _ assms(3,4), of t _ UnlockLoad])
        (auto simp: call_Unlock_def IsHeld_def Let_def)
  qed
next
  case (lock_own t)
  then have "held (state_and_waiters s)"
    using held_iff_holder [OF assms(3)] holder_pos [OF assms(2), of t s] assms(3) by (auto simp: word_inv_def [of T s])
  then show ?thesis using lock_own owner_invD [OF assms(4), of t]
    by (auto intro!: owner_inv_move [OF assms(2) _ assms(4), of t LockOwner])
next
  case (lock_owner t)
  then show ?thesis using owner_invD [OF assms(4), of t]
    by (auto intro!: owner_inv_move [OF assms(2) _ assms(4), of t LockStore])
next
  case (lock_store t)
  then show ?thesis using owner_invD [OF assms(4), of t]
    by (intro owner_inv_holder [OF assms(2) _ assms(3,4), of t _ LockCount]) auto
next
  case (lock_count t)
  then show ?thesis using owner_invD [OF assms(4), of t]
    by (intro owner_inv_holder [OF assms(2) _ assms(3,4), of t _ Critical]) auto
next
  case (TryLockWithSpinning_again t)
  then show ?thesis using owner_invD [OF assms(4), of t]
    by (intro owner_inv_holder [OF assms(2) _ assms(3,4), of t _ Critical]) (auto simp: call_TryLock_def IsHeld_def)
next
  case (unlock_load t)
  then have "held (state_and_waiters s)"
    using held_iff_holder [OF assms(3)] holder_pos [OF assms(2), of t s] assms(3) by (auto simp: word_inv_def [of T s])
  then show ?thesis using unlock_load owner_invD [OF assms(4), of t]
    by (auto intro!: owner_inv_move [OF assms(2) _ assms(4), of t "UnlockOwner (state_and_waiters s)"])
next
  case (unlock_owner t cur)
  then show ?thesis using owner_invD [OF assms(4), of t]
    by (auto intro!: owner_inv_holder [OF assms(2) _ assms(3,4), of t _ "UnlockCas cur"])
next
  case (unlock_cas t cur)
  then show ?thesis using owner_invD [OF assms(4), of t]
    by (auto simp: Let_def intro!: owner_inv_holder [OF assms(2) _ assms(3,4), of t])
next
  case (unlock_cas_fail t cur)
  then have "held (state_and_waiters s)"
    using held_iff_holder [OF assms(3)] holder_pos [OF assms(2), of t s] assms(3) by (auto simp: word_inv_def [of T s])
  then show ?thesis using unlock_cas_fail owner_invD [OF assms(4), of t]
    by (auto intro!: owner_inv_move [OF assms(2) _ assms(4), of t "UnlockOwner (state_and_waiters s)"])
next
  case (lock_cas t cur)
  then show ?thesis using owner_invD [OF assms(4), of t]
    by (auto intro!: owner_inv_acquire [OF assms(2) _ assms(3,4), of t])
next
  case (try_cas t k cur)
  then show ?thesis using owner_invD [OF assms(4), of t]
    by (auto intro!: owner_inv_acquire [OF assms(2) _ assms(3,4), of t])
next
  case (unlock_wake t w)
  have "owner_inv rec T (goto w LockReload s)"
    using unlock_wake by (auto intro!: owner_inv_move [OF assms(2) _ assms(4), of w LockReload])
  then show ?thesis unfolding unlock_wake(1)
    by (rule owner_inv_move [OF assms(2) unlock_wake(2), where p = Idle]) (use unlock_wake in auto)
qed (auto simp: Let_def owner_inv_goto assms(2,4) split: option.split)

lemma holder_one: "thread_set T \<Longrightarrow> word_inv T s \<Longrightarrow> t \<in> T \<Longrightarrow> holding (mpc s t) \<Longrightarrow> holders T s = 1"
  using holder_pos [of T t s] by (auto simp: word_inv_def)

text \<open>A thread that ends in a contending, waking or holding place answers for every sleeper.\<close>

lemma wake_inv_active:
  assumes "thread_set T" "word_inv T s'" "t \<in> T" "contending (mpc s' t) \<or> mpc s' t = UnlockWake \<or> holding (mpc s' t)"
  shows "wake_inv T s'"
  using assms holder_one [OF assms(1-3)] by (auto simp: wake_inv_def)

lemma wake_inv_passive:
  assumes "thread_set T" "t \<in> T" "wake_inv T s" "mpc s' = (mpc s)(t := p)"
    and "\<not> contending (mpc s t)" "mpc s t \<noteq> UnlockWake" "\<not> holding (mpc s t)" "\<not> holding p" "p \<noteq> LockAsleep"
  shows "wake_inv T s'"
proof -
  have h: "holders T s' = holders T s" using assms by (simp add: holders_goto)
  show ?thesis
    unfolding wake_inv_def h
  proof (intro impI)
    assume "\<exists>u\<in>T. mpc s' u = LockAsleep"
    then have "\<exists>u\<in>T. mpc s u = LockAsleep" using assms(4,9) by (auto split: if_splits)
    then have "holders T s = 1 \<or> (\<exists>u\<in>T. mpc s u = UnlockWake \<or> contending (mpc s u))"
      using assms(3) by (simp add: wake_inv_def)
    then show "holders T s = 1 \<or> (\<exists>u\<in>T. mpc s' u = UnlockWake \<or> contending (mpc s' u))"
    proof
      assume "\<exists>u\<in>T. mpc s u = UnlockWake \<or> contending (mpc s u)"
      then obtain u where "u \<in> T" "u \<noteq> t" "mpc s u = UnlockWake \<or> contending (mpc s u)" using assms(5,6) by auto
      then show ?thesis using assms(4) by auto
    qed simp
  qed
qed

lemma wake_inv_goto_passive:
  "thread_set T \<Longrightarrow> t \<in> T \<Longrightarrow> wake_inv T s \<Longrightarrow> \<not> contending (mpc s t) \<Longrightarrow> mpc s t \<noteq> UnlockWake \<Longrightarrow> \<not> holding (mpc s t) \<Longrightarrow>
     \<not> holding p \<Longrightarrow> p \<noteq> LockAsleep \<Longrightarrow> wake_inv T (goto t p s)"
  by (rule wake_inv_passive) simp_all

lemma wake_inv_step:
  assumes "mutex_step rec T s s'" "thread_set T" "word_inv T s" "owner_inv rec T s" "wake_inv T s"
  shows "wake_inv T s'"
proof -
  have w': "word_inv T s'" by (rule word_inv_step [OF assms(1-4)])
  note active = wake_inv_active [OF assms(2) w']
  show ?thesis using assms(1)
  proof (cases rule: mutex_step.cases)
    case (Lock t)
    then show ?thesis using idle_not_owner [OF assms(2-4), of t] active [of t] by (simp add: call_Lock_def IsHeld_def)
  next
    case (Lock_again t)
    then show ?thesis using owner_invD [OF assms(4), of t] active [of t] by (simp add: call_Lock_def IsHeld_def)
  next
    case (TryLock t)
    then show ?thesis using idle_not_owner [OF assms(2-4), of t]
      by (simp add: call_TryLock_def IsHeld_def wake_inv_goto_passive assms(2,5))
  next
    case (TryLock_again t)
    then show ?thesis using owner_invD [OF assms(4), of t] active [of t] by (simp add: call_TryLock_def IsHeld_def)
  next
    case (TryLockWithSpinning t)
    then show ?thesis using idle_not_owner [OF assms(2-4), of t]
      by (simp add: call_TryLock_def IsHeld_def wake_inv_goto_passive assms(2,5))
  next
    case (Unlock t)
    then show ?thesis using owner_invD [OF assms(4), of t] active [of t]
      by (auto simp: call_Unlock_def IsHeld_def Let_def word_gt_0 split: if_splits)
  next
    case (lock_own t)
    then have "held (state_and_waiters s)" using held_iff_holder [OF assms(3)] holder_one [OF assms(2,3), of t] by simp
    then show ?thesis using lock_own active [of t] by simp
  next
    case (lock_owner t)
    then show ?thesis using owner_invD [OF assms(4), of t] active [of t] by simp
  next
    case (lock_store t)
    then show ?thesis using active [of t] by simp
  next
    case (lock_count t)
    then show ?thesis using owner_invD [OF assms(4), of t] active [of t] by simp
  next
    case (TryLockWithSpinning_again t)
    then show ?thesis using owner_invD [OF assms(4), of t] active [of t] by (simp add: call_TryLock_def IsHeld_def)
  next
    case (futex_wait t cur)
    show ?thesis
    proof (cases "state_and_waiters s = cur")
      case True
      then have "holders T s = 1"
        using futex_wait owner_invD [OF assms(4), of t] held_iff_holder [OF assms(3)] by simp
      then have "holders T s' = 1" using futex_wait True assms(2) by (simp add: holders_goto)
      then show ?thesis by (simp add: wake_inv_def)
    qed (use futex_wait active [of t] in auto)
  next
    case (unlock_owner t cur)
    then show ?thesis using owner_invD [OF assms(4), of t] active [of t] by auto
  next
    case (unlock_cas t cur)
    show ?thesis
    proof (cases "cur AND NOT 1 = 0")
      case True
      then have "(of_nat (2 * waiters T s) :: u32) = 0"
        using word_inv_release(2) [OF assms(2) unlock_cas(2) assms(3), of Idle] unlock_cas by simp
      then have "mpc s u \<noteq> LockAsleep" if "u \<in> T" for u using waiters_nonzero [OF assms(2) that, of s] by auto
      then show ?thesis using unlock_cas True by (auto simp: wake_inv_def Let_def)
    qed (use unlock_cas active [of t] in \<open>auto simp: Let_def\<close>)
  next
    case (unlock_wake t w)
    then have "w \<noteq> t" by auto
    with unlock_wake show ?thesis using active [of w] by simp
  next
    case (try_brief t r i)
    then show ?thesis by (auto simp: wake_inv_goto_passive assms(2,5))
  next
    case (try_test t k cur)
    then show ?thesis by (auto simp: wake_inv_goto_passive assms(2,5) split: option.split)
  next
    case (lock_test t cur)
    then show ?thesis using active [of t] by auto
  next
    case (lock_brief t cur i)
    then show ?thesis using active [of t] by (auto split: if_splits)
  next
    case (unlock_wake_none t)
    then show ?thesis by (auto simp: wake_inv_def split: if_splits)
  next
    case (lock_load t)
    then show ?thesis using active [of t] by (simp add: Let_def)
  next
    case (lock_cas t cur)
    then show ?thesis using active [of t] by (simp add: Let_def)
  next
    case (lock_cas_fail t cur)
    then show ?thesis using active [of t] by (simp add: Let_def)
  next
    case (lock_incr t cur)
    then show ?thesis using active [of t] by (simp add: Let_def)
  next
    case (futex_eintr t)
    then show ?thesis using active [of t] by (simp add: Let_def)
  next
    case (lock_reload t)
    then show ?thesis using active [of t] by (simp add: Let_def)
  next
    case (lock_decr t)
    then show ?thesis using active [of t] by (simp add: Let_def)
  next
    case (try_cas t k cur)
    then show ?thesis using active [of t] by (simp add: Let_def)
  next
    case (unlock_load t)
    then show ?thesis using active [of t] by (simp add: Let_def)
  next
    case (unlock_cas_fail t cur)
    then show ?thesis using active [of t] by (simp add: Let_def)
  qed (simp_all add: wake_inv_goto_passive assms(2,5))
qed

lemma mutex_inv_init: "mutex_init s \<Longrightarrow> mutex_inv rec T s"
  by (simp add: mutex_inv_def word_inv_def owner_inv_def wake_inv_def mutex_init_def threads_at_def)

lemma mutex_inv_step: "thread_set T \<Longrightarrow> mutex_inv rec T s \<Longrightarrow> mutex_step rec T s s' \<Longrightarrow> mutex_inv rec T s'"
  unfolding mutex_inv_def using word_inv_step owner_inv_step wake_inv_step by blast

interpretation mx: inductive_invariant "\<lambda>s. thread_set T \<and> mutex_init s" "mutex_step rec T"
    "\<lambda>s. thread_set T \<and> mutex_inv rec T s" for rec T
  by unfold_locales (blast intro: mutex_inv_init mutex_inv_step)+

text \<open>The states the threads \<open>T\<close> reach from a new mutex, in any interleaving.\<close>

definition mutex_reachable :: "bool \<Rightarrow> tid set \<Rightarrow> mutex \<Rightarrow> bool" where
  "mutex_reachable rec T s \<longleftrightarrow> reachable (\<lambda>s. thread_set T \<and> mutex_init s) (mutex_step rec T) s"

lemma mutex_reachableD: "mutex_reachable rec T s \<Longrightarrow> thread_set T \<and> mutex_inv rec T s"
  unfolding mutex_reachable_def by (rule mx.reachable_inv)

subsection \<open>An uncontended lock\<close>

definition new_mutex :: mutex where
  "new_mutex = \<lparr>state_and_waiters = 0, exclusive_owner = 0, recursive_count = 0, mpc = (\<lambda>_. Idle)\<rparr>"

lemma lock_free_mutex:
  assumes "t \<in> T" "mpc s t = Idle" "state_and_waiters s = 0" "exclusive_owner s = 0" "recursive_count s = 0" "t \<noteq> 0"
  shows "steps (mutex_step rec T) s
    (s\<lparr>state_and_waiters := HELD_MASK, exclusive_owner := t, recursive_count := 1, mpc := (mpc s)(t := Critical)\<rparr>)"
proof -
  let ?s1 = "goto t LockLoad s" let ?s2 = "goto t (LockCas 0) ?s1"
  let ?s3 = "goto t LockOwn (?s2\<lparr>state_and_waiters := 0 OR HELD_MASK\<rparr>)"
  let ?s4 = "goto t LockOwner ?s3" let ?s5 = "goto t LockStore ?s4"
  let ?s6 = "goto t LockCount (?s5\<lparr>exclusive_owner := t\<rparr>)" let ?s7 = "goto t Critical (?s6\<lparr>recursive_count := 1\<rparr>)"
  have a1: "mutex_step rec T s ?s1" using mutex_step.Lock [OF assms(1,2), of rec] assms by (simp add: call_Lock_def IsHeld_def)
  have a2: "mutex_step rec T ?s1 ?s2"
    using mutex_step.lock_load [OF assms(1), of ?s1 rec] assms by (simp add: held_def)
  have a3: "mutex_step rec T ?s2 ?s3"
    using mutex_step.lock_cas [OF assms(1), of ?s2 0 rec] assms by simp
  have a4: "mutex_step rec T ?s3 ?s4"
    using mutex_step.lock_own [OF assms(1), of ?s3 rec] by (simp add: held_def)
  have a5: "mutex_step rec T ?s4 ?s5"
    using mutex_step.lock_owner [OF assms(1), of ?s4 rec] assms by simp
  have a6: "mutex_step rec T ?s5 ?s6"
    using mutex_step.lock_store [OF assms(1), of ?s5 rec] by simp
  have a7: "mutex_step rec T ?s6 ?s7"
    using mutex_step.lock_count [OF assms(1), of ?s6 rec] assms by simp
  have "steps (mutex_step rec T) s ?s1" using a1 by (rule steps_one)
  then have "steps (mutex_step rec T) s ?s2" using a2 by (rule steps.snoc)
  then have "steps (mutex_step rec T) s ?s3" using a3 by (rule steps.snoc)
  then have "steps (mutex_step rec T) s ?s4" using a4 by (rule steps.snoc)
  then have "steps (mutex_step rec T) s ?s5" using a5 by (rule steps.snoc)
  then have "steps (mutex_step rec T) s ?s6" using a6 by (rule steps.snoc)
  then have "steps (mutex_step rec T) s ?s7" using a7 by (rule steps.snoc)
  then show ?thesis by (simp add: goto_def)
qed

lemma locked_reachable:
  assumes "thread_set T" "t \<in> T"
  shows "mutex_reachable rec T (new_mutex\<lparr>state_and_waiters := HELD_MASK, exclusive_owner := t, recursive_count := 1,
    mpc := (\<lambda>_. Idle)(t := Critical)\<rparr>)"
proof -
  have "t \<noteq> 0" using assms by (auto simp: thread_set_def)
  then have "steps (mutex_step rec T) new_mutex
      (new_mutex\<lparr>state_and_waiters := HELD_MASK, exclusive_owner := t, recursive_count := 1, mpc := (mpc new_mutex)(t := Critical)\<rparr>)"
    by (intro lock_free_mutex) (simp_all add: new_mutex_def assms(2))
  moreover have "reachable (\<lambda>s. thread_set T \<and> mutex_init s) (mutex_step rec T) new_mutex"
    by (rule reachable.start) (simp add: assms(1) mutex_init_def new_mutex_def)
  ultimately show ?thesis
    unfolding mutex_reachable_def using reachable_steps by (auto simp: new_mutex_def)
qed

subsection \<open>A contended lock\<close>

lemma goto_goto [simp]: "goto t p (goto t q s) = goto t p s"
  by (simp add: goto_def)

lemma brief_wait_again:
  assumes "t \<in> T" "held (state_and_waiters s)" "i < MAX_ITER"
  shows "mutex_step rec T (goto t (LockBrief cur i) s) (goto t (LockBrief cur (Suc i)) s)"
  using mutex_step.lock_brief [OF assms(1), of "goto t (LockBrief cur i) s" cur i rec] assms(2,3) by simp

lemma brief_wait_last:
  assumes "t \<in> T" "held (state_and_waiters s)"
  shows "mutex_step rec T (goto t (LockBrief cur MAX_ITER) s) (goto t (LockIncr cur) s)"
  using mutex_step.lock_brief [OF assms(1), of "goto t (LockBrief cur MAX_ITER) s" cur MAX_ITER rec] assms(2) by simp

lemma brief_wait_fails:
  assumes "t \<in> T" "held (state_and_waiters s)"
  shows "steps (mutex_step rec T) (goto t (LockBrief cur 1) s) (goto t (LockIncr cur) s)"
proof -
  note snoc = steps.snoc [where step = "mutex_step rec T"]
  have "n < MAX_ITER \<Longrightarrow> steps (mutex_step rec T) (goto t (LockBrief cur 1) s) (goto t (LockBrief cur (Suc n)) s)" for n
  proof (induction n)
    case (Suc n)
    then show ?case using snoc [OF _ brief_wait_again [OF assms, of "Suc n"]] by simp
  qed (simp add: steps.none)
  from this [of 49] show ?thesis using snoc [OF _ brief_wait_last [OF assms]] by simp
qed

lemma lock_held_mutex:
  assumes t: "t \<in> T" and s: "mpc s t = Idle" "exclusive_owner s \<noteq> t" "held (state_and_waiters s)"
    "held (state_and_waiters s + WAITER_INCREMENT)"
  shows "steps (mutex_step rec T) s (goto t LockAsleep (s\<lparr>state_and_waiters := state_and_waiters s + WAITER_INCREMENT\<rparr>))"
proof -
  note snoc = steps.snoc [where step = "mutex_step rec T"]
  let ?w = "state_and_waiters s" let ?s' = "s\<lparr>state_and_waiters := ?w + WAITER_INCREMENT\<rparr>"
  have a: "mutex_step rec T s (goto t LockLoad s)"
    using mutex_step.Lock [OF t s(1), of rec] s by (simp add: call_Lock_def IsHeld_def)
  have b: "mutex_step rec T (goto t LockLoad s) (goto t (LockBrief ?w 1) s)"
    using mutex_step.lock_load [OF t, of "goto t LockLoad s" rec] s by simp
  have c: "mutex_step rec T (goto t (LockIncr ?w) s) (goto t (LockTest (?w + 2)) ?s')"
    using mutex_step.lock_incr [OF t, of "goto t (LockIncr ?w) s" ?w rec] by (simp add: goto_def)
  have d: "mutex_step rec T (goto t (LockTest (?w + 2)) ?s') (goto t (LockFutex (?w + 2)) ?s')"
    using mutex_step.lock_test [OF t, of "goto t (LockTest (?w + 2)) ?s'" "?w + 2" rec] s by simp
  have e: "mutex_step rec T (goto t (LockFutex (?w + 2)) ?s') (goto t LockAsleep ?s')"
    using mutex_step.futex_wait [OF t, of "goto t (LockFutex (?w + 2)) ?s'" "?w + 2" rec] by simp
  have "steps (mutex_step rec T) s (goto t (LockIncr ?w) s)"
    by (rule steps_trans [OF brief_wait_fails [OF t s(3)] snoc [OF snoc [OF steps.none a] b]])
  then show ?thesis by (rule snoc [OF snoc [OF snoc [OF _ c] d] e])
qed

subsection \<open>Properties\<close>

text \<open>
  C1: mutual exclusion: in every interleaving at most one thread is between its successful compare-exchange on the
  lock word and the compare-exchange that releases it.
\<close>

theorem mutex_mutual_exclusion:
  assumes "mutex_reachable rec T s" "t \<in> T" "u \<in> T" "holding (mpc s t)" "holding (mpc s u)"
  shows "t = u"
  using mutex_reachableD [OF assms(1)] only_holder [OF _ _ assms(2-)] by (auto simp: mutex_inv_def word_inv_def)

theorem mutex_mutual_exclusion_witness:
  "\<exists>s. mutex_reachable False {1, 2} s \<and> mpc s 1 = Critical \<and> \<not> holding (mpc s 2)"
proof -
  let ?s = "new_mutex\<lparr>state_and_waiters := 1, exclusive_owner := 1, recursive_count := 1, mpc := (\<lambda>_. Idle)(1 := Critical)\<rparr>"
  have r: "mutex_reachable False {1, 2} ?s" by (rule locked_reachable) (simp_all add: thread_set_def)
  have "\<not> holding (mpc ?s 2)" using mutex_mutual_exclusion [OF r, of 1 2] by auto
  with r show ?thesis by (intro exI [of _ ?s]) simp
qed

text \<open>
  C16: no assertion of the mutex fails and no fatal error is logged, in any interleaving of threads that unlock only what
  they have locked: the owner and recursion fields are consistent with the lock word whenever they are checked.
\<close>

theorem mutex_never_fatal:
  assumes "mutex_reachable rec T s" "t \<in> T"
  shows "mpc s t \<noteq> Fatal"
  using mutex_reachableD [OF assms(1)] owner_invD [of rec T s t] assms(2) by (auto simp: mutex_inv_def)

theorem mutex_never_fatal_witness:
  "\<exists>s. mutex_reachable True {1, 2} s \<and> mpc s 1 = Critical \<and> mpc s 2 \<noteq> Fatal"
proof -
  let ?s = "new_mutex\<lparr>state_and_waiters := 1, exclusive_owner := 1, recursive_count := 1, mpc := (\<lambda>_. Idle)(1 := Critical)\<rparr>"
  have r: "mutex_reachable True {1, 2} ?s" by (rule locked_reachable) (simp_all add: thread_set_def)
  then show ?thesis using mutex_never_fatal [OF r, of 2] by (intro exI [of _ ?s]) simp
qed

text \<open>
  C2: no wake-up is lost: while a thread sleeps in the futex, the mutex is held by a thread, or a thread that released
  it is about to issue the wake-up call, or another thread is awake and still contending for the lock word.
\<close>

theorem mutex_no_lost_wakeup:
  assumes "mutex_reachable rec T s" "t \<in> T" "mpc s t = LockAsleep"
  shows "\<exists>u\<in>T. holding (mpc s u) \<or> mpc s u = UnlockWake \<or> contending (mpc s u)"
proof -
  have "wake_inv T s" using mutex_reachableD [OF assms(1)] by (simp add: mutex_inv_def)
  then have "holders T s = 1 \<or> (\<exists>u\<in>T. mpc s u = UnlockWake \<or> contending (mpc s u))"
    using assms(2,3) by (auto simp: wake_inv_def)
  moreover have "\<exists>u\<in>T. holding (mpc s u)" if "holders T s = 1"
    using that by (auto simp: threads_at_def card_1_singleton_iff)
  ultimately show ?thesis by blast
qed

theorem mutex_no_lost_wakeup_witness:
  "\<exists>s. mutex_reachable False {1, 2} s \<and> mpc s 2 = LockAsleep
     \<and> (\<exists>u\<in>{1, 2}. holding (mpc s u) \<or> mpc s u = UnlockWake \<or> contending (mpc s u))"
proof -
  let ?s = "new_mutex\<lparr>state_and_waiters := 1, exclusive_owner := 1, recursive_count := 1, mpc := (\<lambda>_. Idle)(1 := Critical)\<rparr>"
  let ?s' = "goto 2 LockAsleep (?s\<lparr>state_and_waiters := state_and_waiters ?s + 2\<rparr>)"
  have "mutex_reachable False {1, 2} ?s" by (rule locked_reachable) (simp_all add: thread_set_def)
  moreover have "steps (mutex_step False {1, 2}) ?s ?s'" by (rule lock_held_mutex) (simp_all add: held_def)
  ultimately have r: "mutex_reachable False {1, 2} ?s'" unfolding mutex_reachable_def by (rule reachable_steps [rotated])
  show ?thesis
    using mutex_no_lost_wakeup [OF r, of 2] r by (intro exI [of _ ?s'] conjI) simp_all
qed

text \<open>
  C18: a mutex no thread is using is back in its initial state, so its destructor does not abort, and the monitor may lock
  it on behalf of another thread and unlock it again.
\<close>

theorem mutex_quiescent:
  assumes "mutex_reachable rec T s" "\<forall>t\<in>T. mpc s t = Idle"
  shows "destroy_ok s \<and> (\<exists>s'. LockForOther o1 s = Some s' \<and> IsHeld s' o1 \<and> UnlockForOther o1 s' = Some s)"
proof -
  have inv: "word_inv T s" "owner_inv rec T s" using mutex_reachableD [OF assms(1)] by (simp_all add: mutex_inv_def)
  have "threads_at T holding (mpc s) = {}" "threads_at T waiting (mpc s) = {}"
    using assms(2) by (auto simp: threads_at_def)
  then have z: "state_and_waiters s = 0" "exclusive_owner s = 0" "recursive_count s = 0"
    using inv by (simp_all add: word_inv_def owner_inv_def)
  then show ?thesis by (simp add: destroy_ok_def LockForOther_def UnlockForOther_def IsHeld_def)
qed

theorem mutex_quiescent_witness:
  "mutex_reachable False {1, 2} new_mutex \<and> destroy_ok new_mutex"
proof -
  have r: "mutex_reachable False {1, 2} new_mutex"
    unfolding mutex_reachable_def by (rule reachable.start) (simp add: thread_set_def mutex_init_def new_mutex_def)
  then show ?thesis using mutex_quiescent [OF r] by (simp add: new_mutex_def)
qed

end
