(* ===== verification/FutexRWLock.thy ===== *)
theory FutexRWLock
  imports Transitions
begin

text \<open>
  \<open>libpandabase/os/unix/futex/mutex.cpp\<close> and \<open>mutex.h\<close>, class \<open>RWLock\<close>: the reader-writer futex lock behind the mutator lock.
  The model has the form of \<open>FutexMutex\<close>: one program counter per thread, one shared access per step. A thread
  holds at most one read or write lock at a time, only a holder unlocks, and a futex wait fails with \<open>EAGAIN\<close> or \<open>EINTR\<close> only.
\<close>

subsection \<open>State\<close>

abbreviation (input) WRITE_LOCKED :: u32 where "WRITE_LOCKED \<equiv> - 1"
abbreviation (input) UNLOCKED :: u32 where "UNLOCKED \<equiv> 0"
abbreviation (input) READ_INCREMENT :: u32 where "READ_INCREMENT \<equiv> 1"
abbreviation (input) WAIT_ITER :: nat where "WAIT_ITER \<equiv> 50"

datatype rw_pc =
    RWIdle
  | ReadLoad | ReadCas u32 | ReadBrief u32 nat | ReadIncr u32
  | ReadTest u32 | ReadFutex u32 | ReadAsleep | ReadReload | ReadDecr
  | TryReadLoad | TryReadTest u32 | TryReadCas u32
  | ReadCheck | Reading
  | WriteLoad | WriteCas u32 | WriteBrief u32 nat | WriteIncr u32
  | WriteTest u32 | WriteFutex u32 | WriteAsleep | WriteReload | WriteDecr
  | TryWriteLoad | TryWriteTest u32 | TryWriteCas u32
  | WriteOwn | WriteOwner | WriteStore | Writing
  | WUnlockAssert | WUnlockLoad | WUnlockTest u32 | WUnlockCas u32
  | RUnlockAssert | RUnlockLoad | RUnlockTest u32 | RUnlockCas u32
  | UnlockCheck | WakeAll
  | RWFatal

record rwlock =
  rw_state :: u32
  rw_owner :: tid
  rw_waiters :: u32
  rpc :: "tid \<Rightarrow> rw_pc"

definition rgoto :: "tid \<Rightarrow> rw_pc \<Rightarrow> rwlock \<Rightarrow> rwlock" where
  "rgoto t p s = s\<lparr>rpc := (rpc s)(t := p)\<rparr>"

definition HasExclusiveHolder :: "rwlock \<Rightarrow> bool" where
  "HasExclusiveHolder s \<longleftrightarrow> rw_owner s \<noteq> 0"

definition IsExclusiveHeld :: "rwlock \<Rightarrow> tid \<Rightarrow> bool" where
  "IsExclusiveHeld s t \<longleftrightarrow> rw_owner s = t"

subsection \<open>Steps\<close>

definition rw_Unlock :: "tid \<Rightarrow> rwlock \<Rightarrow> rwlock" where
  "rw_Unlock t s = rgoto t (if HasExclusiveHolder s then WUnlockAssert else RUnlockAssert) s"

definition wake_all :: "rwlock \<Rightarrow> rwlock" where
  "wake_all s = s\<lparr>rpc := (\<lambda>u. case rpc s u of ReadAsleep \<Rightarrow> ReadReload | WriteAsleep \<Rightarrow> WriteReload | p \<Rightarrow> p)\<rparr>"

inductive rw_step :: "tid set \<Rightarrow> rwlock \<Rightarrow> rwlock \<Rightarrow> bool" for T :: "tid set" where
  ReadLock: "t \<in> T \<Longrightarrow> rpc s t = RWIdle \<Longrightarrow> rw_step T s (rgoto t ReadLoad s)"
| WriteLock: "t \<in> T \<Longrightarrow> rpc s t = RWIdle \<Longrightarrow> rw_step T s (rgoto t WriteLoad s)"
| TryReadLock: "t \<in> T \<Longrightarrow> rpc s t = RWIdle \<Longrightarrow> rw_step T s (rgoto t TryReadLoad s)"
| TryWriteLock: "t \<in> T \<Longrightarrow> rpc s t = RWIdle \<Longrightarrow> rw_step T s (rgoto t TryWriteLoad s)"
| Unlock: "t \<in> T \<Longrightarrow> rpc s t = Reading \<or> rpc s t = Writing \<Longrightarrow> rw_step T s (rw_Unlock t s)"
| read_load: "t \<in> T \<Longrightarrow> rpc s t = ReadLoad \<Longrightarrow>
    rw_step T s (let cur = rw_state s in rgoto t (if 0 \<le> sint cur then ReadCas cur else ReadBrief cur 1) s)"
| read_cas: "t \<in> T \<Longrightarrow> rpc s t = ReadCas cur \<Longrightarrow> rw_state s = cur \<Longrightarrow>
    rw_step T s (rgoto t ReadCheck (s\<lparr>rw_state := cur + READ_INCREMENT\<rparr>))"
| read_cas_fail: "t \<in> T \<Longrightarrow> rpc s t = ReadCas cur \<Longrightarrow> rw_step T s (rgoto t ReadLoad s)"
| read_brief: "t \<in> T \<Longrightarrow> rpc s t = ReadBrief cur i \<Longrightarrow>
    rw_step T s (rgoto t (if 0 \<le> sint (rw_state s) then ReadLoad
                          else if i < WAIT_ITER then ReadBrief cur (i + 1) else ReadIncr cur) s)"
| read_incr: "t \<in> T \<Longrightarrow> rpc s t = ReadIncr cur \<Longrightarrow>
    rw_step T s (rgoto t (ReadTest cur) (s\<lparr>rw_waiters := rw_waiters s + 1\<rparr>))"
| read_test: "t \<in> T \<Longrightarrow> rpc s t = ReadTest cur \<Longrightarrow>
    rw_step T s (rgoto t (if cur = WRITE_LOCKED then ReadFutex cur else ReadDecr) s)"
| read_futex: "t \<in> T \<Longrightarrow> rpc s t = ReadFutex cur \<Longrightarrow>
    rw_step T s (rgoto t (if rw_state s = cur then ReadAsleep else ReadReload) s)"
| read_eintr: "t \<in> T \<Longrightarrow> rpc s t = ReadAsleep \<Longrightarrow> rw_step T s (rgoto t ReadReload s)"
| read_reload: "t \<in> T \<Longrightarrow> rpc s t = ReadReload \<Longrightarrow> rw_step T s (rgoto t (ReadTest (rw_state s)) s)"
| read_decr: "t \<in> T \<Longrightarrow> rpc s t = ReadDecr \<Longrightarrow>
    rw_step T s (rgoto t ReadLoad (s\<lparr>rw_waiters := rw_waiters s - 1\<rparr>))"
| try_read_load: "t \<in> T \<Longrightarrow> rpc s t = TryReadLoad \<Longrightarrow> rw_step T s (rgoto t (TryReadTest (rw_state s)) s)"
| try_read_test: "t \<in> T \<Longrightarrow> rpc s t = TryReadTest cur \<Longrightarrow>
    rw_step T s (rgoto t (if 0 \<le> sint cur then TryReadCas cur else RWIdle) s)"
| try_read_cas: "t \<in> T \<Longrightarrow> rpc s t = TryReadCas cur \<Longrightarrow> rw_state s = cur \<Longrightarrow>
    rw_step T s (rgoto t ReadCheck (s\<lparr>rw_state := cur + READ_INCREMENT\<rparr>))"
| try_read_cas_fail: "t \<in> T \<Longrightarrow> rpc s t = TryReadCas cur \<Longrightarrow> rw_step T s (rgoto t (TryReadTest (rw_state s)) s)"
| read_check: "t \<in> T \<Longrightarrow> rpc s t = ReadCheck \<Longrightarrow>
    rw_step T s (rgoto t (if HasExclusiveHolder s then RWFatal else Reading) s)"
| write_load: "t \<in> T \<Longrightarrow> rpc s t = WriteLoad \<Longrightarrow>
    rw_step T s (let cur = rw_state s in rgoto t (if cur = UNLOCKED then WriteCas cur else WriteBrief cur 1) s)"
| write_cas: "t \<in> T \<Longrightarrow> rpc s t = WriteCas cur \<Longrightarrow> rw_state s = cur \<Longrightarrow>
    rw_step T s (rgoto t WriteOwn (s\<lparr>rw_state := WRITE_LOCKED\<rparr>))"
| write_cas_fail: "t \<in> T \<Longrightarrow> rpc s t = WriteCas cur \<Longrightarrow> rw_step T s (rgoto t WriteLoad s)"
| write_brief: "t \<in> T \<Longrightarrow> rpc s t = WriteBrief cur i \<Longrightarrow>
    rw_step T s (rgoto t (if rw_state s = UNLOCKED then WriteLoad
                          else if i < WAIT_ITER then WriteBrief cur (i + 1) else WriteIncr cur) s)"
| write_incr: "t \<in> T \<Longrightarrow> rpc s t = WriteIncr cur \<Longrightarrow>
    rw_step T s (rgoto t (WriteTest cur) (s\<lparr>rw_waiters := rw_waiters s + 1\<rparr>))"
| write_test: "t \<in> T \<Longrightarrow> rpc s t = WriteTest cur \<Longrightarrow>
    rw_step T s (rgoto t (if cur \<noteq> UNLOCKED then WriteFutex cur else WriteDecr) s)"
| write_futex: "t \<in> T \<Longrightarrow> rpc s t = WriteFutex cur \<Longrightarrow>
    rw_step T s (rgoto t (if rw_state s = cur then WriteAsleep else WriteReload) s)"
| write_eintr: "t \<in> T \<Longrightarrow> rpc s t = WriteAsleep \<Longrightarrow> rw_step T s (rgoto t WriteReload s)"
| write_reload: "t \<in> T \<Longrightarrow> rpc s t = WriteReload \<Longrightarrow> rw_step T s (rgoto t (WriteTest (rw_state s)) s)"
| write_decr: "t \<in> T \<Longrightarrow> rpc s t = WriteDecr \<Longrightarrow>
    rw_step T s (rgoto t WriteLoad (s\<lparr>rw_waiters := rw_waiters s - 1\<rparr>))"
| try_write_load: "t \<in> T \<Longrightarrow> rpc s t = TryWriteLoad \<Longrightarrow> rw_step T s (rgoto t (TryWriteTest (rw_state s)) s)"
| try_write_test: "t \<in> T \<Longrightarrow> rpc s t = TryWriteTest cur \<Longrightarrow>
    rw_step T s (rgoto t (if cur = UNLOCKED then TryWriteCas cur else RWIdle) s)"
| try_write_cas: "t \<in> T \<Longrightarrow> rpc s t = TryWriteCas cur \<Longrightarrow> rw_state s = cur \<Longrightarrow>
    rw_step T s (rgoto t WriteOwn (s\<lparr>rw_state := WRITE_LOCKED\<rparr>))"
| try_write_cas_fail: "t \<in> T \<Longrightarrow> rpc s t = TryWriteCas cur \<Longrightarrow> rw_step T s (rgoto t (TryWriteTest (rw_state s)) s)"
| write_own: "t \<in> T \<Longrightarrow> rpc s t = WriteOwn \<Longrightarrow> rw_step T s (rgoto t (if rw_state s = WRITE_LOCKED then WriteOwner else RWFatal) s)"
| write_owner: "t \<in> T \<Longrightarrow> rpc s t = WriteOwner \<Longrightarrow> rw_step T s (rgoto t (if rw_owner s = 0 then WriteStore else RWFatal) s)"
| write_store: "t \<in> T \<Longrightarrow> rpc s t = WriteStore \<Longrightarrow> rw_step T s (rgoto t Writing (s\<lparr>rw_owner := t\<rparr>))"
| wunlock_assert: "t \<in> T \<Longrightarrow> rpc s t = WUnlockAssert \<Longrightarrow>
    rw_step T s (rgoto t (if IsExclusiveHeld s t then WUnlockLoad else RWFatal) s)"
| wunlock_load: "t \<in> T \<Longrightarrow> rpc s t = WUnlockLoad \<Longrightarrow> rw_step T s (rgoto t (WUnlockTest (rw_state s)) s)"
| wunlock_test: "t \<in> T \<Longrightarrow> rpc s t = WUnlockTest cur \<Longrightarrow>
    rw_step T s (if cur = WRITE_LOCKED then rgoto t (WUnlockCas cur) (s\<lparr>rw_owner := 0\<rparr>) else rgoto t RWFatal s)"
| wunlock_cas: "t \<in> T \<Longrightarrow> rpc s t = WUnlockCas cur \<Longrightarrow> rw_state s = cur \<Longrightarrow>
    rw_step T s (rgoto t UnlockCheck (s\<lparr>rw_state := UNLOCKED\<rparr>))"
| wunlock_cas_fail: "t \<in> T \<Longrightarrow> rpc s t = WUnlockCas cur \<Longrightarrow> rw_step T s (rgoto t (WUnlockTest (rw_state s)) s)"
| runlock_assert: "t \<in> T \<Longrightarrow> rpc s t = RUnlockAssert \<Longrightarrow>
    rw_step T s (rgoto t (if HasExclusiveHolder s then RWFatal else RUnlockLoad) s)"
| runlock_load: "t \<in> T \<Longrightarrow> rpc s t = RUnlockLoad \<Longrightarrow> rw_step T s (rgoto t (RUnlockTest (rw_state s)) s)"
| runlock_test: "t \<in> T \<Longrightarrow> rpc s t = RUnlockTest cur \<Longrightarrow>
    rw_step T s (rgoto t (if 0 < sint cur then RUnlockCas cur else RWFatal) s)"
| runlock_cas: "t \<in> T \<Longrightarrow> rpc s t = RUnlockCas cur \<Longrightarrow> rw_state s = cur \<Longrightarrow>
    rw_step T s (let new_state = cur - READ_INCREMENT
                 in rgoto t (if new_state = UNLOCKED then UnlockCheck else RWIdle) (s\<lparr>rw_state := new_state\<rparr>))"
| runlock_cas_fail: "t \<in> T \<Longrightarrow> rpc s t = RUnlockCas cur \<Longrightarrow> rw_step T s (rgoto t (RUnlockTest (rw_state s)) s)"
| unlock_check: "t \<in> T \<Longrightarrow> rpc s t = UnlockCheck \<Longrightarrow> rw_step T s (rgoto t (if 0 < rw_waiters s then WakeAll else RWIdle) s)"
| unlock_wake_all: "t \<in> T \<Longrightarrow> rpc s t = WakeAll \<Longrightarrow> rw_step T s (rgoto t RWIdle (wake_all s))"

definition rw_init :: "rwlock \<Rightarrow> bool" where
  "rw_init s \<longleftrightarrow> rw_state s = UNLOCKED \<and> rw_owner s = 0 \<and> rw_waiters s = 0 \<and> (\<forall>t. rpc s t = RWIdle)"

definition rw_destroy_ok :: "rwlock \<Rightarrow> bool" where
  "rw_destroy_ok s \<longleftrightarrow> rw_state s = 0 \<and> rw_owner s = 0 \<and> rw_waiters s = 0"

subsection \<open>Invariant\<close>

fun rholding :: "rw_pc \<Rightarrow> bool" where
  "rholding ReadCheck = True"
| "rholding Reading = True"
| "rholding RUnlockAssert = True"
| "rholding RUnlockLoad = True"
| "rholding (RUnlockTest _) = True"
| "rholding (RUnlockCas _) = True"
| "rholding _ = False"

fun wholding :: "rw_pc \<Rightarrow> bool" where
  "wholding WriteOwn = True"
| "wholding WriteOwner = True"
| "wholding WriteStore = True"
| "wholding Writing = True"
| "wholding WUnlockAssert = True"
| "wholding WUnlockLoad = True"
| "wholding (WUnlockTest _) = True"
| "wholding (WUnlockCas _) = True"
| "wholding _ = False"

fun rw_waiting :: "rw_pc \<Rightarrow> bool" where
  "rw_waiting (ReadTest _) = True"
| "rw_waiting (ReadFutex _) = True"
| "rw_waiting ReadAsleep = True"
| "rw_waiting ReadReload = True"
| "rw_waiting ReadDecr = True"
| "rw_waiting (WriteTest _) = True"
| "rw_waiting (WriteFutex _) = True"
| "rw_waiting WriteAsleep = True"
| "rw_waiting WriteReload = True"
| "rw_waiting WriteDecr = True"
| "rw_waiting _ = False"

text \<open>What the place of a thread says of the locals it has read and of the owner field.\<close>

fun place_ok :: "tid \<Rightarrow> rw_pc \<Rightarrow> tid \<Rightarrow> bool" where
  "place_ok t Writing own \<longleftrightarrow> own = t"
| "place_ok t WUnlockAssert own \<longleftrightarrow> own = t"
| "place_ok t WUnlockLoad own \<longleftrightarrow> own = t"
| "place_ok t (WUnlockTest cur) own \<longleftrightarrow> cur = - 1 \<and> (own = t \<or> own = 0)"
| "place_ok t (WUnlockCas cur) own \<longleftrightarrow> cur = - 1 \<and> own = 0"
| "place_ok t WriteOwn own \<longleftrightarrow> own = 0"
| "place_ok t WriteOwner own \<longleftrightarrow> own = 0"
| "place_ok t WriteStore own \<longleftrightarrow> own = 0"
| "place_ok t (RUnlockTest cur) own \<longleftrightarrow> 0 < sint cur"
| "place_ok t (RUnlockCas cur) own \<longleftrightarrow> 0 < sint cur"
| "place_ok t (ReadCas cur) own \<longleftrightarrow> 0 \<le> sint cur"
| "place_ok t (TryReadCas cur) own \<longleftrightarrow> 0 \<le> sint cur"
| "place_ok t (WriteCas cur) own \<longleftrightarrow> cur = 0"
| "place_ok t (TryWriteCas cur) own \<longleftrightarrow> cur = 0"
| "place_ok t (ReadFutex cur) own \<longleftrightarrow> cur = - 1"
| "place_ok t (WriteFutex cur) own \<longleftrightarrow> cur \<noteq> 0"
| "place_ok t RWFatal own \<longleftrightarrow> False"
| "place_ok t _ own \<longleftrightarrow> True"

abbreviation readers :: "tid set \<Rightarrow> rwlock \<Rightarrow> nat" where
  "readers T s \<equiv> card (threads_at T rholding (rpc s))"

abbreviation writers :: "tid set \<Rightarrow> rwlock \<Rightarrow> nat" where
  "writers T s \<equiv> card (threads_at T wholding (rpc s))"

abbreviation rw_waits :: "tid set \<Rightarrow> rwlock \<Rightarrow> nat" where
  "rw_waits T s \<equiv> card (threads_at T rw_waiting (rpc s))"

declare card_0_eq [simp del]

definition rw_word_inv :: "tid set \<Rightarrow> rwlock \<Rightarrow> bool" where
  "rw_word_inv T s \<longleftrightarrow> rw_state s = (if writers T s = 0 then of_nat (readers T s) else - 1)
     \<and> writers T s \<le> 1 \<and> (writers T s = 1 \<longrightarrow> readers T s = 0) \<and> rw_waiters s = of_nat (rw_waits T s)"

definition rw_owner_inv :: "tid set \<Rightarrow> rwlock \<Rightarrow> bool" where
  "rw_owner_inv T s \<longleftrightarrow> (writers T s = 0 \<longrightarrow> rw_owner s = 0) \<and> (\<forall>t\<in>T. place_ok t (rpc s t) (rw_owner s))"

definition rw_pending :: "tid set \<Rightarrow> rwlock \<Rightarrow> bool" where
  "rw_pending T s \<longleftrightarrow> (\<exists>u\<in>T. rpc s u = UnlockCheck \<or> rpc s u = WakeAll)"

definition rw_wake_inv :: "tid set \<Rightarrow> rwlock \<Rightarrow> bool" where
  "rw_wake_inv T s \<longleftrightarrow>
     (\<forall>t\<in>T. (rpc s t = ReadAsleep \<longrightarrow> writers T s = 1 \<or> rw_pending T s)
          \<and> (rpc s t = WriteAsleep \<longrightarrow> rw_state s \<noteq> 0 \<or> rw_pending T s))"

definition rw_inv :: "tid set \<Rightarrow> rwlock \<Rightarrow> bool" where
  "rw_inv T s \<longleftrightarrow> rw_word_inv T s \<and> rw_owner_inv T s \<and> rw_wake_inv T s"

lemma rgoto_simps [simp]:
  "rw_state (rgoto t p s) = rw_state s" "rw_owner (rgoto t p s) = rw_owner s"
  "rw_waiters (rgoto t p s) = rw_waiters s" "rpc (rgoto t p s) = (rpc s)(t := p)"
  by (simp_all add: rgoto_def)

lemma rw_counts_goto:
  assumes "thread_set T" "t \<in> T"
  shows "card (threads_at T rholding ((rpc s)(t := p))) =
     (if rholding p then (if rholding (rpc s t) then readers T s else Suc (readers T s))
      else if rholding (rpc s t) then readers T s - 1 else readers T s)"
    "card (threads_at T wholding ((rpc s)(t := p))) =
     (if wholding p then (if wholding (rpc s t) then writers T s else Suc (writers T s))
      else if wholding (rpc s t) then writers T s - 1 else writers T s)"
    "card (threads_at T rw_waiting ((rpc s)(t := p))) =
     (if rw_waiting p then (if rw_waiting (rpc s t) then rw_waits T s else Suc (rw_waits T s))
      else if rw_waiting (rpc s t) then rw_waits T s - 1 else rw_waits T s)"
  using assms by (simp_all add: card_threads_at_update thread_set_def)

lemma rw_counts_pos:
  assumes "thread_set T" "t \<in> T"
  shows "rholding (rpc s t) \<Longrightarrow> 0 < readers T s" "wholding (rpc s t) \<Longrightarrow> 0 < writers T s"
    "rw_waiting (rpc s t) \<Longrightarrow> 0 < rw_waits T s"
  using assms by (auto simp: thread_set_def intro: card_threads_at_pos)

lemma rw_bounds:
  assumes "thread_set T"
  shows "readers T s < 2 ^ 30" "rw_waits T s < 2 ^ 30"
  using assms card_threads_at_le [of T rholding "rpc s"] card_threads_at_le [of T rw_waiting "rpc s"]
  by (simp_all add: thread_set_def)

lemma sint_of_nat_small: "n < 2 ^ 31 \<Longrightarrow> sint (of_nat n :: u32) = int n"
  by (simp add: signed_of_nat signed_take_bit_int_eq_self)

lemma unat_of_nat_small: "n < 2 ^ 31 \<Longrightarrow> unat (of_nat n :: u32) = n"
  by (simp add: unsigned_of_nat take_bit_nat_eq_self)

lemma rw_state_signed:
  assumes "thread_set T" "rw_word_inv T s"
  shows "sint (rw_state s) = (if writers T s = 0 then int (readers T s) else - 1)"
    "rw_state s = 0 \<longleftrightarrow> writers T s = 0 \<and> readers T s = 0"
    "rw_state s = - 1 \<longleftrightarrow> writers T s = 1"
proof -
  have b: "readers T s < 2 ^ 31" using rw_bounds(1) [OF assms(1), of s] by simp
  show i: "sint (rw_state s) = (if writers T s = 0 then int (readers T s) else - 1)"
    using assms(2) sint_of_nat_small [OF b] by (simp add: rw_word_inv_def)
  show "rw_state s = 0 \<longleftrightarrow> writers T s = 0 \<and> readers T s = 0"
    using assms(2) unat_of_nat_small [OF b] by (auto simp: rw_word_inv_def)
  show "rw_state s = - 1 \<longleftrightarrow> writers T s = 1"
    using i assms(2) by (cases "writers T s = 0") (auto simp: rw_word_inv_def le_Suc_eq)
qed

lemma only_writer:
  assumes "thread_set T" "writers T s \<le> 1" "t \<in> T" "u \<in> T" "wholding (rpc s t)" "wholding (rpc s u)"
  shows "t = u"
proof -
  have "t \<in> threads_at T wholding (rpc s)" "u \<in> threads_at T wholding (rpc s)" using assms by (auto simp: threads_at_def)
  moreover have "finite (threads_at T wholding (rpc s))" using assms(1) by (simp add: thread_set_def)
  ultimately show ?thesis using assms(2) by (metis card_le_Suc0_iff_eq One_nat_def)
qed

lemma rw_word_inv_upd [simp]: "rw_word_inv T (s\<lparr>rw_owner := x\<rparr>) = rw_word_inv T s"
  by (simp add: rw_word_inv_def)

lemma rw_word_inv_move:
  assumes "thread_set T" "t \<in> T" "rw_word_inv T s"
    and "rholding p = rholding (rpc s t)" "wholding p = wholding (rpc s t)" "rw_waiting p = rw_waiting (rpc s t)"
  shows "rw_word_inv T (rgoto t p s)"
  using assms rw_counts_pos [OF assms(1,2), of s] by (auto simp: rw_word_inv_def rw_counts_goto)

lemma rw_word_inv_read:
  assumes "thread_set T" "t \<in> T" "rw_word_inv T s" "0 \<le> sint (rw_state s)" "\<not> rholding (rpc s t)"
    "\<not> wholding (rpc s t)" "\<not> rw_waiting (rpc s t)"
  shows "rw_word_inv T (rgoto t ReadCheck (s\<lparr>rw_state := rw_state s + READ_INCREMENT\<rparr>))"
proof -
  have w: "writers T s = 0" using rw_state_signed(1) [OF assms(1,3)] assms(4) by (simp split: if_splits)
  then show ?thesis using assms by (simp add: rw_word_inv_def rw_counts_goto)
qed

lemma rw_word_inv_read_unlock:
  assumes "thread_set T" "t \<in> T" "rw_word_inv T s" "rholding (rpc s t)" "\<not> rholding p" "\<not> wholding p" "\<not> rw_waiting p"
  shows "rw_word_inv T (rgoto t p (s\<lparr>rw_state := rw_state s - READ_INCREMENT\<rparr>))"
proof -
  obtain r where r: "readers T s = Suc r" using rw_counts_pos(1) [OF assms(1,2,4)] by (metis gr0_implies_Suc)
  then have w: "writers T s = 0" using assms(3) by (auto simp: rw_word_inv_def le_Suc_eq)
  have "\<not> wholding (rpc s t)" "\<not> rw_waiting (rpc s t)" using assms(4) by (cases "rpc s t"; simp)+
  then show ?thesis using assms r w by (simp add: rw_word_inv_def rw_counts_goto)
qed

lemma rw_word_inv_write:
  assumes "thread_set T" "t \<in> T" "rw_word_inv T s" "rw_state s = 0" "\<not> rholding (rpc s t)"
    "\<not> wholding (rpc s t)" "\<not> rw_waiting (rpc s t)"
  shows "rw_word_inv T (rgoto t WriteOwn (s\<lparr>rw_state := WRITE_LOCKED\<rparr>))"
  using assms rw_state_signed(2) [OF assms(1,3)] by (simp add: rw_word_inv_def rw_counts_goto)

lemma rw_word_inv_write_unlock:
  assumes "thread_set T" "t \<in> T" "rw_word_inv T s" "wholding (rpc s t)" "\<not> rholding p" "\<not> wholding p" "\<not> rw_waiting p"
  shows "rw_word_inv T (rgoto t p (s\<lparr>rw_state := UNLOCKED\<rparr>))"
proof -
  have w: "writers T s = 1" "readers T s = 0"
    using assms(3) rw_counts_pos(2) [OF assms(1,2,4)] by (auto simp: rw_word_inv_def)
  have "\<not> rholding (rpc s t)" "\<not> rw_waiting (rpc s t)" using assms(4) by (cases "rpc s t"; simp)+
  then show ?thesis using assms w by (simp add: rw_word_inv_def rw_counts_goto)
qed

lemma rw_word_inv_wait:
  assumes "thread_set T" "t \<in> T" "rw_word_inv T s" "\<not> rw_waiting (rpc s t)" "rw_waiting p"
    "\<not> rholding p" "\<not> wholding p" "\<not> rholding (rpc s t)" "\<not> wholding (rpc s t)"
  shows "rw_word_inv T (rgoto t p (s\<lparr>rw_waiters := rw_waiters s + 1\<rparr>))"
  using assms by (simp add: rw_word_inv_def rw_counts_goto)

lemma rw_word_inv_unwait:
  assumes "thread_set T" "t \<in> T" "rw_word_inv T s" "rw_waiting (rpc s t)" "\<not> rw_waiting p"
    "\<not> rholding p" "\<not> wholding p" "\<not> rholding (rpc s t)" "\<not> wholding (rpc s t)"
  shows "rw_word_inv T (rgoto t p (s\<lparr>rw_waiters := rw_waiters s - 1\<rparr>))"
proof -
  obtain w where "rw_waits T s = Suc w" using rw_counts_pos(3) [OF assms(1,2,4)] by (metis gr0_implies_Suc)
  then show ?thesis using assms by (simp add: rw_word_inv_def rw_counts_goto)
qed

lemma rw_owner_invD: "rw_owner_inv T s \<Longrightarrow> t \<in> T \<Longrightarrow> place_ok t (rpc s t) (rw_owner s)"
  by (simp add: rw_owner_inv_def)

lemma wake_all_simps [simp]:
  "rw_state (wake_all s) = rw_state s" "rw_owner (wake_all s) = rw_owner s" "rw_waiters (wake_all s) = rw_waiters s"
  "rholding (rpc (wake_all s) u) = rholding (rpc s u)" "wholding (rpc (wake_all s) u) = wholding (rpc s u)"
  "rw_waiting (rpc (wake_all s) u) = rw_waiting (rpc s u)" "rpc (wake_all s) u \<noteq> ReadAsleep" "rpc (wake_all s) u \<noteq> WriteAsleep"
  "place_ok u (rpc (wake_all s) u) own = place_ok u (rpc s u) own"
  by (simp_all add: wake_all_def split: rw_pc.split)

lemma wake_all_counts [simp]:
  "threads_at T rholding (rpc (wake_all s)) = threads_at T rholding (rpc s)"
  "threads_at T wholding (rpc (wake_all s)) = threads_at T wholding (rpc s)"
  "threads_at T rw_waiting (rpc (wake_all s)) = threads_at T rw_waiting (rpc s)"
  by (simp_all add: threads_at_def)

lemma readers_no_writer:
  assumes "thread_set T" "rw_word_inv T s" "t \<in> T" "rholding (rpc s t)"
  shows "writers T s = 0"
proof -
  have "readers T s \<noteq> 0" using rw_counts_pos(1) [OF assms(1,3,4)] by simp
  then show ?thesis using assms(2) by (auto simp: rw_word_inv_def le_Suc_eq)
qed

lemma writer_one:
  assumes "thread_set T" "rw_word_inv T s" "t \<in> T" "wholding (rpc s t)"
  shows "writers T s = 1"
  using rw_counts_pos(2) [OF assms(1,3,4)] assms(2) by (simp add: rw_word_inv_def)

lemma reader_owner_zero:
  assumes "thread_set T" "rw_word_inv T s" "rw_owner_inv T s" "t \<in> T" "rholding (rpc s t)"
  shows "rw_owner s = 0"
  using readers_no_writer [OF assms(1,2,4,5)] assms(3) by (simp add: rw_owner_inv_def)

lemma thread_nonzero: "thread_set T \<Longrightarrow> t \<in> T \<Longrightarrow> t \<noteq> 0"
  by (auto simp: thread_set_def)

lemma rw_word_inv_step:
  assumes "rw_step T s s'" "thread_set T" "rw_word_inv T s" "rw_owner_inv T s"
  shows "rw_word_inv T s'"
  using assms(1)
proof (cases rule: rw_step.cases)
  case (Unlock t)
  then show ?thesis
    using rw_owner_invD [OF assms(4), of t] thread_nonzero [OF assms(2), of t] reader_owner_zero [OF assms(2-4), of t]
    by (auto simp: rw_Unlock_def HasExclusiveHolder_def rw_word_inv_move assms(2,3))
next
  case (read_cas t cur)
  then show ?thesis using rw_owner_invD [OF assms(4), of t] rw_word_inv_read [OF assms(2) _ assms(3), of t] by simp
next
  case (try_read_cas t cur)
  then show ?thesis using rw_owner_invD [OF assms(4), of t] rw_word_inv_read [OF assms(2) _ assms(3), of t] by simp
next
  case (write_cas t cur)
  then show ?thesis using rw_owner_invD [OF assms(4), of t] rw_word_inv_write [OF assms(2) _ assms(3), of t] by simp
next
  case (try_write_cas t cur)
  then show ?thesis using rw_owner_invD [OF assms(4), of t] rw_word_inv_write [OF assms(2) _ assms(3), of t] by simp
next
  case (read_check t)
  then show ?thesis using reader_owner_zero [OF assms(2-4), of t]
    by (simp add: HasExclusiveHolder_def rw_word_inv_move assms(2,3))
next
  case (runlock_assert t)
  then show ?thesis using reader_owner_zero [OF assms(2-4), of t]
    by (simp add: HasExclusiveHolder_def rw_word_inv_move assms(2,3))
next
  case (wunlock_assert t)
  then show ?thesis using rw_owner_invD [OF assms(4), of t]
    by (simp add: IsExclusiveHeld_def rw_word_inv_move assms(2,3))
next
  case (write_own t)
  then show ?thesis
    using rw_owner_invD [OF assms(4), of t] rw_state_signed(3) [OF assms(2,3)] writer_one [OF assms(2,3), of t]
    by (simp add: rw_word_inv_move assms(2,3))
next
  case (write_owner t)
  then show ?thesis using rw_owner_invD [OF assms(4), of t] by (simp add: rw_word_inv_move assms(2,3))
next
  case (write_store t)
  then show ?thesis by (simp add: rw_word_inv_move assms(2,3))
next
  case (wunlock_test t cur)
  then show ?thesis using rw_owner_invD [OF assms(4), of t] by (simp add: rw_word_inv_move assms(2,3))
next
  case (runlock_test t cur)
  then show ?thesis using rw_owner_invD [OF assms(4), of t] by (simp add: rw_word_inv_move assms(2,3))
next
  case (wunlock_cas t cur)
  then show ?thesis using rw_word_inv_write_unlock [OF assms(2) _ assms(3), of t UnlockCheck] by simp
next
  case (runlock_cas t cur)
  show ?thesis unfolding runlock_cas(1) Let_def runlock_cas(4) [symmetric]
    by (rule rw_word_inv_read_unlock [OF assms(2) _ assms(3)]) (use runlock_cas in auto)
next
  case (read_incr t cur)
  then show ?thesis using rw_word_inv_wait [OF assms(2) _ assms(3), of t "ReadTest cur"] by simp
next
  case (write_incr t cur)
  then show ?thesis using rw_word_inv_wait [OF assms(2) _ assms(3), of t "WriteTest cur"] by simp
next
  case (read_decr t)
  then show ?thesis using rw_word_inv_unwait [OF assms(2) _ assms(3), of t ReadLoad] by simp
next
  case (write_decr t)
  then show ?thesis using rw_word_inv_unwait [OF assms(2) _ assms(3), of t WriteLoad] by simp
next
  case (unlock_wake_all t)
  have "rw_word_inv T (wake_all s)" using assms(3) by (simp add: rw_word_inv_def)
  moreover have "rpc (wake_all s) t = WakeAll" using unlock_wake_all by (simp add: wake_all_def)
  ultimately show ?thesis using unlock_wake_all by (simp add: rw_word_inv_move assms(2))
qed (auto simp: Let_def rw_word_inv_move assms(2,3))

lemma place_ok_other: "\<not> wholding p \<Longrightarrow> place_ok u p own = place_ok u p own'"
  by (cases p) auto

lemma rw_owner_inv_upd [simp]:
  "rw_owner_inv T (s\<lparr>rw_state := x\<rparr>) = rw_owner_inv T s" "rw_owner_inv T (s\<lparr>rw_waiters := y\<rparr>) = rw_owner_inv T s"
  by (simp_all add: rw_owner_inv_def)

lemma rw_owner_inv_move:
  assumes "thread_set T" "t \<in> T" "rw_owner_inv T s" "wholding p = wholding (rpc s t)" "place_ok t p (rw_owner s)"
  shows "rw_owner_inv T (rgoto t p s)"
  using assms rw_counts_pos(2) [OF assms(1,2), of s] by (auto simp: rw_owner_inv_def rw_counts_goto)

lemma rw_owner_inv_writer:
  assumes "thread_set T" "t \<in> T" "rw_word_inv T s" "rw_owner_inv T s" "wholding (rpc s t)"
    and "rpc s' = (rpc s)(t := p)" "place_ok t p (rw_owner s')" "\<not> wholding p \<Longrightarrow> rw_owner s' = 0"
  shows "rw_owner_inv T s'"
proof -
  have "place_ok u (rpc s' u) (rw_owner s')" if "u \<in> T" for u
  proof (cases "u = t")
    case False
    then have "\<not> wholding (rpc s u)" using only_writer [OF assms(1) _ assms(2) that assms(5)] assms(3) by (auto simp: rw_word_inv_def)
    then have "place_ok u (rpc s u) (rw_owner s')" using rw_owner_invD [OF assms(4) that] place_ok_other by blast
    with False show ?thesis by (simp add: assms(6))
  qed (use assms in simp)
  moreover have "rw_owner s' = 0" if "writers T s' = 0"
  proof (rule assms(8), rule notI)
    assume "wholding p"
    then show False using that rw_counts_pos(2) [OF assms(1,2), of s'] by (simp add: assms(6))
  qed
  ultimately show ?thesis by (simp add: rw_owner_inv_def)
qed

lemma rw_owner_inv_write:
  assumes "thread_set T" "t \<in> T" "rw_word_inv T s" "rw_owner_inv T s" "rw_state s = 0"
  shows "rw_owner_inv T (rgoto t WriteOwn (s\<lparr>rw_state := x\<rparr>))"
proof -
  have "writers T s = 0" using rw_state_signed(2) [OF assms(1,3)] assms(5) by simp
  then have "rw_owner s = 0" using assms(4) by (simp add: rw_owner_inv_def)
  then show ?thesis using assms(4) by (auto simp: rw_owner_inv_def)
qed

lemma rw_owner_inv_step:
  assumes "rw_step T s s'" "thread_set T" "rw_word_inv T s" "rw_owner_inv T s"
  shows "rw_owner_inv T s'"
  using assms(1)
proof (cases rule: rw_step.cases)
  case (Unlock t)
  then show ?thesis
    using rw_owner_invD [OF assms(4), of t] thread_nonzero [OF assms(2), of t] reader_owner_zero [OF assms(2-4), of t]
    by (auto simp: rw_Unlock_def HasExclusiveHolder_def rw_owner_inv_move assms(2,4))
next
  case (read_check t)
  then show ?thesis using reader_owner_zero [OF assms(2-4), of t]
    by (simp add: HasExclusiveHolder_def rw_owner_inv_move assms(2,4))
next
  case (runlock_assert t)
  then show ?thesis using reader_owner_zero [OF assms(2-4), of t]
    by (simp add: HasExclusiveHolder_def rw_owner_inv_move assms(2,4))
next
  case (wunlock_assert t)
  then show ?thesis using rw_owner_invD [OF assms(4), of t]
    by (simp add: IsExclusiveHeld_def rw_owner_inv_move assms(2,4))
next
  case (write_cas t cur)
  then show ?thesis using rw_owner_invD [OF assms(4), of t] rw_owner_inv_write [OF assms(2) _ assms(3,4), of t] by simp
next
  case (try_write_cas t cur)
  then show ?thesis using rw_owner_invD [OF assms(4), of t] rw_owner_inv_write [OF assms(2) _ assms(3,4), of t] by simp
next
  case (write_own t)
  then have "rw_state s = - 1" using rw_state_signed(3) [OF assms(2,3)] writer_one [OF assms(2,3), of t] by simp
  then show ?thesis using write_own rw_owner_invD [OF assms(4), of t]
    by (simp add: rw_owner_inv_move assms(2,4))
next
  case (write_owner t)
  then show ?thesis using rw_owner_invD [OF assms(4), of t] by (simp add: rw_owner_inv_move assms(2,4))
next
  case (write_store t)
  then show ?thesis by (intro rw_owner_inv_writer [OF assms(2) _ assms(3,4), of t _ Writing]) simp_all
next
  case (wunlock_load t)
  then have "rw_state s = - 1" using rw_state_signed(3) [OF assms(2,3)] writer_one [OF assms(2,3), of t] by simp
  then show ?thesis using wunlock_load rw_owner_invD [OF assms(4), of t] by (simp add: rw_owner_inv_move assms(2,4))
next
  case (wunlock_cas_fail t cur)
  then have "rw_state s = - 1" using rw_state_signed(3) [OF assms(2,3)] writer_one [OF assms(2,3), of t] by simp
  then show ?thesis using wunlock_cas_fail rw_owner_invD [OF assms(4), of t] by (simp add: rw_owner_inv_move assms(2,4))
next
  case (wunlock_test t cur)
  then show ?thesis using rw_owner_invD [OF assms(4), of t]
    by (intro rw_owner_inv_writer [OF assms(2) _ assms(3,4), of t _ "WUnlockCas cur"]) simp_all
next
  case (wunlock_cas t cur)
  then show ?thesis using rw_owner_invD [OF assms(4), of t]
    by (intro rw_owner_inv_writer [OF assms(2) _ assms(3,4), of t _ UnlockCheck]) simp_all
next
  case (runlock_load t)
  then have "0 < sint (rw_state s)"
    using rw_state_signed(1) [OF assms(2,3)] readers_no_writer [OF assms(2,3), of t] rw_counts_pos(1) [OF assms(2), of t s] by simp
  then show ?thesis using runlock_load by (simp add: rw_owner_inv_move assms(2,4))
next
  case (runlock_cas_fail t cur)
  then have "0 < sint (rw_state s)"
    using rw_state_signed(1) [OF assms(2,3)] readers_no_writer [OF assms(2,3), of t] rw_counts_pos(1) [OF assms(2), of t s] by simp
  then show ?thesis using runlock_cas_fail by (simp add: rw_owner_inv_move assms(2,4))
next
  case (runlock_test t cur)
  then show ?thesis using rw_owner_invD [OF assms(4), of t] by (simp add: rw_owner_inv_move assms(2,4))
next
  case (unlock_wake_all t)
  have "rw_owner_inv T (wake_all s)" using assms(4) by (simp add: rw_owner_inv_def)
  moreover have "rpc (wake_all s) t = WakeAll" using unlock_wake_all by (simp add: wake_all_def)
  ultimately show ?thesis using unlock_wake_all by (simp add: rw_owner_inv_move assms(2))
qed (auto simp: Let_def rw_owner_inv_move assms(2,4))

text \<open>Sleepers after one thread has moved.\<close>

lemma rw_wake_inv_move:
  assumes "t \<in> T" "rw_wake_inv T s" "rpc s' = (rpc s)(t := p)"
    and "p \<noteq> ReadAsleep" "p \<noteq> WriteAsleep" "rpc s t \<noteq> UnlockCheck" "rpc s t \<noteq> WakeAll"
    and "writers T s = 1 \<Longrightarrow> writers T s' = 1" "rw_state s \<noteq> 0 \<Longrightarrow> rw_state s' \<noteq> 0"
  shows "rw_wake_inv T s'"
  unfolding rw_wake_inv_def
proof (intro ballI)
  fix u assume u: "u \<in> T"
  have pend: "rw_pending T s'" if "rw_pending T s"
    using that assms(3,6,7) by (auto simp: rw_pending_def)
  show "(rpc s' u = ReadAsleep \<longrightarrow> writers T s' = 1 \<or> rw_pending T s')
      \<and> (rpc s' u = WriteAsleep \<longrightarrow> rw_state s' \<noteq> 0 \<or> rw_pending T s')"
  proof (cases "u = t")
    case True
    then show ?thesis by (simp add: assms(3-5))
  next
    case False
    then have "rpc s' u = rpc s u" by (simp add: assms(3))
    then show ?thesis using assms(2,8,9) pend u unfolding rw_wake_inv_def by metis
  qed
qed

lemma rw_wake_inv_goto:
  assumes "thread_set T" "t \<in> T" "rw_wake_inv T s" "wholding p = wholding (rpc s t)"
    and "p \<noteq> ReadAsleep" "p \<noteq> WriteAsleep" "rpc s t \<noteq> UnlockCheck" "rpc s t \<noteq> WakeAll"
  shows "rw_wake_inv T (rgoto t p s)"
  using assms rw_counts_pos(2) [OF assms(1,2), of s]
  by (intro rw_wake_inv_move [OF assms(2,3), where p = p]) (auto simp: rw_counts_goto)

lemma rw_pending_move:
  assumes "rpc s' = (rpc s)(t := p)" "rpc s t \<noteq> UnlockCheck" "rpc s t \<noteq> WakeAll" "p \<noteq> UnlockCheck" "p \<noteq> WakeAll"
  shows "rw_pending T s' = rw_pending T s"
  unfolding rw_pending_def using assms by (intro bex_cong) auto

lemma rw_wake_inv_pending: "rw_pending T s \<Longrightarrow> rw_wake_inv T s"
  by (simp add: rw_wake_inv_def)

lemma rw_wake_inv_upd [simp]:
  "rw_wake_inv T (s\<lparr>rw_owner := x\<rparr>) = rw_wake_inv T s" "rw_wake_inv T (s\<lparr>rw_waiters := y\<rparr>) = rw_wake_inv T s"
  by (simp_all add: rw_wake_inv_def rw_pending_def)

lemma rw_wake_inv_step:
  assumes "rw_step T s s'" "thread_set T" "rw_word_inv T s" "rw_owner_inv T s" "rw_wake_inv T s"
  shows "rw_wake_inv T s'"
  using assms(1)
proof (cases rule: rw_step.cases)
  case (Unlock t)
  then show ?thesis
    using rw_owner_invD [OF assms(4), of t] thread_nonzero [OF assms(2), of t] reader_owner_zero [OF assms(2-4), of t]
    by (auto simp: rw_Unlock_def HasExclusiveHolder_def rw_wake_inv_goto assms(2,3,5))
next
  case (read_cas t cur)
  then have "writers T s = 0" "rw_state s + 1 \<noteq> 0"
    using rw_owner_invD [OF assms(4), of t] rw_state_signed [OF assms(2,3)] by (auto split: if_splits simp: eq_neg_iff_add_eq_0 [symmetric])
  then show ?thesis using read_cas
    by (intro rw_wake_inv_move [OF _ assms(5), of t _ ReadCheck]) simp_all
next
  case (try_read_cas t cur)
  then have "writers T s = 0" "rw_state s + 1 \<noteq> 0"
    using rw_owner_invD [OF assms(4), of t] rw_state_signed [OF assms(2,3)] by (auto split: if_splits simp: eq_neg_iff_add_eq_0 [symmetric])
  then show ?thesis using try_read_cas
    by (intro rw_wake_inv_move [OF _ assms(5), of t _ ReadCheck]) simp_all
next
  case (write_cas t cur)
  then have "writers T s = 0" using rw_owner_invD [OF assms(4), of t] rw_state_signed(2) [OF assms(2,3)] by simp
  then show ?thesis using write_cas
    by (intro rw_wake_inv_move [OF _ assms(5), of t _ WriteOwn]) simp_all
next
  case (try_write_cas t cur)
  then have "writers T s = 0" using rw_owner_invD [OF assms(4), of t] rw_state_signed(2) [OF assms(2,3)] by simp
  then show ?thesis using try_write_cas
    by (intro rw_wake_inv_move [OF _ assms(5), of t _ WriteOwn]) simp_all
next
  case (read_check t)
  then show ?thesis using reader_owner_zero [OF assms(2-4), of t]
    by (simp add: HasExclusiveHolder_def rw_wake_inv_goto assms(2,3,5))
next
  case (runlock_assert t)
  then show ?thesis using reader_owner_zero [OF assms(2-4), of t]
    by (simp add: HasExclusiveHolder_def rw_wake_inv_goto assms(2,3,5))
next
  case (wunlock_assert t)
  then show ?thesis using rw_owner_invD [OF assms(4), of t]
    by (simp add: IsExclusiveHeld_def rw_wake_inv_goto assms(2,3,5))
next
  case (write_own t)
  then have "rw_state s = - 1" using rw_state_signed(3) [OF assms(2,3)] writer_one [OF assms(2,3), of t] by simp
  then show ?thesis using write_own rw_owner_invD [OF assms(4), of t]
    by (simp add: rw_wake_inv_goto assms(2,3,5))
next
  case (write_owner t)
  then show ?thesis using rw_owner_invD [OF assms(4), of t] by (simp add: rw_wake_inv_goto assms(2,3,5))
next
  case (write_store t)
  then show ?thesis by (simp add: rw_wake_inv_goto assms(2,3,5))
next
  case (wunlock_test t cur)
  then show ?thesis using rw_owner_invD [OF assms(4), of t] by (simp add: rw_wake_inv_goto assms(2,3,5))
next
  case (runlock_test t cur)
  then show ?thesis using rw_owner_invD [OF assms(4), of t] by (simp add: rw_wake_inv_goto assms(2,3,5))
next
  case (wunlock_cas t cur)
  then show ?thesis by (intro rw_wake_inv_pending) (auto simp: rw_pending_def)
next
  case (runlock_cas t cur)
  show ?thesis
  proof (cases "cur - 1 = 0")
    case True
    then show ?thesis using runlock_cas by (intro rw_wake_inv_pending) (auto simp: rw_pending_def)
  next
    case False
    then show ?thesis using runlock_cas readers_no_writer [OF assms(2,3), of t]
      by (intro rw_wake_inv_move [OF _ assms(5), of t _ RWIdle]) (simp_all add: Let_def)
  qed
next
  case (unlock_check t)
  show ?thesis
  proof (cases "0 < rw_waiters s")
    case True
    then show ?thesis using unlock_check by (intro rw_wake_inv_pending) (auto simp: rw_pending_def)
  next
    case False
    then have "rw_waits T s = 0"
      using assms(3) unat_of_nat_small [of "rw_waits T s"] rw_bounds(2) [OF assms(2), of s]
      by (auto simp: rw_word_inv_def word_gt_0)
    then have "\<not> rw_waiting (rpc s u)" if "u \<in> T" for u using rw_counts_pos(3) [OF assms(2) that, of s] by auto
    then have "rpc s u \<noteq> ReadAsleep \<and> rpc s u \<noteq> WriteAsleep" if "u \<in> T" for u using that by force
    then show ?thesis using unlock_check False by (auto simp: rw_wake_inv_def split: if_splits)
  qed
next
  case (unlock_wake_all t)
  then show ?thesis by (auto simp: rw_wake_inv_def split: if_splits)
next
  case (read_futex t cur)
  show ?thesis
  proof (cases "rw_state s = cur")
    case True
    then have w: "writers T s = 1" using read_futex rw_owner_invD [OF assms(4), of t] rw_state_signed(3) [OF assms(2,3)] by simp
    then have "writers T s' = 1" using read_futex assms(2) by (simp add: rw_counts_goto)
    moreover have "rw_state s' \<noteq> 0" using read_futex True w rw_owner_invD [OF assms(4), of t] by simp
    ultimately show ?thesis by (simp add: rw_wake_inv_def)
  qed (use read_futex in \<open>simp add: rw_wake_inv_goto assms(2,3,5)\<close>)
next
  case (write_futex t cur)
  show ?thesis
  proof (cases "rw_state s = cur")
    case True
    then have z: "rw_state s \<noteq> 0" using write_futex rw_owner_invD [OF assms(4), of t] by simp
    have w: "writers T s' = writers T s" using write_futex assms(2) by (simp add: rw_counts_goto)
    have "rw_pending T s' = rw_pending T s" using write_futex by (intro rw_pending_move [where p = "rpc s' t"]) auto
    then show ?thesis using z w True assms(5) write_futex by (auto simp: rw_wake_inv_def split: if_splits)
  qed (use write_futex in \<open>simp add: rw_wake_inv_goto assms(2,3,5)\<close>)
qed (auto simp: Let_def rw_wake_inv_goto assms(2,3,5))

lemma rw_inv_init: "rw_init s \<Longrightarrow> rw_inv T s"
  by (simp add: rw_inv_def rw_word_inv_def rw_owner_inv_def rw_wake_inv_def rw_init_def threads_at_def)

lemma rw_inv_step: "thread_set T \<Longrightarrow> rw_inv T s \<Longrightarrow> rw_step T s s' \<Longrightarrow> rw_inv T s'"
  unfolding rw_inv_def using rw_word_inv_step rw_owner_inv_step rw_wake_inv_step by blast

interpretation rw: inductive_invariant "\<lambda>s. thread_set T \<and> rw_init s" "rw_step T" "\<lambda>s. thread_set T \<and> rw_inv T s" for T
  by unfold_locales (blast intro: rw_inv_init rw_inv_step)+

definition rw_reachable :: "tid set \<Rightarrow> rwlock \<Rightarrow> bool" where
  "rw_reachable T s \<longleftrightarrow> reachable (\<lambda>s. thread_set T \<and> rw_init s) (rw_step T) s"

lemma rw_reachableD: "rw_reachable T s \<Longrightarrow> thread_set T \<and> rw_inv T s"
  unfolding rw_reachable_def by (rule rw.reachable_inv)

subsection \<open>A concrete run\<close>

definition new_rwlock :: rwlock where
  "new_rwlock = \<lparr>rw_state = 0, rw_owner = 0, rw_waiters = 0, rpc = (\<lambda>_. RWIdle)\<rparr>"

lemma write_locked_reachable:
  assumes T: "thread_set T" "t \<in> T"
  shows "rw_reachable T (new_rwlock\<lparr>rw_state := - 1, rw_owner := t, rpc := (\<lambda>_. RWIdle)(t := Writing)\<rparr>)"
proof -
  let ?s0 = new_rwlock let ?s1 = "rgoto t WriteLoad ?s0" let ?s2 = "rgoto t (WriteCas 0) ?s1"
  let ?s3 = "rgoto t WriteOwn (?s2\<lparr>rw_state := - 1\<rparr>)" let ?s4 = "rgoto t WriteOwner ?s3" let ?s5 = "rgoto t WriteStore ?s4"
  let ?s6 = "rgoto t Writing (?s5\<lparr>rw_owner := t\<rparr>)"
  have "rw_step T ?s0 ?s1" by (rule rw_step.WriteLock [OF T(2)]) (simp add: new_rwlock_def)
  moreover have "rw_step T ?s1 ?s2" using rw_step.write_load [OF T(2), of ?s1] by (simp add: new_rwlock_def)
  moreover have "rw_step T ?s2 ?s3" using rw_step.write_cas [OF T(2), of ?s2 0] by (simp add: new_rwlock_def)
  moreover have "rw_step T ?s3 ?s4" using rw_step.write_own [OF T(2), of ?s3] by simp
  moreover have "rw_step T ?s4 ?s5" using rw_step.write_owner [OF T(2), of ?s4] by (simp add: new_rwlock_def)
  moreover have "rw_step T ?s5 ?s6" by (rule rw_step.write_store [OF T(2)]) simp
  moreover have "?s6 = new_rwlock\<lparr>rw_state := - 1, rw_owner := t, rpc := (\<lambda>_. RWIdle)(t := Writing)\<rparr>"
    by (simp add: new_rwlock_def rgoto_def)
  moreover have "reachable (\<lambda>s. thread_set T \<and> rw_init s) (rw_step T) ?s0"
    by (rule reachable.start) (simp add: T rw_init_def new_rwlock_def)
  ultimately show ?thesis
    unfolding rw_reachable_def
    by (metis (no_types, lifting) reachable.more)
qed

lemma rgoto_rgoto [simp]: "rgoto t p (rgoto t q s) = rgoto t p s"
  by (simp add: rgoto_def)

lemma read_brief_fails:
  assumes t: "t \<in> T" and w: "sint (rw_state s) < 0"
  shows "steps (rw_step T) (rgoto t (ReadBrief cur 1) s) (rgoto t (ReadIncr cur) s)"
proof -
  note snoc = steps.snoc [where step = "rw_step T"]
  have again: "rw_step T (rgoto t (ReadBrief cur i) s) (rgoto t (ReadBrief cur (Suc i)) s)" if "i < WAIT_ITER" for i
    using rw_step.read_brief [OF t, of "rgoto t (ReadBrief cur i) s" cur i] w that by simp
  have last: "rw_step T (rgoto t (ReadBrief cur WAIT_ITER) s) (rgoto t (ReadIncr cur) s)"
    using rw_step.read_brief [OF t, of "rgoto t (ReadBrief cur WAIT_ITER) s" cur WAIT_ITER] w by simp
  have "n < WAIT_ITER \<Longrightarrow> steps (rw_step T) (rgoto t (ReadBrief cur 1) s) (rgoto t (ReadBrief cur (Suc n)) s)" for n
  proof (induction n)
    case (Suc n)
    then show ?case using snoc [OF _ again [of "Suc n"]] by simp
  qed (simp add: steps.none)
  from this [of 49] show ?thesis using snoc [OF _ last] by simp
qed

lemma reader_sleeps:
  assumes t: "t \<in> T" and s: "rpc s t = RWIdle" "rw_state s = - 1"
  shows "steps (rw_step T) s (rgoto t ReadAsleep (s\<lparr>rw_waiters := rw_waiters s + 1\<rparr>))"
proof -
  note snoc = steps.snoc [where step = "rw_step T"]
  let ?s' = "s\<lparr>rw_waiters := rw_waiters s + 1\<rparr>"
  have a: "rw_step T s (rgoto t ReadLoad s)" by (rule rw_step.ReadLock [OF t s(1)])
  have b: "rw_step T (rgoto t ReadLoad s) (rgoto t (ReadBrief (- 1) 1) s)"
    using rw_step.read_load [OF t, of "rgoto t ReadLoad s"] s by simp
  have c: "rw_step T (rgoto t (ReadIncr (- 1)) s) (rgoto t (ReadTest (- 1)) ?s')"
    using rw_step.read_incr [OF t, of "rgoto t (ReadIncr (- 1)) s" "- 1"] by (simp add: rgoto_def)
  have d: "rw_step T (rgoto t (ReadTest (- 1)) ?s') (rgoto t (ReadFutex (- 1)) ?s')"
    using rw_step.read_test [OF t, of "rgoto t (ReadTest (- 1)) ?s'" "- 1"] by simp
  have e: "rw_step T (rgoto t (ReadFutex (- 1)) ?s') (rgoto t ReadAsleep ?s')"
    using rw_step.read_futex [OF t, of "rgoto t (ReadFutex (- 1)) ?s'" "- 1"] s by simp
  have "sint (rw_state s) < 0" by (simp add: s(2))
  then have "steps (rw_step T) s (rgoto t (ReadIncr (- 1)) s)"
    by (rule steps_trans [OF read_brief_fails [OF t] snoc [OF snoc [OF steps.none a] b]])
  then show ?thesis by (rule snoc [OF snoc [OF snoc [OF _ c] d] e])
qed

subsection \<open>Properties\<close>

text \<open>
  C3: readers and a writer exclude each other: in every interleaving, while one thread is past the acquisition of the write
  lock and not past its release, no other thread holds the lock for reading or for writing.
\<close>

theorem rwlock_exclusion:
  assumes "rw_reachable T s" "t \<in> T" "u \<in> T" "wholding (rpc s t)" "rholding (rpc s u) \<or> wholding (rpc s u)"
  shows "t = u"
proof -
  have inv: "thread_set T" "rw_word_inv T s" using rw_reachableD [OF assms(1)] by (simp_all add: rw_inv_def)
  have "\<not> rholding (rpc s u)" using readers_no_writer [OF inv assms(3)] writer_one [OF inv assms(2,4)] by auto
  then show ?thesis using only_writer [OF inv(1) _ assms(2,3,4)] inv(2) assms(5) by (auto simp: rw_word_inv_def)
qed

theorem rwlock_exclusion_witness:
  "\<exists>s. rw_reachable {1, 2} s \<and> rpc s 1 = Writing \<and> \<not> (rholding (rpc s 2) \<or> wholding (rpc s 2))"
proof -
  let ?s = "new_rwlock\<lparr>rw_state := - 1, rw_owner := 1, rpc := (\<lambda>_. RWIdle)(1 := Writing)\<rparr>"
  have r: "rw_reachable {1, 2} ?s" by (rule write_locked_reachable) (simp_all add: thread_set_def)
  have "\<not> (rholding (rpc ?s 2) \<or> wholding (rpc ?s 2))" using rwlock_exclusion [OF r, of 1 2] by auto
  with r show ?thesis by (intro exI [of _ ?s]) simp
qed

text \<open>
  C17: no assertion of the reader-writer lock fails and it never aborts; in particular \<open>Unlock\<close>, which
  tells a reader from a writer by the owner field, always releases the kind of lock the caller holds.
\<close>

theorem rwlock_never_fatal:
  assumes "rw_reachable T s" "t \<in> T"
  shows "rpc s t \<noteq> RWFatal \<and> (rpc s t = Reading \<longrightarrow> rpc (rw_Unlock t s) t = RUnlockAssert)
    \<and> (rpc s t = Writing \<longrightarrow> rpc (rw_Unlock t s) t = WUnlockAssert)"
proof -
  have inv: "thread_set T" "rw_word_inv T s" "rw_owner_inv T s" using rw_reachableD [OF assms(1)] by (simp_all add: rw_inv_def)
  show ?thesis
    using rw_owner_invD [OF inv(3) assms(2)] reader_owner_zero [OF inv assms(2)] thread_nonzero [OF inv(1) assms(2)]
    by (auto simp: rw_Unlock_def HasExclusiveHolder_def)
qed

theorem rwlock_never_fatal_witness:
  "\<exists>s. rw_reachable {1, 2} s \<and> rpc s 1 = Writing \<and> rpc (rw_Unlock 1 s) 1 = WUnlockAssert"
proof -
  let ?s = "new_rwlock\<lparr>rw_state := - 1, rw_owner := 1, rpc := (\<lambda>_. RWIdle)(1 := Writing)\<rparr>"
  have r: "rw_reachable {1, 2} ?s" by (rule write_locked_reachable) (simp_all add: thread_set_def)
  have "rpc (rw_Unlock 1 ?s) 1 = WUnlockAssert" using rwlock_never_fatal [OF r, of 1] by simp
  with r show ?thesis by (intro exI [of _ ?s]) simp
qed

text \<open>
  C4: no wake-up of the reader-writer lock is lost: a reader sleeps only while a writer holds the lock, and a writer
  only while somebody holds it, unless a thread that released it has the wake-up of all sleepers still to do.
\<close>

theorem rwlock_no_lost_wakeup:
  assumes "rw_reachable T s" "t \<in> T"
  shows "(rpc s t = ReadAsleep \<longrightarrow> (\<exists>u\<in>T. wholding (rpc s u) \<or> rpc s u = UnlockCheck \<or> rpc s u = WakeAll))
    \<and> (rpc s t = WriteAsleep \<longrightarrow>
        (\<exists>u\<in>T. wholding (rpc s u) \<or> rholding (rpc s u) \<or> rpc s u = UnlockCheck \<or> rpc s u = WakeAll))"
proof -
  have inv: "thread_set T" "rw_word_inv T s" "rw_wake_inv T s" using rw_reachableD [OF assms(1)] by (simp_all add: rw_inv_def)
  have w: "\<exists>u\<in>T. wholding (rpc s u)" if "writers T s \<noteq> 0"
    using that by (metis (mono_tags, lifting) card.empty threads_at_def empty_Collect_eq)
  have r: "\<exists>u\<in>T. rholding (rpc s u)" if "readers T s \<noteq> 0"
    using that by (metis (mono_tags, lifting) card.empty threads_at_def empty_Collect_eq)
  have p: "rw_pending T s \<Longrightarrow> \<exists>u\<in>T. rpc s u = UnlockCheck \<or> rpc s u = WakeAll" by (simp add: rw_pending_def)
  have "rpc s t = ReadAsleep \<Longrightarrow> writers T s = 1 \<or> rw_pending T s"
    "rpc s t = WriteAsleep \<Longrightarrow> writers T s \<noteq> 0 \<or> readers T s \<noteq> 0 \<or> rw_pending T s"
    using inv(3) assms(2) rw_state_signed(2) [OF inv(1,2)] by (auto simp: rw_wake_inv_def)
  then show ?thesis using w r p by (metis one_neq_zero)
qed

theorem rwlock_no_lost_wakeup_witness:
  "\<exists>s. rw_reachable {1, 2} s \<and> rpc s 2 = ReadAsleep
     \<and> (\<exists>u\<in>{1, 2}. wholding (rpc s u) \<or> rpc s u = UnlockCheck \<or> rpc s u = WakeAll)"
proof -
  let ?s = "new_rwlock\<lparr>rw_state := - 1, rw_owner := 1, rpc := (\<lambda>_. RWIdle)(1 := Writing)\<rparr>"
  let ?s' = "rgoto 2 ReadAsleep (?s\<lparr>rw_waiters := rw_waiters ?s + 1\<rparr>)"
  have "rw_reachable {1, 2} ?s" by (rule write_locked_reachable) (simp_all add: thread_set_def)
  moreover have "steps (rw_step {1, 2}) ?s ?s'" by (rule reader_sleeps) simp_all
  ultimately have r: "rw_reachable {1, 2} ?s'" unfolding rw_reachable_def by (rule reachable_steps [rotated])
  have a: "rpc ?s' 2 = ReadAsleep" by simp
  have "\<exists>u\<in>{1, 2}. wholding (rpc ?s' u) \<or> rpc ?s' u = UnlockCheck \<or> rpc ?s' u = WakeAll"
    using rwlock_no_lost_wakeup [OF r, of 2] a by blast
  with r a show ?thesis by blast
qed

end
