(* ===== verification/Bytecode.thy ===== *)
theory Bytecode
  imports BitUtils
begin

text \<open>
  \<open>libpandafile/bytecode_instruction.h\<close> and \<open>bytecode_instruction-inl.h\<close>: reading the operands of an instruction from
  its bytes, and the byte emission of \<open>libpandafile/bytecode_emitter.cpp\<close> (\<open>EmitImpl\<close>, \<open>Emit\<close>). The formats are those of
  \<open>isa/isa.yaml\<close>; the build generates the operand offsets from the format names as \<open>isa/isapi.rb\<close> does (operands follow
  each other from bit 8, or 16 after a prefix), and so does this theory. An instruction pointer is a position in the
  bytes of a method; a read outside them, which the fast mode does not check, is \<open>None\<close>.
\<close>

subsection \<open>Formats\<close>

datatype Format =
    F_NONE | F_V4_V4 | F_V8_V8 | F_V16_V16 | F_V4_IMM4 | F_V8_IMM8 | F_V8_IMM16 | F_V8_IMM32 | F_V8_IMM64
  | F_V8 | F_IMM8 | F_IMM16 | F_IMM32 | F_IMM64 | F_ID32 | F_V8_ID32 | F_ID16 | F_V4_V4_ID16 | F_V8_ID16
  | F_V4_V4_V4_V4_ID16 | F_V4_IMM4_ID16 | F_V4_V4_V4_IMM4_ID16 | F_IMM4_V4_V4_V4 | F_IMM4_V4_V4_V4_V4_V4 | F_IMM16_V16
  | F_PREF_NONE | F_PREF_V8 | F_PREF_IMM32 | F_PREF_V4_V4 | F_PREF_V8_IMM32

datatype opkind = OpV | OpImm | OpId

fun format_ops :: "Format \<Rightarrow> (opkind \<times> nat) list" where
  "format_ops F_NONE = []"
| "format_ops F_V4_V4 = [(OpV, 4), (OpV, 4)]"
| "format_ops F_V8_V8 = [(OpV, 8), (OpV, 8)]"
| "format_ops F_V16_V16 = [(OpV, 16), (OpV, 16)]"
| "format_ops F_V4_IMM4 = [(OpV, 4), (OpImm, 4)]"
| "format_ops F_V8_IMM8 = [(OpV, 8), (OpImm, 8)]"
| "format_ops F_V8_IMM16 = [(OpV, 8), (OpImm, 16)]"
| "format_ops F_V8_IMM32 = [(OpV, 8), (OpImm, 32)]"
| "format_ops F_V8_IMM64 = [(OpV, 8), (OpImm, 64)]"
| "format_ops F_V8 = [(OpV, 8)]"
| "format_ops F_IMM8 = [(OpImm, 8)]"
| "format_ops F_IMM16 = [(OpImm, 16)]"
| "format_ops F_IMM32 = [(OpImm, 32)]"
| "format_ops F_IMM64 = [(OpImm, 64)]"
| "format_ops F_ID32 = [(OpId, 32)]"
| "format_ops F_V8_ID32 = [(OpV, 8), (OpId, 32)]"
| "format_ops F_ID16 = [(OpId, 16)]"
| "format_ops F_V4_V4_ID16 = [(OpV, 4), (OpV, 4), (OpId, 16)]"
| "format_ops F_V8_ID16 = [(OpV, 8), (OpId, 16)]"
| "format_ops F_V4_V4_V4_V4_ID16 = [(OpV, 4), (OpV, 4), (OpV, 4), (OpV, 4), (OpId, 16)]"
| "format_ops F_V4_IMM4_ID16 = [(OpV, 4), (OpImm, 4), (OpId, 16)]"
| "format_ops F_V4_V4_V4_IMM4_ID16 = [(OpV, 4), (OpV, 4), (OpV, 4), (OpImm, 4), (OpId, 16)]"
| "format_ops F_IMM4_V4_V4_V4 = [(OpImm, 4), (OpV, 4), (OpV, 4), (OpV, 4)]"
| "format_ops F_IMM4_V4_V4_V4_V4_V4 = [(OpImm, 4), (OpV, 4), (OpV, 4), (OpV, 4), (OpV, 4), (OpV, 4)]"
| "format_ops F_IMM16_V16 = [(OpImm, 16), (OpV, 16)]"
| "format_ops F_PREF_NONE = []"
| "format_ops F_PREF_V8 = [(OpV, 8)]"
| "format_ops F_PREF_IMM32 = [(OpImm, 32)]"
| "format_ops F_PREF_V4_V4 = [(OpV, 4), (OpV, 4)]"
| "format_ops F_PREF_V8_IMM32 = [(OpV, 8), (OpImm, 32)]"

definition prefixed :: "Format \<Rightarrow> bool" where
  "prefixed f \<longleftrightarrow> f \<in> {F_PREF_NONE, F_PREF_V8, F_PREF_IMM32, F_PREF_V4_V4, F_PREF_V8_IMM32}"

definition opcode_bits :: "Format \<Rightarrow> nat" where
  "opcode_bits f = (if prefixed f then 16 else 8)"

definition InstSize :: "Format \<Rightarrow> nat" where
  "InstSize f = (opcode_bits f + sum_list (map snd (format_ops f))) div 8"

fun op_offsets :: "nat \<Rightarrow> (opkind \<times> nat) list \<Rightarrow> (opkind \<times> nat \<times> nat) list" where
  "op_offsets off [] = []"
| "op_offsets off ((k, w) # ops) = (k, off, w) # op_offsets (off + w) ops"

definition format_layout :: "Format \<Rightarrow> (opkind \<times> nat \<times> nat) list" where
  "format_layout f = op_offsets (opcode_bits f) (format_ops f)"

definition operands_of :: "opkind \<Rightarrow> Format \<Rightarrow> (nat \<times> nat) list" where
  "operands_of k f = map snd (filter (\<lambda>op. fst op = k) (format_layout f))"

definition HasId :: "Format \<Rightarrow> nat \<Rightarrow> bool" where "HasId f idx \<longleftrightarrow> idx < length (operands_of OpId f)"
definition HasVReg :: "Format \<Rightarrow> nat \<Rightarrow> bool" where "HasVReg f idx \<longleftrightarrow> idx < length (operands_of OpV f)"
definition HasImm :: "Format \<Rightarrow> nat \<Rightarrow> bool" where "HasImm f idx \<longleftrightarrow> idx < length (operands_of OpImm f)"

subsection \<open>Reading\<close>

definition ReadHelper ::
    "'s::len itself \<Rightarrow> bool \<Rightarrow> (nat \<Rightarrow> u8) \<Rightarrow> nat \<Rightarrow> nat \<Rightarrow> nat \<Rightarrow> nat \<Rightarrow> 'r::len word" where
  "ReadHelper S is_signed ReadByte byteoffset bytecount offset width =
     (let right_shift = offset mod 8;
          v = fold (\<lambda>i v. v OR push_bit (i * 8) (ucast (ReadByte (byteoffset + i)))) [0..<bytecount] (0 :: 's word);
          v = drop_bit right_shift v;
          left_shift = LENGTH('r) - width;
          x = push_bit left_shift (ucast v :: 'r word)
      in if is_signed then signed_drop_bit left_shift x else drop_bit left_shift x)"

definition byte_span :: "nat \<Rightarrow> nat \<Rightarrow> nat" where
  "byte_span offset width = (offset + width + 7) div 8 - offset div 8"

text \<open>\<open>Read64\<close> asserts that the bits it extracts fit into its 64-bit storage.\<close>

definition Read64 :: "bool \<Rightarrow> (nat \<Rightarrow> u8) \<Rightarrow> nat \<Rightarrow> nat \<Rightarrow> u64 option" where
  "Read64 is_signed ReadByte offset width =
     (if offset mod 8 + width \<le> 64
      then Some (ReadHelper TYPE(64) is_signed ReadByte (offset div 8) (byte_span offset width) offset width) else None)"

text \<open>An operand read in fast mode; the reads of an operand touch the bytes of its span.\<close>

definition ReadOp :: "bool \<Rightarrow> bytes \<Rightarrow> nat \<Rightarrow> nat \<times> nat \<Rightarrow> u64 option" where
  "ReadOp is_signed code pc op =
     (case op of (offset, width) \<Rightarrow>
        if pc + offset div 8 + byte_span offset width \<le> length code
        then Read64 is_signed (\<lambda>i. code ! (pc + i)) offset width else None)"

definition nth_op :: "opkind \<Rightarrow> Format \<Rightarrow> nat \<Rightarrow> (nat \<times> nat) option" where
  "nth_op k f idx = (if idx < length (operands_of k f) then Some (operands_of k f ! idx) else None)"

definition GetVReg :: "Format \<Rightarrow> nat \<Rightarrow> bytes \<Rightarrow> nat \<Rightarrow> nat option" where
  "GetVReg f idx code pc = (case nth_op OpV f idx of None \<Rightarrow> None | Some op \<Rightarrow> map_option unat (ReadOp False code pc op))"

definition GetImm :: "Format \<Rightarrow> nat \<Rightarrow> bytes \<Rightarrow> nat \<Rightarrow> u64 option" where
  "GetImm f idx code pc = (case nth_op OpImm f idx of None \<Rightarrow> None | Some op \<Rightarrow> ReadOp True code pc op)"

definition GetId :: "Format \<Rightarrow> nat \<Rightarrow> bytes \<Rightarrow> nat \<Rightarrow> u32 option" where
  "GetId f idx code pc = (case nth_op OpId f idx of None \<Rightarrow> None | Some op \<Rightarrow> map_option ucast (ReadOp False code pc op))"

definition GetOpcode :: "bytes \<Rightarrow> nat \<Rightarrow> u16 option" where
  "GetOpcode code pc =
     (if length code \<le> pc then None
      else let first_byte = code ! pc
           in if 0xec \<le> first_byte
              then (if length code \<le> pc + 1 then None else Some (push_bit 8 (ucast (code ! (pc + 1))) OR ucast first_byte))
              else Some (ucast first_byte))"

subsection \<open>Emission\<close>

fun write_bytes :: "bytes \<Rightarrow> nat \<Rightarrow> nat \<Rightarrow> u64 \<Rightarrow> bytes" where
  "write_bytes buf byte_offset 0 val = buf"
| "write_bytes buf byte_offset (Suc n) val =
     (write_bytes buf byte_offset n val)[byte_offset + n := ucast (drop_bit (n * 8) val AND 0xFF)]"

definition emit_field :: "bytes \<Rightarrow> nat \<Rightarrow> nat \<Rightarrow> u64 \<Rightarrow> bytes option" where
  "emit_field buf offset bitlen arg =
     (let byte_offset = offset div 8; bit_offset = offset mod 8
      in if bitlen = 4
         then Some (buf[byte_offset := buf ! byte_offset OR push_bit bit_offset (ucast arg AND 0xF)])
         else if bitlen \<in> {8, 16, 32, 64} then Some (write_bytes buf byte_offset (bitlen div 8) arg)
         else None)"

fun EmitImpl :: "bytes \<Rightarrow> nat list \<Rightarrow> u64 list \<Rightarrow> bytes option" where
  "EmitImpl buf offsets [] = Some buf"
| "EmitImpl buf (off # off' # offsets) (arg # args) =
     (case emit_field buf off (off' - off) arg of None \<Rightarrow> None | Some buf \<Rightarrow> EmitImpl buf (off' # offsets) args)"
| "EmitImpl buf _ (arg # args) = None"

definition emit_offsets :: "Format \<Rightarrow> nat list" where
  "emit_offsets f = 0 # map (\<lambda>(k, off, w). off) (format_layout f) @ [InstSize f * 8]"

definition EmitInst :: "Format \<Rightarrow> u16 \<Rightarrow> u64 list \<Rightarrow> bytes option" where
  "EmitInst f opcode args = EmitImpl (replicate (InstSize f) 0) (emit_offsets f) (ucast opcode # args)"

subsection \<open>Bit streams\<close>

text \<open>Bit \<open>n\<close> of the bytes, least significant bit of each byte first.\<close>

definition stream_bit :: "(nat \<Rightarrow> u8) \<Rightarrow> nat \<Rightarrow> bool" where
  "stream_bit rd n \<longleftrightarrow> bit (rd (n div 8)) (n mod 8)"

lemma byte_of_bit: "offset div 8 + (offset mod 8 + j) div 8 = (offset + j) div (8::nat)"
proof -
  have "offset + j = offset div 8 * 8 + (offset mod 8 + j)" by simp
  then show ?thesis by (metis div_mult_self3 zero_neq_numeral)
qed

lemma bit_of_byte: "j < 8 \<Longrightarrow> (n * 8 + j) div 8 = n \<and> (n * 8 + j) mod 8 = (j::nat)"
  by simp

lemma bit_fold_bytes:
  fixes v0 :: "'s::len word"
  shows "bit (fold (\<lambda>i v. v OR push_bit (i * 8) (ucast (rd (b + i) :: u8))) [0..<n] v0) k \<longleftrightarrow>
    bit v0 k \<or> (k < LENGTH('s) \<and> k < n * 8 \<and> bit (rd (b + k div 8)) (k mod 8))"
proof (induction n)
  case (Suc n)
  have "bit (push_bit (n * 8) (ucast (rd (b + n)) :: 's word)) k \<longleftrightarrow>
      k < LENGTH('s) \<and> n * 8 \<le> k \<and> k < Suc n * 8 \<and> bit (rd (b + k div 8)) (k mod 8)"
  proof (cases "n * 8 \<le> k \<and> k < Suc n * 8")
    case True
    then have k: "k = n * 8 + (k - n * 8)" "k - n * 8 < 8" by auto
    then have "k div 8 = n" "k mod 8 = k - n * 8"
      using bit_of_byte [OF k(2), of n] unfolding k(1) [symmetric] by auto
    then show ?thesis using True k(2) by (auto simp: bit_push_bit_iff bit_ucast_iff dest: bit_imp_le_length)
  next
    case False
    then show ?thesis by (auto simp: bit_push_bit_iff bit_ucast_iff dest: bit_imp_le_length)
  qed
  then show ?case by (auto simp: Suc.IH bit_or_iff)
qed simp

lemma ReadHelper_bit:
  fixes S :: "'s::len itself"
  assumes w: "0 < width" "width \<le> LENGTH('r)" and k: "k < LENGTH('r)"
    and s: "bytecount * 8 \<le> LENGTH('s)" "offset mod 8 + width \<le> bytecount * 8"
  shows "bit (ReadHelper S sg rd (offset div 8) bytecount offset width :: 'r::len word) k \<longleftrightarrow>
    (if k < width then stream_bit rd (offset + k) else sg \<and> stream_bit rd (offset + width - 1))"
proof -
  let ?L = "LENGTH('r)"
  define v :: "'s word" where
    "v = drop_bit (offset mod 8)
       (fold (\<lambda>i v. v OR push_bit (i * 8) (ucast (rd (offset div 8 + i)))) [0..<bytecount] 0)"
  have v: "bit v j \<longleftrightarrow> stream_bit rd (offset + j)" if "j < width" for j
  proof -
    have "offset mod 8 + j < bytecount * 8" using s(2) that by linarith
    then show ?thesis
      using s(1) byte_of_bit [of offset j] by (simp add: v_def bit_drop_bit_eq bit_fold_bytes stream_bit_def mod_add_left_eq)
  qed
  have r: "ReadHelper S sg rd (offset div 8) bytecount offset width =
      (if sg then signed_drop_bit (?L - width) (push_bit (?L - width) (ucast v :: 'r word))
       else drop_bit (?L - width) (push_bit (?L - width) (ucast v)))"
    unfolding ReadHelper_def Let_def v_def by (rule refl)
  have "bit (push_bit (?L - width) (ucast v :: 'r word)) (?L - width + j) \<longleftrightarrow> stream_bit rd (offset + j)" if "j < width" for j
    using that w v [OF that] by (auto simp: bit_simps)
  note x = this
  have top: "min (?L - width + k) (?L - 1) = ?L - width + (if k < width then k else width - 1)"
    using w k by auto
  show ?thesis unfolding r
  proof (cases sg)
    case True
    show "bit (if sg then signed_drop_bit (?L - width) (push_bit (?L - width) (ucast v :: 'r word))
        else drop_bit (?L - width) (push_bit (?L - width) (ucast v))) k \<longleftrightarrow>
        (if k < width then stream_bit rd (offset + k) else sg \<and> stream_bit rd (offset + width - 1))"
      unfolding bit_sdrop if_P [OF True] top using True k w x [of k] x [of "width - 1"] by simp
  next
    case False
    then show "bit (if sg then signed_drop_bit (?L - width) (push_bit (?L - width) (ucast v :: 'r word))
        else drop_bit (?L - width) (push_bit (?L - width) (ucast v))) k \<longleftrightarrow>
        (if k < width then stream_bit rd (offset + k) else sg \<and> stream_bit rd (offset + width - 1))"
      unfolding if_not_P [OF False] bit_drop_bit_eq o_def using w k x [of k] by (auto dest: bit_imp_le_length)
  qed
qed

subsection \<open>What emission writes\<close>

abbreviation buf_bit :: "bytes \<Rightarrow> nat \<Rightarrow> bool" where
  "buf_bit buf \<equiv> stream_bit (\<lambda>i. buf ! i)"

lemma length_write_bytes [simp]: "length (write_bytes buf b n val) = length buf"
  by (induction n) auto

lemma nth_write_bytes:
  "b + n \<le> length buf \<Longrightarrow> i < length buf \<Longrightarrow>
   write_bytes buf b n val ! i = (if b \<le> i \<and> i < b + n then ucast (drop_bit ((i - b) * 8) val) else buf ! i)"
proof (induction n)
  case (Suc n)
  have m: "(ucast (drop_bit (n * 8) val AND 0xFF) :: u8) = ucast (drop_bit (n * 8) val)"
    using and_mask_take_bit [of "drop_bit (n * 8) val" 8]
    by (intro bit_word_eqI) (auto simp: bit_simps mask_eq_exp_minus_1)
  show ?case
  proof (cases "i = b + n")
    case True
    then show ?thesis using Suc.prems by (simp add: m)
  next
    case False
    then show ?thesis using Suc by (auto simp: nth_list_update)
  qed
qed auto

text \<open>A field may be emitted at \<open>offset\<close> when it does not straddle a byte it shares with another field.\<close>

definition field_ok :: "nat \<Rightarrow> nat \<Rightarrow> bool" where
  "field_ok offset bitlen \<longleftrightarrow>
     bitlen = 4 \<and> offset mod 4 = 0 \<or> bitlen \<in> {8, 16, 32, 64} \<and> offset mod 8 = 0"

lemma emit_field_bits:
  assumes ok: "field_ok offset bitlen" and fit: "offset + bitlen \<le> 8 * length buf"
    and zero: "\<And>k. k < bitlen \<Longrightarrow> \<not> buf_bit buf (offset + k)"
  obtains buf' where "emit_field buf offset bitlen arg = Some buf'" "length buf' = length buf"
    "\<And>n. n < 8 * length buf \<Longrightarrow>
       buf_bit buf' n \<longleftrightarrow> (if offset \<le> n \<and> n < offset + bitlen then bit arg (n - offset) else buf_bit buf n)"
proof (cases "bitlen = 4")
  case True
  define b where "b = offset div 8"
  define r where "r = offset mod 8"
  have off: "offset = b * 8 + r" by (simp add: b_def r_def)
  have "offset mod 4 = 0" using ok True by (auto simp: field_ok_def)
  then have "r mod 4 = 0" unfolding r_def using mod_mod_cancel [of 4 8 offset] by simp
  moreover have "r < 8" by (simp add: r_def)
  ultimately have r: "r = 0 \<or> r = 4" by auto
  have b: "b < length buf" using fit off True by simp
  let ?buf' = "buf[b := buf ! b OR push_bit r (ucast arg AND 0xF)]"
  have "buf_bit ?buf' n \<longleftrightarrow> (if offset \<le> n \<and> n < offset + bitlen then bit arg (n - offset) else buf_bit buf n)"
    if "n < 8 * length buf" for n
  proof (cases "n div 8 = b")
    case False
    then have "\<not> (offset \<le> n \<and> n < offset + bitlen)"
      using off r True by auto
    then show ?thesis using False by (simp only: stream_bit_def nth_list_update_neq if_False)
  next
    case nb: True
    define j where "j = n mod 8"
    have n: "n = b * 8 + j" and j: "j < 8" using nb by (auto simp: j_def)
    have iff: "offset \<le> n \<and> n < offset + bitlen \<longleftrightarrow> r \<le> j \<and> j < r + 4" using off n True by auto
    have m4: "bit (ucast arg AND 0xF :: u8) i \<longleftrightarrow> i < 4 \<and> bit arg i" for i
      using and_mask_take_bit [of "ucast arg :: u8" 4] by (auto simp: bit_simps mask_eq_exp_minus_1)
    have "bit (?buf' ! b) j \<longleftrightarrow> bit (buf ! b) j \<or> r \<le> j \<and> j - r < 4 \<and> bit arg (j - r)"
      using b j by (simp add: bit_or_iff bit_push_bit_iff m4 del: push_bit_and)
    moreover have "\<not> bit (buf ! b) j" if "r \<le> j" "j < r + 4"
      using zero [of "j - r"] that True off j bit_of_byte [OF j, of b] by (simp add: stream_bit_def)
    ultimately show ?thesis
      unfolding iff using bit_of_byte [OF j, of b] n off by (auto simp: stream_bit_def)
  qed
  then show ?thesis
    using that [of ?buf'] True by (simp add: emit_field_def b_def r_def Let_def)
next
  case False
  then have len: "bitlen \<in> {8, 16, 32, 64}" and "offset mod 8 = 0" using ok by (auto simp: field_ok_def)
  define b where "b = offset div 8"
  have off: "offset = b * 8" using \<open>offset mod 8 = 0\<close> by (auto simp: b_def)
  define w where "w = bitlen div 8"
  have w: "bitlen = w * 8" using len by (auto simp: w_def)
  have fitw: "b + w \<le> length buf" using fit off w by simp
  let ?buf' = "write_bytes buf b w arg"
  have "buf_bit ?buf' n \<longleftrightarrow> (if offset \<le> n \<and> n < offset + bitlen then bit arg (n - offset) else buf_bit buf n)"
    if nl: "n < 8 * length buf" for n
  proof -
    define i where "i = n div 8"
    define j where "j = n mod 8"
    have n: "n = i * 8 + j" and j: "j < 8" by (auto simp: i_def j_def)
    have i: "i < length buf" using nl n by simp
    have iff: "offset \<le> n \<and> n < offset + bitlen \<longleftrightarrow> b \<le> i \<and> i < b + w" using off n j w by auto
    show ?thesis
      using i nth_write_bytes [OF fitw i, of arg] bit_of_byte [OF j, of i] j off unfolding iff
      by (auto simp: stream_bit_def n bit_ucast_iff bit_drop_bit_eq diff_mult_distrib add.commute)
  qed
  then show ?thesis using that [of ?buf'] False len by (auto simp: emit_field_def b_def w_def Let_def)
qed

text \<open>The offsets of a format: each field where the previous one ends, the last at the end of the instruction.\<close>

fun offsets_ok :: "nat \<Rightarrow> nat list \<Rightarrow> bool" where
  "offsets_ok bits [] = False"
| "offsets_ok bits [off] = (off = bits)"
| "offsets_ok bits (off # off' # offs) = (off \<le> off' \<and> off' \<le> bits \<and> field_ok off (off' - off) \<and> offsets_ok bits (off' # offs))"

lemma EmitImpl_bits:
  assumes "offsets_ok (8 * length buf) (off # offs)" "length args = length offs"
    "\<And>n. off \<le> n \<Longrightarrow> n < 8 * length buf \<Longrightarrow> \<not> buf_bit buf n"
  shows "\<exists>buf'. EmitImpl buf (off # offs) args = Some buf' \<and> length buf' = length buf \<and>
    (\<forall>n < off. n < 8 * length buf \<longrightarrow> buf_bit buf' n = buf_bit buf n) \<and>
    (\<forall>i < length args. \<forall>k < offs ! i - (off # offs) ! i. buf_bit buf' ((off # offs) ! i + k) = bit (args ! i) k)"
  using assms
proof (induction args arbitrary: buf off offs)
  case (Cons arg args)
  then obtain off' offs' where offs: "offs = off' # offs'" by (cases offs) auto
  have ok: "field_ok off (off' - off)" "offsets_ok (8 * length buf) (off' # offs')" "off \<le> off'" "off' \<le> 8 * length buf"
    using Cons.prems(1) by (auto simp: offs)
  obtain buf1 where 1: "emit_field buf off (off' - off) arg = Some buf1" "length buf1 = length buf"
    "\<And>n. n < 8 * length buf \<Longrightarrow>
       buf_bit buf1 n \<longleftrightarrow> (if off \<le> n \<and> n < off + (off' - off) then bit arg (n - off) else buf_bit buf n)"
    by (rule emit_field_bits [OF ok(1), of buf arg]) (use ok Cons.prems(3) in auto)
  have z: "\<not> buf_bit buf1 n" if "off' \<le> n" "n < 8 * length buf1" for n
    using that 1(2,3) Cons.prems(3) ok(3) by auto
  obtain buf' where 2: "EmitImpl buf1 (off' # offs') args = Some buf'" "length buf' = length buf1"
    "\<And>n. n < off' \<Longrightarrow> n < 8 * length buf \<Longrightarrow> buf_bit buf' n = buf_bit buf1 n"
    "\<And>i k. i < length args \<Longrightarrow> k < offs' ! i - (off' # offs') ! i \<Longrightarrow>
       buf_bit buf' ((off' # offs') ! i + k) = bit (args ! i) k"
    using Cons.IH [of buf1 off' offs'] ok(2) Cons.prems(2) z 1(2) by (auto simp: offs)
  have "buf_bit buf' ((off # offs) ! i + k) = bit ((arg # args) ! i) k"
    if "i < length (arg # args)" "k < offs ! i - (off # offs) ! i" for i k
  proof (cases i)
    case 0
    then show ?thesis using that 2(3) 1(3) ok(3,4) by (auto simp: offs)
  next
    case (Suc i')
    then show ?thesis using that 2(4) by (auto simp: offs)
  qed
  then show ?case using 1 2 ok(3) by (auto simp: offs)
qed auto

lemma map_fst_op_offsets: "map (\<lambda>(k, off, w). (k, w)) (op_offsets off ops) = ops"
  by (induction off ops rule: op_offsets.induct) auto

lemma length_op_offsets [simp]: "length (op_offsets off ops) = length ops"
  by (induction off ops rule: op_offsets.induct) auto

lemma length_format_layout [simp]: "length (format_layout f) = length (format_ops f)"
  by (simp add: format_layout_def)

lemma op_offsets_next:
  "i < length ops \<Longrightarrow> op_offsets off ops ! i = (k, o', w) \<Longrightarrow>
   (map (\<lambda>(k, off, w). off) (op_offsets off ops) @ [off + sum_list (map snd ops)]) ! Suc i = o' + w"
proof (induction off ops arbitrary: i rule: op_offsets.induct)
  case (2 off k' w' ops)
  show ?case
  proof (cases i)
    case 0
    then show ?thesis using 2 by (cases ops) auto
  next
    case (Suc i')
    then show ?thesis using 2 by (auto simp: add.assoc)
  qed
qed auto

lemma emit_offsets_eq:
  "emit_offsets f = 0 # map (\<lambda>(k, off, w). off) (format_layout f) @ [opcode_bits f + sum_list (map snd (format_ops f))]"
  by (cases f) (simp_all add: emit_offsets_def format_layout_def InstSize_def opcode_bits_def prefixed_def)

lemma emit_offsets_ok: "offsets_ok (8 * InstSize f) (emit_offsets f)"
  by (cases f) (simp_all add: emit_offsets_eq format_layout_def InstSize_def opcode_bits_def prefixed_def field_ok_def)

lemma layout_width: "i < length (format_ops f) \<Longrightarrow> format_layout f ! i = (k, off, w) \<Longrightarrow>
    field_ok off w \<and> off + w \<le> 8 * InstSize f \<and> 8 \<le> off"
  by (cases f)
    (auto simp: format_layout_def InstSize_def opcode_bits_def prefixed_def field_ok_def less_Suc_eq nth_Cons' split: if_splits)

text \<open>An instruction with its opcode: the second byte of a prefixed opcode is in the high half.\<close>

definition opcode_ok :: "Format \<Rightarrow> u16 \<Rightarrow> bool" where
  "opcode_ok f opcode \<longleftrightarrow> (if prefixed f then 0xec \<le> (ucast opcode :: u8) else opcode < 0xec)"

lemma EmitInst_bits:
  assumes "length args = length (format_ops f)"
  shows "\<exists>code. EmitInst f opcode args = Some code \<and> length code = InstSize f \<and>
    (\<forall>k < opcode_bits f. buf_bit code k = bit opcode k) \<and>
    (\<forall>i < length args. \<forall>o' w k'. format_layout f ! i = (k', o', w) \<longrightarrow> (\<forall>k < w. buf_bit code (o' + k) = bit (args ! i) k))"
proof -
  define offs where "offs = map (\<lambda>(k, off, w). off) (format_layout f) @ [opcode_bits f + sum_list (map snd (format_ops f))]"
  have e: "emit_offsets f = 0 # offs" by (simp add: emit_offsets_eq offs_def)
  have l: "length (ucast opcode # args) = length offs" using assms by (simp add: offs_def)
  have "\<not> buf_bit (replicate (InstSize f) 0) n" if "n < 8 * InstSize f" for n
    using that by (simp add: stream_bit_def)
  then obtain code where c: "EmitInst f opcode args = Some code" "length code = InstSize f"
    "\<And>i k. i < Suc (length args) \<Longrightarrow> k < offs ! i - (0 # offs) ! i \<Longrightarrow>
       buf_bit code ((0 # offs) ! i + k) = bit ((ucast opcode # args) ! i) k"
    using EmitImpl_bits [of "replicate (InstSize f) 0" 0 offs "ucast opcode # args"] emit_offsets_ok [of f] l
    unfolding EmitInst_def e by auto
  have o0: "offs ! 0 = opcode_bits f"
    by (cases "format_ops f") (auto simp: offs_def format_layout_def)
  have "opcode_bits f \<le> 16" by (simp add: opcode_bits_def)
  then have op: "buf_bit code k = bit opcode k" if "k < opcode_bits f" for k
    using c(3) [of 0 k] that o0 by (auto simp: bit_ucast_iff)
  have args: "buf_bit code (o' + k) = bit (args ! i) k"
    if "i < length args" "format_layout f ! i = (k', o', w)" "k < w" for i o' w k' k
  proof -
    have "offs ! i = o'" using that assms by (simp add: offs_def nth_append)
    moreover have "offs ! Suc i = o' + w"
      using op_offsets_next [of i "format_ops f" "opcode_bits f" k' o' w] that assms
      by (simp add: offs_def format_layout_def)
    ultimately show ?thesis using c(3) [of "Suc i" k] that by auto
  qed
  show ?thesis using c(1,2) op args by blast
qed

subsection \<open>Decoding what was emitted\<close>

definition kind_args :: "opkind \<Rightarrow> Format \<Rightarrow> u64 list \<Rightarrow> ((nat \<times> nat) \<times> u64) list" where
  "kind_args k f args = map (\<lambda>(op, a). (snd op, a)) (filter (\<lambda>(op, a). fst op = k) (zip (format_layout f) args))"

lemma operands_kind_args:
  assumes "length args = length (format_ops f)"
  shows "operands_of k f = map fst (kind_args k f args)"
proof -
  have "map snd (filter (\<lambda>op. fst op = k) ops) =
      map fst (map (\<lambda>(op, a). (snd op, a)) (filter (\<lambda>(op, a). fst op = k) (zip ops as)))"
    if "length as = length ops" for ops :: "(opkind \<times> nat \<times> nat) list" and as :: "u64 list"
    using that by (induction ops as rule: list_induct2') auto
  then show ?thesis using assms by (simp add: operands_of_def kind_args_def)
qed

lemma kind_args_nth:
  assumes "idx < length (kind_args k f args)" "kind_args k f args ! idx = ((off, w), a)"
  shows "\<exists>i < length args. i < length (format_ops f) \<and> format_layout f ! i = (k, off, w) \<and> args ! i = a"
proof -
  have "((off, w), a) \<in> set (kind_args k f args)" using assms nth_mem by metis
  then have "((k, off, w), a) \<in> set (zip (format_layout f) args)" by (auto simp: kind_args_def)
  then show ?thesis by (auto simp: in_set_zip)
qed

lemma nth_op_kind_args:
  assumes "length args = length (format_ops f)" "idx < length (kind_args k f args)"
    "kind_args k f args ! idx = ((off, w), a)"
  shows "nth_op k f idx = Some (off, w)"
  using assms by (simp add: nth_op_def operands_kind_args [OF assms(1)])

lemma field_span: "field_ok off w \<Longrightarrow> byte_span off w * 8 \<le> 64 \<and> off mod 8 + w \<le> byte_span off w * 8 \<and> 0 < w \<and> w \<le> 64"
proof -
  have s: "byte_span off w = (off mod 8 + (w + 7)) div 8"
    unfolding byte_span_def add.assoc byte_of_bit [of off "w + 7", symmetric] by simp
  assume "field_ok off w"
  then consider "w = 4" "off mod 4 = 0" | "w = 8 \<or> w = 16 \<or> w = 32 \<or> w = 64" "off mod 8 = 0"
    by (auto simp: field_ok_def)
  then show ?thesis
  proof cases
    case 1
    have "off mod 8 mod 4 = 0" using 1(2) mod_mod_cancel [of 4 8 off] by simp
    moreover have "off mod 8 < 8" by simp
    ultimately have "off mod 8 = 0 \<or> off mod 8 = 4" by auto
    then show ?thesis using s 1(1) by (elim disjE) (simp_all only:, simp_all)
  qed (auto simp: s)
qed

lemma ReadOp_emitted:
  assumes args: "length args = length (format_ops f)" and i: "i < length args" "format_layout f ! i = (k, off, w)"
    and e: "length code = InstSize f"
    and bits: "\<And>k. k < w \<Longrightarrow> buf_bit code (off + k) = bit (args ! i) k"
  shows "ReadOp sg (pre @ code @ post) (length pre) (off, w) =
    Some (if sg then signed_take_bit (w - 1) (args ! i) else take_bit w (args ! i))"
proof -
  have ok: "field_ok off w" "off + w \<le> 8 * InstSize f" using layout_width [of i f k off w] args i by auto
  note sp = field_span [OF ok(1)]
  have fit: "off div 8 + byte_span off w \<le> length code"
    using ok(2) e by (auto simp: byte_span_def)
  have sb: "stream_bit (\<lambda>i. (pre @ code @ post) ! (length pre + i)) n = buf_bit code n" if "n < off + w" for n
    using that ok(2) e by (auto simp: stream_bit_def nth_append)
  have last: "buf_bit code (off + w - 1) = bit (args ! i) (w - 1)" using bits [of "w - 1"] sp by (simp add: Nat.add_diff_assoc)
  define r where "r = (ReadHelper TYPE(64) sg (\<lambda>i. (pre @ code @ post) ! (length pre + i)) (off div 8) (byte_span off w) off w :: u64)"
  have "bit r j =
      bit (if sg then signed_take_bit (w - 1) (args ! i) else take_bit w (args ! i)) j" if "j < 64" for j
  proof -
    have "bit r j =
        (if j < w then bit (args ! i) j else sg \<and> bit (args ! i) (w - 1))"
      unfolding r_def using ReadHelper_bit [where 'r = 64 and S = "TYPE(64)" and width = w and k = j] sp that sb bits
      last by (simp del: One_nat_def)
    moreover have "min (w - 1) j = (if j < w then j else w - 1)" by auto
    ultimately show ?thesis using that sp by (auto simp: bit_signed_take_bit_iff bit_take_bit_iff)
  qed
  then have "r =
      (if sg then signed_take_bit (w - 1) (args ! i) else take_bit w (args ! i))"
    by (intro bit_word_eqI) auto
  then show ?thesis using fit sp by (simp add: ReadOp_def Read64_def r_def)
qed

lemma GetOpcode_emitted:
  assumes ok: "opcode_ok f opcode" and e: "length code = InstSize f"
    and bits: "\<And>k. k < opcode_bits f \<Longrightarrow> buf_bit code k = bit opcode k"
  shows "GetOpcode (pre @ code @ post) (length pre) = Some opcode"
proof -
  have l: "opcode_bits f \<le> 8 * length code" unfolding e
    by (cases f) (simp_all add: InstSize_def opcode_bits_def prefixed_def)
  have ne: "code \<noteq> []" using l by (auto simp: opcode_bits_def split: if_splits)
  have "bit (code ! 0) j = bit opcode j" if "j < 8" for j
    using bits [of j] that by (auto simp: stream_bit_def opcode_bits_def split: if_splits)
  then have c0: "(pre @ code @ post) ! length pre = ucast opcode"
    using ne by (intro bit_word_eqI) (auto simp: nth_append bit_ucast_iff)
  show ?thesis
  proof (cases "prefixed f")
    case True
    have n: "2 \<le> length code" using l True by (simp add: opcode_bits_def)
    have "bit (code ! 1) j = bit opcode (j + 8)" if "j < 8" for j
      using bits [of "1 * 8 + j"] bit_of_byte [OF that, of 1] that True by (simp add: opcode_bits_def stream_bit_def add.commute)
    then have c1: "(pre @ code @ post) ! Suc (length pre) = ucast (drop_bit 8 opcode)"
      using n by (intro bit_word_eqI) (auto simp: nth_append bit_ucast_iff bit_drop_bit_eq add.commute)
    have "push_bit 8 (ucast (ucast (drop_bit 8 opcode) :: u8)) OR ucast (ucast opcode :: u8) = opcode"
      by (intro bit_word_eqI) (auto simp: bit_simps)
    then show ?thesis using True ok n ne c0 c1 by (simp add: GetOpcode_def opcode_ok_def Let_def)
  next
    case False
    then have op: "opcode < 0xec" using ok by (simp add: opcode_ok_def)
    have u: "unat (ucast opcode :: u8) = unat opcode"
      using op by (intro unat_ucast_small) (simp add: word_less_nat_alt)
    then have "\<not> (0xec :: u8) \<le> ucast opcode" using op by (simp add: word_le_nat_alt word_less_nat_alt)
    moreover have "ucast (ucast opcode :: u8) = opcode"
      using u unat_lt_2p [of "ucast opcode :: u8"] by (intro word_eqI_unat) (simp add: unat_ucast_small)
    ultimately show ?thesis using ne c0 by (simp add: GetOpcode_def Let_def)
  qed
qed

text \<open>
  C5: For every format, opcode of the right kind and argument list, emission succeeds with an instruction of the format's
  size, and decoding it at its place in any code returns the opcode, each register and identifier argument cut to its
  operand's width, and each immediate sign-extended from it.
\<close>

theorem emit_decode_roundtrip:
  assumes "length args = length (format_ops f)" "opcode_ok f opcode"
  shows "\<exists>code. EmitInst f opcode args = Some code \<and> length code = InstSize f \<and>
    GetOpcode (pre @ code @ post) (length pre) = Some opcode \<and>
    map (\<lambda>i. GetVReg f i (pre @ code @ post) (length pre)) [0..<length (kind_args OpV f args)] =
      map (\<lambda>((off, w), a). Some (unat (take_bit w a))) (kind_args OpV f args) \<and>
    map (\<lambda>i. GetImm f i (pre @ code @ post) (length pre)) [0..<length (kind_args OpImm f args)] =
      map (\<lambda>((off, w), a). Some (signed_take_bit (w - 1) a)) (kind_args OpImm f args) \<and>
    map (\<lambda>i. GetId f i (pre @ code @ post) (length pre)) [0..<length (kind_args OpId f args)] =
      map (\<lambda>((off, w), a). Some (ucast (take_bit w a))) (kind_args OpId f args)"
proof -
  obtain code where c: "EmitInst f opcode args = Some code" "length code = InstSize f"
    "\<And>k. k < opcode_bits f \<Longrightarrow> buf_bit code k = bit opcode k"
    "\<And>i o' w k' k. i < length args \<Longrightarrow> format_layout f ! i = (k', o', w) \<Longrightarrow> k < w \<Longrightarrow>
      buf_bit code (o' + k) = bit (args ! i) k"
    using EmitInst_bits [OF assms(1), of opcode] by blast
  have rd: "nth_op k f idx = Some (off, w) \<and> ReadOp sg (pre @ code @ post) (length pre) (off, w) =
      Some (if sg then signed_take_bit (w - 1) a else take_bit w a)"
    if idx: "idx < length (kind_args k f args)" "kind_args k f args ! idx = ((off, w), a)" for k idx off w a sg
  proof -
    obtain i where i: "i < length args" "format_layout f ! i = (k, off, w)" "args ! i = a"
      using kind_args_nth [OF idx] by blast
    show ?thesis
      using ReadOp_emitted [OF assms(1) i(1,2) c(2) c(4) [OF i(1,2)], of sg pre post] i(3) nth_op_kind_args [OF assms(1) idx]
      by simp
  qed
  have "map (\<lambda>i. G i) [0..<length (kind_args k f args)] = map F (kind_args k f args)"
    if "\<And>idx off w a. idx < length (kind_args k f args) \<Longrightarrow> kind_args k f args ! idx = ((off, w), a) \<Longrightarrow>
        G idx = F ((off, w), a)" for k and G :: "nat \<Rightarrow> 'z" and F
    using that by (intro nth_equalityI) (auto, metis surj_pair)
  note lists = this
  show ?thesis
    using c(1,2) GetOpcode_emitted [OF assms(2) c(2,3), of pre post]
      rd [of _ OpV _ _ _ False] rd [of _ OpImm _ _ _ True] rd [of _ OpId _ _ _ False]
    by (intro exI [of _ code] conjI lists) (simp_all add: GetVReg_def GetImm_def GetId_def)
qed

theorem emit_decode_roundtrip_witness:
  "\<exists>code. EmitInst F_V4_IMM4 0x09 [3, 0xFFFFFFFFFFFFFFFB] = Some code \<and> length code = 2 \<and> GetOpcode code 0 = Some 0x09 \<and>
     GetVReg F_V4_IMM4 0 code 0 = Some 3 \<and> GetImm F_V4_IMM4 0 code 0 = Some 0xFFFFFFFFFFFFFFFB"
proof -
  have "opcode_ok F_V4_IMM4 0x09" by (simp add: opcode_ok_def prefixed_def)
  moreover have "kind_args OpV F_V4_IMM4 [3, 0xFFFFFFFFFFFFFFFB] = [((8, 4), 3)]"
    "kind_args OpImm F_V4_IMM4 [3, 0xFFFFFFFFFFFFFFFB] = [((12, 4), 0xFFFFFFFFFFFFFFFB)]"
    "InstSize F_V4_IMM4 = 2"
    by (simp_all add: kind_args_def format_layout_def opcode_bits_def prefixed_def InstSize_def)
  moreover have "signed_take_bit 3 (0xFFFFFFFFFFFFFFFB :: u64) = 0xFFFFFFFFFFFFFFFB" "take_bit 4 (3 :: u64) = 3"
    by code_simp+
  ultimately show ?thesis
    using emit_decode_roundtrip [where args = "[3, 0xFFFFFFFFFFFFFFFB]" and f = F_V4_IMM4 and opcode = "0x09" and pre = "[]" and post = "[]"] by auto
qed

end
