(* ===== verification/BytecodeSafe.thy ===== *)
theory BytecodeSafe
  imports Bytecode
begin

text \<open>
  \<open>libpandafile/bytecode_instruction.h\<close>: the two access modes of an instruction pointer. Memory is partial, so an
  access outside the mapped bytes is \<open>None\<close>. \<open>BytecodeInstBase<FAST>\<close> dereferences its pointer; \<open>BytecodeInstBase<SAFE>\<close>
  keeps the bytes it may touch (\<open>from_\<close> to \<open>to_\<close>, both included) and a sticky \<open>valid_\<close> flag. Addresses are integers,
  0 is the null pointer; an \<open>int32_t\<close> offset is a 32-bit word read as signed.
\<close>

type_synonym memory = "int \<Rightarrow> u8 option"

definition GetPointer_fast :: "int \<Rightarrow> u32 \<Rightarrow> int" where
  "GetPointer_fast pc offset = pc + sint offset"

definition ReadByte_fast :: "memory \<Rightarrow> int \<Rightarrow> nat \<Rightarrow> u8 option" where
  "ReadByte_fast mem pc offset = mem (GetPointer_fast pc (of_nat offset))"

record safe_inst =
  si_pc :: int
  si_from :: int
  si_to :: int
  si_valid :: bool

definition null_inst :: safe_inst where
  "null_inst = \<lparr>si_pc = 0, si_from = 0, si_to = 0, si_valid = False\<rparr>"

text \<open>The constructor asserts that the window is not empty and that \<open>pc\<close> lies in it.\<close>

definition make_inst :: "int \<Rightarrow> int \<Rightarrow> int \<Rightarrow> safe_inst option" where
  "make_inst pc from to =
     (if from \<le> to \<and> from \<le> pc \<and> pc \<le> to then Some \<lparr>si_pc = pc, si_from = from, si_to = to, si_valid = True\<rparr> else None)"

definition GetPointer_safe :: "safe_inst \<Rightarrow> u32 \<Rightarrow> nat \<Rightarrow> int \<times> safe_inst" where
  "GetPointer_safe st offset n =
     (let ptr_from = si_pc st + sint offset; ptr_to = ptr_from + int n - 1
      in if si_from st = 0 \<or> ptr_from < si_from st \<or> ptr_to > si_to st then (si_from st, st\<lparr>si_valid := False\<rparr>)
         else (ptr_from, st))"

definition IsLast_safe :: "safe_inst \<Rightarrow> nat \<Rightarrow> bool" where
  "IsLast_safe st n \<longleftrightarrow> si_pc st + int n > si_to st"

definition GetOffset :: "safe_inst \<Rightarrow> u32" where
  "GetOffset st = word_of_int (si_pc st - si_from st)"

definition ReadByte_safe :: "memory \<Rightarrow> safe_inst \<Rightarrow> nat \<Rightarrow> (u8 \<times> safe_inst) option" where
  "ReadByte_safe mem st offset =
     (let (ptr, st) = GetPointer_safe st (of_nat offset) 1
      in if si_valid st then map_option (\<lambda>b. (b, st)) (mem ptr) else Some (0, st))"

definition JumpTo_fast :: "int \<Rightarrow> u32 \<Rightarrow> int" where
  "JumpTo_fast pc offset = GetPointer_fast pc offset"

definition JumpTo_safe :: "safe_inst \<Rightarrow> u32 \<Rightarrow> (safe_inst \<times> safe_inst) option" where
  "JumpTo_safe st offset =
     (if \<not> si_valid st then Some (null_inst, st)
      else let (ptr, st) = GetPointer_safe st offset 1
           in if \<not> si_valid st then Some (null_inst, st)
              else map_option (\<lambda>next. (next, st)) (make_inst ptr (si_from st) (si_to st)))"

text \<open>The loop of \<open>ReadHelper\<close>, with the instruction's \<open>si_valid\<close> threaded through its reads.\<close>

fun read_loop :: "memory \<Rightarrow> safe_inst \<Rightarrow> nat \<Rightarrow> nat list \<Rightarrow> 's::len word \<Rightarrow> ('s word \<times> safe_inst) option" where
  "read_loop mem st byteoffset [] v = Some (v, st)"
| "read_loop mem st byteoffset (i # is) v =
     (case ReadByte_safe mem st (byteoffset + i) of None \<Rightarrow> None
      | Some (b, st) \<Rightarrow> read_loop mem st byteoffset is (v OR push_bit (i * 8) (ucast b)))"

definition ReadHelper_safe ::
    "'s::len itself \<Rightarrow> bool \<Rightarrow> memory \<Rightarrow> safe_inst \<Rightarrow> nat \<Rightarrow> nat \<Rightarrow> nat \<Rightarrow> nat \<Rightarrow> ('r::len word \<times> safe_inst) option" where
  "ReadHelper_safe S is_signed mem st byteoffset bytecount offset width =
     (case read_loop mem st byteoffset [0..<bytecount] (0 :: 's word) of None \<Rightarrow> None
      | Some (v, st) \<Rightarrow>
          (let v = drop_bit (offset mod 8) v; left_shift = LENGTH('r) - width; x = push_bit left_shift (ucast v :: 'r word)
           in Some (if is_signed then signed_drop_bit left_shift x else drop_bit left_shift x, st)))"

definition Read_fast :: "'s::len itself \<Rightarrow> bool \<Rightarrow> (nat \<Rightarrow> u8) \<Rightarrow> nat \<Rightarrow> nat \<Rightarrow> 'r::len word" where
  "Read_fast S is_signed rd offset width = ReadHelper S is_signed rd (offset div 8) (byte_span offset width) offset width"

definition Read64_safe :: "bool \<Rightarrow> memory \<Rightarrow> safe_inst \<Rightarrow> nat \<Rightarrow> nat \<Rightarrow> (u64 \<times> safe_inst) option" where
  "Read64_safe is_signed mem st offset width =
     (if offset mod 8 + width \<le> 64
      then ReadHelper_safe TYPE(64) is_signed mem st (offset div 8) (byte_span offset width) offset width else None)"

subsection \<open>The checked mode\<close>

text \<open>The instruction's window is mapped.\<close>

definition window_mapped :: "memory \<Rightarrow> safe_inst \<Rightarrow> bool" where
  "window_mapped mem st \<longleftrightarrow> (\<forall>a \<in> {si_from st..si_to st}. mem a \<noteq> None)"

definition in_window :: "safe_inst \<Rightarrow> nat \<Rightarrow> bool" where
  "in_window st offset \<longleftrightarrow> si_from st \<noteq> 0 \<and> si_pc st + sint (of_nat offset :: u32) \<in> {si_from st..si_to st}"

definition span_ok :: "safe_inst \<Rightarrow> nat \<Rightarrow> nat \<Rightarrow> bool" where
  "span_ok st b n \<longleftrightarrow> si_valid st \<and> (\<forall>i < n. in_window st (b + i))"

lemma ReadByte_safe_eq:
  assumes "window_mapped mem st"
  shows "ReadByte_safe mem st offset =
    (if si_valid st \<and> in_window st offset then map_option (\<lambda>b. (b, st)) (ReadByte_fast mem (si_pc st) offset)
     else Some (0, st\<lparr>si_valid := False\<rparr>))"
  using assms by (auto simp: ReadByte_safe_def GetPointer_safe_def in_window_def ReadByte_fast_def GetPointer_fast_def Let_def)

lemma window_invalid [simp]:
  "window_mapped mem (st\<lparr>si_valid := b\<rparr>) = window_mapped mem st" "in_window (st\<lparr>si_valid := b\<rparr>) n = in_window st n"
  by (simp_all add: window_mapped_def in_window_def)

lemma in_window_mapped: "window_mapped mem st \<Longrightarrow> in_window st n \<Longrightarrow> \<exists>b. ReadByte_fast mem (si_pc st) n = Some b"
  by (auto simp: window_mapped_def in_window_def ReadByte_fast_def GetPointer_fast_def)

text \<open>A run of checked reads ends, and stays valid exactly when every byte was in the window.\<close>

lemma read_loop_safe:
  fixes v :: "'s::len word"
  assumes "window_mapped mem st"
  shows "\<exists>v'. read_loop mem st b is v = Some (v', st\<lparr>si_valid := si_valid st \<and> (\<forall>i \<in> set is. in_window st (b + i))\<rparr>) \<and>
    (si_valid st \<and> (\<forall>i \<in> set is. in_window st (b + i)) \<longrightarrow>
      v' = fold (\<lambda>i v. v OR push_bit (i * 8) (ucast (the (ReadByte_fast mem (si_pc st) (b + i))))) is v)"
  using assms
proof (induction "is" arbitrary: st v)
  case (Cons i "is")
  show ?case
  proof (cases "si_valid st \<and> in_window st (b + i)")
    case True
    then obtain x where x: "ReadByte_fast mem (si_pc st) (b + i) = Some x" using in_window_mapped Cons.prems by blast
    show ?thesis using Cons.IH [OF Cons.prems, of "v OR push_bit (i * 8) (ucast x)"] True x Cons.prems
      by (simp add: ReadByte_safe_eq)
  next
    case False
    have "window_mapped mem (st\<lparr>si_valid := False\<rparr>)" using Cons.prems by simp
    from Cons.IH [OF this, of v] show ?thesis using False Cons.prems by (auto simp: ReadByte_safe_eq)
  qed
qed simp

lemma ReadHelper_safe_fast:
  fixes S :: "'s::len itself"
  assumes "window_mapped mem st"
  shows "\<exists>r. ReadHelper_safe S sg mem st b n offset width = Some (r, st\<lparr>si_valid := span_ok st b n\<rparr>) \<and>
    (span_ok st b n \<longrightarrow> r = ReadHelper S sg (\<lambda>i. the (ReadByte_fast mem (si_pc st) i)) b n offset width)"
proof -
  have "span_ok st b n \<longleftrightarrow> si_valid st \<and> (\<forall>i \<in> set [0..<n]. in_window st (b + i))" by (auto simp: span_ok_def)
  with read_loop_safe [OF assms, of b "[0..<n]" "0 :: 's word"] show ?thesis
    by (auto simp: ReadHelper_safe_def ReadHelper_def Let_def)
qed

text \<open>
  C19: In the checked mode a read of any operand and a jump by any offset never touch memory outside the window. A read is
  refused only by the assertion on its width, exactly when the fast mode's is; otherwise the instruction stays valid
  exactly when all the bytes read lie in the window, and then the result is the one of the fast mode. A jump always has a
  result: the fast mode's target with the same window (the assertions of the constructor hold), or, when that is outside,
  an invalid instruction.
\<close>

theorem safe_reads_checked:
  assumes "window_mapped mem st"
  shows "(if offset mod 8 + width \<le> 64
      then \<exists>r. Read64_safe sg mem st offset width = Some (r, st\<lparr>si_valid := span_ok st (offset div 8) (byte_span offset width)\<rparr>) \<and>
        (span_ok st (offset div 8) (byte_span offset width) \<longrightarrow> Read64 sg (\<lambda>i. the (ReadByte_fast mem (si_pc st) i)) offset width = Some r)
      else Read64_safe sg mem st offset width = None \<and> (\<forall>rd. Read64 sg rd offset width = None)) \<and>
    (\<exists>next st'. JumpTo_safe st jump = Some (next, st') \<and>
       (if si_valid st \<and> si_from st \<noteq> 0 \<and> JumpTo_fast (si_pc st) jump \<in> {si_from st..si_to st}
        then make_inst (JumpTo_fast (si_pc st) jump) (si_from st) (si_to st) = Some next \<and> window_mapped mem next \<and> st' = st
        else \<not> si_valid next \<and> \<not> si_valid st'))"
proof -
  have "window_mapped mem \<lparr>si_pc = p, si_from = si_from st, si_to = si_to st, si_valid = True\<rparr>" for p
    using assms by (simp add: window_mapped_def)
  then have "\<exists>next st'. JumpTo_safe st jump = Some (next, st') \<and>
       (if si_valid st \<and> si_from st \<noteq> 0 \<and> JumpTo_fast (si_pc st) jump \<in> {si_from st..si_to st}
        then make_inst (JumpTo_fast (si_pc st) jump) (si_from st) (si_to st) = Some next \<and> window_mapped mem next \<and> st' = st
        else \<not> si_valid next \<and> \<not> si_valid st')"
    by (auto simp: JumpTo_safe_def GetPointer_safe_def JumpTo_fast_def GetPointer_fast_def null_inst_def make_inst_def Let_def)
  then show ?thesis
    using ReadHelper_safe_fast [OF assms, of "TYPE(64)" sg "offset div 8" "byte_span offset width" offset width]
    by (auto simp: Read64_safe_def Read64_def)
qed

theorem safe_reads_checked_witness:
  "\<exists>st r. make_inst 101 100 103 = Some st \<and>
     Read64_safe True (\<lambda>a. if 100 \<le> a \<and> a \<le> 103 then Some 0xFE else None) st 8 16 = Some (r, st)"
proof -
  let ?mem = "\<lambda>a::int. if 100 \<le> a \<and> a \<le> 103 then Some (0xFE :: u8) else None"
  define st where "st = \<lparr>si_pc = 101, si_from = 100, si_to = 103, si_valid = True\<rparr>"
  have m: "window_mapped ?mem st" by (auto simp: window_mapped_def st_def)
  have "span_ok st (8 div 8) (byte_span 8 16)"
    by (auto simp: in_window_def st_def span_ok_def byte_span_def less_Suc_eq numeral_2_eq_2)
  then have "\<exists>r. Read64_safe True ?mem st 8 16 = Some (r, st)" using safe_reads_checked [OF m, of 8 16 True 0] by (auto simp: st_def)
  then show ?thesis by (intro exI [of _ st]) (simp add: make_inst_def st_def)
qed

subsection \<open>Compile-time and run-time reads\<close>

text \<open>
  C20: The read specialised at compile time, with storage and result types just wide enough, agrees with the generic
  64-bit read after widening by the operand's signedness.
\<close>

theorem read_agrees_with_read64:
  fixes x :: "'r::len word"
  assumes "field_ok offset width" "width \<le> LENGTH('r)" "LENGTH('r) \<le> 64" "byte_span offset width * 8 \<le> LENGTH('s)"
    and "x = Read_fast (S :: 's::len itself) sg rd offset width"
  shows "Read64 sg rd offset width = Some (if sg then scast x else ucast x)"
proof -
  note sp = field_span [OF assms(1)]
  define r where "r = (ReadHelper TYPE(64) sg rd (offset div 8) (byte_span offset width) offset width :: u64)"
  have "r = (if sg then scast x else ucast x)"
  proof (rule bit_word_eqI)
    fix j
    assume "j < LENGTH(64)"
    then have j: "j < 64" by simp
    have R: "bit x k = (if k < width then stream_bit rd (offset + k) else sg \<and> stream_bit rd (offset + width - 1))"
      if "k < LENGTH('r)" for k
      unfolding assms(5) Read_fast_def using that assms(2,4) sp by (intro ReadHelper_bit) auto
    have L: "bit r j = (if j < width then stream_bit rd (offset + j) else sg \<and> stream_bit rd (offset + width - 1))"
      unfolding r_def using j sp by (intro ReadHelper_bit) auto
    have m: "min (LENGTH('r) - 1) j = (if j < LENGTH('r) then j else LENGTH('r) - 1)" by auto
    have S: "bit (scast x :: u64) j = bit x (if j < LENGTH('r) then j else LENGTH('r) - 1)"
      unfolding m [symmetric] using j by (simp add: bit_signed_iff)
    have U: "bit (ucast x :: u64) j = (j < LENGTH('r) \<and> bit x j)"
      using j by (auto simp: bit_ucast_iff dest: bit_imp_le_length)
    have last: "(if LENGTH('r) - 1 < width then offset + (LENGTH('r) - 1) else offset + width - 1) = offset + width - 1"
      using assms(2) sp by auto
    show "bit r j = bit (if sg then scast x else ucast x :: u64) j"
    proof (cases "j < LENGTH('r)")
      case True
      then show ?thesis using R [OF True] unfolding L by (cases sg) (simp_all only: L S U if_True if_False simp_thms)
    next
      case False
      have "bit x (LENGTH('r) - 1) = (stream_bit rd (offset + width - 1))" if sg
        using R [of "LENGTH('r) - 1"] that last by (simp del: One_nat_def split: if_splits)
      moreover have "\<not> j < width" using False assms(2) by simp
      ultimately show ?thesis using False by (simp add: L S U del: One_nat_def)
    qed
  qed
  then show ?thesis using sp by (simp add: Read64_def r_def)
qed

theorem read_agrees_with_read64_witness:
  "Read64 True (\<lambda>i. 0xF7) 12 4 = Some (scast (Read_fast TYPE(8) True (\<lambda>i. 0xF7) 12 4 :: u8))"
  using read_agrees_with_read64 [of 12 4 "Read_fast TYPE(8) True (\<lambda>i. 0xF7) 12 4 :: u8" "TYPE(8)" True "\<lambda>i. 0xF7"]
  by (simp add: field_ok_def byte_span_def)

end
