(* ===== verification/TaggedValue.thy ===== *)
theory TaggedValue
  imports Prelude
begin

text \<open>
  \<open>runtime/include/coretypes/tagged_value.h\<close>: the NaN-boxed values of dynamic languages. A value is a 64-bit word; a
  double is given by its bit pattern. A constructor or accessor whose assertion fails is \<open>None\<close>.
\<close>

type_synonym TaggedType = u64

definition TAG_BITS_SHIFT :: nat where "TAG_BITS_SHIFT = 48"
definition TAG_MASK :: TaggedType where "TAG_MASK = push_bit TAG_BITS_SHIFT (push_bit 16 1 - 1)"
definition TAG_INT :: TaggedType where "TAG_INT = push_bit TAG_BITS_SHIFT 0xFFFF"
definition TAG_OBJECT :: TaggedType where "TAG_OBJECT = 0"
definition TAG_SPECIAL_MASK :: TaggedType where "TAG_SPECIAL_MASK = 0xFF"
definition TAG_SPECIAL_VALUE :: TaggedType where "TAG_SPECIAL_VALUE = 0x02"
definition TAG_BOOLEAN :: TaggedType where "TAG_BOOLEAN = 0x04"
definition TAG_UNDEFINED :: TaggedType where "TAG_UNDEFINED = 0x08"
definition TAG_EXCEPTION :: TaggedType where "TAG_EXCEPTION = 0x10"
definition TAG_WEAK_FILTER :: TaggedType where "TAG_WEAK_FILTER = 0x03"
definition TAG_WEAK_MASK :: TaggedType where "TAG_WEAK_MASK = TAG_OBJECT OR 0x01"
definition VALUE_HOLE :: TaggedType where "VALUE_HOLE = TAG_OBJECT OR 0"
definition VALUE_NULL :: TaggedType where "VALUE_NULL = TAG_OBJECT OR TAG_SPECIAL_VALUE"
definition VALUE_FALSE :: TaggedType where "VALUE_FALSE = TAG_OBJECT OR TAG_BOOLEAN OR TAG_SPECIAL_VALUE OR 0"
definition VALUE_TRUE :: TaggedType where "VALUE_TRUE = TAG_OBJECT OR TAG_BOOLEAN OR TAG_SPECIAL_VALUE OR 1"
definition VALUE_UNDEFINED :: TaggedType where "VALUE_UNDEFINED = TAG_OBJECT OR TAG_SPECIAL_VALUE OR TAG_UNDEFINED"
definition VALUE_EXCEPTION :: TaggedType where "VALUE_EXCEPTION = TAG_OBJECT OR TAG_SPECIAL_VALUE OR TAG_EXCEPTION"
definition DOUBLE_ENCODE_OFFSET :: TaggedType where "DOUBLE_ENCODE_OFFSET = push_bit 48 1"

definition tagged_of_int :: "u32 \<Rightarrow> TaggedType" where
  "tagged_of_int v = scast v OR TAG_INT"

definition IsImpureNaN :: "u64 \<Rightarrow> bool" where
  "IsImpureNaN d \<longleftrightarrow> d \<ge> TAG_INT - DOUBLE_ENCODE_OFFSET"

definition tagged_of_double :: "u64 \<Rightarrow> TaggedType option" where
  "tagged_of_double d = (if IsImpureNaN d then None else Some (d + DOUBLE_ENCODE_OFFSET))"

text \<open>The constructors from unsigned and 64-bit integers convert to double (\<open>to_double\<close>) when 32 bits do not hold the value.\<close>

definition tagged_of_uint :: "(u32 \<Rightarrow> u64) \<Rightarrow> u32 \<Rightarrow> TaggedType option" where
  "tagged_of_uint to_double v = (if v <s 0 then tagged_of_double (to_double v) else Some (tagged_of_int v))"

definition tagged_of_int64 :: "(u64 \<Rightarrow> u64) \<Rightarrow> u64 \<Rightarrow> TaggedType option" where
  "tagged_of_int64 to_double v =
     (if scast (ucast v :: u32) \<noteq> v then tagged_of_double (to_double v) else Some (tagged_of_int (ucast v)))"

definition tagged_of_bool :: "bool \<Rightarrow> TaggedType" where
  "tagged_of_bool v = (if v then 1 else 0) OR TAG_OBJECT OR TAG_BOOLEAN OR TAG_SPECIAL_VALUE"

definition tagged_of_object :: "u64 \<Rightarrow> TaggedType" where
  "tagged_of_object v = v"

definition IsInt :: "TaggedType \<Rightarrow> bool" where "IsInt v \<longleftrightarrow> v AND TAG_MASK = TAG_INT"
definition IsObject :: "TaggedType \<Rightarrow> bool" where "IsObject v \<longleftrightarrow> v AND TAG_MASK = TAG_OBJECT"
definition IsDouble :: "TaggedType \<Rightarrow> bool" where "IsDouble v \<longleftrightarrow> \<not> IsInt v \<and> \<not> IsObject v"
definition IsHole :: "TaggedType \<Rightarrow> bool" where "IsHole v \<longleftrightarrow> v = VALUE_HOLE"
definition IsSpecial :: "TaggedType \<Rightarrow> bool" where
  "IsSpecial v \<longleftrightarrow> v AND NOT TAG_SPECIAL_MASK = 0 \<and> (v AND TAG_SPECIAL_VALUE \<noteq> 0 \<or> IsHole v)"
definition IsHeapObject :: "TaggedType \<Rightarrow> bool" where "IsHeapObject v \<longleftrightarrow> IsObject v \<and> \<not> IsSpecial v"
definition IsNumber :: "TaggedType \<Rightarrow> bool" where "IsNumber v \<longleftrightarrow> \<not> IsObject v"
definition IsBoolean :: "TaggedType \<Rightarrow> bool" where "IsBoolean v \<longleftrightarrow> v = VALUE_FALSE \<or> v = VALUE_TRUE"
definition IsWeak :: "TaggedType \<Rightarrow> bool" where "IsWeak v \<longleftrightarrow> IsHeapObject v \<and> v AND TAG_WEAK_MASK = 1"

definition IsFalse :: "TaggedType \<Rightarrow> bool" where "IsFalse v \<longleftrightarrow> v = VALUE_FALSE"
definition IsTrue :: "TaggedType \<Rightarrow> bool" where "IsTrue v \<longleftrightarrow> v = VALUE_TRUE"
definition IsUndefined :: "TaggedType \<Rightarrow> bool" where "IsUndefined v \<longleftrightarrow> v = VALUE_UNDEFINED"
definition IsNull :: "TaggedType \<Rightarrow> bool" where "IsNull v \<longleftrightarrow> v = VALUE_NULL"
definition IsException :: "TaggedType \<Rightarrow> bool" where "IsException v \<longleftrightarrow> v = VALUE_EXCEPTION"

definition tagged_GetInt :: "TaggedType \<Rightarrow> u32 option" where
  "tagged_GetInt v = (if IsInt v then Some (ucast (v AND NOT TAG_MASK)) else None)"

definition tagged_GetDouble :: "TaggedType \<Rightarrow> u64 option" where
  "tagged_GetDouble v = (if IsDouble v then Some (v - DOUBLE_ENCODE_OFFSET) else None)"

definition CreateWeakRef :: "TaggedType \<Rightarrow> TaggedType option" where
  "CreateWeakRef v = (if IsHeapObject v \<and> v AND TAG_WEAK_FILTER = 0 then Some (v OR TAG_WEAK_MASK) else None)"

definition RemoveWeakTag :: "TaggedType \<Rightarrow> TaggedType option" where
  "RemoveWeakTag v = (if IsHeapObject v \<and> v AND TAG_WEAK_MASK = 1 then Some (v AND NOT TAG_WEAK_FILTER) else None)"

definition GetHeapObject :: "TaggedType \<Rightarrow> u64 option" where
  "GetHeapObject v = (if IsHeapObject v \<and> v AND TAG_WEAK_FILTER = 0 then Some v else None)"

definition GetWeakReferent :: "TaggedType \<Rightarrow> u64 option" where
  "GetWeakReferent v = (if IsWeak v then Some (v AND NOT TAG_WEAK_MASK) else None)"

subsection \<open>The encoding\<close>

lemmas tag_defs = TAG_MASK_def TAG_INT_def TAG_OBJECT_def TAG_BITS_SHIFT_def TAG_SPECIAL_MASK_def TAG_SPECIAL_VALUE_def
  TAG_BOOLEAN_def TAG_UNDEFINED_def TAG_EXCEPTION_def TAG_WEAK_FILTER_def TAG_WEAK_MASK_def VALUE_HOLE_def VALUE_NULL_def
  VALUE_FALSE_def VALUE_TRUE_def VALUE_UNDEFINED_def VALUE_EXCEPTION_def DOUBLE_ENCODE_OFFSET_def

lemma tag_mask_split: "v AND TAG_MASK = push_bit 48 (drop_bit 48 v)" for v :: u64
proof (rule bit_word_eqI)
  fix n assume "n < LENGTH(64)"
  have m: "TAG_MASK = push_bit 48 (mask 16)" by (simp add: tag_defs mask_eq_exp_minus_1)
  show "bit (v AND TAG_MASK) n = bit (push_bit 48 (drop_bit 48 v)) n"
    unfolding m by (auto simp: bit_simps dest: bit_imp_le_length)
qed

lemma push_drop_eq: "push_bit 48 (drop_bit 48 v) = push_bit 48 c \<longleftrightarrow> drop_bit 48 v = c"
  if "unat c < 2 ^ 16" for v c :: u64
proof
  assume e: "push_bit 48 (drop_bit 48 v) = push_bit 48 c"
  have "unat (drop_bit 48 v) < 2 ^ 16" using unat_lt_2p [of v] by (simp add: unat_drop_bit less_mult_imp_div_less)
  then show "drop_bit 48 v = c"
    using arg_cong [OF e, of unat] that by (intro word_eqI_unat) (simp add: unat_push_bit_small)
qed simp

lemma IsInt_top: "IsInt v \<longleftrightarrow> unat v div 2 ^ 48 = 0xFFFF"
proof -
  have "IsInt v \<longleftrightarrow> drop_bit 48 v = 0xFFFF"
    unfolding IsInt_def tag_mask_split using push_drop_eq [of "0xFFFF" v] by (simp add: tag_defs)
  also have "\<dots> \<longleftrightarrow> unat v div 2 ^ 48 = 0xFFFF"
    unfolding unat_drop_bit [symmetric] by (simp add: word_unat_eq_iff)
  finally show ?thesis .
qed

lemma IsObject_top: "IsObject v \<longleftrightarrow> unat v div 2 ^ 48 = 0"
proof -
  have "IsObject v \<longleftrightarrow> drop_bit 48 v = 0"
    unfolding IsObject_def tag_mask_split using push_drop_eq [of 0 v] by (simp add: tag_defs)
  also have "\<dots> \<longleftrightarrow> unat v div 2 ^ 48 = 0"
    unfolding unat_drop_bit [symmetric] by (simp add: word_unat_eq_iff)
  finally show ?thesis .
qed

lemma tagged_int_bits: "bit (tagged_of_int v) n \<longleftrightarrow> n < 64 \<and> (if n < 32 then bit v n else if n < 48 then bit v 31 else True)"
proof -
  have "bit (TAG_INT) n \<longleftrightarrow> 48 \<le> n \<and> n < 64"
  proof -
    have m: "TAG_INT = push_bit 48 (mask 16)" by (simp add: tag_defs mask_eq_exp_minus_1)
    show ?thesis unfolding m by (auto simp: bit_simps)
  qed
  moreover have "bit (scast v :: u64) n \<longleftrightarrow> n < 64 \<and> bit v (if n < 32 then n else 31)"
  proof -
    have "min 31 n = (if n < 32 then n else 31)" by auto
    then show ?thesis by (simp add: bit_signed_iff)
  qed
  ultimately show ?thesis by (auto simp: tagged_of_int_def bit_or_iff)
qed

lemma tagged_int_top: "unat (tagged_of_int v) div 2 ^ 48 = 0xFFFF"
proof -
  have "drop_bit 48 (tagged_of_int v) = mask 16"
    by (rule bit_word_eqI) (auto simp: bit_drop_bit_eq tagged_int_bits bit_mask_iff)
  then have "unat (drop_bit 48 (tagged_of_int v)) = unat (mask 16 :: u64)" by simp
  then show ?thesis by (simp add: unat_drop_bit mask_eq_exp_minus_1)
qed

lemma tagged_int_get: "ucast (tagged_of_int v AND NOT TAG_MASK) = v"
proof (rule bit_word_eqI)
  fix n assume n: "n < LENGTH(32)"
  have m: "TAG_MASK = push_bit 48 (mask 16)" by (simp add: tag_defs mask_eq_exp_minus_1)
  show "bit (ucast (tagged_of_int v AND NOT TAG_MASK) :: u32) n = bit v n"
    unfolding m using n by (auto simp: bit_simps tagged_int_bits)
qed

lemma tagged_double_top:
  assumes "\<not> IsImpureNaN d"
  shows "unat (d + DOUBLE_ENCODE_OFFSET) = unat d + 2 ^ 48" "unat d < 0xFFFE * 2 ^ 48"
proof -
  have "unat (TAG_INT - DOUBLE_ENCODE_OFFSET) = 0xFFFE * 2 ^ 48" by (simp add: tag_defs)
  then show d: "unat d < 0xFFFE * 2 ^ 48"
    using assms by (simp add: IsImpureNaN_def word_le_nat_alt)
  have o: "unat DOUBLE_ENCODE_OFFSET = 2 ^ 48" by (simp add: tag_defs)
  show "unat (d + DOUBLE_ENCODE_OFFSET) = unat d + 2 ^ 48"
    using d o by (subst unat_add_lem [THEN iffD1]) auto
qed

lemma tagged_double:
  assumes "\<not> IsImpureNaN d"
  shows "IsDouble (d + DOUBLE_ENCODE_OFFSET)" "tagged_GetDouble (d + DOUBLE_ENCODE_OFFSET) = Some d"
proof -
  show "IsDouble (d + DOUBLE_ENCODE_OFFSET)"
    using tagged_double_top [OF assms] by (simp add: IsDouble_def IsInt_top IsObject_top div_add_self2)
  then show "tagged_GetDouble (d + DOUBLE_ENCODE_OFFSET) = Some d" by (simp add: tagged_GetDouble_def)
qed

lemma special_small: "IsSpecial v \<Longrightarrow> unat v < 256"
proof -
  assume "IsSpecial v"
  then have z: "v AND NOT TAG_SPECIAL_MASK = 0" by (simp add: IsSpecial_def)
  have m: "TAG_SPECIAL_MASK = mask 8" by (simp add: tag_defs mask_eq_exp_minus_1)
  have "\<not> bit v n" if "8 \<le> n" for n
  proof
    assume b: "bit v n"
    then have "bit (v AND NOT TAG_SPECIAL_MASK) n" unfolding m using that by (auto simp: bit_simps dest: bit_imp_le_length)
    then show False using z by simp
  qed
  then show ?thesis using unat_less_if_bits [of 8 v] by simp
qed

lemma heap_object:
  assumes "256 \<le> unat p" "unat p < 2 ^ 48"
  shows "IsHeapObject p"
  using assms special_small [of p] by (auto simp: IsHeapObject_def IsObject_top)

lemma weak_bits: "p AND TAG_WEAK_FILTER = 0 \<longleftrightarrow> \<not> bit p 0 \<and> \<not> bit p 1"
proof -
  have m: "TAG_WEAK_FILTER = mask 2" by (simp add: tag_defs mask_eq_exp_minus_1)
  have a: "bit (p AND mask 2) n \<longleftrightarrow> n < 2 \<and> bit p n" for n
    by (auto simp: bit_simps dest: bit_imp_le_length)
  have "p AND mask 2 = 0 \<longleftrightarrow> (\<forall>n < 2. \<not> bit p n)"
    using a by (metis bit_0_eq bot_apply bot_bool_def bit_word_eqI)
  then show ?thesis unfolding m by (auto simp: numeral_2_eq_2 less_Suc_eq)
qed

lemma weak_roundtrip:
  assumes p: "256 \<le> unat p" "unat p < 2 ^ 48" "p AND TAG_WEAK_FILTER = 0"
  shows "CreateWeakRef p = Some (p OR TAG_WEAK_MASK)" "IsWeak (p OR TAG_WEAK_MASK)"
    "RemoveWeakTag (p OR TAG_WEAK_MASK) = Some p" "GetWeakReferent (p OR TAG_WEAK_MASK) = Some p"
proof -
  have m: "TAG_WEAK_MASK = mask 1" "TAG_WEAK_FILTER = mask 2" by (simp_all add: tag_defs mask_eq_exp_minus_1)
  note b = p(3) [unfolded weak_bits]
  have "p AND TAG_WEAK_MASK = 0" unfolding m using b by (intro bit_word_eqI) (auto simp: bit_simps intro!: gr0I)
  then have add: "p OR TAG_WEAK_MASK = p + 1" using or_disjoint_add by (simp add: tag_defs)
  have "unat (p + 1) = unat p + 1" using p(2) by (subst unat_add_lem [THEN iffD1]) auto
  then have ge: "256 \<le> unat (p OR TAG_WEAK_MASK)" unfolding add using p(1) by simp
  have lt: "unat (p OR TAG_WEAK_MASK) < 2 ^ 48"
    unfolding m by (rule unat_less_if_bits) (auto simp: bit_simps dest: bit_unat_less [OF p(2)])
  have h: "IsHeapObject (p OR TAG_WEAK_MASK)" using ge lt by (rule heap_object)
  have one: "(p OR TAG_WEAK_MASK) AND TAG_WEAK_MASK = 1"
    unfolding m by (intro bit_word_eqI) (auto simp: bit_simps)
  show "CreateWeakRef p = Some (p OR TAG_WEAK_MASK)" using heap_object [OF p(1,2)] p(3) by (simp add: CreateWeakRef_def)
  show "IsWeak (p OR TAG_WEAK_MASK)" using h one by (simp add: IsWeak_def)
  then show "GetWeakReferent (p OR TAG_WEAK_MASK) = Some p"
    using b unfolding m by (auto simp: GetWeakReferent_def m bit_simps intro!: bit_word_eqI gr0I)
  show "RemoveWeakTag (p OR TAG_WEAK_MASK) = Some p"
    using h one b unfolding RemoveWeakTag_def m
    by (auto simp: bit_simps numeral_2_eq_2 less_Suc_eq intro!: bit_word_eqI)
qed

text \<open>
  C32: Every 64-bit pattern is exactly one of integer, double and object. Integers, doubles other than the impure NaNs and heap
  pointers are encoded in their class and decoded unchanged; a boolean is encoded as a special object that is recognised as
  true exactly when it was built from true and as false exactly when it was built from false; and a weak reference to an
  aligned heap pointer is recognised and gives the pointer back.
\<close>

theorem tagged_value_roundtrip:
  assumes "\<not> IsImpureNaN d" "256 \<le> unat p" "unat p < 2 ^ 48" "p AND TAG_WEAK_FILTER = 0"
  shows "IsInt (tagged_of_int i) \<and> tagged_GetInt (tagged_of_int i) = Some i \<and>
    (\<exists>t. tagged_of_double d = Some t \<and> IsDouble t \<and> tagged_GetDouble t = Some d) \<and>
    IsBoolean (tagged_of_bool b) \<and> IsSpecial (tagged_of_bool b) \<and> (IsTrue (tagged_of_bool b) \<longleftrightarrow> b) \<and> (IsFalse (tagged_of_bool b) \<longleftrightarrow> \<not> b) \<and>
    GetHeapObject (tagged_of_object p) = Some p \<and>
    (\<exists>w. CreateWeakRef (tagged_of_object p) = Some w \<and> IsWeak w \<and> RemoveWeakTag w = Some p \<and> GetWeakReferent w = Some p) \<and>
    (\<forall>v. (IsInt v \<longrightarrow> \<not> IsDouble v \<and> \<not> IsObject v) \<and> (IsDouble v \<longrightarrow> \<not> IsObject v) \<and> (IsInt v \<or> IsDouble v \<or> IsObject v))"
proof -
  have bools: "IsBoolean (tagged_of_bool True)" "IsSpecial (tagged_of_bool True)"
    "IsBoolean (tagged_of_bool False)" "IsSpecial (tagged_of_bool False)"
    "IsTrue (tagged_of_bool True)" "\<not> IsTrue (tagged_of_bool False)" "IsFalse (tagged_of_bool False)" "\<not> IsFalse (tagged_of_bool True)"
    by code_simp+
  have "IsInt (tagged_of_int i) \<and> tagged_GetInt (tagged_of_int i) = Some i"
    by (simp add: tagged_GetInt_def IsInt_top tagged_int_get tagged_int_top [simplified])
  moreover have "\<exists>t. tagged_of_double d = Some t \<and> IsDouble t \<and> tagged_GetDouble t = Some d"
    using tagged_double [OF assms(1)] assms(1) by (simp add: tagged_of_double_def)
  moreover have "IsBoolean (tagged_of_bool b)" "IsSpecial (tagged_of_bool b)" "IsTrue (tagged_of_bool b) \<longleftrightarrow> b" "IsFalse (tagged_of_bool b) \<longleftrightarrow> \<not> b"
    using bools by (cases b; simp)+
  moreover have "GetHeapObject (tagged_of_object p) = Some p"
    using heap_object [OF assms(2,3)] assms(4) by (simp add: GetHeapObject_def tagged_of_object_def)
  moreover have "\<exists>w. CreateWeakRef (tagged_of_object p) = Some w \<and> IsWeak w \<and> RemoveWeakTag w = Some p \<and> GetWeakReferent w = Some p"
    using weak_roundtrip [OF assms(2-4)] by (simp add: tagged_of_object_def)
  moreover have "(IsInt v \<longrightarrow> \<not> IsDouble v \<and> \<not> IsObject v) \<and> (IsDouble v \<longrightarrow> \<not> IsObject v) \<and> (IsInt v \<or> IsDouble v \<or> IsObject v)" for v
    by (auto simp: IsDouble_def IsInt_top IsObject_top)
  ultimately show ?thesis by blast
qed

theorem tagged_value_roundtrip_witness:
  "tagged_GetInt (tagged_of_int 0xFFFFFFFF) = Some 0xFFFFFFFF \<and> GetHeapObject (tagged_of_object 0x1000) = Some 0x1000"
proof -
  have "\<not> IsImpureNaN 0" "(0x1000 :: u64) AND TAG_WEAK_FILTER = 0" by code_simp+
  then show ?thesis using tagged_value_roundtrip [of 0 "0x1000" "0xFFFFFFFF" True] by simp
qed

text \<open>
  The bits 32 to 47 of a tagged integer repeat its sign: they are ones for every negative integer, where the layout documented
  at the top of the file has zeros for every tagged integer.
\<close>

theorem tagged_negative_int_middle_bits:
  "take_bit 16 (drop_bit 32 (tagged_of_int v)) = (if v <s 0 then 0xFFFF else 0)"
proof -
  have s: "v <s 0 \<longleftrightarrow> bit v 31" by (simp add: word_sless_alt bit_last_iff [of v, simplified])
  have m: "(0xFFFF :: u64) = mask 16" by (simp add: mask_eq_exp_minus_1)
  show ?thesis
    unfolding s m by (intro bit_word_eqI) (auto simp: bit_take_bit_iff bit_drop_bit_eq tagged_int_bits bit_mask_iff)
qed

end
