(* ===== verification/MathHelpers.thy ===== *)
theory MathHelpers
  imports Prelude "HOL-Library.Signed_Division"
begin

text \<open>
  \<open>runtime/interpreter/math_helpers.h\<close>: the arithmetic of the interpreter's instructions. The C++ template type is the word
  type; where the behaviour depends on its signedness there is a definition for each. Floating point values are their
  IEEE 754 bit patterns; of the floating point helpers the two comparisons are modelled.
\<close>

subsection \<open>Integer helpers\<close>

definition bit_shl :: "'a::len word \<Rightarrow> 'a word \<Rightarrow> 'a word" where
  "bit_shl x y = (let m = LENGTH('a) - 1; shift = unat (y AND of_nat m) in push_bit shift x)"

definition bit_shr :: "'a::len word \<Rightarrow> 'a word \<Rightarrow> 'a word" where
  "bit_shr x y = (let m = LENGTH('a) - 1; shift = unat (y AND of_nat m) in drop_bit shift x)"

definition bit_ashr :: "'a::len word \<Rightarrow> 'a word \<Rightarrow> 'a word" where
  "bit_ashr x y = (let m = LENGTH('a) - 1; shift = unat (y AND of_nat m) in signed_drop_bit shift x)"

definition cmp_signed :: "'a::len word \<Rightarrow> 'a word \<Rightarrow> u32" where
  "cmp_signed x y = (if sint y < sint x then 1 else if x = y then 0 else - 1)"

definition cmp_unsigned :: "'a::len word \<Rightarrow> 'a word \<Rightarrow> u32" where
  "cmp_unsigned x y = (if y < x then 1 else if x = y then 0 else - 1)"

text \<open>
  The operators \<open>/\<close> and \<open>%\<close> of C++ on signed operands: both are undefined when the divisor is zero and when the quotient is
  not a value of the type. The callers of the helpers test for zero; the helpers test for the other case.
\<close>

definition int_min :: "'a::len word" where
  "int_min = push_bit (LENGTH('a) - 1) 1"

definition sdiv_defined :: "'a::len word \<Rightarrow> 'a word \<Rightarrow> bool" where
  "sdiv_defined x y \<longleftrightarrow> y \<noteq> 0 \<and> - (2 ^ (LENGTH('a) - 1)) \<le> sint x sdiv sint y \<and> sint x sdiv sint y < 2 ^ (LENGTH('a) - 1)"

definition cxx_sdiv :: "'a::len word \<Rightarrow> 'a word \<Rightarrow> 'a word option" where
  "cxx_sdiv x y = (if sdiv_defined x y then Some (word_of_int (sint x sdiv sint y)) else None)"

definition cxx_smod :: "'a::len word \<Rightarrow> 'a word \<Rightarrow> 'a word option" where
  "cxx_smod x y = (if sdiv_defined x y then Some (word_of_int (sint x smod sint y)) else None)"

definition idivides_signed :: "'a::len word \<Rightarrow> 'a word \<Rightarrow> 'a word option" where
  "idivides_signed x y = (if x = int_min \<and> y = - 1 then Some int_min else cxx_sdiv x y)"

definition idivides_unsigned :: "'a::len word \<Rightarrow> 'a word \<Rightarrow> 'a word option" where
  "idivides_unsigned x y = (if y = 0 then None else Some (x div y))"

definition imodulus_signed :: "'a::len word \<Rightarrow> 'a word \<Rightarrow> 'a word option" where
  "imodulus_signed x y = (if x = int_min \<and> y = - 1 then Some 0 else cxx_smod x y)"

definition imodulus_unsigned :: "'a::len word \<Rightarrow> 'a word \<Rightarrow> 'a word option" where
  "imodulus_unsigned x y = (if y = 0 then None else Some (x mod y))"

definition Plus :: "'a::len word \<Rightarrow> 'a word \<Rightarrow> 'a word" where "Plus a b = a + b"
definition Minus :: "'a::len word \<Rightarrow> 'a word \<Rightarrow> 'a word" where "Minus a b = a - b"
definition Multiplies :: "'a::len word \<Rightarrow> 'a word \<Rightarrow> 'a word" where "Multiplies a b = a * b"
definition inc :: "'a::len word \<Rightarrow> 'a word" where "inc x = x + 1"
definition dec :: "'a::len word \<Rightarrow> 'a word" where "dec x = x - 1"

subsection \<open>Floating point comparison\<close>

text \<open>The sizes of the exponent and mantissa fields.\<close>

definition exp_bits :: "nat \<Rightarrow> nat" where "exp_bits width = (if width = 32 then 8 else 11)"
definition man_bits :: "nat \<Rightarrow> nat" where "man_bits width = width - 1 - exp_bits width"

definition isnan :: "'a::len word \<Rightarrow> bool" where
  "isnan x \<longleftrightarrow> take_bit (exp_bits LENGTH('a)) (drop_bit (man_bits LENGTH('a)) x) = mask (exp_bits LENGTH('a))
     \<and> take_bit (man_bits LENGTH('a)) x \<noteq> 0"

text \<open>Of two patterns that are not NaN the numbers compare like their magnitudes taken with the sign.\<close>

definition float_ord :: "'a::len word \<Rightarrow> int" where
  "float_ord x = (let m = uint (take_bit (LENGTH('a) - 1) x) in if bit x (LENGTH('a) - 1) then - m else m)"

definition fcmpl :: "'a::len word \<Rightarrow> 'a word \<Rightarrow> u32" where
  "fcmpl x y =
     (if isnan x \<or> isnan y then - 1
      else if float_ord x < float_ord y then - 1 else if float_ord y < float_ord x then 1 else 0)"

definition fcmpg :: "'a::len word \<Rightarrow> 'a word \<Rightarrow> u32" where
  "fcmpg x y =
     (if isnan x \<or> isnan y then 1
      else if float_ord x < float_ord y then - 1 else if float_ord y < float_ord x then 1 else 0)"

subsection \<open>Lemmas\<close>

lemma shift_count:
  fixes y :: "'a::len word"
  assumes "LENGTH('a) = 2 ^ k"
  shows "unat (y AND of_nat (LENGTH('a) - 1)) = unat y mod LENGTH('a)"
proof -
  have "of_nat (LENGTH('a) - 1) = (mask k :: 'a word)"
    by (simp add: assms mask_eq_exp_minus_1 of_nat_diff)
  then show ?thesis by (simp add: take_bit_eq_mask [symmetric] unat_take_bit assms)
qed

lemma sint_range: "- (2 ^ (LENGTH('a) - 1)) \<le> sint (x :: 'a::len word) \<and> sint x < 2 ^ (LENGTH('a) - 1)"
  using sint_greater_eq [of x] sint_less [of x] by simp

lemma sint_int_min: "sint (int_min :: 'a::len word) = - (2 ^ (LENGTH('a) - 1))"
proof -
  have L: "Suc (LENGTH('a) - 1) = LENGTH('a)" by simp
  have "uint (int_min :: 'a word) = 2 ^ (LENGTH('a) - 1)"
    unfolding int_min_def by (rule bit_eqI) (auto simp: bit_simps)
  then have "sint (int_min :: 'a word) = signed_take_bit (LENGTH('a) - 1) (2 ^ (LENGTH('a) - 1))"
    by (simp add: sint_uint)
  also have "\<dots> = 2 ^ (LENGTH('a) - 1) - 2 ^ LENGTH('a)"
    unfolding signed_take_bit_eq_take_bit_minus L by (simp add: bit_exp_iff take_bit_int_eq_self)
  also have "\<dots> = - (2 ^ (LENGTH('a) - 1))" using power_Suc [of "2 :: int" "LENGTH('a) - 1"] L by simp
  finally show ?thesis .
qed

lemma int_min_double: "2 * (int_min :: 'a::len word) = 0"
proof -
  have "2 * (int_min :: 'a word) = 2 ^ Suc (LENGTH('a) - 1)" by (simp only: int_min_def push_bit_eq_mult power_Suc mult_1)
  also have "Suc (LENGTH('a) - 1) = LENGTH('a)" by simp
  finally show ?thesis by (simp only: exp_eq_zero_iff order_refl)
qed

lemma sint_eq_min_iff: "sint (x :: 'a::len word) = - (2 ^ (LENGTH('a) - 1)) \<longleftrightarrow> x = int_min"
  by (metis sint_int_min signed_word_eqI)

lemma abs_sdiv: "\<bar>a sdiv b\<bar> = \<bar>a\<bar> div \<bar>b\<bar>" for a b :: int
  by (cases "a = 0"; cases "b = 0") (simp_all add: signed_divide_int_def abs_mult abs_of_nonneg div_int_pos_iff)

lemma sdiv_fits:
  fixes a b m :: int
  assumes "- m \<le> a" "a < m" "b \<noteq> 0" "a \<noteq> - m \<or> b \<noteq> - 1"
  shows "- m \<le> a sdiv b \<and> a sdiv b < m"
proof (cases "b = 1 \<or> b = - 1")
  case True
  then show ?thesis using assms by (auto simp: signed_divide_int_def abs_mult sgn_mult abs_sgn_eq mult_sgn_abs split: if_splits)
next
  case False
  then have "2 \<le> \<bar>b\<bar>" using assms(3) by linarith
  then have "\<bar>a\<bar> div \<bar>b\<bar> \<le> \<bar>a\<bar> div 2" by (intro zdiv_mono2) auto
  then have "\<bar>a sdiv b\<bar> \<le> \<bar>a\<bar> div 2" by (simp add: abs_sdiv)
  moreover have "\<bar>a\<bar> \<le> m" using assms(1,2) by linarith
  moreover have "0 < m" using assms(1,2) by linarith
  ultimately show ?thesis by linarith
qed

lemma smod_fits:
  fixes a b m :: int
  assumes "- m \<le> b" "b < m" "b \<noteq> 0"
  shows "- m \<le> a smod b \<and> a smod b < m \<and> \<bar>a smod b\<bar> < \<bar>b\<bar>"
  using smod_int_range [OF assms(3), of a] assms by auto

subsection \<open>Properties\<close>

text \<open>
  C35: signed division and remainder: for a nonzero divisor both are defined, also where the operators of C++ are not;
  the quotient is the one that truncates toward zero, except that the minimum divided by -1 wraps to the minimum, the remainder is smaller than the divisor in absolute
  value, and quotient times divisor plus remainder is the dividend.
\<close>

theorem signed_division:
  fixes x y :: "'a::len word"
  assumes "y \<noteq> 0"
  shows "\<exists>q r. idivides_signed x y = Some q \<and> imodulus_signed x y = Some r \<and> q * y + r = x
    \<and> sint r = sint x smod sint y \<and> \<bar>sint r\<bar> < \<bar>sint y\<bar>
    \<and> sint q = (if x = int_min \<and> y = - 1 then sint x else sint x sdiv sint y)"
proof (cases "x = int_min \<and> y = - 1")
  case True
  have "sint x smod - 1 = 0" by (simp add: signed_modulo_int_def signed_divide_int_def)
  moreover have "- int_min = (int_min :: 'a word)" using int_min_double [where 'a = 'a] by (metis mult_2 minus_unique)
  ultimately show ?thesis using True by (simp add: idivides_signed_def imodulus_signed_def)
next
  case False
  let ?q = "sint x sdiv sint y" and ?r = "sint x smod sint y"
  have y: "sint y \<noteq> 0" using assms by (metis signed_word_eqI signed_0)
  have "sint x \<noteq> - (2 ^ (LENGTH('a) - 1)) \<or> sint y \<noteq> - 1"
    using False by (metis sint_eq_min_iff signed_word_eqI sint_n1)
  then have fits: "- (2 ^ (LENGTH('a) - 1)) \<le> ?q" "?q < 2 ^ (LENGTH('a) - 1)" using sdiv_fits [OF _ _ y] sint_range [of x] by blast+
  then have q: "sint (word_of_int ?q :: 'a word) = ?q" by (rule sint_word_of_int_id)
  have d: "sdiv_defined x y" using assms fits by (simp add: sdiv_defined_def)
  have r: "sint (word_of_int ?r :: 'a word) = ?r" "\<bar>?r\<bar> < \<bar>sint y\<bar>"
    using smod_fits [OF _ _ y, of "2 ^ (LENGTH('a) - 1)" "sint x"] sint_range [of y] by (auto intro: sint_word_of_int_id)
  have "word_of_int ?q * y + word_of_int ?r = word_of_int (?q * sint y + ?r)" by simp
  also have "\<dots> = x" by (simp only: sdiv_mult_smod_eq) simp
  finally show ?thesis using False d q r by (auto simp: idivides_signed_def imodulus_signed_def cxx_sdiv_def cxx_smod_def)
qed

theorem signed_division_witness:
  "idivides_signed (- 7 :: u32) 2 = Some (- 3) \<and> imodulus_signed (- 7 :: u32) 2 = Some (- 1)
     \<and> (\<exists>q r. idivides_signed (- 7 :: u32) 2 = Some q \<and> imodulus_signed (- 7 :: u32) 2 = Some r \<and> q * 2 + r = - 7)"
proof -
  have "(2 :: u32) \<noteq> 0" by simp
  from signed_division [OF this, of "- 7"]
  have "\<exists>q r. idivides_signed (- 7 :: u32) 2 = Some q \<and> imodulus_signed (- 7 :: u32) 2 = Some r \<and> q * 2 + r = - 7" by blast
  then show ?thesis by (simp add: idivides_signed_def imodulus_signed_def cxx_sdiv_def cxx_smod_def sdiv_defined_def int_min_def signed_divide_int_def signed_modulo_int_def)
qed

text \<open>
  The shift instructions use the shift count modulo the width, so no count is undefined behaviour: they are the
  logical shifts and the arithmetic shift by the reduced count.
\<close>

theorem shifts_masked:
  fixes x y :: "'a::len word"
  assumes "LENGTH('a) = 2 ^ k"
  shows "bit_shl x y = word_of_int (uint x * 2 ^ (unat y mod LENGTH('a)))
    \<and> uint (bit_shr x y) = uint x div 2 ^ (unat y mod LENGTH('a))
    \<and> sint (bit_ashr x y) = sint x div 2 ^ (unat y mod LENGTH('a))"
proof (intro conjI)
  let ?n = "unat y mod LENGTH('a)"
  note defs = bit_shl_def bit_shr_def bit_ashr_def Let_def shift_count [OF assms, of y]
  show "bit_shl x y = word_of_int (uint x * 2 ^ ?n)" unfolding defs by (simp add: push_bit_eq_mult)
  show "uint (bit_shr x y) = uint x div 2 ^ ?n"
    unfolding defs by (simp only: uint_nat unat_drop_bit zdiv_int) simp
  show "sint (bit_ashr x y) = sint x div 2 ^ ?n"
    unfolding defs by (simp add: sint_signed_drop_bit_eq drop_bit_eq_div)
qed

theorem shifts_masked_witness:
  "bit_shl (1 :: u32) 33 = word_of_int (uint (1 :: u32) * 2 ^ (unat (33 :: u32) mod 32)) \<and> bit_shl (1 :: u32) 33 = 2"
proof -
  have "LENGTH(32) = 2 ^ 5" by simp
  from shifts_masked [OF this, of 1 33] show ?thesis by simp
qed

end
