(* ===== verification/FloatToInt.thy ===== *)
theory FloatToInt
  imports MathHelpers
begin

text \<open>
  \<open>InstructionHandler::HandleFloatToIntConversion\<close> of \<open>runtime/interpreter/interpreter-inl.h\<close>, on the bit patterns of the
  floating point value. The conversion \<open>static_cast<To>(value)\<close> truncates, and is undefined when the truncated value does
  not fit. \<open>FLOAT_MIN_INT\<close> and \<open>FLOAT_MAX_INT\<close> are the bounds of the integer type converted to the floating point type,
  given here as the patterns they round to.
\<close>

definition float_gt :: "'a::len word \<Rightarrow> 'a word \<Rightarrow> bool" where
  "float_gt x y \<longleftrightarrow> \<not> isnan x \<and> \<not> isnan y \<and> float_ord y < float_ord x"

text \<open>The magnitude of a pattern of \<open>mb\<close> mantissa bits, truncated: the pattern is the exponent field followed by the mantissa.\<close>

definition trunc_mag :: "nat \<Rightarrow> nat \<Rightarrow> nat \<Rightarrow> nat" where
  "trunc_mag mb bias p =
     (let e = p div 2 ^ mb; m = p mod 2 ^ mb
      in if e < bias then 0 else (2 ^ mb + m) * 2 ^ (e - bias) div 2 ^ mb)"

definition float_bias :: "nat \<Rightarrow> nat" where "float_bias width = 2 ^ (exp_bits width - 1) - 1"

definition float_trunc :: "'a::len word \<Rightarrow> int" where
  "float_trunc x =
     (let t = int (trunc_mag (man_bits LENGTH('a)) (float_bias LENGTH('a)) (unat (take_bit (LENGTH('a) - 1) x)))
      in if bit x (LENGTH('a) - 1) then - t else t)"

definition float_to_int ::
    "int \<Rightarrow> int \<Rightarrow> 'a::len word \<Rightarrow> 'a word \<Rightarrow> 'a word \<Rightarrow> 'b::len word option" where
  "float_to_int MIN_INT MAX_INT FLOAT_MIN_INT FLOAT_MAX_INT value =
     (if float_gt value FLOAT_MIN_INT
      then if float_gt FLOAT_MAX_INT value
           then if MIN_INT \<le> float_trunc value \<and> float_trunc value \<le> MAX_INT
                then Some (word_of_int (float_trunc value)) else None
           else Some (word_of_int MAX_INT)
      else if isnan value then Some 0
      else Some (word_of_int MIN_INT))"

definition f32_to_i32 :: "u32 \<Rightarrow> u32 option" where
  "f32_to_i32 = float_to_int (- (2 ^ 31)) (2 ^ 31 - 1) 0xCF000000 0x4F000000"
definition f32_to_i64 :: "u32 \<Rightarrow> u64 option" where
  "f32_to_i64 = float_to_int (- (2 ^ 63)) (2 ^ 63 - 1) 0xDF000000 0x5F000000"
definition f32_to_u32 :: "u32 \<Rightarrow> u32 option" where
  "f32_to_u32 = float_to_int 0 (2 ^ 32 - 1) 0 0x4F800000"
definition f32_to_u64 :: "u32 \<Rightarrow> u64 option" where
  "f32_to_u64 = float_to_int 0 (2 ^ 64 - 1) 0 0x5F800000"
definition f64_to_i32 :: "u64 \<Rightarrow> u32 option" where
  "f64_to_i32 = float_to_int (- (2 ^ 31)) (2 ^ 31 - 1) 0xC1E0000000000000 0x41DFFFFFFFC00000"
definition f64_to_i64 :: "u64 \<Rightarrow> u64 option" where
  "f64_to_i64 = float_to_int (- (2 ^ 63)) (2 ^ 63 - 1) 0xC3E0000000000000 0x43E0000000000000"
definition f64_to_u32 :: "u64 \<Rightarrow> u32 option" where
  "f64_to_u32 = float_to_int 0 (2 ^ 32 - 1) 0 0x41EFFFFFFFE00000"
definition f64_to_u64 :: "u64 \<Rightarrow> u64 option" where
  "f64_to_u64 = float_to_int 0 (2 ^ 64 - 1) 0 0x43F0000000000000"

subsection \<open>Truncation is monotone\<close>

lemma trunc_mag_mono:
  assumes "p \<le> q"
  shows "trunc_mag mb bias p \<le> trunc_mag mb bias q"
proof -
  define e m e' m' where d: "e = p div 2 ^ mb" "m = p mod 2 ^ mb" "e' = q div 2 ^ mb" "m' = q mod 2 ^ mb"
  have m: "m < 2 ^ mb" by (simp add: d)
  have e: "e \<le> e'" using assms by (simp add: d div_le_mono)
  show ?thesis
  proof (cases "e < bias")
    case False
    have pq: "p = e * 2 ^ mb + m" "q = e' * 2 ^ mb + m'" unfolding d by (simp_all only: div_mult_mod_eq)
    have "(2 ^ mb + m) * 2 ^ (e - bias) \<le> (2 ^ mb + m') * 2 ^ (e' - bias)"
    proof (cases "e = e'")
      case True
      then have "m \<le> m'" using assms pq by simp
      then show ?thesis using True by simp
    next
      case ne: False
      then have "Suc (e - bias) \<le> e' - bias" using e False by simp
      then have "(2::nat) ^ Suc (e - bias) \<le> 2 ^ (e' - bias)" by (rule power_increasing) simp
      then have "2 * 2 ^ mb * (2::nat) ^ (e - bias) \<le> 2 ^ mb * 2 ^ (e' - bias)" by simp
      moreover have "(2 ^ mb + m) * 2 ^ (e - bias) \<le> 2 * 2 ^ mb * 2 ^ (e - bias)" using m by simp
      moreover have "2 ^ mb * 2 ^ (e' - bias) \<le> (2 ^ mb + m') * 2 ^ (e' - bias)" by simp
      ultimately show ?thesis by linarith
    qed
    then show ?thesis using False e by (simp add: trunc_mag_def d Let_def div_le_mono)
  qed (simp add: trunc_mag_def d Let_def)
qed

lemma float_ord_cases:
  fixes x :: "'a::len word"
  shows "float_ord x = (if bit x (LENGTH('a) - 1) then - int (unat (take_bit (LENGTH('a) - 1) x)) else int (unat (take_bit (LENGTH('a) - 1) x)))"
  by (simp only: float_ord_def Let_def uint_nat)

text \<open>The truncated value as a function of the order, which is monotone in it.\<close>

definition trunc_ord :: "nat \<Rightarrow> int \<Rightarrow> int" where
  "trunc_ord width i = sgn i * int (trunc_mag (man_bits width) (float_bias width) (nat \<bar>i\<bar>))"

lemma trunc_mag_0: "0 < bias \<Longrightarrow> trunc_mag mb bias 0 = 0"
  by (simp add: trunc_mag_def Let_def)

lemma float_bias_pos: "0 < float_bias width"
proof -
  have "2 \<le> exp_bits width" by (simp add: exp_bits_def)
  then have "(2::nat) ^ 1 \<le> 2 ^ (exp_bits width - 1)" by (intro power_increasing) auto
  then show ?thesis by (simp add: float_bias_def)
qed

lemma float_trunc_ord: "float_trunc (x :: 'a::len word) = trunc_ord LENGTH('a) (float_ord x)"
proof -
  define u where "u = unat (take_bit (LENGTH('a) - 1) x)"
  have "trunc_mag (man_bits LENGTH('a)) (float_bias LENGTH('a)) 0 = 0" by (rule trunc_mag_0 [OF float_bias_pos])
  then show ?thesis
    unfolding float_trunc_def float_ord_cases trunc_ord_def u_def [symmetric] Let_def
    by (cases "u = 0") (auto simp: sgn_if simp del: One_nat_def)
qed

lemma trunc_ord_mono: "i \<le> j \<Longrightarrow> trunc_ord w i \<le> trunc_ord w j"
  using trunc_mag_mono [of "nat \<bar>i\<bar>" "nat \<bar>j\<bar>" "man_bits w" "float_bias w"]
    trunc_mag_mono [of "nat \<bar>j\<bar>" "nat \<bar>i\<bar>" "man_bits w" "float_bias w"]
  by (auto simp: trunc_ord_def sgn_if)

subsection \<open>Conversions saturate\<close>

definition saturate :: "int \<Rightarrow> int \<Rightarrow> int \<Rightarrow> int" where
  "saturate lo hi i = max lo (min hi i)"

lemma float_to_int_saturates:
  fixes x :: "'a::len word"
  assumes b: "lo \<le> hi" "\<not> isnan FMIN" "\<not> isnan FMAX"
    and l: "trunc_ord LENGTH('a) (float_ord FMIN) = lo"
    and h: "hi \<le> trunc_ord LENGTH('a) (float_ord FMAX)" "trunc_ord LENGTH('a) (float_ord FMAX - 1) \<le> hi"
  shows "float_to_int lo hi FMIN FMAX x = Some (if isnan x then 0 else word_of_int (saturate lo hi (float_trunc x)))"
proof (cases "isnan x")
  case nan: False
  note mono = trunc_ord_mono [where w = "LENGTH('a)"]
  consider "float_ord FMIN < float_ord x" "float_ord x < float_ord FMAX"
    | "float_ord FMIN < float_ord x" "float_ord FMAX \<le> float_ord x" | "float_ord x \<le> float_ord FMIN" by linarith
  then show ?thesis
  proof cases
    case 1
    have "lo \<le> float_trunc x" "float_trunc x \<le> hi"
      unfolding float_trunc_ord using mono [of "float_ord FMIN" "float_ord x"] mono [of "float_ord x" "float_ord FMAX - 1"] 1 l h(2)
      by linarith+
    then show ?thesis using 1 nan b by (simp add: float_to_int_def float_gt_def saturate_def)
  next
    case 2
    then have "hi \<le> float_trunc x" unfolding float_trunc_ord using mono [of "float_ord FMAX" "float_ord x"] h(1) by linarith
    then show ?thesis using 2 nan b by (simp add: float_to_int_def float_gt_def saturate_def)
  next
    case 3
    then have "float_trunc x \<le> lo" unfolding float_trunc_ord using mono [of "float_ord x" "float_ord FMIN"] l by linarith
    then show ?thesis using 3 nan b by (simp add: float_to_int_def float_gt_def saturate_def)
  qed
qed (simp add: float_to_int_def float_gt_def)

text \<open>
  C33: Each of the eight conversions from floating point is defined for every pattern: it truncates towards zero,
  saturates at the bounds of the integer type, and gives zero for NaN.
\<close>

theorem float_conversions_saturate:
  "f32_to_i32 x = Some (if isnan x then 0 else word_of_int (saturate (- (2 ^ 31)) (2 ^ 31 - 1) (float_trunc x))) \<and>
   f32_to_i64 x = Some (if isnan x then 0 else word_of_int (saturate (- (2 ^ 63)) (2 ^ 63 - 1) (float_trunc x))) \<and>
   f32_to_u32 x = Some (if isnan x then 0 else word_of_int (saturate 0 (2 ^ 32 - 1) (float_trunc x))) \<and>
   f32_to_u64 x = Some (if isnan x then 0 else word_of_int (saturate 0 (2 ^ 64 - 1) (float_trunc x))) \<and>
   f64_to_i32 y = Some (if isnan y then 0 else word_of_int (saturate (- (2 ^ 31)) (2 ^ 31 - 1) (float_trunc y))) \<and>
   f64_to_i64 y = Some (if isnan y then 0 else word_of_int (saturate (- (2 ^ 63)) (2 ^ 63 - 1) (float_trunc y))) \<and>
   f64_to_u32 y = Some (if isnan y then 0 else word_of_int (saturate 0 (2 ^ 32 - 1) (float_trunc y))) \<and>
   f64_to_u64 y = Some (if isnan y then 0 else word_of_int (saturate 0 (2 ^ 64 - 1) (float_trunc y)))"
  unfolding f32_to_i32_def f32_to_i64_def f32_to_u32_def f32_to_u64_def
    f64_to_i32_def f64_to_i64_def f64_to_u32_def f64_to_u64_def
  by (intro conjI float_to_int_saturates)
    (simp_all add: isnan_def exp_bits_def man_bits_def trunc_ord_def float_ord_def trunc_mag_def float_bias_def Let_def
      mask_eq_exp_minus_1)

end
