(* ===== verification/VRegister.thy ===== *)
theory VRegister
  imports Prelude "HOL-Library.Monad_Syntax"
begin

text \<open>
  \<open>runtime/interpreter/vregister.h\<close>, \<open>vregister-inl.h\<close>, \<open>frame.h\<close> and \<open>acc_vregister.h\<close>: virtual registers, the
  accumulator and frames. A register is its 64-bit value and its tag word, whose bit 0 is the object flag; an object
  reference is a 32-bit pointer, kept sign-extended. An operation whose assertion fails is \<open>None\<close>. The accessors are
  polymorphic in the width of the type they read, as \<open>GetAs\<close> and \<open>Set\<close> are templates and overloads: a register holds
  floats and doubles as their bit patterns.
\<close>

type_synonym ref = u32

abbreviation nullptr :: ref where "nullptr \<equiv> 0"

subsection \<open>Registers\<close>

record vreg =
  v_value :: u64
  v_tag :: u64

definition vreg0 :: vreg where "vreg0 = \<lparr>v_value = 0, v_tag = 0\<rparr>"

definition OBJECT_MASK :: u64 where "OBJECT_MASK = 1"

definition INT_TAG :: u64 where "INT_TAG = push_bit 1 3"
definition DOUBLE_TAG :: u64 where "DOUBLE_TAG = push_bit 1 4"
definition OBJECT_TAG :: u64 where "OBJECT_TAG = 1"
definition STRING_TAG :: u64 where "STRING_TAG = push_bit 4 1 OR 1"

definition HasObject :: "vreg \<Rightarrow> bool" where
  "HasObject r \<longleftrightarrow> v_tag r AND OBJECT_MASK \<noteq> 0"

definition MarkAsObject :: "vreg \<Rightarrow> vreg" where
  "MarkAsObject r = r\<lparr>v_tag := v_tag r OR OBJECT_MASK\<rparr>"

definition MarkAsPrimitive :: "vreg \<Rightarrow> vreg" where
  "MarkAsPrimitive r = r\<lparr>v_tag := v_tag r AND NOT OBJECT_MASK\<rparr>"

definition SetValue :: "u64 \<Rightarrow> vreg \<Rightarrow> vreg" where
  "SetValue v r = r\<lparr>v_value := v\<rparr>"

definition SetTag :: "u64 \<Rightarrow> vreg \<Rightarrow> vreg" where
  "SetTag t r = r\<lparr>v_tag := t\<rparr>"

definition MoveFrom :: "vreg \<Rightarrow> vreg \<Rightarrow> vreg option" where
  "MoveFrom other r = (if HasObject other then None else Some (MarkAsPrimitive (SetValue (v_value other) r)))"

definition MoveFromObj :: "vreg \<Rightarrow> vreg \<Rightarrow> vreg option" where
  "MoveFromObj other r = (if \<not> HasObject other then None else Some (MarkAsObject (SetValue (v_value other) r)))"

definition Move :: "vreg \<Rightarrow> vreg \<Rightarrow> vreg" where
  "Move other r = SetTag (v_tag other) (SetValue (v_value other) r)"

text \<open>\<open>widen\<close> is the conversion of a C++ integer to \<open>int64_t\<close>: from a signed type by its sign, from an unsigned type by zeros.\<close>

definition widen :: "bool \<Rightarrow> 'a::len word \<Rightarrow> u64" where
  "widen sg x = (if sg then scast x else ucast x)"

definition Set_int :: "bool \<Rightarrow> 'a::len word \<Rightarrow> vreg \<Rightarrow> vreg option" where
  "Set_int sg x r = (if HasObject r then None else Some (SetValue (widen sg x) r))"

definition SetPrimitive :: "bool \<Rightarrow> 'a::len word \<Rightarrow> vreg \<Rightarrow> vreg" where
  "SetPrimitive sg x r = MarkAsPrimitive (SetValue (widen sg x) r)"

definition SetReference :: "ref \<Rightarrow> vreg \<Rightarrow> vreg" where
  "SetReference x r = MarkAsObject (SetValue (scast x) r)"

definition Get32 :: "vreg \<Rightarrow> u32 option" where
  "Get32 r = (if HasObject r then None else Some (ucast (v_value r)))"

definition GetLong :: "vreg \<Rightarrow> u64 option" where
  "GetLong r = (if HasObject r then None else Some (v_value r))"

definition GetReference :: "vreg \<Rightarrow> ref option" where
  "GetReference r = (if \<not> HasObject r then None else Some (ucast (v_value r)))"

text \<open>\<open>GetAs\<close>: the 8, 16 and 32-bit accessors go through \<open>Get\<close>, the 64-bit ones through \<open>GetLong\<close>.\<close>

definition GetAs :: "vreg \<Rightarrow> 'a::len word option" where
  "GetAs r = (if LENGTH('a) \<le> 32 then map_option ucast (Get32 r) else map_option ucast (GetLong r))"

subsection \<open>Frames\<close>

type_synonym method_id = nat

text \<open>
  An instruction pointer: the bytecode it points into (that of a method, or the state's buffer of a fake instruction),
  and the offset from its first byte.
\<close>

datatype code_base = Code method_id | FakeInstBuf

type_synonym ip = "code_base \<times> int"

record frame =
  f_method :: method_id
  f_nregs :: nat
  f_num_actual_args :: nat
  f_bc_offset :: u32
  f_flags :: u64
  f_acc :: vreg
  f_next_inst :: ip
  f_inst :: ip
  f_vregs :: "vreg list"

definition FORCE_POP :: u64 where "FORCE_POP = 1"
definition RETRY_INSTRUCTION :: u64 where "RETRY_INSTRUCTION = 2"
definition NOTIFY_POP :: u64 where "NOTIFY_POP = 4"
definition IS_DEOPTIMIZED :: u64 where "IS_DEOPTIMIZED = 8"
definition IS_STACKLESS :: u64 where "IS_STACKLESS = 16"
definition IS_INITOBJ :: u64 where "IS_INITOBJ = 32"

text \<open>
  A new frame in memory the frame allocator returned: its registers hold what that memory held, and its instruction
  pointers are not set yet. It owns \<open>nregs\<close> of the registers.
\<close>

definition make_frame :: "method_id \<Rightarrow> vreg list \<Rightarrow> nat \<Rightarrow> nat \<Rightarrow> frame" where
  "make_frame m regs nregs num_actual_args =
     \<lparr>f_method = m, f_nregs = nregs, f_num_actual_args = num_actual_args, f_bc_offset = 0, f_flags = 0,
      f_acc = vreg0, f_next_inst = (FakeInstBuf, 0), f_inst = (FakeInstBuf, 0), f_vregs = regs\<rparr>"

definition frame_GetVReg :: "frame \<Rightarrow> nat \<Rightarrow> vreg option" where
  "frame_GetVReg f i = (if i < length (f_vregs f) then Some (f_vregs f ! i) else None)"

definition frame_SetVReg :: "nat \<Rightarrow> vreg \<Rightarrow> frame \<Rightarrow> frame option" where
  "frame_SetVReg i r f = (if i < length (f_vregs f) then Some (f\<lparr>f_vregs := (f_vregs f)[i := r]\<rparr>) else None)"

definition frame_flag :: "u64 \<Rightarrow> frame \<Rightarrow> bool" where
  "frame_flag m f \<longleftrightarrow> f_flags f AND m \<noteq> 0"

definition set_frame_flag :: "u64 \<Rightarrow> frame \<Rightarrow> frame" where
  "set_frame_flag m f = f\<lparr>f_flags := f_flags f OR m\<rparr>"

definition clear_frame_flag :: "u64 \<Rightarrow> frame \<Rightarrow> frame" where
  "clear_frame_flag m f = f\<lparr>f_flags := f_flags f AND NOT m\<rparr>"

abbreviation IsForcePop :: "frame \<Rightarrow> bool" where "IsForcePop \<equiv> frame_flag FORCE_POP"
abbreviation IsRetryInstruction :: "frame \<Rightarrow> bool" where "IsRetryInstruction \<equiv> frame_flag RETRY_INSTRUCTION"
abbreviation IsDeoptimized :: "frame \<Rightarrow> bool" where "IsDeoptimized \<equiv> frame_flag IS_DEOPTIMIZED"
abbreviation IsStackless :: "frame \<Rightarrow> bool" where "IsStackless \<equiv> frame_flag IS_STACKLESS"
abbreviation IsInitobj :: "frame \<Rightarrow> bool" where "IsInitobj \<equiv> frame_flag IS_INITOBJ"

subsection \<open>Properties\<close>

lemma HasObject_bit: "HasObject r \<longleftrightarrow> bit (v_tag r) 0"
  by (simp add: HasObject_def OBJECT_MASK_def and_one_eq bit_0 odd_iff_mod_2_eq_one)

lemma HasObject_SetReference [simp]: "HasObject (SetReference x r)"
  by (simp add: HasObject_bit SetReference_def MarkAsObject_def OBJECT_MASK_def bit_simps)

lemma HasObject_SetPrimitive [simp]: "\<not> HasObject (SetPrimitive sg x r)"
  by (simp add: HasObject_bit SetPrimitive_def MarkAsPrimitive_def OBJECT_MASK_def bit_simps)

lemma v_value_SetReference [simp]: "v_value (SetReference x r) = scast x"
  by (simp add: SetReference_def MarkAsObject_def SetValue_def)

lemma v_value_SetPrimitive [simp]: "v_value (SetPrimitive sg x r) = widen sg x"
  by (simp add: SetPrimitive_def MarkAsPrimitive_def SetValue_def)

lemma ucast_scast_same: "LENGTH('a) \<le> LENGTH('b) \<Longrightarrow> ucast (scast (x :: 'a::len word) :: 'b::len word) = x"
proof (rule bit_word_eqI)
  fix n assume l: "LENGTH('a) \<le> LENGTH('b)" and n: "n < LENGTH('a)"
  then have "min (LENGTH('a) - 1) n = n" by simp
  then show "bit (ucast (scast x :: 'b word) :: 'a word) n = bit x n" using l n by (simp add: bit_ucast_iff bit_signed_iff)
qed

lemma GetReference_SetReference [simp]: "GetReference (SetReference x r) = Some x"
  by (simp add: GetReference_def ucast_scast_same)

lemma ucast_widen: "LENGTH('a) \<le> 64 \<Longrightarrow> ucast (widen sg (x :: 'a::len word)) = x"
proof -
  assume l: "LENGTH('a) \<le> 64"
  then have "ucast (ucast x :: u64) = x" by (intro bit_word_eqI) (auto simp: bit_ucast_iff)
  then show ?thesis using l by (simp add: widen_def ucast_scast_same)
qed

lemma GetAs_eq:
  assumes "LENGTH('a) \<le> 64"
  shows "GetAs r = (if HasObject r then None else Some (ucast (v_value r) :: 'a::len word))"
proof -
  have "ucast (ucast w :: u32) = (ucast w :: 'a word)" if "LENGTH('a) \<le> 32" for w :: u64
    using that by (intro bit_word_eqI) (auto simp: bit_ucast_iff)
  then show ?thesis by (simp add: GetAs_def Get32_def GetLong_def)
qed

lemma GetAs_SetPrimitive:
  "LENGTH('a) \<le> 64 \<Longrightarrow> GetAs (SetPrimitive sg (x :: 'a::len word) r) = Some x"
  by (simp add: GetAs_eq ucast_widen)

lemma GetAs_Set_int:
  "LENGTH('a) \<le> 64 \<Longrightarrow> Set_int sg (x :: 'a::len word) r = Some r' \<Longrightarrow> GetAs r' = Some x"
  by (auto simp: GetAs_eq ucast_widen Set_int_def SetValue_def HasObject_def split: if_splits)

text \<open>
  A register gives back the primitive or the reference last stored in it and refuses the other kind, moves keep the
  value and the kind and refuse the other kind, and storing leaves all tag bits but the object flag unchanged.
\<close>

theorem vreg_roundtrip:
  assumes "LENGTH('a) \<le> 64"
  shows "GetAs (SetPrimitive sg (x :: 'a::len word) r) = Some x \<and> GetReference (SetPrimitive sg x r) = None \<and>
    GetReference (SetReference o' r) = Some o' \<and> GetAs (SetReference o' r) = (None :: 'a word option) \<and>
    MoveFrom (SetPrimitive sg x r) r2 = Some (SetPrimitive sg x r2) \<and> MoveFromObj (SetPrimitive sg x r) r2 = None \<and>
    MoveFromObj (SetReference o' r) r2 = Some (SetReference o' r2) \<and> MoveFrom (SetReference o' r) r2 = None \<and>
    (\<forall>n > 0. bit (v_tag (SetPrimitive sg x r)) n = bit (v_tag r) n \<and> bit (v_tag (SetReference o' r)) n = bit (v_tag r) n)"
proof -
  have "bit (v_tag (SetPrimitive sg x r)) n = bit (v_tag r) n" "bit (v_tag (SetReference o' r)) n = bit (v_tag r) n" if "0 < n" for n
    using that by (auto simp: SetPrimitive_def SetReference_def MarkAsObject_def MarkAsPrimitive_def SetValue_def
        OBJECT_MASK_def bit_simps dest: bit_imp_le_length)
  moreover have "MoveFrom (SetPrimitive sg x r) r2 = Some (SetPrimitive sg x r2)" "MoveFromObj (SetPrimitive sg x r) r2 = None"
    by (simp_all add: MoveFrom_def MoveFromObj_def) (simp add: SetPrimitive_def)
  moreover have "MoveFromObj (SetReference o' r) r2 = Some (SetReference o' r2)" "MoveFrom (SetReference o' r) r2 = None"
    by (simp_all add: MoveFrom_def MoveFromObj_def) (simp add: SetReference_def)
  ultimately show ?thesis
    using assms by (simp add: GetAs_SetPrimitive GetReference_def) (simp add: GetAs_eq ucast_scast_same)
qed

theorem vreg_roundtrip_witness:
  "GetAs (SetPrimitive True (0xFFFFFFFE :: u32) \<lparr>v_value = 7, v_tag = 0x11\<rparr>) = Some (0xFFFFFFFE :: u32)"
  using vreg_roundtrip [where 'a = 32 and x = "0xFFFFFFFE" and sg = True] by simp

end
