(* ===== verification/ManagedHeap.thy ===== *)
theory ManagedHeap
  imports VRegister Bytecode
begin

text \<open>
  The memory of managed objects as the interpreter reaches it: \<open>runtime/include/object_accessor.h\<close> (\<open>Get\<close>, \<open>Set\<close>) and
  \<open>runtime/include/coretypes/array.h\<close>, \<open>array-inl.h\<close>. An object is its class and its bytes from its start; a typed access
  outside them is \<open>None\<close>. The order of atomic accesses plays no role within one thread.
\<close>

type_synonym class_id = nat

record hobj =
  ho_class :: class_id
  ho_mem :: bytes

type_synonym heap = "ref \<Rightarrow> hobj option"

subsection \<open>Typed access to bytes\<close>

definition load :: "bytes \<Rightarrow> nat \<Rightarrow> 'a::len word option" where
  "load mem off =
     (let n = LENGTH('a) div 8
      in if off + n \<le> length mem
         then Some (fold (\<lambda>i v. v OR push_bit (i * 8) (ucast (mem ! (off + i)))) [0..<n] 0) else None)"

definition store :: "bytes \<Rightarrow> nat \<Rightarrow> 'a::len word \<Rightarrow> bytes option" where
  "store mem off v =
     (let n = LENGTH('a) div 8
      in if off + n \<le> length mem then Some (write_bytes mem off n (ucast v)) else None)"

subsection \<open>Objects and arrays\<close>

definition ACC_Get :: "heap \<Rightarrow> ref \<Rightarrow> nat \<Rightarrow> 'a::len word option" where
  "ACC_Get h obj off = (case h obj of None \<Rightarrow> None | Some ob \<Rightarrow> load (ho_mem ob) off)"

definition ACC_Set :: "heap \<Rightarrow> ref \<Rightarrow> nat \<Rightarrow> 'a::len word \<Rightarrow> heap option" where
  "ACC_Set h obj off v =
     (case h obj of None \<Rightarrow> None
      | Some ob \<Rightarrow> map_option (\<lambda>mem. h(obj \<mapsto> ob\<lparr>ho_mem := mem\<rparr>)) (store (ho_mem ob) off v))"

definition ARRAY_LENGTH_OFFSET :: nat where "ARRAY_LENGTH_OFFSET = 8"
definition ARRAY_DATA_OFFSET :: nat where "ARRAY_DATA_OFFSET = 16"

definition ComputeSize :: "nat \<Rightarrow> nat \<Rightarrow> nat" where
  "ComputeSize elem_size len = ARRAY_DATA_OFFSET + elem_size * len"

definition array_GetLength :: "heap \<Rightarrow> ref \<Rightarrow> u32 option" where
  "array_GetLength h arr = ACC_Get h arr ARRAY_LENGTH_OFFSET"

definition array_elem_offset :: "nat \<Rightarrow> u32 \<Rightarrow> nat" where
  "array_elem_offset elem_size idx = ARRAY_DATA_OFFSET + elem_size * unat idx"

definition array_Get :: "heap \<Rightarrow> ref \<Rightarrow> u32 \<Rightarrow> 'a::len word option" where
  "array_Get h arr idx = ACC_Get h arr (array_elem_offset (LENGTH('a) div 8) idx)"

definition array_Set :: "heap \<Rightarrow> ref \<Rightarrow> u32 \<Rightarrow> 'a::len word \<Rightarrow> heap option" where
  "array_Set h arr idx v = ACC_Set h arr (array_elem_offset (LENGTH('a) div 8) idx) v"

definition ho_class_of :: "heap \<Rightarrow> ref \<Rightarrow> class_id option" where
  "ho_class_of h obj = map_option ho_class (h obj)"

subsection \<open>Properties\<close>

definition byte_sized :: "'a::len itself \<Rightarrow> bool" where
  "byte_sized T \<longleftrightarrow> LENGTH('a) \<in> {8, 16, 32, 64}"

lemma load_bit:
  assumes "load mem off = Some (v :: 'a::len word)" "byte_sized TYPE('a)"
  shows "bit v k \<longleftrightarrow> k < LENGTH('a) \<and> bit (mem ! (off + k div 8)) (k mod 8)"
proof -
  have "LENGTH('a) div 8 * 8 = LENGTH('a)" using assms(2) by (auto simp: byte_sized_def)
  then show ?thesis using assms(1) by (auto simp: load_def Let_def bit_fold_bytes split: if_splits)
qed

lemma load_some_iff: "(\<exists>v. load mem off = Some (v :: 'a::len word)) \<longleftrightarrow> off + LENGTH('a) div 8 \<le> length mem"
  by (auto simp: load_def Let_def)

lemma length_store: "store mem off v = Some mem' \<Longrightarrow> length mem' = length mem"
  by (auto simp: store_def Let_def split: if_splits)

lemma load_store_same:
  assumes "store mem off (v :: 'a::len word) = Some mem'" "byte_sized TYPE('a)"
  shows "load mem' off = Some v"
proof -
  define n where "n = LENGTH('a) div 8"
  have n: "n * 8 = LENGTH('a)" "LENGTH('a) \<le> 64" using assms(2) by (auto simp: byte_sized_def n_def)
  have s: "off + n \<le> length mem" "mem' = write_bytes mem off n (ucast v)"
    using assms(1) by (auto simp: store_def n_def Let_def split: if_splits)
  then obtain v' :: "'a word" where v': "load mem' off = Some v'"
    using load_some_iff [where 'a = 'a, of mem' off] by (auto simp: n_def)
  have "v' = v"
  proof (rule bit_word_eqI)
    fix k assume k: "k < LENGTH('a)"
    then have "k div 8 < n" using n by (simp add: div_less_iff_less_mult)
    then have "mem' ! (off + k div 8) = ucast (drop_bit (k div 8 * 8) (ucast v :: u64))"
      using s nth_write_bytes [OF s(1), of "off + k div 8"] by simp
    then show "bit v' k = bit v k"
      using load_bit [OF v' assms(2), of k] k n by (simp add: bit_ucast_iff bit_drop_bit_eq)
  qed
  then show ?thesis using v' by simp
qed

lemma load_store_other:
  assumes "store mem off (v :: 'a::len word) = Some mem'" "byte_sized TYPE('b)"
    and disj: "off' + LENGTH('b) div 8 \<le> off \<or> off + LENGTH('a) div 8 \<le> off'"
  shows "load mem' off' = (load mem off' :: 'b::len word option)"
proof -
  have s: "off + LENGTH('a) div 8 \<le> length mem" "mem' = write_bytes mem off (LENGTH('a) div 8) (ucast v)"
    using assms(1) by (auto simp: store_def Let_def split: if_splits)
  have "mem' ! (off' + i) = mem ! (off' + i)" if "i < LENGTH('b) div 8" "off' + LENGTH('b) div 8 \<le> length mem" for i
    using nth_write_bytes [OF s(1), of "off' + i" "ucast v"] that disj s(2) by auto
  then show ?thesis unfolding load_def Let_def length_store [OF assms(1)]
    by (auto intro!: fold_cong)
qed

text \<open>A well-formed array of elements of \<open>elem_size\<close> bytes: its bytes are its header, length and elements.\<close>

definition array_ok :: "heap \<Rightarrow> nat \<Rightarrow> ref \<Rightarrow> bool" where
  "array_ok h elem_size arr \<longleftrightarrow>
     (\<exists>ob len. h arr = Some ob \<and> load (ho_mem ob) ARRAY_LENGTH_OFFSET = Some (len :: u32) \<and>
        length (ho_mem ob) = ComputeSize elem_size (unat len))"

lemma array_ok_length: "array_ok h e arr \<Longrightarrow> \<exists>len. array_GetLength h arr = Some len"
  by (auto simp: array_ok_def array_GetLength_def ACC_Get_def)

lemma elem_in_bounds: "(i::nat) < n \<Longrightarrow> e * i + e \<le> e * n"
  by (metis Suc_leI add.commute mult_Suc_right mult_le_mono2)

lemma array_get_in_bounds:
  assumes "array_ok h (LENGTH('a) div 8) arr" "array_GetLength h arr = Some len" "idx < len"
  shows "\<exists>v. array_Get h arr idx = Some (v :: 'a::len word)"
proof -
  obtain ob where ob: "h arr = Some ob" "length (ho_mem ob) = ComputeSize (LENGTH('a) div 8) (unat len)"
    using assms(1,2) by (auto simp: array_ok_def array_GetLength_def ACC_Get_def)
  then show ?thesis
    using elem_in_bounds [of "unat idx" "unat len" "LENGTH('a) div 8"] assms(3)
    by (auto simp: array_Get_def ACC_Get_def load_def Let_def array_elem_offset_def ComputeSize_def word_less_nat_alt)
qed

lemma array_set_in_bounds:
  assumes "array_ok h (LENGTH('a) div 8) arr" "array_GetLength h arr = Some len" "idx < len"
  shows "\<exists>h'. array_Set h arr idx (v :: 'a::len word) = Some h'"
proof -
  obtain ob where ob: "h arr = Some ob" "length (ho_mem ob) = ComputeSize (LENGTH('a) div 8) (unat len)"
    using assms(1,2) by (auto simp: array_ok_def array_GetLength_def ACC_Get_def)
  then show ?thesis
    using elem_in_bounds [of "unat idx" "unat len" "LENGTH('a) div 8"] assms(3)
    by (auto simp: array_Set_def ACC_Set_def store_def Let_def array_elem_offset_def ComputeSize_def word_less_nat_alt)
qed

lemma byte_sized_u32 [simp]: "byte_sized TYPE(32)" by (simp add: byte_sized_def)

text \<open>What a store to an element leaves: that element, every other element, the length, every other object.\<close>

lemma array_set_get:
  assumes "array_Set h arr idx (v :: 'a::len word) = Some h'" "byte_sized TYPE('a)"
  shows "array_Get h' arr idx = Some v"
    and "idx' \<noteq> idx \<Longrightarrow> array_Get h' arr idx' = (array_Get h arr idx' :: 'a word option)"
    and "array_GetLength h' arr = array_GetLength h arr"
    and "obj \<noteq> arr \<Longrightarrow> h' obj = h obj"
    and "ho_class_of h' obj = ho_class_of h obj"
proof -
  let ?n = "LENGTH('a) div 8"
  obtain ob mem where ob: "h arr = Some ob" "store (ho_mem ob) (array_elem_offset ?n idx) v = Some mem"
    "h' = h(arr \<mapsto> ob\<lparr>ho_mem := mem\<rparr>)"
    using assms(1) by (auto simp: array_Set_def ACC_Set_def split: option.splits)
  show "array_Get h' arr idx = Some v"
    using load_store_same [OF ob(2) assms(2)] ob by (simp add: array_Get_def ACC_Get_def)
  show "array_Get h' arr idx' = (array_Get h arr idx' :: 'a word option)" if "idx' \<noteq> idx"
  proof -
    have "unat idx' < unat idx \<or> unat idx < unat idx'" using that word_eqI_unat [of idx' idx] by linarith
    then have "array_elem_offset ?n idx' + ?n \<le> array_elem_offset ?n idx \<or> array_elem_offset ?n idx + ?n \<le> array_elem_offset ?n idx'"
      using elem_in_bounds [of "unat idx'" "unat idx" ?n] elem_in_bounds [of "unat idx" "unat idx'" ?n]
      by (auto simp: array_elem_offset_def)
    then show ?thesis using load_store_other [OF ob(2) assms(2)] ob by (simp add: array_Get_def ACC_Get_def)
  qed
  show "array_GetLength h' arr = array_GetLength h arr"
    using load_store_other [OF ob(2) byte_sized_u32, of ARRAY_LENGTH_OFFSET] ob
    by (simp add: array_GetLength_def ACC_Get_def array_elem_offset_def ARRAY_LENGTH_OFFSET_def ARRAY_DATA_OFFSET_def)
  show "h' obj = h obj" if "obj \<noteq> arr" using that ob by simp
  show "ho_class_of h' obj = ho_class_of h obj" using ob by (simp add: ho_class_of_def)
qed

end
