(* ===== verification/InterpreterCache.thy ===== *)
theory InterpreterCache
  imports VRegister
begin

text \<open>
  \<open>runtime/interpreter/cache.h\<close>: the per-thread cache of resolved entities, indexed by the address of the instruction, and
  \<open>PowerOfTwoTableSlot\<close> of \<open>libpandabase/utils/math_helpers.h\<close>. An instruction's address is a 64-bit word; items are the
  entities \<open>Method\<close>, \<open>Field\<close> and \<open>Class\<close> the cached pointer may be cast to.
\<close>

datatype item = ItemMethod nat | ItemField nat | ItemClass nat

record cache_entry =
  ce_pc :: u64
  ce_item :: "item option"
  ce_caller :: "method_id option"

type_synonym cache = "cache_entry list"

definition PowerOfTwoTableSlot :: "'a::len word \<Rightarrow> 'a word \<Rightarrow> nat \<Rightarrow> 'a word" where
  "PowerOfTwoTableSlot key table_size skipped_lowest_bits = drop_bit skipped_lowest_bits key AND (table_size - 1)"

definition CACHE_N :: nat where "CACHE_N = 256"

definition cache_GetIndex :: "u64 \<Rightarrow> nat" where
  "cache_GetIndex pc = unat (PowerOfTwoTableSlot pc (of_nat CACHE_N) 2)"

definition empty_entry :: cache_entry where
  "empty_entry = \<lparr>ce_pc = 0, ce_item = None, ce_caller = None\<rparr>"

definition cache_Has :: "cache \<Rightarrow> u64 \<Rightarrow> method_id \<Rightarrow> bool" where
  "cache_Has data pc caller =
     (let entry = data ! cache_GetIndex pc in ce_pc entry = pc \<and> ce_caller entry = Some caller)"

definition cache_Get :: "cache \<Rightarrow> u64 \<Rightarrow> method_id \<Rightarrow> item option" where
  "cache_Get data pc caller = (if \<not> cache_Has data pc caller then None else ce_item (data ! cache_GetIndex pc))"

definition cache_Set :: "cache \<Rightarrow> u64 \<Rightarrow> item \<Rightarrow> method_id \<Rightarrow> cache" where
  "cache_Set data pc it caller = data[cache_GetIndex pc := \<lparr>ce_pc = pc, ce_item = Some it, ce_caller = Some caller\<rparr>]"

definition cache_Clear :: cache where
  "cache_Clear = replicate CACHE_N empty_entry"

subsection \<open>Properties\<close>

lemma slot_mod: "table_size = 2 ^ k \<Longrightarrow> k < LENGTH('a) \<Longrightarrow>
    unat (PowerOfTwoTableSlot key (table_size :: 'a::len word) s) = unat key div 2 ^ s mod 2 ^ k"
  by (simp add: PowerOfTwoTableSlot_def mask_eq_exp_minus_1 [symmetric] and_mask_take_bit unat_take_bit unat_drop_bit)

lemma cache_index_bound: "cache_GetIndex pc < CACHE_N"
  using slot_mod [of "of_nat CACHE_N" 8 pc 2] by (simp add: cache_GetIndex_def CACHE_N_def)

text \<open>What the cache holds is right: for every key, the item is the resolution of that key.\<close>

definition cache_coherent :: "(method_id \<Rightarrow> u64 \<Rightarrow> item option) \<Rightarrow> cache \<Rightarrow> bool" where
  "cache_coherent resolve data \<longleftrightarrow> length data = CACHE_N \<and>
     (\<forall>e \<in> set data. \<forall>m it. ce_caller e = Some m \<longrightarrow> ce_item e = Some it \<longrightarrow> resolve m (ce_pc e) = Some it)"

text \<open>
  C31: A coherent cache answers a lookup with nothing or with the resolution of exactly that instruction and caller;
  recording a resolution keeps it coherent, makes the lookup find it and disturbs no other slot; clearing empties it.
\<close>

theorem cache_is_sound:
  assumes "cache_coherent resolve data" "resolve caller pc = Some it"
  shows "cache_Get data pc' caller' \<in> {None, resolve caller' pc'} \<and>
    cache_coherent resolve (cache_Set data pc it caller) \<and> cache_Get (cache_Set data pc it caller) pc caller = Some it \<and>
    (cache_GetIndex pc' \<noteq> cache_GetIndex pc \<longrightarrow> cache_Get (cache_Set data pc it caller) pc' caller' = cache_Get data pc' caller') \<and>
    cache_coherent resolve cache_Clear \<and> cache_Get cache_Clear pc caller = None"
proof -
  have len: "length data = CACHE_N" using assms(1) by (simp add: cache_coherent_def)
  have "cache_Get data pc' caller' \<in> {None, resolve caller' pc'}"
    using assms(1) cache_index_bound [of pc'] len
    by (auto simp: cache_Get_def cache_Has_def cache_coherent_def Let_def) (metis nth_mem not_None_eq)
  moreover have "cache_coherent resolve (cache_Set data pc it caller)"
    using assms by (auto simp: cache_coherent_def cache_Set_def dest!: set_update_subset_insert [THEN subsetD])
  moreover have "cache_Get (cache_Set data pc it caller) pc caller = Some it"
    using cache_index_bound [of pc] len by (simp add: cache_Get_def cache_Has_def cache_Set_def Let_def)
  moreover have "cache_GetIndex pc' \<noteq> cache_GetIndex pc \<longrightarrow>
      cache_Get (cache_Set data pc it caller) pc' caller' = cache_Get data pc' caller'"
    by (simp add: cache_Get_def cache_Has_def cache_Set_def Let_def)
  moreover have "cache_coherent resolve cache_Clear" "cache_Get cache_Clear pc caller = None"
    using cache_index_bound [of pc]
    by (auto simp: cache_coherent_def cache_Clear_def empty_entry_def cache_Get_def cache_Has_def Let_def)
  ultimately show ?thesis by blast
qed

theorem cache_is_sound_witness:
  "cache_Get (cache_Set cache_Clear 0x1004 (ItemField 3) 7) 0x1004 7 = Some (ItemField 3)"
proof -
  have "cache_coherent (\<lambda>_ _. Some (ItemField 3)) cache_Clear"
    by (simp add: cache_coherent_def cache_Clear_def empty_entry_def)
  then show ?thesis using cache_is_sound [of "\<lambda>_ _. Some (ItemField 3)" cache_Clear 7 "0x1004" "ItemField 3" 0 0] by simp
qed

end
