(* ===== verification/InterpreterState.thy ===== *)
theory InterpreterState
  imports ManagedHeap InterpreterCache MathHelpers
begin

text \<open>
  The state of the interpreter: \<open>runtime/interpreter/state.h\<close>, \<open>instruction_handler_state.h\<close> and
  \<open>instruction_handler_base.h\<close>.

  \<^item> \<open>vm\<close>: what the runtime can see and change while a handler calls it: the heap, the storage of static fields, the
    thread's frames (the current one first, each next one its \<open>prev\<close>), its pending exception and interpreter cache; the
    rest of the runtime is an uninterpreted \<open>vm_env\<close>.
  \<^item> \<open>rt\<close>: the runtime interface. It is the template parameter \<open>RuntimeIfaceT\<close> of the handlers, with the entities they
    reach through it (methods, fields, classes, the language context, compiled code) and the floating point unit.
  \<^item> \<open>istate\<close>: the handler state: the accumulator, the instruction pointer, the opcode extension and \<open>instructions_\<close>.

  A failed \<open>ASSERT\<close>, \<open>UNREACHABLE\<close>, undefined behaviour or access outside an object, frame or bytecode is \<open>None\<close>.
\<close>

subsection \<open>The runtime\<close>

datatype TypeId = TyU1 | TyI8 | TyU8 | TyI16 | TyU16 | TyI32 | TyU32 | TyF32 | TyF64 | TyI64 | TyU64 | TyREFERENCE | TyOther

record method_info =
  mi_code :: bytes
  mi_num_vregs :: nat
  mi_num_args :: nat
  mi_static :: bool
  mi_abstract :: bool
  mi_constructor :: bool
  mi_class :: class_id

record field_info =
  fi_type :: TypeId
  fi_offset :: nat
  fi_static :: bool
  fi_class :: class_id

datatype throwable =
    NullPointerException
  | ArrayIndexOutOfBoundsException u32 u32
  | NegativeArraySizeException u32
  | ArithmeticException
  | ClassCastException class_id class_id
  | AbstractMethodError method_id
  | ArrayStoreException class_id class_id
  | VerificationException method_id
  | OutOfMemoryError
  | TypedErrorDyn

text \<open>Where a reference is stored: a byte of an object, or of the static fields of a class.\<close>

datatype slot = ObjSlot ref nat | ClassSlot class_id nat

record 'w vm =
  vm_heap :: heap
  vm_statics :: "class_id \<Rightarrow> bytes option"
  vm_frames :: "frame list"
  vm_exception :: ref
  vm_cache :: cache
  vm_env :: 'w

record 'w rt =
  rt_method :: "method_id \<Rightarrow> method_info"
  rt_field :: "nat \<Rightarrow> field_info"
  rt_address :: "code_base \<Rightarrow> u64"
  rt_IsAssignableFrom :: "class_id \<Rightarrow> class_id \<Rightarrow> bool"
  rt_GetComponentType :: "class_id \<Rightarrow> class_id"
  rt_IsArrayClass :: "class_id \<Rightarrow> bool"
  rt_ResolveVirtualMethod :: "class_id \<Rightarrow> method_id \<Rightarrow> method_id option"
  rt_GetManagedObject :: "class_id \<Rightarrow> ref"
  rt_Throw :: "throwable \<Rightarrow> 'w vm \<Rightarrow> 'w vm"
  rt_ResolveString :: "method_id \<Rightarrow> u32 \<Rightarrow> 'w vm \<Rightarrow> ref \<times> 'w vm"
  rt_ResolveLiteralArray :: "method_id \<Rightarrow> u32 \<Rightarrow> 'w vm \<Rightarrow> ref \<times> 'w vm"
  rt_ResolveMethod :: "method_id \<Rightarrow> u32 \<Rightarrow> 'w vm \<Rightarrow> method_id option \<times> 'w vm"
  rt_ResolveField :: "method_id \<Rightarrow> u32 \<Rightarrow> 'w vm \<Rightarrow> nat option \<times> 'w vm"
  rt_ResolveClass :: "bool \<Rightarrow> method_id \<Rightarrow> u32 \<Rightarrow> 'w vm \<Rightarrow> class_id option \<times> 'w vm"
  rt_GetMethodClass :: "method_id \<Rightarrow> u32 \<Rightarrow> 'w vm \<Rightarrow> class_id option \<times> 'w vm"
  rt_GetMethodArgumentsCount :: "method_id \<Rightarrow> u32 \<Rightarrow> nat"
  rt_CreateArray :: "class_id \<Rightarrow> u32 \<Rightarrow> 'w vm \<Rightarrow> ref \<times> 'w vm"
  rt_CreateMultiDimensionalArray :: "class_id \<Rightarrow> nat \<Rightarrow> (nat \<Rightarrow> u32 option) \<Rightarrow> 'w vm \<Rightarrow> (ref \<times> 'w vm) option"
  rt_CreateObject :: "class_id \<Rightarrow> 'w vm \<Rightarrow> ref \<times> 'w vm"
  rt_AllocFrame :: "nat \<Rightarrow> 'w vm \<Rightarrow> vreg list option \<times> 'w vm"
  rt_FindCatchBlock :: "method_id \<Rightarrow> ref \<Rightarrow> u32 \<Rightarrow> 'w vm \<Rightarrow> u32 \<times> 'w vm"
  rt_TestAllFlags :: "'w vm \<Rightarrow> bool"
  rt_Safepoint :: "'w vm \<Rightarrow> 'w vm"
  rt_IncrementHotnessCounter :: "method_id \<Rightarrow> 'w vm \<Rightarrow> 'w vm"
  rt_IncrementHotnessCounterOSR :: "method_id \<Rightarrow> u32 \<Rightarrow> vreg \<Rightarrow> 'w vm \<Rightarrow> bool \<times> vreg \<times> 'w vm"
  rt_SupportOSR :: bool
  rt_HasCompiledCode :: "method_id \<Rightarrow> 'w vm \<Rightarrow> bool"
  rt_CompiledCodeBridge :: "bool \<Rightarrow> ip \<Rightarrow> method_id \<Rightarrow> 'w vm \<Rightarrow> 'w vm"
  rt_Verify :: "method_id \<Rightarrow> 'w vm \<Rightarrow> bool \<times> 'w vm"
  rt_MethodEntryEvent :: "method_id \<Rightarrow> 'w vm \<Rightarrow> 'w vm"
  rt_MethodExitEvent :: "method_id \<Rightarrow> 'w vm \<Rightarrow> 'w vm"
  rt_UpdateInlineCaches :: "method_id \<Rightarrow> u32 \<Rightarrow> class_id \<Rightarrow> 'w vm \<Rightarrow> 'w vm"
  rt_IsDebugMode :: bool
  rt_BytecodePcChangedEvent :: "'w vm \<Rightarrow> 'w vm"
  rt_ExceptionCatchEvent :: "method_id \<Rightarrow> u32 \<Rightarrow> 'w vm \<Rightarrow> 'w vm"
  rt_FindCatchBlockInCallStack :: "ref \<Rightarrow> 'w vm \<Rightarrow> 'w vm"
  rt_PreBarrier :: "slot \<Rightarrow> ref \<Rightarrow> 'w \<Rightarrow> 'w"
  rt_PostBarrier :: "ref \<Rightarrow> ref \<Rightarrow> 'w \<Rightarrow> 'w"
  rt_GetTypeTag :: "u64 \<Rightarrow> u64"
  rt_InitialDecodedValue :: "vreg"
  rt_IsCallableObject :: "u64 \<Rightarrow> 'w vm \<Rightarrow> bool"
  rt_GetCallTarget :: "u64 \<Rightarrow> 'w vm \<Rightarrow> method_id"
  rt_SetExceptionToVReg :: "ref \<Rightarrow> vreg \<Rightarrow> vreg"
  rt_IsBoundaryFrame :: "frame \<Rightarrow> bool"
  rt_fp32 :: "nat \<Rightarrow> u32 \<Rightarrow> u32 \<Rightarrow> u32"
  rt_fp64 :: "nat \<Rightarrow> u64 \<Rightarrow> u64 \<Rightarrow> u64"
  rt_i_to_f32 :: "int \<Rightarrow> u32"
  rt_i_to_f64 :: "int \<Rightarrow> u64"
  rt_f32_to_f64 :: "u32 \<Rightarrow> u64"
  rt_f64_to_f32 :: "u64 \<Rightarrow> u32"

subsection \<open>The handler state\<close>

record 'w istate =
  st_vm :: "'w vm"
  st_acc :: vreg
  st_inst :: ip
  st_opext :: u16
  st_instructions :: ip

definition RETURN_VOID :: u8 where "RETURN_VOID = 0x92"
definition NUM_PREFIXED :: u16 where "NUM_PREFIXED = 72"
definition EXCEPTION_OPCODE :: u16 where "EXCEPTION_OPCODE = 255 + NUM_PREFIXED + 1"

definition code_of :: "'w rt \<Rightarrow> code_base \<Rightarrow> bytes" where
  "code_of rt b = (case b of Code m \<Rightarrow> mi_code (rt_method rt m) | FakeInstBuf \<Rightarrow> [RETURN_VOID])"

definition at_inst :: "'w rt \<Rightarrow> (bytes \<Rightarrow> nat \<Rightarrow> 'a option) \<Rightarrow> 'w istate \<Rightarrow> 'a option" where
  "at_inst rt rd st = (case st_inst st of (b, off) \<Rightarrow> if off < 0 then None else rd (code_of rt b) (nat off))"

definition inst_VReg :: "'w rt \<Rightarrow> Format \<Rightarrow> nat \<Rightarrow> 'w istate \<Rightarrow> nat option" where
  "inst_VReg rt f i st = at_inst rt (GetVReg f i) st"

definition inst_Imm :: "'w rt \<Rightarrow> Format \<Rightarrow> nat \<Rightarrow> 'w istate \<Rightarrow> u64 option" where
  "inst_Imm rt f i st = at_inst rt (GetImm f i) st"

definition inst_Id :: "'w rt \<Rightarrow> Format \<Rightarrow> 'w istate \<Rightarrow> u32 option" where
  "inst_Id rt f st = at_inst rt (GetId f 0) st"

definition GetPrimaryOpcode :: "'w rt \<Rightarrow> 'w istate \<Rightarrow> u8 option" where
  "GetPrimaryOpcode rt st = map_option (\<lambda>w. ucast (w AND 0xFF)) (at_inst rt GetOpcode st)"

definition GetSecondaryOpcode :: "'w rt \<Rightarrow> 'w istate \<Rightarrow> u8 option" where
  "GetSecondaryOpcode rt st = map_option (\<lambda>w. ucast (drop_bit 8 w AND 0xFF)) (at_inst rt GetOpcode st)"

definition GetExceptionOpcode :: "'w rt \<Rightarrow> 'w istate \<Rightarrow> u16 option" where
  "GetExceptionOpcode rt st = map_option (\<lambda>w. (w AND 0xFF) + st_opext st) (at_inst rt GetOpcode st)"

definition inst_address :: "'w rt \<Rightarrow> 'w istate \<Rightarrow> u64" where
  "inst_address rt st = (case st_inst st of (b, off) \<Rightarrow> rt_address rt b + word_of_int off)"

definition GetBytecodeOffset :: "'w istate \<Rightarrow> u32" where
  "GetBytecodeOffset st = word_of_int (snd (st_inst st) - snd (st_instructions st))"

subsection \<open>Frames and registers of the state\<close>

definition GetFrame :: "'w istate \<Rightarrow> frame option" where
  "GetFrame st = (case vm_frames (st_vm st) of [] \<Rightarrow> None | f # _ \<Rightarrow> Some f)"

definition put_frame :: "frame \<Rightarrow> 'w istate \<Rightarrow> 'w istate" where
  "put_frame f st = st\<lparr>st_vm := (st_vm st)\<lparr>vm_frames := f # tl (vm_frames (st_vm st))\<rparr>\<rparr>"

definition GetMethod :: "'w istate \<Rightarrow> method_id option" where
  "GetMethod st = map_option f_method (GetFrame st)"

definition read_vreg :: "nat \<Rightarrow> 'w istate \<Rightarrow> vreg option" where
  "read_vreg i st = GetFrame st \<bind> (\<lambda>f. frame_GetVReg f i)"

definition write_vreg :: "nat \<Rightarrow> vreg \<Rightarrow> 'w istate \<Rightarrow> 'w istate option" where
  "write_vreg i r st = do { f \<leftarrow> GetFrame st; f \<leftarrow> frame_SetVReg i r f; Some (put_frame f st) }"

definition SetAcc_frame :: "'w istate \<Rightarrow> 'w istate option" where
  "SetAcc_frame st = do { f \<leftarrow> GetFrame st; Some (put_frame (f\<lparr>f_acc := st_acc st\<rparr>) st) }"

definition GetAcc_frame :: "'w istate \<Rightarrow> 'w istate option" where
  "GetAcc_frame st = do { f \<leftarrow> GetFrame st; Some (st\<lparr>st_acc := f_acc f\<rparr>) }"

definition UpdateBytecodeOffset :: "'w istate \<Rightarrow> 'w istate option" where
  "UpdateBytecodeOffset st = do { f \<leftarrow> GetFrame st; Some (put_frame (f\<lparr>f_bc_offset := GetBytecodeOffset st\<rparr>) st) }"

definition UpdateInstructionHandlerState :: "ip \<Rightarrow> 'w istate \<Rightarrow> 'w istate option" where
  "UpdateInstructionHandlerState pc st = do { f \<leftarrow> GetFrame st; Some (st\<lparr>st_inst := pc, st_instructions := f_inst f\<rparr>) }"

definition init_state :: "'w vm \<Rightarrow> ip \<Rightarrow> 'w istate option" where
  "init_state vm pc =
     (case vm_frames vm of [] \<Rightarrow> None
      | f # _ \<Rightarrow> Some \<lparr>st_vm = vm, st_acc = f_acc f, st_inst = pc, st_opext = 0, st_instructions = f_inst f\<rparr>)"

subsection \<open>Control flow\<close>

definition MoveToNextInst :: "Format \<Rightarrow> bool \<Rightarrow> 'w istate \<Rightarrow> 'w istate" where
  "MoveToNextInst f can_throw st =
     st\<lparr>st_inst := (fst (st_inst st), snd (st_inst st) + int (InstSize f)), st_opext := if can_throw then 0 else st_opext st\<rparr>"

definition JumpToInst :: "bool \<Rightarrow> u32 \<Rightarrow> 'w istate \<Rightarrow> 'w istate" where
  "JumpToInst can_throw offset st =
     st\<lparr>st_inst := (fst (st_inst st), snd (st_inst st) + sint offset), st_opext := if can_throw then 0 else st_opext st\<rparr>"

definition JumpTo_pc :: "bool \<Rightarrow> ip \<Rightarrow> 'w istate \<Rightarrow> 'w istate" where
  "JumpTo_pc can_throw pc st = st\<lparr>st_inst := pc, st_opext := if can_throw then 0 else st_opext st\<rparr>"

definition MoveToExceptionHandler :: "'w rt \<Rightarrow> 'w istate \<Rightarrow> 'w istate option" where
  "MoveToExceptionHandler rt st =
     do { p \<leftarrow> GetPrimaryOpcode rt st; Some (st\<lparr>st_opext := EXCEPTION_OPCODE - ucast p\<rparr>) }"

definition Throw :: "'w rt \<Rightarrow> throwable \<Rightarrow> 'w istate \<Rightarrow> 'w istate" where
  "Throw rt e st = st\<lparr>st_vm := rt_Throw rt e (st_vm st)\<rparr>"

definition throw_to_handler :: "'w rt \<Rightarrow> throwable \<Rightarrow> 'w istate \<Rightarrow> 'w istate option" where
  "throw_to_handler rt e st = MoveToExceptionHandler rt (Throw rt e st)"

definition HasPendingException :: "'w vm \<Rightarrow> bool" where
  "HasPendingException vm \<longleftrightarrow> vm_exception vm \<noteq> nullptr"

text \<open>A call of the runtime that may collect garbage: the accumulator is in the frame meanwhile.\<close>

definition call_runtime :: "('w vm \<Rightarrow> 'a \<times> 'w vm) \<Rightarrow> 'w istate \<Rightarrow> ('a \<times> 'w istate) option" where
  "call_runtime g st =
     do { st \<leftarrow> SetAcc_frame st;
          let (x, vm) = g (st_vm st);
          st \<leftarrow> GetAcc_frame (st\<lparr>st_vm := vm\<rparr>);
          Some (x, st) }"

subsection \<open>Instrumentation\<close>

definition InstrumentInstruction :: "bool \<Rightarrow> 'w rt \<Rightarrow> 'w istate \<Rightarrow> 'w istate option" where
  "InstrumentInstruction enable_instrumentation rt st =
     (if \<not> enable_instrumentation then Some st
      else do { st \<leftarrow> SetAcc_frame st;
                st \<leftarrow> UpdateBytecodeOffset st;
                GetAcc_frame (st\<lparr>st_vm := rt_BytecodePcChangedEvent rt (st_vm st)\<rparr>) })"

definition InstrumentForceReturn :: "'w istate \<Rightarrow> 'w istate option" where
  "InstrumentForceReturn st =
     do { f \<leftarrow> GetFrame st; Some (put_frame (f\<lparr>f_acc := vreg0\<rparr>) (st\<lparr>st_acc := vreg0\<rparr>)) }"

subsection \<open>Properties\<close>

lemma GetFrame_put [simp]: "GetFrame (put_frame f st) = Some f"
  by (simp add: GetFrame_def put_frame_def)

lemma put_put [simp]: "put_frame f (put_frame g st) = put_frame f st"
  by (simp add: put_frame_def)

lemma put_same: "GetFrame st = Some f \<Longrightarrow> put_frame f st = st"
  by (auto simp: GetFrame_def put_frame_def split: list.splits)

lemma low_byte: "ucast (ucast (w AND 0xFF) :: u8) = w AND (0xFF :: u16)"
proof -
  have "w AND 0xFF = take_bit 8 w" using and_mask_take_bit [of w 8] by (simp add: mask_eq_exp_minus_1)
  then show ?thesis by (intro bit_word_eqI) (auto simp: bit_simps)
qed

lemma at_inst_update [simp]:
  "at_inst rt rd (st\<lparr>st_opext := x\<rparr>) = at_inst rt rd st" "at_inst rt rd (st\<lparr>st_vm := vm\<rparr>) = at_inst rt rd st"
  "at_inst rt rd (st\<lparr>st_acc := r\<rparr>) = at_inst rt rd st" "at_inst rt rd (put_frame fr st) = at_inst rt rd st"
  by (simp_all add: at_inst_def put_frame_def)

lemma MoveToExceptionHandler_eq:
  assumes "at_inst rt GetOpcode st = Some opc"
  shows "MoveToExceptionHandler rt st = Some (st\<lparr>st_opext := 328 - (opc AND 0xFF)\<rparr>)"
    and "GetExceptionOpcode rt (st\<lparr>st_opext := 328 - (opc AND 0xFF)\<rparr>) = Some 328"
  using assms by (simp_all add: MoveToExceptionHandler_def GetPrimaryOpcode_def GetExceptionOpcode_def low_byte
      EXCEPTION_OPCODE_def NUM_PREFIXED_def)

text \<open>
  C30: After a handler asks for the exception handler, dispatching on the opcode plus the extension selects entry 328, the
  last of the dispatch table, whatever the opcode; with no extension it selects the opcode's own entry. The extension is
  right only as long as the instruction pointer stays at an instruction with the same primary opcode.
\<close>

theorem exception_dispatch:
  assumes "at_inst rt GetOpcode st = Some opc"
  shows "\<exists>st'. MoveToExceptionHandler rt st = Some st' \<and> GetExceptionOpcode rt st' = Some 328 \<and>
    (GetExceptionOpcode rt (st\<lparr>st_opext := 0\<rparr>) = map_option ucast (GetPrimaryOpcode rt st)) \<and>
    (\<forall>opc2 st2. at_inst rt GetOpcode st2 = Some opc2 \<longrightarrow> st_opext st2 = st_opext st' \<longrightarrow>
       (GetExceptionOpcode rt st2 = Some 328 \<longleftrightarrow> opc2 AND 0xFF = opc AND 0xFF))"
proof -
  have "GetExceptionOpcode rt (st\<lparr>st_opext := 0\<rparr>) = map_option ucast (GetPrimaryOpcode rt st)"
    using assms by (simp add: GetExceptionOpcode_def GetPrimaryOpcode_def low_byte)
  moreover have "a + (c - b) = c \<longleftrightarrow> a = b" for a b c :: u16 by (simp add: add_diff_eq diff_eq_eq add.commute)
  ultimately show ?thesis
    using MoveToExceptionHandler_eq [OF assms] by (auto simp: GetExceptionOpcode_def)
qed

subsection \<open>A runtime\<close>

text \<open>
  A runtime to evaluate the model with: every method is \<open>mov v1, v2; throw v0\<close>, every throw makes object 16 the pending
  exception, every resolution succeeds, and nothing else happens.
\<close>

definition sample_rt :: "unit rt" where
  "sample_rt =
     \<lparr>rt_method = (\<lambda>_. \<lparr>mi_code = [0x01, 0x21, 0x93, 0x00], mi_num_vregs = 2, mi_num_args = 0, mi_static = True, mi_abstract = False, mi_constructor = False, mi_class = 0\<rparr>),
      rt_field = (\<lambda>_. \<lparr>fi_type = TyI32, fi_offset = 8, fi_static = False, fi_class = 0\<rparr>),
      rt_address = (\<lambda>_. 0x1000),
      rt_IsAssignableFrom = (\<lambda>a b. a = b),
      rt_GetComponentType = (\<lambda>c. c),
      rt_IsArrayClass = (\<lambda>_. False),
      rt_ResolveVirtualMethod = (\<lambda>c m. Some m),
      rt_GetManagedObject = (\<lambda>_. 8),
      rt_Throw = (\<lambda>_ vm. vm\<lparr>vm_exception := 16\<rparr>),
      rt_ResolveString = (\<lambda>_ _ vm. (24, vm)),
      rt_ResolveLiteralArray = (\<lambda>_ _ vm. (24, vm)),
      rt_ResolveMethod = (\<lambda>_ i vm. (Some (unat i), vm)),
      rt_ResolveField = (\<lambda>_ i vm. (Some (unat i), vm)),
      rt_ResolveClass = (\<lambda>_ _ i vm. (Some (unat i), vm)),
      rt_GetMethodClass = (\<lambda>_ i vm. (Some (unat i), vm)),
      rt_GetMethodArgumentsCount = (\<lambda>_ _. 1),
      rt_CreateArray = (\<lambda>_ _ vm. (32, vm)),
      rt_CreateMultiDimensionalArray = (\<lambda>_ _ _ vm. Some (32, vm)),
      rt_CreateObject = (\<lambda>_ vm. (40, vm)),
      rt_AllocFrame = (\<lambda>n vm. (Some (replicate n vreg0), vm)),
      rt_FindCatchBlock = (\<lambda>_ _ _ vm. (0xFFFFFFFF, vm)),
      rt_TestAllFlags = (\<lambda>_. False),
      rt_Safepoint = (\<lambda>vm. vm),
      rt_IncrementHotnessCounter = (\<lambda>_ vm. vm),
      rt_IncrementHotnessCounterOSR = (\<lambda>_ _ a vm. (False, a, vm)),
      rt_SupportOSR = False,
      rt_HasCompiledCode = (\<lambda>_ _. False),
      rt_CompiledCodeBridge = (\<lambda>_ _ _ vm. vm),
      rt_Verify = (\<lambda>_ vm. (True, vm)),
      rt_MethodEntryEvent = (\<lambda>_ vm. vm),
      rt_MethodExitEvent = (\<lambda>_ vm. vm),
      rt_UpdateInlineCaches = (\<lambda>_ _ _ vm. vm),
      rt_IsDebugMode = False,
      rt_BytecodePcChangedEvent = (\<lambda>vm. vm),
      rt_ExceptionCatchEvent = (\<lambda>_ _ vm. vm),
      rt_FindCatchBlockInCallStack = (\<lambda>_ vm. vm),
      rt_PreBarrier = (\<lambda>_ _ w. w),
      rt_PostBarrier = (\<lambda>_ _ w. w),
      rt_GetTypeTag = (\<lambda>t. t),
      rt_InitialDecodedValue = vreg0,
      rt_IsCallableObject = (\<lambda>_ _. True),
      rt_GetCallTarget = (\<lambda>_ _. 0),
      rt_SetExceptionToVReg = (\<lambda>e r. SetReference e r),
      rt_IsBoundaryFrame = (\<lambda>_. False),
      rt_fp32 = (\<lambda>_ x y. x),
      rt_fp64 = (\<lambda>_ x y. x),
      rt_i_to_f32 = (\<lambda>_. 0),
      rt_i_to_f64 = (\<lambda>_. 0),
      rt_f32_to_f64 = (\<lambda>_. 0),
      rt_f64_to_f32 = (\<lambda>_. 0)\<rparr>"

definition sample_frame :: frame where
  "sample_frame = (make_frame 0 [vreg0, vreg0] 2 0)\<lparr>f_inst := (Code 0, 0)\<rparr>"

definition sample_vm :: "unit vm" where
  "sample_vm = \<lparr>vm_heap = Map.empty, vm_statics = Map.empty, vm_frames = [sample_frame], vm_exception = 0,
     vm_cache = cache_Clear, vm_env = ()\<rparr>"

definition sample_state :: "unit istate" where
  "sample_state = \<lparr>st_vm = sample_vm, st_acc = vreg0, st_inst = (Code 0, 0), st_opext = 0, st_instructions = (Code 0, 0)\<rparr>"

lemma sample_code [simp]: "code_of sample_rt (Code m) = [0x01, 0x21, 0x93, 0x00]"
  by (simp add: code_of_def sample_rt_def)

theorem exception_dispatch_witness:
  "\<exists>st'. MoveToExceptionHandler sample_rt sample_state = Some st' \<and> GetExceptionOpcode sample_rt st' = Some 328"
proof -
  have "at_inst sample_rt GetOpcode sample_state = Some 1"
    by (simp add: at_inst_def sample_state_def GetOpcode_def word_le_nat_alt)
  then show ?thesis using exception_dispatch by blast
qed

end
