(* ===== verification/InterpreterOps.thy ===== *)
theory InterpreterOps
  imports InterpreterState FloatToInt TaggedValue
begin

text \<open>
  \<open>runtime/interpreter/interpreter-inl.h\<close>: the handlers of the instructions that move, compute and branch. A handler takes
  the runtime, the format it is instantiated with and the state; \<open>None\<close> is undefined behaviour or a failed assertion. The
  generic handlers take the C++ operation as a function on words; \<open>sg\<close> tells whether its result is a signed type. A
  floating point value is its bit pattern.
\<close>

type_synonym 'w handler = "'w rt \<Rightarrow> Format \<Rightarrow> 'w istate \<Rightarrow> 'w istate option"

subsection \<open>Moves and constants\<close>

definition upd_vreg :: "nat \<Rightarrow> (vreg \<Rightarrow> vreg option) \<Rightarrow> 'w istate \<Rightarrow> 'w istate option" where
  "upd_vreg i g st = do { r \<leftarrow> read_vreg i st; r \<leftarrow> g r; write_vreg i r st }"

definition set_acc :: "vreg \<Rightarrow> 'w istate \<Rightarrow> 'w istate" where
  "set_acc r st = st\<lparr>st_acc := r\<rparr>"

definition imm32 :: "'w rt \<Rightarrow> Format \<Rightarrow> 'w istate \<Rightarrow> u32 option" where
  "imm32 rt f st = map_option ucast (inst_Imm rt f 0 st)"

definition HandleNop :: "'w handler" where
  "HandleNop rt f st = Some (MoveToNextInst f False st)"

definition HandleFldaiDyn :: "'w handler" where
  "HandleFldaiDyn rt f st =
     do { imm \<leftarrow> inst_Imm rt f 0 st;
          v \<leftarrow> tagged_of_double imm;
          Some (MoveToNextInst f False (set_acc (SetTag (rt_GetTypeTag rt DOUBLE_TAG) (SetValue v (st_acc st))) st)) }"

definition HandleLdaiDyn :: "'w handler" where
  "HandleLdaiDyn rt f st =
     do { imm \<leftarrow> imm32 rt f st;
          Some (MoveToNextInst f False
            (set_acc (SetTag (rt_GetTypeTag rt INT_TAG) (SetValue (tagged_of_int imm) (st_acc st))) st)) }"

definition HandleMov :: "'w handler" where
  "HandleMov rt f st =
     do { vd \<leftarrow> inst_VReg rt f 0 st; vs \<leftarrow> inst_VReg rt f 1 st;
          r \<leftarrow> read_vreg vs st; st \<leftarrow> upd_vreg vd (MoveFrom r) st; Some (MoveToNextInst f False st) }"

definition HandleMovWide :: "'w handler" where
  "HandleMovWide rt f st =
     do { vd \<leftarrow> inst_VReg rt f 0 st; vs \<leftarrow> inst_VReg rt f 1 st;
          r \<leftarrow> read_vreg vs st; st \<leftarrow> upd_vreg vd (MoveFrom r) st; Some (MoveToNextInst f False st) }"

definition HandleMovObj :: "'w handler" where
  "HandleMovObj rt f st =
     do { vd \<leftarrow> inst_VReg rt f 0 st; vs \<leftarrow> inst_VReg rt f 1 st;
          r \<leftarrow> read_vreg vs st; st \<leftarrow> upd_vreg vd (MoveFromObj r) st; Some (MoveToNextInst f False st) }"

definition HandleMovDyn :: "'w handler" where
  "HandleMovDyn rt f st =
     do { vd \<leftarrow> inst_VReg rt f 0 st; vs \<leftarrow> inst_VReg rt f 1 st;
          r \<leftarrow> read_vreg vs st; st \<leftarrow> upd_vreg vd (\<lambda>d. Some (Move r d)) st; Some (MoveToNextInst f False st) }"

definition HandleMovi :: "'w handler" where
  "HandleMovi rt f st =
     do { imm \<leftarrow> imm32 rt f st; vd \<leftarrow> inst_VReg rt f 0 st;
          st \<leftarrow> upd_vreg vd (\<lambda>d. Some (SetPrimitive True imm d)) st; Some (MoveToNextInst f False st) }"

definition HandleMoviWide :: "'w handler" where
  "HandleMoviWide rt f st =
     do { imm \<leftarrow> inst_Imm rt f 0 st; vd \<leftarrow> inst_VReg rt f 0 st;
          st \<leftarrow> upd_vreg vd (\<lambda>d. Some (SetPrimitive True imm d)) st; Some (MoveToNextInst f False st) }"

definition HandleFmovi :: "'w handler" where
  "HandleFmovi rt f st =
     do { imm \<leftarrow> imm32 rt f st; vd \<leftarrow> inst_VReg rt f 0 st;
          st \<leftarrow> upd_vreg vd (\<lambda>d. Some (SetPrimitive True imm d)) st; Some (MoveToNextInst f False st) }"

definition HandleFmoviWide :: "'w handler" where
  "HandleFmoviWide rt f st =
     do { imm \<leftarrow> inst_Imm rt f 0 st; vd \<leftarrow> inst_VReg rt f 0 st;
          st \<leftarrow> upd_vreg vd (\<lambda>d. Some (SetPrimitive True imm d)) st; Some (MoveToNextInst f False st) }"

definition HandleMovNull :: "'w handler" where
  "HandleMovNull rt f st =
     do { vd \<leftarrow> inst_VReg rt f 0 st;
          st \<leftarrow> upd_vreg vd (\<lambda>d. Some (SetReference nullptr d)) st; Some (MoveToNextInst f False st) }"

definition HandleLda :: "'w handler" where
  "HandleLda rt f st =
     do { vs \<leftarrow> inst_VReg rt f 0 st; r \<leftarrow> read_vreg vs st; v \<leftarrow> Get32 r;
          Some (MoveToNextInst f False (set_acc (SetPrimitive True v (st_acc st)) st)) }"

definition HandleLdaWide :: "'w handler" where
  "HandleLdaWide rt f st =
     do { vs \<leftarrow> inst_VReg rt f 0 st; r \<leftarrow> read_vreg vs st; v \<leftarrow> GetLong r;
          Some (MoveToNextInst f False (set_acc (SetPrimitive True v (st_acc st)) st)) }"

definition HandleLdaObj :: "'w handler" where
  "HandleLdaObj rt f st =
     do { vs \<leftarrow> inst_VReg rt f 0 st; r \<leftarrow> read_vreg vs st; v \<leftarrow> GetReference r;
          Some (MoveToNextInst f False (set_acc (SetReference v (st_acc st)) st)) }"

definition HandleLdai :: "'w handler" where
  "HandleLdai rt f st =
     do { imm \<leftarrow> imm32 rt f st; Some (MoveToNextInst f False (set_acc (SetPrimitive True imm (st_acc st)) st)) }"

definition HandleLdaiWide :: "'w handler" where
  "HandleLdaiWide rt f st =
     do { imm \<leftarrow> inst_Imm rt f 0 st; Some (MoveToNextInst f False (set_acc (SetPrimitive True imm (st_acc st)) st)) }"

definition HandleFldai :: "'w handler" where
  "HandleFldai rt f st =
     do { imm \<leftarrow> imm32 rt f st; Some (MoveToNextInst f False (set_acc (SetPrimitive True imm (st_acc st)) st)) }"

definition HandleFldaiWide :: "'w handler" where
  "HandleFldaiWide rt f st =
     do { imm \<leftarrow> inst_Imm rt f 0 st; Some (MoveToNextInst f False (set_acc (SetPrimitive True imm (st_acc st)) st)) }"

definition HandleLdaNull :: "'w handler" where
  "HandleLdaNull rt f st = Some (MoveToNextInst f False (set_acc (SetReference nullptr (st_acc st)) st))"

definition HandleLdaDyn :: "'w handler" where
  "HandleLdaDyn rt f st =
     do { vs \<leftarrow> inst_VReg rt f 0 st; r \<leftarrow> read_vreg vs st;
          Some (MoveToNextInst f False (set_acc (Move r (st_acc st)) st)) }"

definition HandleSta :: "'w handler" where
  "HandleSta rt f st =
     do { vd \<leftarrow> inst_VReg rt f 0 st; v \<leftarrow> Get32 (st_acc st);
          st \<leftarrow> upd_vreg vd (\<lambda>d. Some (SetPrimitive True v d)) st; Some (MoveToNextInst f False st) }"

definition HandleStaWide :: "'w handler" where
  "HandleStaWide rt f st =
     do { vd \<leftarrow> inst_VReg rt f 0 st; v \<leftarrow> GetLong (st_acc st);
          st \<leftarrow> upd_vreg vd (\<lambda>d. Some (SetPrimitive True v d)) st; Some (MoveToNextInst f False st) }"

definition HandleStaObj :: "'w handler" where
  "HandleStaObj rt f st =
     do { vd \<leftarrow> inst_VReg rt f 0 st; v \<leftarrow> GetReference (st_acc st);
          st \<leftarrow> upd_vreg vd (\<lambda>d. Some (SetReference v d)) st; Some (MoveToNextInst f False st) }"

definition HandleStaDyn :: "'w handler" where
  "HandleStaDyn rt f st =
     do { vd \<leftarrow> inst_VReg rt f 0 st;
          st' \<leftarrow> upd_vreg vd (\<lambda>d. Some (Move (st_acc st) d)) st; Some (MoveToNextInst f False st') }"

subsection \<open>Arithmetic\<close>

definition ok2 :: "('a \<Rightarrow> 'a \<Rightarrow> 'b) \<Rightarrow> 'a \<Rightarrow> 'a \<Rightarrow> 'b option" where "ok2 g x y = Some (g x y)"
definition ok1 :: "('a \<Rightarrow> 'b) \<Rightarrow> 'a \<Rightarrow> 'b option" where "ok1 g x = Some (g x)"

text \<open>Negating the least integer overflows, which is undefined; a float is negated by its sign bit.\<close>

definition negate :: "'a::len word \<Rightarrow> 'a word option" where
  "negate x = (if x = int_min then None else Some (- x))"

definition fneg :: "'a::len word \<Rightarrow> 'a word" where
  "fneg x = x XOR push_bit (LENGTH('a) - 1) 1"

text \<open>The operations of the floating point unit.\<close>

abbreviation (input) FADD :: nat where "FADD \<equiv> 0"
abbreviation (input) FSUB :: nat where "FSUB \<equiv> 1"
abbreviation (input) FMUL :: nat where "FMUL \<equiv> 2"
abbreviation (input) FDIV :: nat where "FDIV \<equiv> 3"
abbreviation (input) FMOD :: nat where "FMOD \<equiv> 4"

definition set_acc_int :: "bool \<Rightarrow> 'a::len word \<Rightarrow> 'w istate \<Rightarrow> 'w istate option" where
  "set_acc_int sg v st = map_option (\<lambda>r. set_acc r st) (Set_int sg v (st_acc st))"

definition HandleBinaryOp2Imm ::
    "bool \<Rightarrow> bool \<Rightarrow> ('a::len word \<Rightarrow> 'a word \<Rightarrow> 'b::len word option) \<Rightarrow> 'w handler" where
  "HandleBinaryOp2Imm sg is_div op rt f st =
     do { v1 \<leftarrow> GetAs (st_acc st);
          imm \<leftarrow> inst_Imm rt f 0 st;
          let v2 = ucast imm;
          if is_div \<and> v2 = 0 then throw_to_handler rt ArithmeticException st
          else do { v \<leftarrow> op v1 v2; st \<leftarrow> set_acc_int sg v st; Some (MoveToNextInst f is_div st) } }"

definition HandleBinaryOp2 ::
    "bool \<Rightarrow> bool \<Rightarrow> ('a::len word \<Rightarrow> 'a word \<Rightarrow> 'b::len word option) \<Rightarrow> 'w handler" where
  "HandleBinaryOp2 sg is_div op rt f st =
     do { v1 \<leftarrow> GetAs (st_acc st);
          vs1 \<leftarrow> inst_VReg rt f 0 st;
          r \<leftarrow> read_vreg vs1 st;
          v2 \<leftarrow> GetAs r;
          if is_div \<and> v2 = 0 then throw_to_handler rt ArithmeticException st
          else do { v \<leftarrow> op v1 v2; st \<leftarrow> set_acc_int sg v st; Some (MoveToNextInst f is_div st) } }"

definition HandleBinaryOp ::
    "bool \<Rightarrow> bool \<Rightarrow> ('a::len word \<Rightarrow> 'a word \<Rightarrow> 'b::len word option) \<Rightarrow> 'w handler" where
  "HandleBinaryOp sg is_div op rt f st =
     do { vs1 \<leftarrow> inst_VReg rt f 0 st;
          vs2 \<leftarrow> inst_VReg rt f 1 st;
          r1 \<leftarrow> read_vreg vs1 st; v1 \<leftarrow> GetAs r1;
          r2 \<leftarrow> read_vreg vs2 st; v2 \<leftarrow> GetAs r2;
          if is_div \<and> v2 = 0 then throw_to_handler rt ArithmeticException st
          else do { v \<leftarrow> op v1 v2;
                    Some (MoveToNextInst f is_div (set_acc (SetPrimitive sg v (st_acc st)) st)) } }"

definition HandleUnaryOp :: "bool \<Rightarrow> ('a::len word \<Rightarrow> 'b::len word option) \<Rightarrow> 'w handler" where
  "HandleUnaryOp sg op rt f st =
     do { v \<leftarrow> GetAs (st_acc st); v \<leftarrow> op v; st \<leftarrow> set_acc_int sg v st; Some (MoveToNextInst f False st) }"

definition HandleCmpWide :: "'w handler" where
  "HandleCmpWide rt = HandleBinaryOp2 True False (ok2 (cmp_signed :: u64 \<Rightarrow> u64 \<Rightarrow> u32)) rt"
definition HandleUcmp :: "'w handler" where
  "HandleUcmp rt = HandleBinaryOp2 True False (ok2 (cmp_unsigned :: u32 \<Rightarrow> u32 \<Rightarrow> u32)) rt"
definition HandleUcmpWide :: "'w handler" where
  "HandleUcmpWide rt = HandleBinaryOp2 True False (ok2 (cmp_unsigned :: u64 \<Rightarrow> u64 \<Rightarrow> u32)) rt"
definition HandleFcmpl :: "'w handler" where
  "HandleFcmpl rt = HandleBinaryOp2 True False (ok2 (fcmpl :: u32 \<Rightarrow> u32 \<Rightarrow> u32)) rt"
definition HandleFcmplWide :: "'w handler" where
  "HandleFcmplWide rt = HandleBinaryOp2 True False (ok2 (fcmpl :: u64 \<Rightarrow> u64 \<Rightarrow> u32)) rt"
definition HandleFcmpg :: "'w handler" where
  "HandleFcmpg rt = HandleBinaryOp2 True False (ok2 (fcmpg :: u32 \<Rightarrow> u32 \<Rightarrow> u32)) rt"
definition HandleFcmpgWide :: "'w handler" where
  "HandleFcmpgWide rt = HandleBinaryOp2 True False (ok2 (fcmpg :: u64 \<Rightarrow> u64 \<Rightarrow> u32)) rt"
definition HandleAdd2 :: "'w handler" where
  "HandleAdd2 rt = HandleBinaryOp2 True False (ok2 (Plus :: u32 \<Rightarrow> u32 \<Rightarrow> u32)) rt"
definition HandleAdd2Wide :: "'w handler" where
  "HandleAdd2Wide rt = HandleBinaryOp2 True False (ok2 (Plus :: u64 \<Rightarrow> u64 \<Rightarrow> u64)) rt"
definition HandleFadd2 :: "'w handler" where
  "HandleFadd2 rt = HandleBinaryOp2 True False (ok2 (rt_fp32 rt FADD)) rt"
definition HandleFadd2Wide :: "'w handler" where
  "HandleFadd2Wide rt = HandleBinaryOp2 True False (ok2 (rt_fp64 rt FADD)) rt"
definition HandleSub2 :: "'w handler" where
  "HandleSub2 rt = HandleBinaryOp2 True False (ok2 (Minus :: u32 \<Rightarrow> u32 \<Rightarrow> u32)) rt"
definition HandleSub2Wide :: "'w handler" where
  "HandleSub2Wide rt = HandleBinaryOp2 True False (ok2 (Minus :: u64 \<Rightarrow> u64 \<Rightarrow> u64)) rt"
definition HandleFsub2 :: "'w handler" where
  "HandleFsub2 rt = HandleBinaryOp2 True False (ok2 (rt_fp32 rt FSUB)) rt"
definition HandleFsub2Wide :: "'w handler" where
  "HandleFsub2Wide rt = HandleBinaryOp2 True False (ok2 (rt_fp64 rt FSUB)) rt"
definition HandleMul2 :: "'w handler" where
  "HandleMul2 rt = HandleBinaryOp2 True False (ok2 (Multiplies :: u32 \<Rightarrow> u32 \<Rightarrow> u32)) rt"
definition HandleMul2Wide :: "'w handler" where
  "HandleMul2Wide rt = HandleBinaryOp2 True False (ok2 (Multiplies :: u64 \<Rightarrow> u64 \<Rightarrow> u64)) rt"
definition HandleFmul2 :: "'w handler" where
  "HandleFmul2 rt = HandleBinaryOp2 True False (ok2 (rt_fp32 rt FMUL)) rt"
definition HandleFmul2Wide :: "'w handler" where
  "HandleFmul2Wide rt = HandleBinaryOp2 True False (ok2 (rt_fp64 rt FMUL)) rt"
definition HandleFdiv2 :: "'w handler" where
  "HandleFdiv2 rt = HandleBinaryOp2 True False (ok2 (rt_fp32 rt FDIV)) rt"
definition HandleFdiv2Wide :: "'w handler" where
  "HandleFdiv2Wide rt = HandleBinaryOp2 True False (ok2 (rt_fp64 rt FDIV)) rt"
definition HandleFmod2 :: "'w handler" where
  "HandleFmod2 rt = HandleBinaryOp2 True False (ok2 (rt_fp32 rt FMOD)) rt"
definition HandleFmod2Wide :: "'w handler" where
  "HandleFmod2Wide rt = HandleBinaryOp2 True False (ok2 (rt_fp64 rt FMOD)) rt"
definition HandleAnd2 :: "'w handler" where
  "HandleAnd2 rt = HandleBinaryOp2 True False (ok2 ((AND) :: u32 \<Rightarrow> u32 \<Rightarrow> u32)) rt"
definition HandleAnd2Wide :: "'w handler" where
  "HandleAnd2Wide rt = HandleBinaryOp2 True False (ok2 ((AND) :: u64 \<Rightarrow> u64 \<Rightarrow> u64)) rt"
definition HandleOr2 :: "'w handler" where
  "HandleOr2 rt = HandleBinaryOp2 True False (ok2 ((OR) :: u32 \<Rightarrow> u32 \<Rightarrow> u32)) rt"
definition HandleOr2Wide :: "'w handler" where
  "HandleOr2Wide rt = HandleBinaryOp2 True False (ok2 ((OR) :: u64 \<Rightarrow> u64 \<Rightarrow> u64)) rt"
definition HandleXor2 :: "'w handler" where
  "HandleXor2 rt = HandleBinaryOp2 True False (ok2 ((XOR) :: u32 \<Rightarrow> u32 \<Rightarrow> u32)) rt"
definition HandleXor2Wide :: "'w handler" where
  "HandleXor2Wide rt = HandleBinaryOp2 True False (ok2 ((XOR) :: u64 \<Rightarrow> u64 \<Rightarrow> u64)) rt"
definition HandleShl2 :: "'w handler" where
  "HandleShl2 rt = HandleBinaryOp2 True False (ok2 (bit_shl :: u32 \<Rightarrow> u32 \<Rightarrow> u32)) rt"
definition HandleShl2Wide :: "'w handler" where
  "HandleShl2Wide rt = HandleBinaryOp2 True False (ok2 (bit_shl :: u64 \<Rightarrow> u64 \<Rightarrow> u64)) rt"
definition HandleShr2 :: "'w handler" where
  "HandleShr2 rt = HandleBinaryOp2 True False (ok2 (bit_shr :: u32 \<Rightarrow> u32 \<Rightarrow> u32)) rt"
definition HandleShr2Wide :: "'w handler" where
  "HandleShr2Wide rt = HandleBinaryOp2 True False (ok2 (bit_shr :: u64 \<Rightarrow> u64 \<Rightarrow> u64)) rt"
definition HandleAshr2 :: "'w handler" where
  "HandleAshr2 rt = HandleBinaryOp2 True False (ok2 (bit_ashr :: u32 \<Rightarrow> u32 \<Rightarrow> u32)) rt"
definition HandleAshr2Wide :: "'w handler" where
  "HandleAshr2Wide rt = HandleBinaryOp2 True False (ok2 (bit_ashr :: u64 \<Rightarrow> u64 \<Rightarrow> u64)) rt"
definition HandleDiv2 :: "'w handler" where
  "HandleDiv2 rt = HandleBinaryOp2 True True (idivides_signed :: u32 \<Rightarrow> u32 \<Rightarrow> u32 option) rt"
definition HandleDiv2Wide :: "'w handler" where
  "HandleDiv2Wide rt = HandleBinaryOp2 True True (idivides_signed :: u64 \<Rightarrow> u64 \<Rightarrow> u64 option) rt"
definition HandleMod2 :: "'w handler" where
  "HandleMod2 rt = HandleBinaryOp2 True True (imodulus_signed :: u32 \<Rightarrow> u32 \<Rightarrow> u32 option) rt"
definition HandleMod2Wide :: "'w handler" where
  "HandleMod2Wide rt = HandleBinaryOp2 True True (imodulus_signed :: u64 \<Rightarrow> u64 \<Rightarrow> u64 option) rt"
definition HandleDivu2 :: "'w handler" where
  "HandleDivu2 rt = HandleBinaryOp2 False True (idivides_unsigned :: u32 \<Rightarrow> u32 \<Rightarrow> u32 option) rt"
definition HandleDivu2Wide :: "'w handler" where
  "HandleDivu2Wide rt = HandleBinaryOp2 False True (idivides_unsigned :: u64 \<Rightarrow> u64 \<Rightarrow> u64 option) rt"
definition HandleModu2 :: "'w handler" where
  "HandleModu2 rt = HandleBinaryOp2 False True (imodulus_unsigned :: u32 \<Rightarrow> u32 \<Rightarrow> u32 option) rt"
definition HandleModu2Wide :: "'w handler" where
  "HandleModu2Wide rt = HandleBinaryOp2 False True (imodulus_unsigned :: u64 \<Rightarrow> u64 \<Rightarrow> u64 option) rt"
definition HandleAdd :: "'w handler" where
  "HandleAdd rt = HandleBinaryOp True False (ok2 (Plus :: u32 \<Rightarrow> u32 \<Rightarrow> u32)) rt"
definition HandleSub :: "'w handler" where
  "HandleSub rt = HandleBinaryOp True False (ok2 (Minus :: u32 \<Rightarrow> u32 \<Rightarrow> u32)) rt"
definition HandleMul :: "'w handler" where
  "HandleMul rt = HandleBinaryOp True False (ok2 (Multiplies :: u32 \<Rightarrow> u32 \<Rightarrow> u32)) rt"
definition HandleAnd :: "'w handler" where
  "HandleAnd rt = HandleBinaryOp True False (ok2 ((AND) :: u32 \<Rightarrow> u32 \<Rightarrow> u32)) rt"
definition HandleOr :: "'w handler" where
  "HandleOr rt = HandleBinaryOp True False (ok2 ((OR) :: u32 \<Rightarrow> u32 \<Rightarrow> u32)) rt"
definition HandleXor :: "'w handler" where
  "HandleXor rt = HandleBinaryOp True False (ok2 ((XOR) :: u32 \<Rightarrow> u32 \<Rightarrow> u32)) rt"
definition HandleShl :: "'w handler" where
  "HandleShl rt = HandleBinaryOp True False (ok2 (bit_shl :: u32 \<Rightarrow> u32 \<Rightarrow> u32)) rt"
definition HandleShr :: "'w handler" where
  "HandleShr rt = HandleBinaryOp True False (ok2 (bit_shr :: u32 \<Rightarrow> u32 \<Rightarrow> u32)) rt"
definition HandleAshr :: "'w handler" where
  "HandleAshr rt = HandleBinaryOp True False (ok2 (bit_ashr :: u32 \<Rightarrow> u32 \<Rightarrow> u32)) rt"
definition HandleDiv :: "'w handler" where
  "HandleDiv rt = HandleBinaryOp True True (idivides_signed :: u32 \<Rightarrow> u32 \<Rightarrow> u32 option) rt"
definition HandleMod :: "'w handler" where
  "HandleMod rt = HandleBinaryOp True True (imodulus_signed :: u32 \<Rightarrow> u32 \<Rightarrow> u32 option) rt"
definition HandleAddi :: "'w handler" where
  "HandleAddi rt = HandleBinaryOp2Imm True False (ok2 (Plus :: u32 \<Rightarrow> u32 \<Rightarrow> u32)) rt"
definition HandleSubi :: "'w handler" where
  "HandleSubi rt = HandleBinaryOp2Imm True False (ok2 (Minus :: u32 \<Rightarrow> u32 \<Rightarrow> u32)) rt"
definition HandleMuli :: "'w handler" where
  "HandleMuli rt = HandleBinaryOp2Imm True False (ok2 (Multiplies :: u32 \<Rightarrow> u32 \<Rightarrow> u32)) rt"
definition HandleAndi :: "'w handler" where
  "HandleAndi rt = HandleBinaryOp2Imm True False (ok2 ((AND) :: u32 \<Rightarrow> u32 \<Rightarrow> u32)) rt"
definition HandleOri :: "'w handler" where
  "HandleOri rt = HandleBinaryOp2Imm True False (ok2 ((OR) :: u32 \<Rightarrow> u32 \<Rightarrow> u32)) rt"
definition HandleXori :: "'w handler" where
  "HandleXori rt = HandleBinaryOp2Imm True False (ok2 ((XOR) :: u32 \<Rightarrow> u32 \<Rightarrow> u32)) rt"
definition HandleShli :: "'w handler" where
  "HandleShli rt = HandleBinaryOp2Imm True False (ok2 (bit_shl :: u32 \<Rightarrow> u32 \<Rightarrow> u32)) rt"
definition HandleShri :: "'w handler" where
  "HandleShri rt = HandleBinaryOp2Imm True False (ok2 (bit_shr :: u32 \<Rightarrow> u32 \<Rightarrow> u32)) rt"
definition HandleAshri :: "'w handler" where
  "HandleAshri rt = HandleBinaryOp2Imm True False (ok2 (bit_ashr :: u32 \<Rightarrow> u32 \<Rightarrow> u32)) rt"
definition HandleDivi :: "'w handler" where
  "HandleDivi rt = HandleBinaryOp2Imm True True (idivides_signed :: u32 \<Rightarrow> u32 \<Rightarrow> u32 option) rt"
definition HandleModi :: "'w handler" where
  "HandleModi rt = HandleBinaryOp2Imm True True (imodulus_signed :: u32 \<Rightarrow> u32 \<Rightarrow> u32 option) rt"
definition HandleNeg :: "'w handler" where
  "HandleNeg rt = HandleUnaryOp True (negate :: u32 \<Rightarrow> u32 option) rt"
definition HandleNegWide :: "'w handler" where
  "HandleNegWide rt = HandleUnaryOp True (negate :: u64 \<Rightarrow> u64 option) rt"
definition HandleFneg :: "'w handler" where
  "HandleFneg rt = HandleUnaryOp True (ok1 (fneg :: u32 \<Rightarrow> u32)) rt"
definition HandleFnegWide :: "'w handler" where
  "HandleFnegWide rt = HandleUnaryOp True (ok1 (fneg :: u64 \<Rightarrow> u64)) rt"
definition HandleNot :: "'w handler" where
  "HandleNot rt = HandleUnaryOp True (ok1 (NOT :: u32 \<Rightarrow> u32)) rt"
definition HandleNotWide :: "'w handler" where
  "HandleNotWide rt = HandleUnaryOp True (ok1 (NOT :: u64 \<Rightarrow> u64)) rt"

text \<open>The sum \<open>value + imm\<close> of two \<open>int32_t\<close> is undefined when it overflows.\<close>

definition HandleInci :: "'w handler" where
  "HandleInci rt f st =
     do { imm \<leftarrow> imm32 rt f st; vx \<leftarrow> inst_VReg rt f 0 st;
          st \<leftarrow> upd_vreg vx (\<lambda>r. do { value \<leftarrow> GetAs r;
            if sint (value + imm :: u32) = sint value + sint imm then Set_int True (value + imm) r else None }) st;
          Some (MoveToNextInst f False st) }"

subsection \<open>Conversions\<close>

definition to_bool :: "'a::len word \<Rightarrow> u8" where
  "to_bool x = (if x = 0 then 0 else 1)"

definition HandleConversion :: "bool \<Rightarrow> ('a::len word \<Rightarrow> 'b::len word) \<Rightarrow> 'w handler" where
  "HandleConversion sg conv rt f st =
     do { v \<leftarrow> GetAs (st_acc st); st \<leftarrow> set_acc_int sg (conv v) st; Some (MoveToNextInst f False st) }"

definition HandleFloatToIntConversion :: "bool \<Rightarrow> ('a::len word \<Rightarrow> 'b::len word option) \<Rightarrow> 'w handler" where
  "HandleFloatToIntConversion sg conv rt f st =
     do { value \<leftarrow> GetAs (st_acc st); res \<leftarrow> conv value; st \<leftarrow> set_acc_int sg res st; Some (MoveToNextInst f False st) }"

definition HandleU32toi64 :: "'w handler" where
  "HandleU32toi64 rt = HandleConversion True (ucast :: u32 \<Rightarrow> u64) rt"
definition HandleU32toi16 :: "'w handler" where
  "HandleU32toi16 rt = HandleConversion True (ucast :: u32 \<Rightarrow> u16) rt"
definition HandleU32tou16 :: "'w handler" where
  "HandleU32tou16 rt = HandleConversion False (ucast :: u32 \<Rightarrow> u16) rt"
definition HandleU32toi8 :: "'w handler" where
  "HandleU32toi8 rt = HandleConversion True (ucast :: u32 \<Rightarrow> u8) rt"
definition HandleU32tou8 :: "'w handler" where
  "HandleU32tou8 rt = HandleConversion False (ucast :: u32 \<Rightarrow> u8) rt"
definition HandleU32tou1 :: "'w handler" where
  "HandleU32tou1 rt = HandleConversion False (to_bool :: u32 \<Rightarrow> u8) rt"
definition HandleI32toi64 :: "'w handler" where
  "HandleI32toi64 rt = HandleConversion True (scast :: u32 \<Rightarrow> u64) rt"
definition HandleI32tou16 :: "'w handler" where
  "HandleI32tou16 rt = HandleConversion False (ucast :: u32 \<Rightarrow> u16) rt"
definition HandleI32toi16 :: "'w handler" where
  "HandleI32toi16 rt = HandleConversion True (ucast :: u32 \<Rightarrow> u16) rt"
definition HandleI32toi8 :: "'w handler" where
  "HandleI32toi8 rt = HandleConversion True (ucast :: u32 \<Rightarrow> u8) rt"
definition HandleI32tou8 :: "'w handler" where
  "HandleI32tou8 rt = HandleConversion False (ucast :: u32 \<Rightarrow> u8) rt"
definition HandleI32tou1 :: "'w handler" where
  "HandleI32tou1 rt = HandleConversion False (to_bool :: u32 \<Rightarrow> u8) rt"
definition HandleI32tof32 :: "'w handler" where
  "HandleI32tof32 rt = HandleConversion True (\<lambda>x. rt_i_to_f32 rt (sint (x :: u32))) rt"
definition HandleI32tof64 :: "'w handler" where
  "HandleI32tof64 rt = HandleConversion True (\<lambda>x. rt_i_to_f64 rt (sint (x :: u32))) rt"
definition HandleU32tof32 :: "'w handler" where
  "HandleU32tof32 rt = HandleConversion True (\<lambda>x. rt_i_to_f32 rt (uint (x :: u32))) rt"
definition HandleU32tof64 :: "'w handler" where
  "HandleU32tof64 rt = HandleConversion True (\<lambda>x. rt_i_to_f64 rt (uint (x :: u32))) rt"
definition HandleI64toi32 :: "'w handler" where
  "HandleI64toi32 rt = HandleConversion True (ucast :: u64 \<Rightarrow> u32) rt"
definition HandleI64tou1 :: "'w handler" where
  "HandleI64tou1 rt = HandleConversion False (to_bool :: u64 \<Rightarrow> u8) rt"
definition HandleI64tof32 :: "'w handler" where
  "HandleI64tof32 rt = HandleConversion True (\<lambda>x. rt_i_to_f32 rt (sint (x :: u64))) rt"
definition HandleI64tof64 :: "'w handler" where
  "HandleI64tof64 rt = HandleConversion True (\<lambda>x. rt_i_to_f64 rt (sint (x :: u64))) rt"
definition HandleU64toi32 :: "'w handler" where
  "HandleU64toi32 rt = HandleConversion True (ucast :: u64 \<Rightarrow> u32) rt"
definition HandleU64tou32 :: "'w handler" where
  "HandleU64tou32 rt = HandleConversion False (ucast :: u64 \<Rightarrow> u32) rt"
definition HandleU64tou1 :: "'w handler" where
  "HandleU64tou1 rt = HandleConversion False (to_bool :: u64 \<Rightarrow> u8) rt"
definition HandleU64tof32 :: "'w handler" where
  "HandleU64tof32 rt = HandleConversion True (\<lambda>x. rt_i_to_f32 rt (uint (x :: u64))) rt"
definition HandleU64tof64 :: "'w handler" where
  "HandleU64tof64 rt = HandleConversion True (\<lambda>x. rt_i_to_f64 rt (uint (x :: u64))) rt"
definition HandleF32tof64 :: "'w handler" where
  "HandleF32tof64 rt = HandleConversion True (rt_f32_to_f64 rt) rt"
definition HandleF32toi32 :: "'w handler" where
  "HandleF32toi32 rt = HandleFloatToIntConversion True f32_to_i32 rt"
definition HandleF32toi64 :: "'w handler" where
  "HandleF32toi64 rt = HandleFloatToIntConversion True f32_to_i64 rt"
definition HandleF32tou32 :: "'w handler" where
  "HandleF32tou32 rt = HandleFloatToIntConversion False f32_to_u32 rt"
definition HandleF32tou64 :: "'w handler" where
  "HandleF32tou64 rt = HandleFloatToIntConversion False f32_to_u64 rt"
definition HandleF64tof32 :: "'w handler" where
  "HandleF64tof32 rt = HandleConversion True (rt_f64_to_f32 rt) rt"
definition HandleF64toi64 :: "'w handler" where
  "HandleF64toi64 rt = HandleFloatToIntConversion True f64_to_i64 rt"
definition HandleF64toi32 :: "'w handler" where
  "HandleF64toi32 rt = HandleFloatToIntConversion True f64_to_i32 rt"
definition HandleF64tou64 :: "'w handler" where
  "HandleF64tou64 rt = HandleFloatToIntConversion False f64_to_u64 rt"
definition HandleF64tou32 :: "'w handler" where
  "HandleF64tou32 rt = HandleFloatToIntConversion False f64_to_u32 rt"

subsection \<open>Branches\<close>

definition UpdateHotness :: "'w rt \<Rightarrow> method_id \<Rightarrow> 'w istate \<Rightarrow> 'w istate" where
  "UpdateHotness rt m st = st\<lparr>st_vm := rt_IncrementHotnessCounter rt m (st_vm st)\<rparr>"

definition UpdateHotnessOSR :: "'w rt \<Rightarrow> method_id \<Rightarrow> u32 \<Rightarrow> 'w istate \<Rightarrow> (bool \<times> 'w istate) option" where
  "UpdateHotnessOSR rt m offset st =
     do { fr \<leftarrow> GetFrame st;
          if IsDeoptimized fr then Some (False, UpdateHotness rt m st)
          else let (osr, acc, vm) = rt_IncrementHotnessCounterOSR rt m (GetBytecodeOffset st + offset) (st_acc st) (st_vm st)
               in Some (osr, st\<lparr>st_vm := vm, st_acc := acc\<rparr>) }"

text \<open>The result tells whether the state has been redirected, so that the branch must not be taken.\<close>

definition Safepoint :: "'w rt \<Rightarrow> 'w istate \<Rightarrow> 'w istate option" where
  "Safepoint rt st = map_option snd (call_runtime (\<lambda>vm. ((), rt_Safepoint rt vm)) st)"

definition InstrumentBranches :: "'w rt \<Rightarrow> u32 \<Rightarrow> 'w istate \<Rightarrow> (bool \<times> 'w istate) option" where
  "InstrumentBranches rt offset st =
     (if 0 < sint offset then Some (False, st)
      else let flags = rt_TestAllFlags rt (st_vm st) in
        do { st \<leftarrow> (if flags then Safepoint rt st else Some st);
             if flags \<and> HasPendingException (st_vm st) then map_option (\<lambda>st. (True, st)) (MoveToExceptionHandler rt st)
             else do { m \<leftarrow> GetMethod st;
                       if rt_SupportOSR rt
                       then do { (osr, st) \<leftarrow> UpdateHotnessOSR rt m offset st;
                                 if osr then Some (True, st\<lparr>st_inst := (FakeInstBuf, 0)\<rparr>) else Some (False, st) }
                       else Some (False, UpdateHotness rt m st) } })"

definition branch_to :: "'w rt \<Rightarrow> u32 \<Rightarrow> 'w istate \<Rightarrow> 'w istate option" where
  "branch_to rt imm st =
     do { (stop, st) \<leftarrow> InstrumentBranches rt imm st; Some (if stop then st else JumpToInst False imm st) }"

definition HandleJmp :: "'w handler" where
  "HandleJmp rt f st = do { imm \<leftarrow> imm32 rt f st; branch_to rt imm st }"

definition s_less :: "u32 \<Rightarrow> u32 \<Rightarrow> bool" where "s_less x y \<longleftrightarrow> sint x < sint y"
definition s_greater :: "u32 \<Rightarrow> u32 \<Rightarrow> bool" where "s_greater x y \<longleftrightarrow> sint y < sint x"
definition s_less_equal :: "u32 \<Rightarrow> u32 \<Rightarrow> bool" where "s_less_equal x y \<longleftrightarrow> sint x \<le> sint y"
definition s_greater_equal :: "u32 \<Rightarrow> u32 \<Rightarrow> bool" where "s_greater_equal x y \<longleftrightarrow> sint y \<le> sint x"

definition HandleCondJmpz :: "(u32 \<Rightarrow> u32 \<Rightarrow> bool) \<Rightarrow> 'w handler" where
  "HandleCondJmpz op rt f st =
     do { imm \<leftarrow> imm32 rt f st; v1 \<leftarrow> Get32 (st_acc st);
          if op v1 0 then branch_to rt imm st else Some (MoveToNextInst f False st) }"

definition HandleCondJmp :: "(u32 \<Rightarrow> u32 \<Rightarrow> bool) \<Rightarrow> 'w handler" where
  "HandleCondJmp op rt f st =
     do { imm \<leftarrow> imm32 rt f st; vs \<leftarrow> inst_VReg rt f 0 st;
          v1 \<leftarrow> Get32 (st_acc st); r \<leftarrow> read_vreg vs st; v2 \<leftarrow> Get32 r;
          if op v1 v2 then branch_to rt imm st else Some (MoveToNextInst f False st) }"

definition HandleCondJmpzObj :: "(ref \<Rightarrow> ref \<Rightarrow> bool) \<Rightarrow> 'w handler" where
  "HandleCondJmpzObj op rt f st =
     do { imm \<leftarrow> imm32 rt f st; v1 \<leftarrow> GetReference (st_acc st);
          if op v1 nullptr then branch_to rt imm st else Some (MoveToNextInst f False st) }"

definition HandleCondJmpObj :: "(ref \<Rightarrow> ref \<Rightarrow> bool) \<Rightarrow> 'w handler" where
  "HandleCondJmpObj op rt f st =
     do { imm \<leftarrow> imm32 rt f st; vs \<leftarrow> inst_VReg rt f 0 st;
          v1 \<leftarrow> GetReference (st_acc st); r \<leftarrow> read_vreg vs st; v2 \<leftarrow> GetReference r;
          if op v1 v2 then branch_to rt imm st else Some (MoveToNextInst f False st) }"

definition HandleJeqz :: "'w handler" where
  "HandleJeqz rt = HandleCondJmpz (=) rt"
definition HandleJnez :: "'w handler" where
  "HandleJnez rt = HandleCondJmpz (\<noteq>) rt"
definition HandleJltz :: "'w handler" where
  "HandleJltz rt = HandleCondJmpz s_less rt"
definition HandleJgtz :: "'w handler" where
  "HandleJgtz rt = HandleCondJmpz s_greater rt"
definition HandleJlez :: "'w handler" where
  "HandleJlez rt = HandleCondJmpz s_less_equal rt"
definition HandleJgez :: "'w handler" where
  "HandleJgez rt = HandleCondJmpz s_greater_equal rt"
definition HandleJeq :: "'w handler" where
  "HandleJeq rt = HandleCondJmp (=) rt"
definition HandleJne :: "'w handler" where
  "HandleJne rt = HandleCondJmp (\<noteq>) rt"
definition HandleJlt :: "'w handler" where
  "HandleJlt rt = HandleCondJmp s_less rt"
definition HandleJgt :: "'w handler" where
  "HandleJgt rt = HandleCondJmp s_greater rt"
definition HandleJle :: "'w handler" where
  "HandleJle rt = HandleCondJmp s_less_equal rt"
definition HandleJge :: "'w handler" where
  "HandleJge rt = HandleCondJmp s_greater_equal rt"
definition HandleJeqzObj :: "'w handler" where
  "HandleJeqzObj rt = HandleCondJmpzObj (=) rt"
definition HandleJnezObj :: "'w handler" where
  "HandleJnezObj rt = HandleCondJmpzObj (\<noteq>) rt"
definition HandleJeqObj :: "'w handler" where
  "HandleJeqObj rt = HandleCondJmpObj (=) rt"
definition HandleJneObj :: "'w handler" where
  "HandleJneObj rt = HandleCondJmpObj (\<noteq>) rt"


end
