(* ===== verification/InterpreterObjects.thy ===== *)
theory InterpreterObjects
  imports InterpreterOps
begin

text \<open>
  \<open>runtime/interpreter/interpreter-inl.h\<close>: resolution of entities through the interpreter cache, and the handlers of the
  instructions on strings, types, arrays, objects and static fields. Stores of references go through the collector's
  barriers as \<open>ObjectAccessor::SetObject\<close> of \<open>runtime/include/object_accessor-inl.h\<close> does.
\<close>

subsection \<open>Resolution\<close>

definition get_cached :: "'w rt \<Rightarrow> 'w istate \<Rightarrow> item option option" where
  "get_cached rt st = do { m \<leftarrow> GetMethod st; Some (cache_Get (vm_cache (st_vm st)) (inst_address rt st) m) }"

definition set_cached :: "'w rt \<Rightarrow> item \<Rightarrow> 'w istate \<Rightarrow> 'w istate option" where
  "set_cached rt it st =
     do { m \<leftarrow> GetMethod st;
          Some (st\<lparr>st_vm := (st_vm st)\<lparr>vm_cache := cache_Set (vm_cache (st_vm st)) (inst_address rt st) it m\<rparr>\<rparr>) }"

text \<open>The cached pointer is cast to the entity the instruction names: an entry of another kind would be misread.\<close>

fun as_method :: "item \<Rightarrow> method_id option" where
  "as_method (ItemMethod m) = Some m" | "as_method _ = None"

fun as_field :: "item \<Rightarrow> nat option" where
  "as_field (ItemField x) = Some x" | "as_field _ = None"

fun as_class :: "item \<Rightarrow> class_id option" where
  "as_class (ItemClass c) = Some c" | "as_class _ = None"

text \<open>
  Look in the cache, else ask the runtime with the accumulator saved, and record the answer. The result \<open>None\<close> is the
  null pointer; the runtime then has a pending exception.
\<close>

definition resolve_slow ::
    "'w rt \<Rightarrow> (method_id \<Rightarrow> 'w vm \<Rightarrow> 'e option \<times> 'w vm) \<Rightarrow> ('e \<Rightarrow> item) \<Rightarrow> 'w istate \<Rightarrow> ('e option \<times> 'w istate) option" where
  "resolve_slow rt ask mk st =
     do { m \<leftarrow> GetMethod st;
          (res, st) \<leftarrow> call_runtime (ask m) st;
          (case res of
             None \<Rightarrow> if HasPendingException (st_vm st) then Some (None, st) else None
           | Some e \<Rightarrow> do { st \<leftarrow> set_cached rt (mk e) st; Some (Some e, st) }) }"

definition ResolveMethod :: "'w rt \<Rightarrow> u32 \<Rightarrow> 'w istate \<Rightarrow> (method_id option \<times> 'w istate) option" where
  "ResolveMethod rt eid st =
     do { st \<leftarrow> UpdateBytecodeOffset st;
          c \<leftarrow> get_cached rt st;
          (case c of
             Some it \<Rightarrow> do { m \<leftarrow> as_method it; Some (Some m, st) }
           | None \<Rightarrow> resolve_slow rt (\<lambda>m. rt_ResolveMethod rt m eid) ItemMethod st) }"

definition ResolveField :: "'w rt \<Rightarrow> bool \<Rightarrow> u32 \<Rightarrow> 'w istate \<Rightarrow> (nat option \<times> 'w istate) option" where
  "ResolveField rt need_init eid st =
     do { c \<leftarrow> get_cached rt st;
          (case c of
             Some it \<Rightarrow> do { x \<leftarrow> as_field it; Some (Some x, st) }
           | None \<Rightarrow> do { st \<leftarrow> (if need_init then UpdateBytecodeOffset st else Some st);
                          resolve_slow rt (\<lambda>m. rt_ResolveField rt m eid) ItemField st }) }"

definition ResolveType :: "'w rt \<Rightarrow> bool \<Rightarrow> u32 \<Rightarrow> 'w istate \<Rightarrow> (class_id option \<times> 'w istate) option" where
  "ResolveType rt need_init eid st =
     do { c \<leftarrow> get_cached rt st;
          (case c of
             Some it \<Rightarrow> do { k \<leftarrow> as_class it; Some (Some k, st) }
           | None \<Rightarrow> resolve_slow rt (\<lambda>m. rt_ResolveClass rt need_init m eid) ItemClass st) }"

definition ResolveString :: "'w rt \<Rightarrow> u32 \<Rightarrow> 'w istate \<Rightarrow> (ref \<times> 'w istate) option" where
  "ResolveString rt eid st =
     do { m \<leftarrow> GetMethod st; let (r, vm) = rt_ResolveString rt m eid (st_vm st); Some (r, st\<lparr>st_vm := vm\<rparr>) }"

definition ResolveLiteralArray :: "'w rt \<Rightarrow> u32 \<Rightarrow> 'w istate \<Rightarrow> (ref \<times> 'w istate) option" where
  "ResolveLiteralArray rt eid st =
     do { m \<leftarrow> GetMethod st; let (r, vm) = rt_ResolveLiteralArray rt m eid (st_vm st); Some (r, st\<lparr>st_vm := vm\<rparr>) }"

subsection \<open>Memory of the state\<close>

definition put_heap :: "heap \<Rightarrow> 'w istate \<Rightarrow> 'w istate" where
  "put_heap h st = st\<lparr>st_vm := (st_vm st)\<lparr>vm_heap := h\<rparr>\<rparr>"

definition barrier :: "('w \<Rightarrow> 'w) \<Rightarrow> 'w istate \<Rightarrow> 'w istate" where
  "barrier g st = st\<lparr>st_vm := (st_vm st)\<lparr>vm_env := g (vm_env (st_vm st))\<rparr>\<rparr>"

definition mem_of :: "slot \<Rightarrow> 'w istate \<Rightarrow> (bytes \<times> nat) option" where
  "mem_of sl st =
     (case sl of ObjSlot obj off \<Rightarrow> map_option (\<lambda>ob. (ho_mem ob, off)) (vm_heap (st_vm st) obj)
      | ClassSlot c off \<Rightarrow> map_option (\<lambda>m. (m, off)) (vm_statics (st_vm st) c))"

definition Get_mem :: "slot \<Rightarrow> 'w istate \<Rightarrow> 'a::len word option" where
  "Get_mem sl st = do { (m, off) \<leftarrow> mem_of sl st; load m off }"

definition put_mem :: "slot \<Rightarrow> bytes \<Rightarrow> 'w istate \<Rightarrow> 'w istate" where
  "put_mem sl m st =
     (case sl of
        ObjSlot obj off \<Rightarrow> put_heap ((vm_heap (st_vm st))(obj := map_option (ho_mem_update (\<lambda>_. m)) (vm_heap (st_vm st) obj))) st
      | ClassSlot c off \<Rightarrow> st\<lparr>st_vm := (st_vm st)\<lparr>vm_statics := (vm_statics (st_vm st))(c \<mapsto> m)\<rparr>\<rparr>)"

definition Set_mem :: "slot \<Rightarrow> 'a::len word \<Rightarrow> 'w istate \<Rightarrow> 'w istate option" where
  "Set_mem sl v st = do { (m, off) \<leftarrow> mem_of sl st; m \<leftarrow> store m off v; Some (put_mem sl m st) }"

text \<open>\<open>ObjectAccessor::SetObject\<close>: the pre-write barrier sees the old value, the post-write barrier the object and the new one.\<close>

definition SetObject :: "'w rt \<Rightarrow> slot \<Rightarrow> ref \<Rightarrow> ref \<Rightarrow> 'w istate \<Rightarrow> 'w istate option" where
  "SetObject rt sl holder v st =
     do { pre_val \<leftarrow> (Get_mem sl st :: ref option);
          st \<leftarrow> Set_mem sl v (barrier (rt_PreBarrier rt sl pre_val) st);
          Some (barrier (rt_PostBarrier rt holder v) st) }"

subsection \<open>Strings, literals and types\<close>

definition HandleLdaStr :: "'w handler" where
  "HandleLdaStr rt f st =
     do { eid \<leftarrow> inst_Id rt f st;
          (str, st) \<leftarrow> ResolveString rt eid st;
          Some (MoveToNextInst f False
            (set_acc (SetTag (rt_GetTypeTag rt STRING_TAG) (SetReference str (st_acc st))) st)) }"

definition HandleLdaConst :: "'w handler" where
  "HandleLdaConst rt f st =
     do { eid \<leftarrow> inst_Id rt f st; vd \<leftarrow> inst_VReg rt f 0 st;
          (array, st) \<leftarrow> ResolveLiteralArray rt eid st;
          if array = nullptr then MoveToExceptionHandler rt st
          else do { st \<leftarrow> upd_vreg vd (\<lambda>d. Some (SetReference array d)) st; Some (MoveToNextInst f False st) } }"

definition HandleLdaType :: "'w handler" where
  "HandleLdaType rt f st =
     do { eid \<leftarrow> inst_Id rt f st;
          (type, st) \<leftarrow> ResolveType rt False eid st;
          (case type of None \<Rightarrow> MoveToExceptionHandler rt st
           | Some c \<Rightarrow> Some (MoveToNextInst f False (set_acc (SetReference (rt_GetManagedObject rt c) (st_acc st)) st))) }"

definition HandleCheckcast :: "'w handler" where
  "HandleCheckcast rt f st =
     do { eid \<leftarrow> inst_Id rt f st;
          (type, st) \<leftarrow> ResolveType rt False eid st;
          (case type of None \<Rightarrow> MoveToExceptionHandler rt st
           | Some c \<Rightarrow>
               do { obj \<leftarrow> GetReference (st_acc st);
                    if obj = nullptr then Some (MoveToNextInst f True st)
                    else do { k \<leftarrow> ho_class_of (vm_heap (st_vm st)) obj;
                              if \<not> rt_IsAssignableFrom rt c k then throw_to_handler rt (ClassCastException c k) st
                              else Some (MoveToNextInst f True st) } }) }"

definition HandleIsinstance :: "'w handler" where
  "HandleIsinstance rt f st =
     do { eid \<leftarrow> inst_Id rt f st;
          (type, st) \<leftarrow> ResolveType rt False eid st;
          (case type of None \<Rightarrow> MoveToExceptionHandler rt st
           | Some c \<Rightarrow>
               do { obj \<leftarrow> GetReference (st_acc st);
                    yes \<leftarrow> (if obj = nullptr then Some False
                           else do { k \<leftarrow> ho_class_of (vm_heap (st_vm st)) obj; Some (rt_IsAssignableFrom rt c k) });
                    Some (MoveToNextInst f False
                      (set_acc (SetPrimitive True (if yes then 1 else 0 :: u32) (st_acc st)) st)) }) }"

subsection \<open>Arrays\<close>

text \<open>The checks return whether the access may proceed, with the exception thrown otherwise.\<close>

definition CheckLoadArrayOp :: "'w rt \<Rightarrow> ref \<Rightarrow> u32 \<Rightarrow> 'w istate \<Rightarrow> (bool \<times> 'w istate) option" where
  "CheckLoadArrayOp rt array idx st =
     (if array = nullptr then Some (False, Throw rt NullPointerException st)
      else do { len \<leftarrow> array_GetLength (vm_heap (st_vm st)) array;
                if sint idx < 0 \<or> len \<le> idx then Some (False, Throw rt (ArrayIndexOutOfBoundsException idx len) st)
                else Some (True, st) })"

definition CheckStoreArrayOp :: "'w rt \<Rightarrow> ref \<Rightarrow> u32 \<Rightarrow> ref option \<Rightarrow> 'w istate \<Rightarrow> (bool \<times> 'w istate) option" where
  "CheckStoreArrayOp rt array idx elem st =
     (if array = nullptr then Some (False, Throw rt NullPointerException st)
      else do { len \<leftarrow> array_GetLength (vm_heap (st_vm st)) array;
                if sint idx < 0 \<or> len \<le> idx then Some (False, Throw rt (ArrayIndexOutOfBoundsException idx len) st)
                else (case elem of
                        Some obj \<Rightarrow>
                          if obj = nullptr then Some (True, st)
                          else do { array_class \<leftarrow> ho_class_of (vm_heap (st_vm st)) array;
                                    elem_class \<leftarrow> ho_class_of (vm_heap (st_vm st)) obj;
                                    if \<not> rt_IsAssignableFrom rt (rt_GetComponentType rt array_class) elem_class
                                    then Some (False, Throw rt (ArrayStoreException array_class elem_class) st)
                                    else Some (True, st) }
                      | None \<Rightarrow> Some (True, st)) })"

definition HandleArrayPrimitiveLoad :: "'a::len itself \<Rightarrow> bool \<Rightarrow> 'w handler" where
  "HandleArrayPrimitiveLoad ty sg rt f st =
     do { vs \<leftarrow> inst_VReg rt f 0 st; r \<leftarrow> read_vreg vs st; array \<leftarrow> GetReference r;
          idx \<leftarrow> Get32 (st_acc st);
          (ok, st) \<leftarrow> CheckLoadArrayOp rt array idx st;
          if ok then do { v \<leftarrow> (array_Get (vm_heap (st_vm st)) array idx :: 'a word option);
                          st \<leftarrow> set_acc_int sg v st; Some (MoveToNextInst f True st) }
          else MoveToExceptionHandler rt st }"

definition HandleLdarrObj :: "'w handler" where
  "HandleLdarrObj rt f st =
     do { vs \<leftarrow> inst_VReg rt f 0 st; r \<leftarrow> read_vreg vs st; array \<leftarrow> GetReference r;
          idx \<leftarrow> Get32 (st_acc st);
          (ok, st) \<leftarrow> CheckLoadArrayOp rt array idx st;
          if ok then do { v \<leftarrow> (array_Get (vm_heap (st_vm st)) array idx :: ref option);
                          Some (MoveToNextInst f True (set_acc (SetReference v (st_acc st)) st)) }
          else MoveToExceptionHandler rt st }"

definition HandleArrayStore :: "'a::len itself \<Rightarrow> 'w handler" where
  "HandleArrayStore ty rt f st =
     do { vs1 \<leftarrow> inst_VReg rt f 0 st; vs2 \<leftarrow> inst_VReg rt f 1 st;
          r1 \<leftarrow> read_vreg vs1 st; array \<leftarrow> GetReference r1;
          r2 \<leftarrow> read_vreg vs2 st; idx \<leftarrow> Get32 r2;
          elem \<leftarrow> (GetAs (st_acc st) :: 'a word option);
          (ok, st) \<leftarrow> CheckStoreArrayOp rt array idx None st;
          if ok then do { h \<leftarrow> array_Set (vm_heap (st_vm st)) array idx elem; Some (MoveToNextInst f True (put_heap h st)) }
          else MoveToExceptionHandler rt st }"

definition HandleStarrObj :: "'w handler" where
  "HandleStarrObj rt f st =
     do { vs1 \<leftarrow> inst_VReg rt f 0 st; vs2 \<leftarrow> inst_VReg rt f 1 st;
          r1 \<leftarrow> read_vreg vs1 st; array \<leftarrow> GetReference r1;
          r2 \<leftarrow> read_vreg vs2 st; idx \<leftarrow> Get32 r2;
          elem \<leftarrow> GetReference (st_acc st);
          (ok, st) \<leftarrow> CheckStoreArrayOp rt array idx (Some elem) st;
          if ok then do { st \<leftarrow> SetObject rt (ObjSlot array (array_elem_offset 4 idx)) array elem st;
                          Some (MoveToNextInst f True st) }
          else MoveToExceptionHandler rt st }"

definition HandleLdarr8 :: "'w handler" where
  "HandleLdarr8 rt = HandleArrayPrimitiveLoad TYPE(8) True rt"
definition HandleLdarr16 :: "'w handler" where
  "HandleLdarr16 rt = HandleArrayPrimitiveLoad TYPE(16) True rt"
definition HandleLdarr :: "'w handler" where
  "HandleLdarr rt = HandleArrayPrimitiveLoad TYPE(32) True rt"
definition HandleLdarrWide :: "'w handler" where
  "HandleLdarrWide rt = HandleArrayPrimitiveLoad TYPE(64) True rt"
definition HandleLdarru8 :: "'w handler" where
  "HandleLdarru8 rt = HandleArrayPrimitiveLoad TYPE(8) False rt"
definition HandleLdarru16 :: "'w handler" where
  "HandleLdarru16 rt = HandleArrayPrimitiveLoad TYPE(16) False rt"
definition HandleFldarr32 :: "'w handler" where
  "HandleFldarr32 rt = HandleArrayPrimitiveLoad TYPE(32) True rt"
definition HandleFldarrWide :: "'w handler" where
  "HandleFldarrWide rt = HandleArrayPrimitiveLoad TYPE(64) True rt"
definition HandleStarr8 :: "'w handler" where
  "HandleStarr8 rt = HandleArrayStore TYPE(8) rt"
definition HandleStarr16 :: "'w handler" where
  "HandleStarr16 rt = HandleArrayStore TYPE(16) rt"
definition HandleStarr :: "'w handler" where
  "HandleStarr rt = HandleArrayStore TYPE(32) rt"
definition HandleStarrWide :: "'w handler" where
  "HandleStarrWide rt = HandleArrayStore TYPE(64) rt"
definition HandleFstarr32 :: "'w handler" where
  "HandleFstarr32 rt = HandleArrayStore TYPE(32) rt"
definition HandleFstarrWide :: "'w handler" where
  "HandleFstarrWide rt = HandleArrayStore TYPE(64) rt"

definition HandleLenarr :: "'w handler" where
  "HandleLenarr rt f st =
     do { vs \<leftarrow> inst_VReg rt f 0 st; r \<leftarrow> read_vreg vs st; obj \<leftarrow> GetReference r;
          if obj = nullptr then throw_to_handler rt NullPointerException st
          else do { len \<leftarrow> array_GetLength (vm_heap (st_vm st)) obj;
                    Some (MoveToNextInst f True (set_acc (SetPrimitive True len (st_acc st)) st)) } }"

definition HandleNewarr :: "'w handler" where
  "HandleNewarr rt f st =
     do { vd \<leftarrow> inst_VReg rt f 0 st; vs \<leftarrow> inst_VReg rt f 1 st; eid \<leftarrow> inst_Id rt f st;
          r \<leftarrow> read_vreg vs st; size \<leftarrow> Get32 r;
          if sint size < 0 then throw_to_handler rt (NegativeArraySizeException size) st
          else do { (klass, st) \<leftarrow> ResolveType rt True eid st;
                    (case klass of None \<Rightarrow> MoveToExceptionHandler rt st
                     | Some c \<Rightarrow>
                         do { (array, st) \<leftarrow> call_runtime (rt_CreateArray rt c size) st;
                              st \<leftarrow> upd_vreg vd (\<lambda>d. Some (SetReference array d)) st;
                              if array = nullptr then MoveToExceptionHandler rt st else Some (MoveToNextInst f True st) }) } }"

definition HandleNewobj :: "'w handler" where
  "HandleNewobj rt f st =
     do { vd \<leftarrow> inst_VReg rt f 0 st; eid \<leftarrow> inst_Id rt f st;
          (klass, st) \<leftarrow> ResolveType rt True eid st;
          (case klass of None \<Rightarrow> MoveToExceptionHandler rt st
           | Some c \<Rightarrow>
               do { (obj, st) \<leftarrow> call_runtime (rt_CreateObject rt c) st;
                    if obj \<noteq> nullptr then do { st \<leftarrow> upd_vreg vd (\<lambda>d. Some (SetReference obj d)) st; Some (MoveToNextInst f False st) }
                    else MoveToExceptionHandler rt st }) }"


subsection \<open>Fields\<close>

text \<open>A primitive field widened to the 64 bits of a register: as \<open>int64_t\<close>, or the bits of a float or double.\<close>

definition GetFieldPrimitive :: "TypeId \<Rightarrow> slot \<Rightarrow> 'w istate \<Rightarrow> u64 option" where
  "GetFieldPrimitive ty sl st =
     (case ty of
        TyU1 \<Rightarrow> map_option (widen False) (Get_mem sl st :: u8 option)
      | TyU8 \<Rightarrow> map_option (widen False) (Get_mem sl st :: u8 option)
      | TyI8 \<Rightarrow> map_option (widen True) (Get_mem sl st :: u8 option)
      | TyI16 \<Rightarrow> map_option (widen True) (Get_mem sl st :: u16 option)
      | TyU16 \<Rightarrow> map_option (widen False) (Get_mem sl st :: u16 option)
      | TyI32 \<Rightarrow> map_option (widen True) (Get_mem sl st :: u32 option)
      | TyU32 \<Rightarrow> map_option (widen False) (Get_mem sl st :: u32 option)
      | TyI64 \<Rightarrow> Get_mem sl st
      | TyU64 \<Rightarrow> Get_mem sl st
      | TyF32 \<Rightarrow> map_option (widen True) (Get_mem sl st :: u32 option)
      | TyF64 \<Rightarrow> Get_mem sl st
      | TyREFERENCE \<Rightarrow> None
      | TyOther \<Rightarrow> None)"

definition LoadPrimitiveFieldReg :: "nat \<Rightarrow> slot \<Rightarrow> field_info \<Rightarrow> 'w istate \<Rightarrow> 'w istate option" where
  "LoadPrimitiveFieldReg vd sl fi st =
     do { v \<leftarrow> GetFieldPrimitive (fi_type fi) sl st; upd_vreg vd (\<lambda>d. Some (SetPrimitive True v d)) st }"

definition LoadPrimitiveField :: "slot \<Rightarrow> field_info \<Rightarrow> 'w istate \<Rightarrow> 'w istate option" where
  "LoadPrimitiveField sl fi st =
     do { v \<leftarrow> GetFieldPrimitive (fi_type fi) sl st; Some (set_acc (SetPrimitive True v (st_acc st)) st) }"

text \<open>The register \<open>r\<close> is read at the width of the field.\<close>

definition SetFieldPrimitive :: "TypeId \<Rightarrow> slot \<Rightarrow> vreg \<Rightarrow> 'w istate \<Rightarrow> 'w istate option" where
  "SetFieldPrimitive ty sl r st =
     (case ty of
        TyU1 \<Rightarrow> do { v \<leftarrow> (GetAs r :: u8 option); Set_mem sl v st }
      | TyU8 \<Rightarrow> do { v \<leftarrow> (GetAs r :: u8 option); Set_mem sl v st }
      | TyI8 \<Rightarrow> do { v \<leftarrow> (GetAs r :: u8 option); Set_mem sl v st }
      | TyI16 \<Rightarrow> do { v \<leftarrow> (GetAs r :: u16 option); Set_mem sl v st }
      | TyU16 \<Rightarrow> do { v \<leftarrow> (GetAs r :: u16 option); Set_mem sl v st }
      | TyI32 \<Rightarrow> do { v \<leftarrow> (GetAs r :: u32 option); Set_mem sl v st }
      | TyU32 \<Rightarrow> do { v \<leftarrow> (GetAs r :: u32 option); Set_mem sl v st }
      | TyI64 \<Rightarrow> do { v \<leftarrow> (GetAs r :: u64 option); Set_mem sl v st }
      | TyU64 \<Rightarrow> do { v \<leftarrow> (GetAs r :: u64 option); Set_mem sl v st }
      | TyF32 \<Rightarrow> do { v \<leftarrow> (GetAs r :: u32 option); Set_mem sl v st }
      | TyF64 \<Rightarrow> do { v \<leftarrow> (GetAs r :: u64 option); Set_mem sl v st }
      | TyREFERENCE \<Rightarrow> None
      | TyOther \<Rightarrow> None)"

definition StorePrimitiveFieldReg :: "nat \<Rightarrow> slot \<Rightarrow> field_info \<Rightarrow> 'w istate \<Rightarrow> 'w istate option" where
  "StorePrimitiveFieldReg vd sl fi st = do { r \<leftarrow> read_vreg vd st; SetFieldPrimitive (fi_type fi) sl r st }"

definition StorePrimitiveField :: "slot \<Rightarrow> field_info \<Rightarrow> 'w istate \<Rightarrow> 'w istate option" where
  "StorePrimitiveField sl fi st = SetFieldPrimitive (fi_type fi) sl (st_acc st) st"

text \<open>The frame of every handler on a field of the object in a register, and on a static field.\<close>

definition with_obj_field ::
    "nat \<Rightarrow> (ref \<Rightarrow> field_info \<Rightarrow> 'w istate \<Rightarrow> 'w istate option) \<Rightarrow> 'w handler" where
  "with_obj_field k act rt f st =
     do { vs \<leftarrow> inst_VReg rt f k st; eid \<leftarrow> inst_Id rt f st;
          r \<leftarrow> read_vreg vs st; obj \<leftarrow> GetReference r;
          if obj = nullptr then throw_to_handler rt NullPointerException st
          else do { (field, st) \<leftarrow> ResolveField rt False eid st;
                    (case field of None \<Rightarrow> MoveToExceptionHandler rt st
                     | Some x \<Rightarrow> if fi_static (rt_field rt x) then None
                                 else do { st \<leftarrow> act obj (rt_field rt x) st; Some (MoveToNextInst f True st) }) } }"

definition with_static_field :: "(class_id \<Rightarrow> field_info \<Rightarrow> 'w istate \<Rightarrow> 'w istate option) \<Rightarrow> 'w handler" where
  "with_static_field act rt f st =
     do { eid \<leftarrow> inst_Id rt f st;
          (field, st) \<leftarrow> ResolveField rt True eid st;
          (case field of None \<Rightarrow> MoveToExceptionHandler rt st
           | Some x \<Rightarrow> if \<not> fi_static (rt_field rt x) then None
                       else do { st \<leftarrow> act (fi_class (rt_field rt x)) (rt_field rt x) st; Some (MoveToNextInst f False st) }) }"

definition HandleLdobj :: "'w handler" where
  "HandleLdobj rt = with_obj_field 0 (\<lambda>obj fi. LoadPrimitiveField (ObjSlot obj (fi_offset fi)) fi) rt"

definition HandleLdobjWide :: "'w handler" where
  "HandleLdobjWide rt = with_obj_field 0 (\<lambda>obj fi. LoadPrimitiveField (ObjSlot obj (fi_offset fi)) fi) rt"

definition HandleLdobjObj :: "'w handler" where
  "HandleLdobjObj rt = with_obj_field 0 (\<lambda>obj fi st.
     if fi_type fi \<noteq> TyREFERENCE then None
     else do { v \<leftarrow> Get_mem (ObjSlot obj (fi_offset fi)) st; Some (set_acc (SetReference v (st_acc st)) st) }) rt"

definition HandleLdobjV :: "'w handler" where
  "HandleLdobjV rt f st =
     do { vd \<leftarrow> inst_VReg rt f 0 st;
          with_obj_field 1 (\<lambda>obj fi. LoadPrimitiveFieldReg vd (ObjSlot obj (fi_offset fi)) fi) rt f st }"

definition HandleLdobjVWide :: "'w handler" where
  "HandleLdobjVWide rt f st =
     do { vd \<leftarrow> inst_VReg rt f 0 st;
          with_obj_field 1 (\<lambda>obj fi. LoadPrimitiveFieldReg vd (ObjSlot obj (fi_offset fi)) fi) rt f st }"

definition HandleLdobjVObj :: "'w handler" where
  "HandleLdobjVObj rt f st =
     do { vd \<leftarrow> inst_VReg rt f 0 st;
          with_obj_field 1 (\<lambda>obj fi st.
            if fi_type fi \<noteq> TyREFERENCE then None
            else do { v \<leftarrow> Get_mem (ObjSlot obj (fi_offset fi)) st; upd_vreg vd (\<lambda>d. Some (SetReference v d)) st }) rt f st }"

definition HandleStobj :: "'w handler" where
  "HandleStobj rt = with_obj_field 0 (\<lambda>obj fi. StorePrimitiveField (ObjSlot obj (fi_offset fi)) fi) rt"

definition HandleStobjWide :: "'w handler" where
  "HandleStobjWide rt = with_obj_field 0 (\<lambda>obj fi. StorePrimitiveField (ObjSlot obj (fi_offset fi)) fi) rt"

definition HandleStobjObj :: "'w handler" where
  "HandleStobjObj rt = with_obj_field 0 (\<lambda>obj fi st.
     if fi_type fi \<noteq> TyREFERENCE then None
     else do { v \<leftarrow> GetReference (st_acc st); SetObject rt (ObjSlot obj (fi_offset fi)) obj v st }) rt"

definition HandleStobjV :: "'w handler" where
  "HandleStobjV rt f st =
     do { vd \<leftarrow> inst_VReg rt f 0 st;
          with_obj_field 1 (\<lambda>obj fi. StorePrimitiveFieldReg vd (ObjSlot obj (fi_offset fi)) fi) rt f st }"

definition HandleStobjVWide :: "'w handler" where
  "HandleStobjVWide rt f st =
     do { vd \<leftarrow> inst_VReg rt f 0 st;
          with_obj_field 1 (\<lambda>obj fi. StorePrimitiveFieldReg vd (ObjSlot obj (fi_offset fi)) fi) rt f st }"

definition HandleStobjVObj :: "'w handler" where
  "HandleStobjVObj rt f st =
     do { vd \<leftarrow> inst_VReg rt f 0 st;
          with_obj_field 1 (\<lambda>obj fi st.
            if fi_type fi \<noteq> TyREFERENCE then None
            else do { r \<leftarrow> read_vreg vd st; v \<leftarrow> GetReference r;
                      SetObject rt (ObjSlot obj (fi_offset fi)) obj v st }) rt f st }"

definition HandleLdstatic :: "'w handler" where
  "HandleLdstatic rt = with_static_field (\<lambda>c fi. LoadPrimitiveField (ClassSlot c (fi_offset fi)) fi) rt"

definition HandleLdstaticWide :: "'w handler" where
  "HandleLdstaticWide rt = with_static_field (\<lambda>c fi. LoadPrimitiveField (ClassSlot c (fi_offset fi)) fi) rt"

definition HandleLdstaticObj :: "'w handler" where
  "HandleLdstaticObj rt = with_static_field (\<lambda>c fi st.
     if fi_type fi \<noteq> TyREFERENCE then None
     else do { v \<leftarrow> Get_mem (ClassSlot c (fi_offset fi)) st; Some (set_acc (SetReference v (st_acc st)) st) }) rt"

definition HandleStstatic :: "'w handler" where
  "HandleStstatic rt = with_static_field (\<lambda>c fi. StorePrimitiveField (ClassSlot c (fi_offset fi)) fi) rt"

definition HandleStstaticWide :: "'w handler" where
  "HandleStstaticWide rt = with_static_field (\<lambda>c fi. StorePrimitiveField (ClassSlot c (fi_offset fi)) fi) rt"

definition HandleStstaticObj :: "'w handler" where
  "HandleStstaticObj rt = with_static_field (\<lambda>c fi st.
     if fi_type fi \<noteq> TyREFERENCE then None
     else do { v \<leftarrow> GetReference (st_acc st);
               SetObject rt (ClassSlot c (fi_offset fi)) (rt_GetManagedObject rt c) v st }) rt"


end
