(* ===== verification/ObjectProperties.thy ===== *)
theory ObjectProperties
  imports InterpreterObjects
begin

text \<open>
  Array and field accesses of \<open>InterpreterObjects\<close>: every access to an array is preceded by the null check and the bounds
  check and touches nothing else, a reference store is type checked and surrounded by the collector's barriers, and a
  primitive field reads back what was stored in it. \<open>throws\<close> says that a handler has thrown an exception and that the next
  dispatch goes to the exception handler, entry 328 of the dispatch table.
\<close>

definition throws :: "'w rt \<Rightarrow> throwable \<Rightarrow> 'w istate \<Rightarrow> 'w istate option \<Rightarrow> bool" where
  "throws rt e st r \<longleftrightarrow> (\<exists>st'. r = Some st' \<and> st_vm st' = rt_Throw rt e (st_vm st) \<and> GetExceptionOpcode rt st' = Some 328 \<and>
     st_inst st' = st_inst st \<and> st_acc st' = st_acc st)"

lemma throwsI:
  assumes "at_inst rt GetOpcode st = Some opc"
  shows "throws rt e st (MoveToExceptionHandler rt (Throw rt e st))" "throws rt e st (throw_to_handler rt e st)"
proof -
  have "at_inst rt GetOpcode (Throw rt e st) = Some opc" using assms by (simp add: Throw_def)
  from MoveToExceptionHandler_eq [OF this] show "throws rt e st (MoveToExceptionHandler rt (Throw rt e st))"
    by (simp add: throws_def Throw_def)
  then show "throws rt e st (throw_to_handler rt e st)" by (simp add: throw_to_handler_def)
qed

lemma set_acc_int_ok: "\<not> HasObject (st_acc st) \<Longrightarrow> set_acc_int sg v st = Some (set_acc (SetValue (widen sg v) (st_acc st)) st)"
  by (simp add: set_acc_int_def Set_int_def)

lemma Get32_HasObject: "Get32 r = Some v \<Longrightarrow> \<not> HasObject r"
  by (simp add: Get32_def split: if_splits)

text \<open>
  C28: A primitive array load throws a null pointer exception on null and an index exception on an index that is negative or
  not below the length, with nothing else changed; otherwise it never fails: the accumulator gets the element, sign or zero
  extended, and the next instruction is up.
\<close>

theorem array_load_checked:
  fixes st :: "'w istate" and array :: ref and sg :: bool
  assumes "inst_VReg rt f 0 st = Some vs" "read_vreg vs st = Some r" "GetReference r = Some array" "Get32 (st_acc st) = Some idx"
    and "at_inst rt GetOpcode st = Some opc"
    and "array \<noteq> nullptr \<longrightarrow> array_ok (vm_heap (st_vm st)) (LENGTH('a::len) div 8) array"
  defines "R \<equiv> HandleArrayPrimitiveLoad TYPE('a) sg rt f st" and "h \<equiv> vm_heap (st_vm st)"
  shows "if array = nullptr then throws rt NullPointerException st R
    else \<exists>len. array_GetLength h array = Some len \<and>
      (if sint idx < 0 \<or> len \<le> idx then throws rt (ArrayIndexOutOfBoundsException idx len) st R
       else \<exists>v :: 'a word. array_Get h array idx = Some v \<and>
         R = Some (MoveToNextInst f True (set_acc (SetValue (widen sg v) (st_acc st)) st)))"
proof (cases "array = nullptr")
  case True
  then show ?thesis
    using assms(1-4) throwsI(1) [OF assms(5)] by (simp add: R_def HandleArrayPrimitiveLoad_def CheckLoadArrayOp_def)
next
  case False
  then obtain len where len: "array_GetLength h array = Some len" using assms(6) array_ok_length h_def by blast
  show ?thesis
  proof (cases "sint idx < 0 \<or> len \<le> idx")
    case True
    then have "R = MoveToExceptionHandler rt (Throw rt (ArrayIndexOutOfBoundsException idx len) st)"
      using False len assms(1-4) by (simp add: R_def h_def HandleArrayPrimitiveLoad_def CheckLoadArrayOp_def)
    then show ?thesis using False True len throwsI(1) [OF assms(5)] by simp
  next
    case in_bounds: False
    then obtain v :: "'a word" where v: "array_Get h array idx = Some v"
      using array_get_in_bounds [of h array len idx] assms(6) False len h_def by (auto simp: not_le)
    have "R = Some (MoveToNextInst f True (set_acc (SetValue (widen sg v) (st_acc st)) st))"
      using False in_bounds len v assms(1-4) Get32_HasObject [OF assms(4)]
      by (simp add: R_def h_def HandleArrayPrimitiveLoad_def CheckLoadArrayOp_def set_acc_int_ok)
    then show ?thesis using False in_bounds len v by simp
  qed
qed

text \<open>
  C27: A primitive array store throws a null pointer exception on null and an index exception on an index that is negative
  or not below the length; otherwise the element at the index, and only that element of that array, is replaced: the
  length, the other elements and all other objects stay as they are.
\<close>

theorem array_store_checked:
  fixes st :: "'w istate" and elem :: "'a::len word"
  assumes "inst_VReg rt f 0 st = Some vs1" "read_vreg vs1 st = Some r1" "GetReference r1 = Some array"
    and "inst_VReg rt f 1 st = Some vs2" "read_vreg vs2 st = Some r2" "Get32 r2 = Some idx" "GetAs (st_acc st) = Some elem"
    and "at_inst rt GetOpcode st = Some opc" "byte_sized TYPE('a)"
    and "array \<noteq> nullptr \<longrightarrow> array_ok (vm_heap (st_vm st)) (LENGTH('a) div 8) array"
  defines "R \<equiv> HandleArrayStore TYPE('a) rt f st" and "h \<equiv> vm_heap (st_vm st)"
  shows "if array = nullptr then throws rt NullPointerException st R
    else \<exists>len. array_GetLength h array = Some len \<and>
      (if sint idx < 0 \<or> len \<le> idx then throws rt (ArrayIndexOutOfBoundsException idx len) st R
       else \<exists>h'. R = Some (MoveToNextInst f True (put_heap h' st)) \<and> array_Get h' array idx = Some elem \<and>
         array_GetLength h' array = Some len \<and>
         (\<forall>j. j \<noteq> idx \<longrightarrow> array_Get h' array j = (array_Get h array j :: 'a word option)) \<and> (\<forall>obj. obj \<noteq> array \<longrightarrow> h' obj = h obj))"
proof (cases "array = nullptr")
  case True
  then show ?thesis
    using assms(1-7) throwsI(1) [OF assms(8)] by (simp add: R_def HandleArrayStore_def CheckStoreArrayOp_def)
next
  case False
  then obtain len where len: "array_GetLength h array = Some len" using assms(10) array_ok_length h_def by blast
  show ?thesis
  proof (cases "sint idx < 0 \<or> len \<le> idx")
    case True
    then have "R = MoveToExceptionHandler rt (Throw rt (ArrayIndexOutOfBoundsException idx len) st)"
      using False len assms(1-7) by (simp add: R_def h_def HandleArrayStore_def CheckStoreArrayOp_def)
    then show ?thesis using False True len throwsI(1) [OF assms(8)] by simp
  next
    case in_bounds: False
    then obtain h' where h': "array_Set h array idx elem = Some h'"
      using array_set_in_bounds [of h array len idx elem] assms(10) False len h_def by (auto simp: not_le)
    have "R = Some (MoveToNextInst f True (put_heap h' st))"
      using False in_bounds len h' assms(1-7) by (simp add: R_def h_def HandleArrayStore_def CheckStoreArrayOp_def)
    then show ?thesis using False in_bounds len array_set_get [OF h' assms(9)] by auto
  qed
qed

lemma Get_mem_obj: "Get_mem (ObjSlot obj off) st = ACC_Get (vm_heap (st_vm st)) obj off"
  by (auto simp: Get_mem_def mem_of_def ACC_Get_def split: option.splits)

lemma Set_mem_obj: "Set_mem (ObjSlot obj off) v st = map_option (\<lambda>h. put_heap h st) (ACC_Set (vm_heap (st_vm st)) obj off v)"
  by (auto simp: Set_mem_def mem_of_def ACC_Set_def put_mem_def split: option.splits bind_splits)

lemma barrier_sel [simp]:
  "vm_heap (st_vm (barrier g st)) = vm_heap (st_vm st)" "vm_env (st_vm (barrier g st)) = g (vm_env (st_vm st))"
  "vm_heap (st_vm (put_heap h st)) = h" "vm_env (st_vm (put_heap h st)) = vm_env (st_vm st)"
  by (simp_all add: barrier_def put_heap_def)

lemma SetObject_array:
  assumes "array_Get (vm_heap (st_vm st)) array idx = Some old" "array_Set (vm_heap (st_vm st)) array idx v = Some h'"
  defines "sl \<equiv> ObjSlot array (array_elem_offset 4 idx)"
  shows "SetObject rt sl array v st =
    Some (barrier (rt_PostBarrier rt array v) (put_heap h' (barrier (rt_PreBarrier rt sl old) st)))"
  using assms by (simp add: SetObject_def Get_mem_obj Set_mem_obj array_Get_def array_Set_def)

text \<open>
  C26: A reference array store checks null, the bounds and that the element's class is assignable to the array's component
  type, in this order, and throws the exception of the first check that fails; otherwise the element at the index, and only
  that element of that array, is replaced: the length, the other elements, the class words and all other objects stay as
  they are, the collector's barriers are run with the slot, the old and the new value, pre barrier first, and nothing else
  of the interpreter state changes before it moves on.
\<close>

theorem array_ref_store_checked:
  fixes st :: "'w istate"
  assumes "inst_VReg rt f 0 st = Some vs1" "read_vreg vs1 st = Some r1" "GetReference r1 = Some array"
    and "inst_VReg rt f 1 st = Some vs2" "read_vreg vs2 st = Some r2" "Get32 r2 = Some idx" "GetReference (st_acc st) = Some elem"
    and "at_inst rt GetOpcode st = Some opc"
    and "array \<noteq> nullptr \<longrightarrow> array_ok (vm_heap (st_vm st)) 4 array \<and> ho_class_of (vm_heap (st_vm st)) array = Some ac"
    and "elem \<noteq> nullptr \<longrightarrow> ho_class_of (vm_heap (st_vm st)) elem = Some ec"
  defines "R \<equiv> HandleStarrObj rt f st" and "h \<equiv> vm_heap (st_vm st)" and "sl \<equiv> ObjSlot array (array_elem_offset 4 idx)"
  shows "if array = nullptr then throws rt NullPointerException st R
    else \<exists>len. array_GetLength h array = Some len \<and>
      (if sint idx < 0 \<or> len \<le> idx then throws rt (ArrayIndexOutOfBoundsException idx len) st R
       else if elem \<noteq> nullptr \<and> \<not> rt_IsAssignableFrom rt (rt_GetComponentType rt ac) ec then throws rt (ArrayStoreException ac ec) st R
       else \<exists>h' old. R = Some (MoveToNextInst f True (st\<lparr>st_vm := (st_vm st)\<lparr>vm_heap := h',
           vm_env := rt_PostBarrier rt array elem (rt_PreBarrier rt sl old (vm_env (st_vm st)))\<rparr>\<rparr>)) \<and>
         array_Get h array idx = Some old \<and> array_Get h' array idx = Some elem \<and> array_GetLength h' array = Some len \<and>
         (\<forall>j. j \<noteq> idx \<longrightarrow> array_Get h' array j = (array_Get h array j :: ref option)) \<and>
         (\<forall>obj. ho_class_of h' obj = ho_class_of h obj) \<and> (\<forall>obj. obj \<noteq> array \<longrightarrow> h' obj = h obj))"
proof (cases "array = nullptr")
  case True
  then show ?thesis
    using assms(1-7) throwsI(1) [OF assms(8)] by (simp add: R_def HandleStarrObj_def CheckStoreArrayOp_def)
next
  case False
  then obtain len where len: "array_GetLength h array = Some len" using assms(9) array_ok_length h_def by blast
  note defs = HandleStarrObj_def CheckStoreArrayOp_def
  consider (bounds) "sint idx < 0 \<or> len \<le> idx"
    | (store) "\<not> (sint idx < 0 \<or> len \<le> idx)" "elem \<noteq> nullptr \<and> \<not> rt_IsAssignableFrom rt (rt_GetComponentType rt ac) ec"
    | (ok) "\<not> (sint idx < 0 \<or> len \<le> idx)" "\<not> (elem \<noteq> nullptr \<and> \<not> rt_IsAssignableFrom rt (rt_GetComponentType rt ac) ec)"
    by blast
  then show ?thesis
  proof cases
    case bounds
    then have "R = MoveToExceptionHandler rt (Throw rt (ArrayIndexOutOfBoundsException idx len) st)"
      using False len assms(1-7) by (simp add: R_def h_def defs)
    then show ?thesis using False bounds len throwsI(1) [OF assms(8)] by simp
  next
    case store
    then have "R = MoveToExceptionHandler rt (Throw rt (ArrayStoreException ac ec) st)"
      using False len assms(1-7,9,10) by (simp add: R_def h_def defs)
    then show ?thesis using False store len throwsI(1) [OF assms(8)] by simp
  next
    case ok
    have inb: "idx < len" "array_ok h (LENGTH(32) div 8) array" using ok(1) assms(9) False by (auto simp: not_le h_def)
    obtain old where old: "array_Get h array idx = Some (old :: ref)" using array_get_in_bounds [OF inb(2) len inb(1)] by blast
    obtain h' where h': "array_Set h array idx elem = Some h'" using array_set_in_bounds [OF inb(2) len inb(1)] by blast
    define st' where "st' = barrier (rt_PostBarrier rt array elem) (put_heap h' (barrier (rt_PreBarrier rt sl old) st))"
    have "SetObject rt sl array elem st = Some st'"
      using SetObject_array [of st array idx old elem h' rt] old h' by (simp add: h_def sl_def st'_def)
    then have "R = Some (MoveToNextInst f True st')"
      using False ok len assms(1-7,9,10) by (auto simp: R_def h_def sl_def defs)
    then have "R = Some (MoveToNextInst f True (st\<lparr>st_vm := (st_vm st)\<lparr>vm_heap := h',
        vm_env := rt_PostBarrier rt array elem (rt_PreBarrier rt sl old (vm_env (st_vm st)))\<rparr>\<rparr>))"
      by (simp add: st'_def barrier_def put_heap_def)
    moreover have "byte_sized TYPE(32)" by (simp add: byte_sized_def)
    ultimately show ?thesis using False ok len old array_set_get [OF h'] by auto
  qed
qed

definition prim_conv :: "TypeId \<Rightarrow> u64 \<Rightarrow> u64" where
  "prim_conv ty w =
     (case ty of TyU1 \<Rightarrow> ucast (ucast w :: u8) | TyU8 \<Rightarrow> ucast (ucast w :: u8) | TyI8 \<Rightarrow> scast (ucast w :: u8)
      | TyI16 \<Rightarrow> scast (ucast w :: u16) | TyU16 \<Rightarrow> ucast (ucast w :: u16) | TyI32 \<Rightarrow> scast (ucast w :: u32)
      | TyU32 \<Rightarrow> ucast (ucast w :: u32) | TyF32 \<Rightarrow> scast (ucast w :: u32) | _ \<Rightarrow> w)"

lemma Get_Set_mem:
  assumes "Set_mem sl (v :: 'a::len word) st = Some st'" "byte_sized TYPE('a)"
  shows "Get_mem sl st' = Some v"
  using assms(1) load_store_same [OF _ assms(2)]
  by (cases sl) (auto simp: Set_mem_def Get_mem_def mem_of_def put_mem_def put_heap_def split: bind_splits option.splits)

lemma Set_mem_acc: "Set_mem sl v st = Some st' \<Longrightarrow> st_acc st' = st_acc st \<and> st_inst st' = st_inst st \<and> vm_frames (st_vm st') = vm_frames (st_vm st)"
  by (cases sl) (auto simp: Set_mem_def put_mem_def put_heap_def split: bind_splits)

lemma byte_sized_all [simp]: "byte_sized TYPE(8)" "byte_sized TYPE(16)" "byte_sized TYPE(64)"
  by (simp_all add: byte_sized_def)

lemma field_store_load:
  assumes "SetFieldPrimitive ty sl r st = Some st'"
  shows "GetFieldPrimitive ty sl st' = Some (prim_conv ty (v_value r)) \<and> \<not> HasObject r"
  using assms
  by (cases ty) (auto simp: SetFieldPrimitive_def GetFieldPrimitive_def prim_conv_def GetAs_eq widen_def
      split: bind_splits if_splits dest!: Get_Set_mem)

definition prim_size :: "TypeId \<Rightarrow> nat" where
  "prim_size ty = (case ty of TyU1 \<Rightarrow> 1 | TyU8 \<Rightarrow> 1 | TyI8 \<Rightarrow> 1 | TyI16 \<Rightarrow> 2 | TyU16 \<Rightarrow> 2 | TyI64 \<Rightarrow> 8 | TyU64 \<Rightarrow> 8 | TyF64 \<Rightarrow> 8 | _ \<Rightarrow> 4)"

fun slots_apart :: "slot \<Rightarrow> nat \<Rightarrow> slot \<Rightarrow> nat \<Rightarrow> bool" where
  "slots_apart (ObjSlot a i) n (ObjSlot b j) k \<longleftrightarrow> a \<noteq> b \<or> i + n \<le> j \<or> j + k \<le> i"
| "slots_apart (ClassSlot a i) n (ClassSlot b j) k \<longleftrightarrow> a \<noteq> b \<or> i + n \<le> j \<or> j + k \<le> i"
| "slots_apart _ _ _ _ \<longleftrightarrow> True"

lemma Get_Set_mem_other:
  assumes "Set_mem sl (v :: 'a::len word) st = Some st'" "byte_sized TYPE('a)"
    and "slots_apart sl (LENGTH('a) div 8) sl2 (LENGTH('b) div 8)" "byte_sized TYPE('b)"
  shows "Get_mem sl2 st' = (Get_mem sl2 st :: 'b::len word option)"
proof -
  obtain m off m' where m: "mem_of sl st = Some (m, off)" "store m off v = Some m'" "st' = put_mem sl m' st"
    using assms(1) by (auto simp: Set_mem_def split: bind_splits)
  have o: "load m' off2 = (load m off2 :: 'b word option)" if "off + LENGTH('a) div 8 \<le> off2 \<or> off2 + LENGTH('b) div 8 \<le> off" for off2
    using load_store_other [OF m(2)] assms(2,4) that by auto
  show ?thesis
    using assms(3) m(1,3) o
    by (cases sl; cases sl2) (auto simp: Get_mem_def mem_of_def put_mem_def put_heap_def split: bind_splits option.splits)
qed

lemma Get_field_Set_mem_other:
  fixes v :: "'b::len word"
  assumes "Set_mem sl v st = Some st'" "byte_sized TYPE('b)" "slots_apart sl (LENGTH('b) div 8) sl2 (prim_size ty2)"
  shows "GetFieldPrimitive ty2 sl2 st' = GetFieldPrimitive ty2 sl2 st"
  using Get_Set_mem_other [OF assms(1,2), of sl2, where 'b = 8] Get_Set_mem_other [OF assms(1,2), of sl2, where 'b = 16]
    Get_Set_mem_other [OF assms(1,2), of sl2, where 'b = 32] Get_Set_mem_other [OF assms(1,2), of sl2, where 'b = 64] assms(3)
  by (cases ty2) (simp_all add: GetFieldPrimitive_def prim_size_def)

lemma field_store_other:
  assumes "SetFieldPrimitive ty sl r st = Some st'" "slots_apart sl (prim_size ty) sl2 (prim_size ty2)"
  shows "GetFieldPrimitive ty2 sl2 st' = GetFieldPrimitive ty2 sl2 st"
  using assms
  by (cases ty) (auto simp: SetFieldPrimitive_def prim_size_def split: bind_splits elim!: Get_field_Set_mem_other)

text \<open>
  C29: A primitive field, of an object or static, reads back the accumulator truncated to the field's type and extended
  again by the sign of the type; a store leaves every field that does not overlap it, the accumulator, the instruction and
  the frames as they are.
\<close>

theorem field_roundtrip:
  assumes "StorePrimitiveField sl fi st = Some st'"
  shows "LoadPrimitiveField sl fi st' =
      Some (set_acc (SetPrimitive True (prim_conv (fi_type fi) (v_value (st_acc st))) (st_acc st)) st') \<and>
    (\<forall>sl2 fi2. slots_apart sl (prim_size (fi_type fi)) sl2 (prim_size (fi_type fi2)) \<longrightarrow>
       GetFieldPrimitive (fi_type fi2) sl2 st' = GetFieldPrimitive (fi_type fi2) sl2 st) \<and>
    st_acc st' = st_acc st \<and> st_inst st' = st_inst st \<and> vm_frames (st_vm st') = vm_frames (st_vm st)"
proof -
  have s: "SetFieldPrimitive (fi_type fi) sl (st_acc st) st = Some st'" using assms by (simp add: StorePrimitiveField_def)
  then have "st_acc st' = st_acc st \<and> st_inst st' = st_inst st \<and> vm_frames (st_vm st') = vm_frames (st_vm st)"
    by (cases "fi_type fi") (auto simp: SetFieldPrimitive_def split: bind_splits dest: Set_mem_acc)
  then show ?thesis
    using field_store_load [OF s] field_store_other [OF s] by (simp add: LoadPrimitiveField_def)
qed

definition field_state :: "unit istate" where
  "field_state = sample_state\<lparr>st_acc := SetPrimitive True (0x1FE :: u32) vreg0,
     st_vm := sample_vm\<lparr>vm_heap := [40 \<mapsto> \<lparr>ho_class = 0, ho_mem = replicate 12 0\<rparr>]\<rparr>\<rparr>"

theorem field_roundtrip_witness:
  "\<exists>st' st''. StorePrimitiveField (ObjSlot 40 9) \<lparr>fi_type = TyI8, fi_offset = 9, fi_static = False, fi_class = 0\<rparr> field_state = Some st' \<and>
     LoadPrimitiveField (ObjSlot 40 9) \<lparr>fi_type = TyI8, fi_offset = 9, fi_static = False, fi_class = 0\<rparr> st' = Some st'' \<and>
     v_value (st_acc st'') = - 2"
proof -
  let ?fi = "\<lparr>fi_type = TyI8, fi_offset = 9, fi_static = False, fi_class = 0\<rparr>"
  have v: "v_value (st_acc field_state) = 0x1FE" "\<not> HasObject (st_acc field_state)"
    by (simp_all add: field_state_def widen_def)
  obtain st' where st': "StorePrimitiveField (ObjSlot 40 9) ?fi field_state = Some st'"
    by (simp add: StorePrimitiveField_def SetFieldPrimitive_def GetAs_eq v Set_mem_def mem_of_def store_def)
      (simp add: field_state_def)
  have "prim_conv TyI8 0x1FE = - 2" by (simp add: prim_conv_def)
  then show ?thesis using field_roundtrip [OF st'] st' v by (auto simp: set_acc_def widen_def)
qed

text \<open>A state to evaluate the array handlers in: \<open>v1\<close> holds an array of two 32-bit elements and \<open>v0\<close> an index.\<close>

definition arr_rt :: "unit rt" where
  "arr_rt = sample_rt\<lparr>rt_method := (\<lambda>m. \<lparr>mi_code = [0x49, 0x01], mi_num_vregs = 2, mi_num_args = 0, mi_static = True,
     mi_abstract = False, mi_constructor = False, mi_class = 0\<rparr>)\<rparr>"

definition arr_heap :: heap where
  "arr_heap = [40 \<mapsto> \<lparr>ho_class = 3, ho_mem = [0, 0, 0, 0, 0, 0, 0, 0, 2, 0, 0, 0, 0, 0, 0, 0, 5, 0, 0, 0, 6, 0, 0, 0]\<rparr>,
     48 \<mapsto> \<lparr>ho_class = 3, ho_mem = replicate 8 0\<rparr>, 56 \<mapsto> \<lparr>ho_class = 4, ho_mem = replicate 8 0\<rparr>]"

definition arr_state :: "u32 \<Rightarrow> vreg \<Rightarrow> unit istate" where
  "arr_state idx acc = sample_state\<lparr>st_acc := acc, st_vm := sample_vm\<lparr>vm_heap := arr_heap,
     vm_frames := [sample_frame\<lparr>f_vregs := [SetPrimitive True idx vreg0, SetReference 40 vreg0]\<rparr>]\<rparr>\<rparr>"

lemma arr_decode: "GetVReg F_V8 0 [0x49, 0x01] 0 = Some 1" "GetVReg F_V4_V4 0 [0x49, 0x01] 0 = Some 1" "GetVReg F_V4_V4 (Suc 0) [0x49, 0x01] 0 = Some 0"
  by code_simp+

lemma arr_operands:
  "inst_VReg arr_rt F_V8 0 (arr_state i a) = Some 1" "inst_VReg arr_rt F_V4_V4 0 (arr_state i a) = Some 1"
  "inst_VReg arr_rt F_V4_V4 1 (arr_state i a) = Some 0" "at_inst arr_rt GetOpcode (arr_state i a) = Some 0x49"
  "read_vreg 1 (arr_state i a) = Some (SetReference 40 vreg0)" "read_vreg 0 (arr_state i a) = Some (SetPrimitive True i vreg0)"
  by (simp_all add: inst_VReg_def at_inst_def arr_state_def sample_state_def code_of_def arr_rt_def arr_decode GetOpcode_def word_le_nat_alt
      read_vreg_def GetFrame_def frame_GetVReg_def)

lemma arr_sel [simp]: "vm_heap (st_vm (arr_state i a)) = arr_heap" "st_acc (arr_state i a) = a"
  by (simp_all add: arr_state_def)

lemma arr_heap_ok: "array_GetLength arr_heap 40 = Some 2" "array_ok arr_heap 4 40"
proof -
  have "load (ho_mem (the (arr_heap 40))) ARRAY_LENGTH_OFFSET = Some (2 :: u32)"
    by (simp add: arr_heap_def load_def ARRAY_LENGTH_OFFSET_def upt_rec)
  moreover have "arr_heap 40 = Some (the (arr_heap 40))" "length (ho_mem (the (arr_heap 40))) = ComputeSize 4 2"
    by (simp_all add: arr_heap_def ComputeSize_def ARRAY_DATA_OFFSET_def)
  ultimately show "array_GetLength arr_heap 40 = Some 2" "array_ok arr_heap 4 40"
    by (auto simp: array_GetLength_def ACC_Get_def array_ok_def split: option.splits)
qed

lemma arr_heap_elem: "array_Get arr_heap 40 1 = Some (6 :: u32)"
  by (simp add: array_Get_def ACC_Get_def arr_heap_def array_elem_offset_def ARRAY_DATA_OFFSET_def load_def upt_rec)

lemma low_widen: "ucast (widen True (i :: u32)) = i"
  by (rule bit_word_eqI) (simp add: widen_def bit_simps)

lemma arr_regs: "GetReference (SetReference x vreg0) = Some x" "Get32 (SetPrimitive True i vreg0) = Some i"
  "GetAs (SetPrimitive True i vreg0) = Some i"
  by (simp_all add: Get32_def GetAs_eq low_widen)

lemma arr_index: "\<not> (2 :: u32) \<le> 1" "sint (1 :: u32) = 1"
  by (simp_all add: word_le_nat_alt)

theorem array_load_checked_witness:
  "(\<exists>st'. HandleArrayPrimitiveLoad TYPE(32) True arr_rt F_V8 (arr_state 0 (SetPrimitive True (1 :: u32) vreg0)) = Some st' \<and>
      v_value (st_acc st') = 6) \<and>
   throws arr_rt (ArrayIndexOutOfBoundsException 2 2) (arr_state 0 (SetPrimitive True (2 :: u32) vreg0))
     (HandleArrayPrimitiveLoad TYPE(32) True arr_rt F_V8 (arr_state 0 (SetPrimitive True (2 :: u32) vreg0)))"
proof -
  have ok: "array_ok arr_heap (LENGTH(32) div 8) 40" using arr_heap_ok by simp
  note L = array_load_checked [where 'a = 32, OF arr_operands(1,5) arr_regs(1) _ arr_operands(4), simplified arr_sel, OF arr_regs(2)]
  show ?thesis
    using L [of 0 1 True] L [of 0 2 True] ok arr_heap_ok arr_heap_elem arr_index
    by (auto simp: MoveToNextInst_def set_acc_def widen_def SetValue_def)
qed

theorem array_store_checked_witness:
  "(\<exists>st'. HandleArrayStore TYPE(32) arr_rt F_V4_V4 (arr_state 1 (SetPrimitive True (9 :: u32) vreg0)) = Some st' \<and>
      array_Get (vm_heap (st_vm st')) 40 1 = Some (9 :: u32)) \<and>
   throws arr_rt (ArrayIndexOutOfBoundsException 2 2) (arr_state 2 (SetPrimitive True (9 :: u32) vreg0))
     (HandleArrayStore TYPE(32) arr_rt F_V4_V4 (arr_state 2 (SetPrimitive True (9 :: u32) vreg0)))"
proof -
  have ok: "array_ok arr_heap (LENGTH(32) div 8) 40" using arr_heap_ok by simp
  note L = array_store_checked [where 'a = 32, OF arr_operands(2,5) arr_regs(1) arr_operands(3,6) arr_regs(2) _ arr_operands(4),
      simplified arr_sel, OF arr_regs(3)]
  show ?thesis
    using L [of 1 9] L [of 2 9] ok arr_heap_ok arr_heap_elem arr_index
    by (auto simp: MoveToNextInst_def put_heap_def)
qed

theorem array_ref_store_checked_witness:
  "(\<exists>st'. HandleStarrObj arr_rt F_V4_V4 (arr_state 1 (SetReference 48 vreg0)) = Some st' \<and>
      array_Get (vm_heap (st_vm st')) 40 1 = Some (48 :: u32) \<and> array_GetLength (vm_heap (st_vm st')) 40 = Some 2) \<and>
   throws arr_rt (ArrayStoreException 3 4) (arr_state 1 (SetReference 56 vreg0))
     (HandleStarrObj arr_rt F_V4_V4 (arr_state 1 (SetReference 56 vreg0)))"
proof -
  have c: "ho_class_of arr_heap 40 = Some 3" "ho_class_of arr_heap 48 = Some 3" "ho_class_of arr_heap 56 = Some 4"
    by (simp_all add: arr_heap_def ho_class_of_def)
  have a: "rt_IsAssignableFrom arr_rt (rt_GetComponentType arr_rt 3) x \<longleftrightarrow> x = 3" for x
    by (auto simp: arr_rt_def sample_rt_def)
  note L = array_ref_store_checked [OF arr_operands(2,5) arr_regs(1) arr_operands(3,6) arr_regs(2) _ arr_operands(4),
      simplified arr_sel, OF arr_regs(1)]
  show ?thesis
    using L [of 3 48 3 1] L [of 3 56 4 1] arr_heap_ok arr_heap_elem arr_index c a
    by (auto simp: MoveToNextInst_def)
qed

end
