(* ===== verification/InterpreterCalls.thy ===== *)
theory InterpreterCalls
  imports InterpreterObjects
begin

text \<open>
  \<open>runtime/interpreter/interpreter-inl.h\<close>: frames of callees, the call, return and throw handlers, object initialisation
  and stack unwinding. A call of interpreted code pushes a frame and continues in the same loop (\<open>CallInterpreterStackless\<close>);
  a switch between the plain and the instrumented interpreter runs a nested loop, the parameter \<open>ee_execute\<close>.
\<close>

record call_kind =
  ck_dynamic :: bool
  ck_range :: bool
  ck_accept_acc :: bool
  ck_initobj :: bool

text \<open>The template arguments that are not the format: those of the class, and the nested interpreter.\<close>

record 'w exec_env =
  ee_instrumentation :: bool
  ee_execute :: "bool \<Rightarrow> ip \<Rightarrow> 'w vm \<Rightarrow> 'w vm option"

subsection \<open>Arguments\<close>

fun iter_opt :: "('a \<Rightarrow> 's \<Rightarrow> 's option) \<Rightarrow> 'a list \<Rightarrow> 's \<Rightarrow> 's option" where
  "iter_opt g [] s = Some s"
| "iter_opt g (x # xs) s = do { s \<leftarrow> g x s; iter_opt g xs s }"

definition arg_reg :: "'w rt \<Rightarrow> Format \<Rightarrow> nat \<Rightarrow> 'w istate \<Rightarrow> vreg option" where
  "arg_reg rt f i st = do { vs \<leftarrow> inst_VReg rt f i st; read_vreg vs st }"

definition CopyCallAccShortArguments :: "'w rt \<Rightarrow> Format \<Rightarrow> 'w istate \<Rightarrow> nat \<Rightarrow> frame \<Rightarrow> frame option" where
  "CopyCallAccShortArguments rt f st num_vregs fr =
     do { acc_position \<leftarrow> inst_Imm rt f 0 st;
          if acc_position = 0
          then do { fr \<leftarrow> frame_SetVReg num_vregs (st_acc st) fr;
                    r \<leftarrow> arg_reg rt f 0 st; frame_SetVReg (num_vregs + 1) r fr }
          else if acc_position = 1
          then do { r \<leftarrow> arg_reg rt f 0 st; fr \<leftarrow> frame_SetVReg num_vregs r fr;
                    frame_SetVReg (num_vregs + 1) (st_acc st) fr }
          else None }"

definition CopyCallAccArguments :: "'w rt \<Rightarrow> Format \<Rightarrow> 'w istate \<Rightarrow> nat \<Rightarrow> frame \<Rightarrow> frame option" where
  "CopyCallAccArguments rt f st num_vregs fr =
     do { acc_position \<leftarrow> inst_Imm rt f 0 st;
          r0 \<leftarrow> arg_reg rt f 0 st; r1 \<leftarrow> arg_reg rt f 1 st; r2 \<leftarrow> arg_reg rt f 2 st;
          let acc = st_acc st;
          args \<leftarrow> (if acc_position = 0 then Some [acc, r0, r1, r2]
                  else if acc_position = 1 then Some [r0, acc, r1, r2]
                  else if acc_position = 2 then Some [r0, r1, acc, r2]
                  else if acc_position = 3 then Some [r0, r1, r2, acc] else None);
          iter_opt (\<lambda>i fr. frame_SetVReg (num_vregs + i) (args ! i) fr) [0..<4] fr }"

text \<open>The variant for other formats: the position of the accumulator splits the registers of the instruction.\<close>

definition CopyCallAccArguments_n ::
    "'w rt \<Rightarrow> Format \<Rightarrow> 'w istate \<Rightarrow> nat \<Rightarrow> nat \<Rightarrow> frame \<Rightarrow> frame option" where
  "CopyCallAccArguments_n rt f st num_vregs num_actual_args fr =
     do { acc_position \<leftarrow> inst_Imm rt f 0 st;
          iter_opt (\<lambda>i fr.
            if i < unat acc_position then do { r \<leftarrow> arg_reg rt f i st; frame_SetVReg (num_vregs + i) r fr }
            else if i = unat acc_position then frame_SetVReg (num_vregs + i) (st_acc st) fr
            else do { r \<leftarrow> arg_reg rt f (i - 1) st; frame_SetVReg (num_vregs + i) r fr }) [0..<num_actual_args] fr }"

definition put_initobj :: "bool \<Rightarrow> 'w istate \<Rightarrow> nat \<Rightarrow> frame \<Rightarrow> frame option" where
  "put_initobj initobj st num_vregs fr = (if initobj then frame_SetVReg num_vregs (st_acc st) fr else Some fr)"

definition CopyCallShortArguments :: "'w rt \<Rightarrow> Format \<Rightarrow> bool \<Rightarrow> 'w istate \<Rightarrow> nat \<Rightarrow> frame \<Rightarrow> frame option" where
  "CopyCallShortArguments rt f initobj st num_vregs fr =
     do { let shift = (if initobj then 1 else 0);
          fr \<leftarrow> put_initobj initobj st num_vregs fr;
          r0 \<leftarrow> arg_reg rt f 0 st; fr \<leftarrow> frame_SetVReg (num_vregs + shift) r0 fr;
          r1 \<leftarrow> arg_reg rt f 1 st; frame_SetVReg (num_vregs + shift + 1) r1 fr }"

definition CopyCallArguments :: "'w rt \<Rightarrow> Format \<Rightarrow> bool \<Rightarrow> 'w istate \<Rightarrow> nat \<Rightarrow> frame \<Rightarrow> frame option" where
  "CopyCallArguments rt f initobj st num_vregs fr =
     do { let shift = (if initobj then 1 else 0);
          fr \<leftarrow> put_initobj initobj st num_vregs fr;
          r0 \<leftarrow> arg_reg rt f 0 st; fr \<leftarrow> frame_SetVReg (num_vregs + shift) r0 fr;
          r1 \<leftarrow> arg_reg rt f 1 st; fr \<leftarrow> frame_SetVReg (num_vregs + shift + 1) r1 fr;
          r2 \<leftarrow> arg_reg rt f 2 st; fr \<leftarrow> frame_SetVReg (num_vregs + shift + 2) r2 fr;
          r3 \<leftarrow> arg_reg rt f 3 st; frame_SetVReg (num_vregs + shift + 3) r3 fr }"

definition CopyCallArguments_n ::
    "'w rt \<Rightarrow> Format \<Rightarrow> bool \<Rightarrow> 'w istate \<Rightarrow> nat \<Rightarrow> nat \<Rightarrow> frame \<Rightarrow> frame option" where
  "CopyCallArguments_n rt f initobj st num_vregs num_actual_args fr =
     do { let shift = (if initobj then 1 else 0);
          fr \<leftarrow> put_initobj initobj st num_vregs fr;
          if num_actual_args < shift then None
          else iter_opt (\<lambda>i fr. do { r \<leftarrow> arg_reg rt f i st; frame_SetVReg (num_vregs + shift + i) r fr })
                 [0..<num_actual_args - shift] fr }"

definition CopyRangeArguments ::
    "'w rt \<Rightarrow> Format \<Rightarrow> bool \<Rightarrow> 'w istate \<Rightarrow> nat \<Rightarrow> nat \<Rightarrow> frame \<Rightarrow> frame option" where
  "CopyRangeArguments rt f initobj st num_vregs num_actual_args fr =
     do { let shift = (if initobj then 1 else 0);
          fr \<leftarrow> put_initobj initobj st num_vregs fr;
          start_reg \<leftarrow> inst_VReg rt f 0 st;
          if num_actual_args < shift then None
          else iter_opt (\<lambda>i fr. do { r \<leftarrow> read_vreg (start_reg + i) st; frame_SetVReg (num_vregs + shift + i) r fr })
                 [0..<num_actual_args - shift] fr }"

definition CopyArguments ::
    "call_kind \<Rightarrow> 'w rt \<Rightarrow> Format \<Rightarrow> 'w istate \<Rightarrow> nat \<Rightarrow> nat \<Rightarrow> nat \<Rightarrow> frame \<Rightarrow> frame option" where
  "CopyArguments ck rt f st num_vregs num_actual_args num_args fr =
     (if num_args = 0 then Some fr
      else do {
        fr \<leftarrow> (if ck_range ck then CopyRangeArguments rt f (ck_initobj ck) st num_vregs num_actual_args fr
              else if ck_accept_acc ck
              then if f = F_V4_IMM4_ID16 then CopyCallAccShortArguments rt f st num_vregs fr
                   else if f = F_V4_V4_V4_IMM4_ID16 then CopyCallAccArguments rt f st num_vregs fr
                   else CopyCallAccArguments_n rt f st num_vregs num_actual_args fr
              else if f = F_V4_V4_ID16 then CopyCallShortArguments rt f (ck_initobj ck) st num_vregs fr
              else if f = F_V4_V4_V4_V4_ID16 then CopyCallArguments rt f (ck_initobj ck) st num_vregs fr
              else CopyCallArguments_n rt f (ck_initobj ck) st num_vregs num_actual_args fr);
        if ck_dynamic ck
        then iter_opt (\<lambda>i fr. do { r \<leftarrow> frame_GetVReg fr (num_vregs + i);
                                 frame_SetVReg (num_vregs + i) (Move (rt_InitialDecodedValue rt) r) fr })
               [num_actual_args..<num_args] fr
        else Some fr })"

subsection \<open>Frames of callees\<close>

text \<open>
  The number of actual arguments, the size of the new frame and the registers it owns, all \<open>uint32_t\<close>: the sums are
  taken modulo 2^32.
\<close>

definition wrap32 :: "nat \<Rightarrow> nat" where
  "wrap32 n = unat (of_nat n :: u32)"

definition frame_layout :: "call_kind \<Rightarrow> 'w rt \<Rightarrow> Format \<Rightarrow> nat \<Rightarrow> nat \<Rightarrow> 'w istate \<Rightarrow> (nat \<times> nat \<times> nat) option" where
  "frame_layout ck rt f num_declared_args num_vregs st =
     (if ck_dynamic ck
      then do { imm \<leftarrow> inst_Imm rt f 0 st;
                let num_actual_args = unat (ucast imm + 1 :: u32);
                let frame_size = wrap32 (num_vregs + max num_declared_args num_actual_args);
                Some (num_actual_args, frame_size, frame_size) }
      else let frame_size =
             (if f = F_V4_V4_ID16 \<or> f = F_V4_IMM4_ID16 then wrap32 (num_vregs + (if ck_initobj ck then 3 else 2))
              else if f = F_V4_V4_V4_V4_ID16 \<or> f = F_V4_V4_V4_IMM4_ID16 then wrap32 (num_vregs + (if ck_initobj ck then 5 else 4))
              else wrap32 (num_vregs + num_declared_args))
           in Some (num_declared_args, frame_size, wrap32 (num_vregs + num_declared_args)))"

text \<open>
  A \<open>Frame *\<close>: \<open>None\<close> is the null pointer and \<open>Some d\<close> the frame that makes the stack \<open>d\<close> frames high. An access through
  a null pointer, or through a pointer to a frame that is gone, has no result.
\<close>

type_synonym frame_ptr = "nat option"

definition frame_at :: "frame_ptr \<Rightarrow> 'w vm \<Rightarrow> frame option" where
  "frame_at p vm =
     do { d \<leftarrow> p;
          if 0 < d \<and> d \<le> length (vm_frames vm) then Some (vm_frames vm ! (length (vm_frames vm) - d)) else None }"

definition frame_write :: "frame_ptr \<Rightarrow> (frame \<Rightarrow> frame) \<Rightarrow> 'w vm \<Rightarrow> 'w vm option" where
  "frame_write p g vm =
     do { d \<leftarrow> p;
          fr \<leftarrow> frame_at p vm;
          Some (vm\<lparr>vm_frames := (vm_frames vm)[length (vm_frames vm) - d := g fr]\<rparr>) }"

definition push_frame :: "frame \<Rightarrow> 'w istate \<Rightarrow> 'w istate" where
  "push_frame fr st = st\<lparr>st_vm := (st_vm st)\<lparr>vm_frames := fr # vm_frames (st_vm st)\<rparr>\<rparr>"

text \<open>The result of \<open>CreateAndSetFrame\<close>: what it returns, what it stores through \<open>frame\<close>, and the state.\<close>

definition CreateAndSetFrame ::
    "call_kind \<Rightarrow> 'w rt \<Rightarrow> Format \<Rightarrow> method_id \<Rightarrow> 'w istate \<Rightarrow> (bool \<times> frame_ptr \<times> 'w istate) option" where
  "CreateAndSetFrame ck rt f method st =
     do { let num_declared_args = mi_num_args (rt_method rt method);
          let num_vregs = mi_num_vregs (rt_method rt method);
          (num_actual_args, frame_size, nregs) \<leftarrow> frame_layout ck rt f num_declared_args num_vregs st;
          let (mem, vm) = rt_AllocFrame rt frame_size (st_vm st);
          let st = st\<lparr>st_vm := vm\<rparr>;
          (case mem of
             None \<Rightarrow> map_option (\<lambda>st. (False, None, st)) (throw_to_handler rt OutOfMemoryError st)
           | Some regs \<Rightarrow>
               do { fr \<leftarrow> CopyArguments ck rt f st num_vregs num_actual_args num_declared_args
                            ((make_frame method regs nregs num_actual_args)\<lparr>f_acc := st_acc st\<rparr>);
                    let st = push_frame fr st;
                    Some (True, Some (length (vm_frames (st_vm st))), st) }) }"

definition SetCurrentFrame :: "nat \<Rightarrow> 'w vm \<Rightarrow> 'w vm" where
  "SetCurrentFrame depth vm = vm\<lparr>vm_frames := drop (length (vm_frames vm) - depth) (vm_frames vm)\<rparr>"

subsection \<open>Calls\<close>

definition VerifyMethod :: "'w rt \<Rightarrow> method_id \<Rightarrow> 'w istate \<Rightarrow> bool \<times> 'w istate" where
  "VerifyMethod rt method st = (case rt_Verify rt method (st_vm st) of (ok, vm) \<Rightarrow> (ok, st\<lparr>st_vm := vm\<rparr>))"

text \<open>Neither variant looks at the result of \<open>CreateAndSetFrame\<close>; both access the new frame through the pointer it stored.\<close>

definition CallInterpreter :: "'w exec_env \<Rightarrow> call_kind \<Rightarrow> method_id \<Rightarrow> 'w handler" where
  "CallInterpreter env ck method rt f st =
     (case VerifyMethod rt method st of (ok, st) \<Rightarrow>
        if \<not> ok then throw_to_handler rt (VerificationException method) st
        else let prev = length (vm_frames (st_vm st)) in
          do { (_, frame, st) \<leftarrow> CreateAndSetFrame ck rt f method st;
               let vm = rt_MethodEntryEvent rt method (st_vm st);
               vm \<leftarrow> frame_write frame (\<lambda>fr. fr\<lparr>f_inst := (Code method, 0)\<rparr>) vm;
               vm \<leftarrow> ee_execute env (rt_IsDebugMode rt) (Code method, 0) vm;
               let vm = rt_MethodExitEvent rt method vm;
               fr \<leftarrow> frame_at frame vm;
               let st = st\<lparr>st_vm := SetCurrentFrame prev vm\<rparr>;
               st \<leftarrow> (if HasPendingException (st_vm st) then MoveToExceptionHandler rt st
                     else Some (MoveToNextInst f True (set_acc (f_acc fr) st)));
               if ck_initobj ck then GetAcc_frame st else Some st })"

definition CallInterpreterStackless :: "call_kind \<Rightarrow> method_id \<Rightarrow> 'w handler" where
  "CallInterpreterStackless ck method rt f st =
     (case VerifyMethod rt method st of (ok, st) \<Rightarrow>
        if \<not> ok then throw_to_handler rt (VerificationException method) st
        else let caller = Some (length (vm_frames (st_vm st))) in
          do { (_, frame, st) \<leftarrow> CreateAndSetFrame ck rt f method st;
               let vm = rt_MethodEntryEvent rt method (st_vm st);
               vm \<leftarrow> frame_write frame (set_frame_flag IS_STACKLESS) vm;
               vm \<leftarrow> (if ck_initobj ck then frame_write frame (set_frame_flag IS_INITOBJ) vm else Some vm);
               vm \<leftarrow> frame_write frame (\<lambda>fr. fr\<lparr>f_inst := (Code method, 0)\<rparr>) vm;
               let st = MoveToNextInst f False st;
               vm \<leftarrow> frame_write caller (\<lambda>fr. fr\<lparr>f_next_inst := st_inst st\<rparr>) vm;
               UpdateInstructionHandlerState (Code method, 0) (st\<lparr>st_vm := vm\<rparr>) })"

definition HandleCallPrologue :: "'w rt \<Rightarrow> method_id \<Rightarrow> 'w istate \<Rightarrow> 'w istate option" where
  "HandleCallPrologue rt method st =
     (let flags = rt_TestAllFlags rt (st_vm st) in
      do { st \<leftarrow> (if flags then Safepoint rt st else Some st);
           if flags \<and> HasPendingException (st_vm st) then MoveToExceptionHandler rt st
           else Some (if \<not> rt_HasCompiledCode rt method (st_vm st) then UpdateHotness rt method st else st) })"

definition HandleCall :: "'w exec_env \<Rightarrow> call_kind \<Rightarrow> method_id \<Rightarrow> 'w handler" where
  "HandleCall env ck method rt f st =
     do { st \<leftarrow> HandleCallPrologue rt method st;
          if \<not> rt_HasCompiledCode rt method (st_vm st)
          then if rt_IsDebugMode rt = ee_instrumentation env
               then CallInterpreterStackless ck method rt f st
               else CallInterpreter env ck method rt f st
          else do { let depth = length (vm_frames (st_vm st));
                    st \<leftarrow> SetAcc_frame st;
                    let vm = rt_CompiledCodeBridge rt (ck_dynamic ck) (st_inst st) method (st_vm st);
                    let st = st\<lparr>st_vm := SetCurrentFrame depth vm\<rparr>;
                    if HasPendingException (st_vm st) then MoveToExceptionHandler rt st
                    else do { st \<leftarrow> GetAcc_frame st; Some (MoveToNextInst f True st) } } }"

definition GetObjHelper :: "'w rt \<Rightarrow> Format \<Rightarrow> 'w istate \<Rightarrow> ref option" where
  "GetObjHelper rt f st = do { r \<leftarrow> arg_reg rt f 0 st; GetReference r }"

definition GetCallerObject :: "bool \<Rightarrow> 'w rt \<Rightarrow> Format \<Rightarrow> 'w istate \<Rightarrow> (ref \<times> 'w istate) option" where
  "GetCallerObject accept_acc rt f st =
     do { obj \<leftarrow> (if accept_acc
                 then do { imm \<leftarrow> inst_Imm rt f 0 st; if imm = 0 then GetReference (st_acc st) else GetObjHelper rt f st }
                 else GetObjHelper rt f st);
          if obj = nullptr then map_option (\<lambda>st. (obj, st)) (throw_to_handler rt NullPointerException st)
          else Some (obj, st) }"

definition HandleVirtualCall :: "'w exec_env \<Rightarrow> call_kind \<Rightarrow> method_id \<Rightarrow> 'w handler" where
  "HandleVirtualCall env ck method rt f st =
     (if mi_static (rt_method rt method) \<or> mi_constructor (rt_method rt method) then None
      else do {
        (obj, st) \<leftarrow> GetCallerObject (ck_accept_acc ck) rt f st;
        if obj = nullptr then Some st
        else do {
          cls \<leftarrow> ho_class_of (vm_heap (st_vm st)) obj;
          resolved \<leftarrow> rt_ResolveVirtualMethod rt cls method;
          if mi_abstract (rt_method rt resolved) then throw_to_handler rt (AbstractMethodError resolved) st
          else do {
            m \<leftarrow> GetMethod st;
            HandleCall env ck resolved rt f
              (st\<lparr>st_vm := rt_UpdateInlineCaches rt m (GetBytecodeOffset st) cls (st_vm st)\<rparr>) } } })"

subsection \<open>Call handlers\<close>

abbreviation (input) plain_call :: call_kind where
  "plain_call \<equiv> \<lparr>ck_dynamic = False, ck_range = False, ck_accept_acc = False, ck_initobj = False\<rparr>"
abbreviation (input) acc_call :: call_kind where
  "acc_call \<equiv> \<lparr>ck_dynamic = False, ck_range = False, ck_accept_acc = True, ck_initobj = False\<rparr>"
abbreviation (input) range_call :: call_kind where
  "range_call \<equiv> \<lparr>ck_dynamic = False, ck_range = True, ck_accept_acc = False, ck_initobj = False\<rparr>"
abbreviation (input) dyn_range_call :: call_kind where
  "dyn_range_call \<equiv> \<lparr>ck_dynamic = True, ck_range = True, ck_accept_acc = False, ck_initobj = False\<rparr>"

text \<open>The bodies the static and the virtual call handlers share.\<close>

definition static_call :: "'w exec_env \<Rightarrow> call_kind \<Rightarrow> 'w handler" where
  "static_call env ck rt f st =
     do { eid \<leftarrow> inst_Id rt f st;
          (method, st) \<leftarrow> ResolveMethod rt eid st;
          (case method of None \<Rightarrow> MoveToExceptionHandler rt st
           | Some m \<Rightarrow>
               if mi_static (rt_method rt m) then HandleCall env ck m rt f st
               else do { (obj, st) \<leftarrow> GetCallerObject (ck_accept_acc ck) rt f st;
                         if obj = nullptr then Some st else HandleCall env ck m rt f st }) }"

definition virtual_call :: "'w exec_env \<Rightarrow> call_kind \<Rightarrow> 'w handler" where
  "virtual_call env ck rt f st =
     do { eid \<leftarrow> inst_Id rt f st;
          (method, st) \<leftarrow> ResolveMethod rt eid st;
          (case method of None \<Rightarrow> MoveToExceptionHandler rt st
           | Some m \<Rightarrow> HandleVirtualCall env ck m rt f st) }"

definition HandleCallShort :: "'w exec_env \<Rightarrow> 'w handler" where
  "HandleCallShort env = static_call env plain_call"
definition HandleCallAccShort :: "'w exec_env \<Rightarrow> 'w handler" where
  "HandleCallAccShort env = static_call env acc_call"
definition HandleCall_insn :: "'w exec_env \<Rightarrow> 'w handler" where
  "HandleCall_insn env = static_call env plain_call"
definition HandleCallAcc :: "'w exec_env \<Rightarrow> 'w handler" where
  "HandleCallAcc env = static_call env acc_call"
definition HandleCallRange :: "'w exec_env \<Rightarrow> 'w handler" where
  "HandleCallRange env = static_call env range_call"
definition HandleCallVirtShort :: "'w exec_env \<Rightarrow> 'w handler" where
  "HandleCallVirtShort env = virtual_call env plain_call"
definition HandleCallVirtAccShort :: "'w exec_env \<Rightarrow> 'w handler" where
  "HandleCallVirtAccShort env = virtual_call env acc_call"
definition HandleCallVirt :: "'w exec_env \<Rightarrow> 'w handler" where
  "HandleCallVirt env = virtual_call env plain_call"
definition HandleCallVirtAcc :: "'w exec_env \<Rightarrow> 'w handler" where
  "HandleCallVirtAcc env = virtual_call env acc_call"
definition HandleCallVirtRange :: "'w exec_env \<Rightarrow> 'w handler" where
  "HandleCallVirtRange env = virtual_call env range_call"

definition HandleCalliDynRange :: "'w exec_env \<Rightarrow> 'w handler" where
  "HandleCalliDynRange env rt f st =
     do { r \<leftarrow> arg_reg rt f 0 st;
          if \<not> HasObject r then throw_to_handler rt TypedErrorDyn st
          else let obj = v_value r in
            if \<not> rt_IsCallableObject rt obj (st_vm st) then throw_to_handler rt TypedErrorDyn st
            else HandleCall env dyn_range_call (rt_GetCallTarget rt obj (st_vm st)) rt f st }"

subsection \<open>Object initialisation\<close>

definition DimIterator_Get :: "'w rt \<Rightarrow> Format \<Rightarrow> 'w istate \<Rightarrow> nat \<Rightarrow> u32 option" where
  "DimIterator_Get rt f st param_idx =
     do { vreg_idx \<leftarrow> (if f = F_V4_V4_ID16 then if param_idx < 2 then inst_VReg rt f param_idx st else None
                      else if f = F_V4_V4_V4_V4_ID16 then if param_idx < 4 then inst_VReg rt f param_idx st else None
                      else if f = F_V8_ID16 then map_option (\<lambda>v. v + param_idx) (inst_VReg rt f 0 st)
                      else None);
          r \<leftarrow> read_vreg vreg_idx st; GetAs r }"

definition InitializeObject_method :: "'w exec_env \<Rightarrow> class_id \<Rightarrow> method_id option \<Rightarrow> 'w handler" where
  "InitializeObject_method env klass method rt f st =
     (case method of None \<Rightarrow> MoveToExceptionHandler rt st
      | Some m \<Rightarrow>
          if mi_abstract (rt_method rt m) then throw_to_handler rt (AbstractMethodError m) st
          else case rt_CreateObject rt klass (st_vm st) of (obj, vm) \<Rightarrow>
            let st = st\<lparr>st_vm := vm\<rparr> in
            if obj = nullptr then MoveToExceptionHandler rt st
            else do { st \<leftarrow> SetAcc_frame (set_acc (SetReference obj (st_acc st)) st);
                      HandleCall env \<lparr>ck_dynamic = False, ck_range = (f = F_V8_ID16), ck_accept_acc = False, ck_initobj = True\<rparr>
                        m rt f st })"

definition InitializeObject :: "'w exec_env \<Rightarrow> u32 \<Rightarrow> 'w handler" where
  "InitializeObject env eid rt f st =
     do { c \<leftarrow> get_cached rt st;
          m \<leftarrow> GetMethod st;
          method \<leftarrow> (case c of Some it \<Rightarrow> map_option Some (as_method it) | None \<Rightarrow> Some None);
          let (klass, st) = (case method of
             Some cm \<Rightarrow> (Some (mi_class (rt_method rt cm)), st)
           | None \<Rightarrow> (case rt_GetMethodClass rt m eid (st_vm st) of (k, vm) \<Rightarrow>
                        (k, set_acc (SetPrimitive True (0 :: u32) (st_acc st)) (st\<lparr>st_vm := vm\<rparr>))));
          (case klass of None \<Rightarrow> MoveToExceptionHandler rt st
           | Some k \<Rightarrow>
               if rt_IsArrayClass rt k
               then do { (obj, vm) \<leftarrow> rt_CreateMultiDimensionalArray rt k (rt_GetMethodArgumentsCount rt m eid)
                                       (DimIterator_Get rt f st) (st_vm st);
                         let st = st\<lparr>st_vm := vm\<rparr>;
                         if obj \<noteq> nullptr then Some (MoveToNextInst f False (set_acc (SetReference obj (st_acc st)) st))
                         else MoveToExceptionHandler rt st }
               else do { (method, st) \<leftarrow> (case method of None \<Rightarrow> ResolveMethod rt eid st | Some cm \<Rightarrow> Some (Some cm, st));
                         st \<leftarrow> UpdateBytecodeOffset st;
                         InitializeObject_method env k method rt f st }) }"

definition HandleInitobj :: "'w exec_env \<Rightarrow> 'w handler" where
  "HandleInitobj env rt f st = do { eid \<leftarrow> inst_Id rt f st; InitializeObject env eid rt f st }"
definition HandleInitobjShort :: "'w exec_env \<Rightarrow> 'w handler" where
  "HandleInitobjShort env rt f st = do { eid \<leftarrow> inst_Id rt f st; InitializeObject env eid rt f st }"
definition HandleInitobjRange :: "'w exec_env \<Rightarrow> 'w handler" where
  "HandleInitobjRange env rt f st = do { eid \<leftarrow> inst_Id rt f st; InitializeObject env eid rt f st }"

subsection \<open>Returns and exceptions\<close>

definition upd_frame :: "(frame \<Rightarrow> frame) \<Rightarrow> 'w istate \<Rightarrow> 'w istate option" where
  "upd_frame g st = do { fr \<leftarrow> GetFrame st; Some (put_frame (g fr) st) }"

definition HandleReturn :: "'w handler" where
  "HandleReturn rt f st = do { v \<leftarrow> Get32 (st_acc st); upd_frame (\<lambda>fr. fr\<lparr>f_acc := SetPrimitive True v (f_acc fr)\<rparr>) st }"
definition HandleReturnWide :: "'w handler" where
  "HandleReturnWide rt f st = do { v \<leftarrow> GetLong (st_acc st); upd_frame (\<lambda>fr. fr\<lparr>f_acc := SetPrimitive True v (f_acc fr)\<rparr>) st }"
definition HandleReturnObj :: "'w handler" where
  "HandleReturnObj rt f st = do { v \<leftarrow> GetReference (st_acc st); upd_frame (\<lambda>fr. fr\<lparr>f_acc := SetReference v (f_acc fr)\<rparr>) st }"
definition HandleReturnVoid :: "'w handler" where
  "HandleReturnVoid rt f st = Some st"
definition HandleReturnDyn :: "'w handler" where
  "HandleReturnDyn rt f st = SetAcc_frame st"

definition ip_plus :: "ip \<Rightarrow> u32 \<Rightarrow> ip" where
  "ip_plus p off = (fst p, snd p + uint off)"

text \<open>Leave the current frame: its caller becomes current, with the state at the instruction of the call.\<close>

definition pop_frame :: "'w istate \<Rightarrow> (frame \<times> frame \<times> 'w istate) option" where
  "pop_frame st =
     (case vm_frames (st_vm st) of
        fr # prev # rest \<Rightarrow>
          do { st \<leftarrow> UpdateInstructionHandlerState (ip_plus (f_inst prev) (f_bc_offset prev))
                      (st\<lparr>st_vm := (st_vm st)\<lparr>vm_frames := prev # rest\<rparr>\<rparr>);
               Some (fr, prev, st) }
      | _ \<Rightarrow> None)"

definition HandleReturnStackless :: "'w rt \<Rightarrow> 'w istate \<Rightarrow> 'w istate option" where
  "HandleReturnStackless rt st =
     do { fr \<leftarrow> GetFrame st;
          if \<not> IsStackless fr then None
          else do {
            (fr, prev, st) \<leftarrow> pop_frame (st\<lparr>st_vm := rt_MethodExitEvent rt (f_method fr) (st_vm st)\<rparr>);
            st \<leftarrow> (if HasPendingException (st_vm st) then MoveToExceptionHandler rt st
                  else Some (st\<lparr>st_acc := f_acc fr, st_inst := f_next_inst prev\<rparr>));
            Some (if IsInitobj fr then st\<lparr>st_acc := f_acc prev\<rparr> else st) } }"

definition HandleThrow :: "'w handler" where
  "HandleThrow rt f st =
     do { r \<leftarrow> arg_reg rt f 0 st; exception \<leftarrow> GetReference r;
          if exception = nullptr then throw_to_handler rt NullPointerException st
          else MoveToExceptionHandler rt (st\<lparr>st_vm := (st_vm st)\<lparr>vm_exception := exception\<rparr>\<rparr>) }"

definition INVALID_OFFSET :: u32 where "INVALID_OFFSET = - 1"

text \<open>Every iteration but the last pops a frame: the number of frames bounds the iterations, and is the fuel.\<close>

fun FindCatchBlockStackless :: "nat \<Rightarrow> bool \<Rightarrow> 'w rt \<Rightarrow> 'w istate \<Rightarrow> (u32 \<times> 'w istate) option" where
  "FindCatchBlockStackless 0 instr rt st = None"
| "FindCatchBlockStackless (Suc n) instr rt st =
     do { st \<leftarrow> InstrumentInstruction instr rt st;
          method \<leftarrow> GetMethod st;
          if \<not> HasPendingException (st_vm st) then None
          else do {
            let pc = ucast (inst_address rt st - rt_address rt (Code method));
            let (pc_offset, vm) = rt_FindCatchBlock rt method (vm_exception (st_vm st)) pc (st_vm st);
            let st = st\<lparr>st_vm := vm\<rparr>;
            if pc_offset \<noteq> INVALID_OFFSET then Some (pc_offset, st)
            else (case vm_frames vm of
                [] \<Rightarrow> None
              | [fr] \<Rightarrow> Some (pc_offset, st)
              | fr # prev # rest \<Rightarrow>
                  if \<not> IsStackless fr \<or> rt_IsBoundaryFrame rt prev then Some (pc_offset, st)
                  else do {
                    (fr, prev, st) \<leftarrow> pop_frame (st\<lparr>st_vm := rt_MethodExitEvent rt method vm\<rparr>);
                    if \<not> HasPendingException (st_vm st) then None
                    else FindCatchBlockStackless n instr rt (if IsInitobj fr then st\<lparr>st_acc := f_acc prev\<rparr> else st) }) } }"

end
