(* ===== verification/InterpreterLoop.thy ===== *)
theory InterpreterLoop
  imports InterpreterCalls
begin

text \<open>
  The interpreter loop, \<open>ExecuteImpl\<close> of \<open>runtime/interpreter/templates/interpreter-inl_gen.h.erb\<close>: one label per instruction
  of \<open>isa/isa.yaml\<close>, reached through the dispatch table of 329 entries. Entries 0 to 169 are the instructions, 236 to 239
  the prefixes, 256 to 327 the prefixed instructions in the order of the prefixes, and 328 is the exception handler; the
  others are invalid. A handler that may throw is followed by a dispatch on \<open>GetExceptionOpcode\<close>, any other by one on
  \<open>GetPrimaryOpcode\<close>.
\<close>

datatype dispatch_kind = DReturn | DException | DPrimary

type_synonym 'w insn_entry = "Format \<times> dispatch_kind \<times> ('w exec_env \<Rightarrow> 'w handler)"

text \<open>\<open>calli.dyn.short\<close> and \<open>calli.dyn\<close> are unimplemented: their handlers are fatal.\<close>

definition primary_table :: "'w insn_entry list" where
  "primary_table = [
     (F_NONE, DPrimary, (\<lambda>_. HandleNop)),
     (F_V4_V4, DPrimary, (\<lambda>_. HandleMov)),
     (F_V8_V8, DPrimary, (\<lambda>_. HandleMov)),
     (F_V16_V16, DPrimary, (\<lambda>_. HandleMov)),
     (F_V4_V4, DPrimary, (\<lambda>_. HandleMovWide)),
     (F_V16_V16, DPrimary, (\<lambda>_. HandleMovWide)),
     (F_V4_V4, DPrimary, (\<lambda>_. HandleMovObj)),
     (F_V8_V8, DPrimary, (\<lambda>_. HandleMovObj)),
     (F_V16_V16, DPrimary, (\<lambda>_. HandleMovObj)),
     (F_V4_IMM4, DPrimary, (\<lambda>_. HandleMovi)),
     (F_V8_IMM8, DPrimary, (\<lambda>_. HandleMovi)),
     (F_V8_IMM16, DPrimary, (\<lambda>_. HandleMovi)),
     (F_V8_IMM32, DPrimary, (\<lambda>_. HandleMovi)),
     (F_V8_IMM64, DPrimary, (\<lambda>_. HandleMoviWide)),
     (F_V8_IMM64, DPrimary, (\<lambda>_. HandleFmoviWide)),
     (F_V8, DPrimary, (\<lambda>_. HandleMovNull)),
     (F_V8, DException, (\<lambda>_. HandleLda)),
     (F_V8, DException, (\<lambda>_. HandleLdaWide)),
     (F_V8, DException, (\<lambda>_. HandleLdaObj)),
     (F_IMM8, DPrimary, (\<lambda>_. HandleLdai)),
     (F_IMM16, DPrimary, (\<lambda>_. HandleLdai)),
     (F_IMM32, DPrimary, (\<lambda>_. HandleLdai)),
     (F_IMM64, DPrimary, (\<lambda>_. HandleLdaiWide)),
     (F_IMM64, DPrimary, (\<lambda>_. HandleFldaiWide)),
     (F_ID32, DException, (\<lambda>_. HandleLdaStr)),
     (F_V8_ID32, DException, (\<lambda>_. HandleLdaConst)),
     (F_ID16, DException, (\<lambda>_. HandleLdaType)),
     (F_NONE, DException, (\<lambda>_. HandleLdaNull)),
     (F_V8, DPrimary, (\<lambda>_. HandleSta)),
     (F_V8, DPrimary, (\<lambda>_. HandleStaWide)),
     (F_V8, DPrimary, (\<lambda>_. HandleStaObj)),
     (F_V8, DPrimary, (\<lambda>_. HandleCmpWide)),
     (F_V8, DPrimary, (\<lambda>_. HandleFcmplWide)),
     (F_V8, DPrimary, (\<lambda>_. HandleFcmpgWide)),
     (F_IMM8, DPrimary, (\<lambda>_. HandleJmp)),
     (F_IMM16, DPrimary, (\<lambda>_. HandleJmp)),
     (F_IMM32, DPrimary, (\<lambda>_. HandleJmp)),
     (F_V8_IMM8, DPrimary, (\<lambda>_. HandleJeqObj)),
     (F_V8_IMM16, DPrimary, (\<lambda>_. HandleJeqObj)),
     (F_V8_IMM8, DPrimary, (\<lambda>_. HandleJneObj)),
     (F_V8_IMM16, DPrimary, (\<lambda>_. HandleJneObj)),
     (F_IMM8, DPrimary, (\<lambda>_. HandleJeqzObj)),
     (F_IMM16, DPrimary, (\<lambda>_. HandleJeqzObj)),
     (F_IMM8, DPrimary, (\<lambda>_. HandleJnezObj)),
     (F_IMM16, DPrimary, (\<lambda>_. HandleJnezObj)),
     (F_IMM8, DPrimary, (\<lambda>_. HandleJeqz)),
     (F_IMM16, DPrimary, (\<lambda>_. HandleJeqz)),
     (F_IMM8, DPrimary, (\<lambda>_. HandleJnez)),
     (F_IMM16, DPrimary, (\<lambda>_. HandleJnez)),
     (F_IMM8, DPrimary, (\<lambda>_. HandleJltz)),
     (F_IMM16, DPrimary, (\<lambda>_. HandleJltz)),
     (F_IMM8, DPrimary, (\<lambda>_. HandleJgtz)),
     (F_IMM16, DPrimary, (\<lambda>_. HandleJgtz)),
     (F_IMM8, DPrimary, (\<lambda>_. HandleJlez)),
     (F_IMM16, DPrimary, (\<lambda>_. HandleJlez)),
     (F_IMM8, DPrimary, (\<lambda>_. HandleJgez)),
     (F_IMM16, DPrimary, (\<lambda>_. HandleJgez)),
     (F_V8_IMM8, DPrimary, (\<lambda>_. HandleJeq)),
     (F_V8_IMM16, DPrimary, (\<lambda>_. HandleJeq)),
     (F_V8_IMM8, DPrimary, (\<lambda>_. HandleJne)),
     (F_V8_IMM16, DPrimary, (\<lambda>_. HandleJne)),
     (F_V8_IMM8, DPrimary, (\<lambda>_. HandleJlt)),
     (F_V8_IMM16, DPrimary, (\<lambda>_. HandleJlt)),
     (F_V8_IMM8, DPrimary, (\<lambda>_. HandleJgt)),
     (F_V8_IMM16, DPrimary, (\<lambda>_. HandleJgt)),
     (F_V8_IMM8, DPrimary, (\<lambda>_. HandleJle)),
     (F_V8_IMM16, DPrimary, (\<lambda>_. HandleJle)),
     (F_V8_IMM8, DPrimary, (\<lambda>_. HandleJge)),
     (F_V8_IMM16, DPrimary, (\<lambda>_. HandleJge)),
     (F_NONE, DPrimary, (\<lambda>_. HandleFnegWide)),
     (F_NONE, DPrimary, (\<lambda>_. HandleNeg)),
     (F_NONE, DPrimary, (\<lambda>_. HandleNegWide)),
     (F_V8, DPrimary, (\<lambda>_. HandleAdd2)),
     (F_V8, DPrimary, (\<lambda>_. HandleAdd2Wide)),
     (F_V8, DPrimary, (\<lambda>_. HandleSub2)),
     (F_V8, DPrimary, (\<lambda>_. HandleSub2Wide)),
     (F_V8, DPrimary, (\<lambda>_. HandleMul2)),
     (F_V8, DPrimary, (\<lambda>_. HandleMul2Wide)),
     (F_V8, DPrimary, (\<lambda>_. HandleFadd2Wide)),
     (F_V8, DPrimary, (\<lambda>_. HandleFsub2Wide)),
     (F_V8, DPrimary, (\<lambda>_. HandleFmul2Wide)),
     (F_V8, DPrimary, (\<lambda>_. HandleFdiv2Wide)),
     (F_V8, DPrimary, (\<lambda>_. HandleFmod2Wide)),
     (F_V8, DException, (\<lambda>_. HandleDiv2)),
     (F_V8, DException, (\<lambda>_. HandleDiv2Wide)),
     (F_V8, DException, (\<lambda>_. HandleMod2)),
     (F_V8, DException, (\<lambda>_. HandleMod2Wide)),
     (F_IMM8, DPrimary, (\<lambda>_. HandleAddi)),
     (F_IMM8, DPrimary, (\<lambda>_. HandleSubi)),
     (F_IMM8, DPrimary, (\<lambda>_. HandleMuli)),
     (F_IMM32, DPrimary, (\<lambda>_. HandleAndi)),
     (F_IMM32, DPrimary, (\<lambda>_. HandleOri)),
     (F_IMM8, DPrimary, (\<lambda>_. HandleShli)),
     (F_IMM8, DPrimary, (\<lambda>_. HandleShri)),
     (F_IMM8, DPrimary, (\<lambda>_. HandleAshri)),
     (F_IMM8, DException, (\<lambda>_. HandleDivi)),
     (F_IMM8, DException, (\<lambda>_. HandleModi)),
     (F_V4_V4, DPrimary, (\<lambda>_. HandleAdd)),
     (F_V4_V4, DPrimary, (\<lambda>_. HandleSub)),
     (F_V4_V4, DPrimary, (\<lambda>_. HandleMul)),
     (F_V4_V4, DException, (\<lambda>_. HandleDiv)),
     (F_V4_V4, DException, (\<lambda>_. HandleMod)),
     (F_V4_IMM4, DPrimary, (\<lambda>_. HandleInci)),
     (F_V8, DException, (\<lambda>_. HandleLdarr8)),
     (F_V8, DException, (\<lambda>_. HandleLdarru8)),
     (F_V8, DException, (\<lambda>_. HandleLdarr16)),
     (F_V8, DException, (\<lambda>_. HandleLdarru16)),
     (F_V8, DException, (\<lambda>_. HandleLdarr)),
     (F_V8, DException, (\<lambda>_. HandleLdarrWide)),
     (F_V8, DException, (\<lambda>_. HandleFldarr32)),
     (F_V8, DException, (\<lambda>_. HandleFldarrWide)),
     (F_V8, DException, (\<lambda>_. HandleLdarrObj)),
     (F_V4_V4, DException, (\<lambda>_. HandleStarr8)),
     (F_V4_V4, DException, (\<lambda>_. HandleStarr16)),
     (F_V4_V4, DException, (\<lambda>_. HandleStarr)),
     (F_V4_V4, DException, (\<lambda>_. HandleStarrWide)),
     (F_V4_V4, DException, (\<lambda>_. HandleFstarr32)),
     (F_V4_V4, DException, (\<lambda>_. HandleFstarrWide)),
     (F_V4_V4, DException, (\<lambda>_. HandleStarrObj)),
     (F_V8, DException, (\<lambda>_. HandleLenarr)),
     (F_V4_V4_ID16, DException, (\<lambda>_. HandleNewarr)),
     (F_V8_ID16, DException, (\<lambda>_. HandleNewobj)),
     (F_V4_V4_ID16, DException, HandleInitobjShort),
     (F_V4_V4_V4_V4_ID16, DException, HandleInitobj),
     (F_V8_ID16, DException, HandleInitobjRange),
     (F_V8_ID16, DException, (\<lambda>_. HandleLdobj)),
     (F_V8_ID16, DException, (\<lambda>_. HandleLdobjWide)),
     (F_V8_ID16, DException, (\<lambda>_. HandleLdobjObj)),
     (F_V8_ID16, DException, (\<lambda>_. HandleStobj)),
     (F_V8_ID16, DException, (\<lambda>_. HandleStobjWide)),
     (F_V8_ID16, DException, (\<lambda>_. HandleStobjObj)),
     (F_V4_V4_ID16, DException, (\<lambda>_. HandleLdobjV)),
     (F_V4_V4_ID16, DException, (\<lambda>_. HandleLdobjVWide)),
     (F_V4_V4_ID16, DException, (\<lambda>_. HandleLdobjVObj)),
     (F_V4_V4_ID16, DException, (\<lambda>_. HandleStobjV)),
     (F_V4_V4_ID16, DException, (\<lambda>_. HandleStobjVWide)),
     (F_V4_V4_ID16, DException, (\<lambda>_. HandleStobjVObj)),
     (F_ID16, DException, (\<lambda>_. HandleLdstatic)),
     (F_ID16, DException, (\<lambda>_. HandleLdstaticWide)),
     (F_ID16, DException, (\<lambda>_. HandleLdstaticObj)),
     (F_ID16, DException, (\<lambda>_. HandleStstatic)),
     (F_ID16, DException, (\<lambda>_. HandleStstaticWide)),
     (F_ID16, DException, (\<lambda>_. HandleStstaticObj)),
     (F_NONE, DReturn, (\<lambda>_. HandleReturn)),
     (F_NONE, DReturn, (\<lambda>_. HandleReturnWide)),
     (F_NONE, DReturn, (\<lambda>_. HandleReturnObj)),
     (F_NONE, DReturn, (\<lambda>_. HandleReturnVoid)),
     (F_V8, DException, (\<lambda>_. HandleThrow)),
     (F_ID16, DException, (\<lambda>_. HandleCheckcast)),
     (F_ID16, DException, (\<lambda>_. HandleIsinstance)),
     (F_V4_V4_ID16, DException, HandleCallShort),
     (F_V4_V4_V4_V4_ID16, DException, HandleCall_insn),
     (F_V8_ID16, DException, HandleCallRange),
     (F_V4_IMM4_ID16, DException, HandleCallAccShort),
     (F_V4_V4_V4_IMM4_ID16, DException, HandleCallAcc),
     (F_V4_V4_ID16, DException, HandleCallVirtShort),
     (F_V4_V4_V4_V4_ID16, DException, HandleCallVirt),
     (F_V8_ID16, DException, HandleCallVirtRange),
     (F_V4_IMM4_ID16, DException, HandleCallVirtAccShort),
     (F_V4_V4_V4_IMM4_ID16, DException, HandleCallVirtAcc),
     (F_V8_V8, DPrimary, (\<lambda>_. HandleMovDyn)),
     (F_V16_V16, DPrimary, (\<lambda>_. HandleMovDyn)),
     (F_V8, DException, (\<lambda>_. HandleLdaDyn)),
     (F_V8, DPrimary, (\<lambda>_. HandleStaDyn)),
     (F_IMM32, DPrimary, (\<lambda>_. HandleLdaiDyn)),
     (F_IMM64, DPrimary, (\<lambda>_. HandleFldaiDyn)),
     (F_NONE, DReturn, (\<lambda>_. HandleReturnDyn)),
     (F_IMM4_V4_V4_V4, DException, (\<lambda>_ _ _ _. None)),
     (F_IMM4_V4_V4_V4_V4_V4, DException, (\<lambda>_ _ _ _. None)),
     (F_IMM16_V16, DException, HandleCalliDynRange)]"

definition prefixed_table :: "'w insn_entry list" where
  "prefixed_table = [
     (F_PREF_V8_IMM32, DPrimary, (\<lambda>_. HandleFmovi)),
     (F_PREF_IMM32, DPrimary, (\<lambda>_. HandleFldai)),
     (F_PREF_V8, DPrimary, (\<lambda>_. HandleFcmpl)),
     (F_PREF_V8, DPrimary, (\<lambda>_. HandleFcmpg)),
     (F_PREF_NONE, DPrimary, (\<lambda>_. HandleFneg)),
     (F_PREF_V8, DPrimary, (\<lambda>_. HandleFadd2)),
     (F_PREF_V8, DPrimary, (\<lambda>_. HandleFsub2)),
     (F_PREF_V8, DPrimary, (\<lambda>_. HandleFmul2)),
     (F_PREF_V8, DPrimary, (\<lambda>_. HandleFdiv2)),
     (F_PREF_V8, DPrimary, (\<lambda>_. HandleFmod2)),
     (F_PREF_NONE, DPrimary, (\<lambda>_. HandleI32tof32)),
     (F_PREF_NONE, DPrimary, (\<lambda>_. HandleU32tof32)),
     (F_PREF_NONE, DPrimary, (\<lambda>_. HandleI64tof32)),
     (F_PREF_NONE, DPrimary, (\<lambda>_. HandleU64tof32)),
     (F_PREF_NONE, DPrimary, (\<lambda>_. HandleF32tof64)),
     (F_PREF_NONE, DPrimary, (\<lambda>_. HandleF32toi32)),
     (F_PREF_NONE, DPrimary, (\<lambda>_. HandleF32toi64)),
     (F_PREF_NONE, DPrimary, (\<lambda>_. HandleF32tou32)),
     (F_PREF_NONE, DPrimary, (\<lambda>_. HandleF32tou64)),
     (F_PREF_NONE, DPrimary, (\<lambda>_. HandleF64tof32)),
     (F_PREF_NONE, DPrimary, (\<lambda>_. HandleI32tof64)),
     (F_PREF_NONE, DPrimary, (\<lambda>_. HandleU32tof64)),
     (F_PREF_NONE, DPrimary, (\<lambda>_. HandleI64tof64)),
     (F_PREF_NONE, DPrimary, (\<lambda>_. HandleU64tof64)),
     (F_PREF_NONE, DPrimary, (\<lambda>_. HandleF64toi32)),
     (F_PREF_NONE, DPrimary, (\<lambda>_. HandleF64toi64)),
     (F_PREF_NONE, DPrimary, (\<lambda>_. HandleF64tou32)),
     (F_PREF_NONE, DPrimary, (\<lambda>_. HandleF64tou64)),
     (F_PREF_NONE, DPrimary, (\<lambda>_. HandleI32tou1)),
     (F_PREF_NONE, DPrimary, (\<lambda>_. HandleI64tou1)),
     (F_PREF_NONE, DPrimary, (\<lambda>_. HandleU32tou1)),
     (F_PREF_NONE, DPrimary, (\<lambda>_. HandleU64tou1)),
     (F_PREF_NONE, DPrimary, (\<lambda>_. HandleI32toi64)),
     (F_PREF_NONE, DPrimary, (\<lambda>_. HandleI32toi16)),
     (F_PREF_NONE, DPrimary, (\<lambda>_. HandleI32tou16)),
     (F_PREF_NONE, DPrimary, (\<lambda>_. HandleI32toi8)),
     (F_PREF_NONE, DPrimary, (\<lambda>_. HandleI32tou8)),
     (F_PREF_NONE, DPrimary, (\<lambda>_. HandleI64toi32)),
     (F_PREF_NONE, DPrimary, (\<lambda>_. HandleU32toi64)),
     (F_PREF_NONE, DPrimary, (\<lambda>_. HandleU32toi16)),
     (F_PREF_NONE, DPrimary, (\<lambda>_. HandleU32tou16)),
     (F_PREF_NONE, DPrimary, (\<lambda>_. HandleU32toi8)),
     (F_PREF_NONE, DPrimary, (\<lambda>_. HandleU32tou8)),
     (F_PREF_NONE, DPrimary, (\<lambda>_. HandleU64toi32)),
     (F_PREF_NONE, DPrimary, (\<lambda>_. HandleU64tou32)),
     (F_PREF_V8, DPrimary, (\<lambda>_. HandleUcmp)),
     (F_PREF_V8, DPrimary, (\<lambda>_. HandleUcmpWide)),
     (F_PREF_V8, DException, (\<lambda>_. HandleDivu2)),
     (F_PREF_V8, DException, (\<lambda>_. HandleDivu2Wide)),
     (F_PREF_V8, DException, (\<lambda>_. HandleModu2)),
     (F_PREF_V8, DException, (\<lambda>_. HandleModu2Wide)),
     (F_PREF_NONE, DPrimary, (\<lambda>_. HandleNot)),
     (F_PREF_NONE, DPrimary, (\<lambda>_. HandleNotWide)),
     (F_PREF_V8, DPrimary, (\<lambda>_. HandleAnd2)),
     (F_PREF_V8, DPrimary, (\<lambda>_. HandleAnd2Wide)),
     (F_PREF_V8, DPrimary, (\<lambda>_. HandleOr2)),
     (F_PREF_V8, DPrimary, (\<lambda>_. HandleOr2Wide)),
     (F_PREF_V8, DPrimary, (\<lambda>_. HandleXor2)),
     (F_PREF_V8, DPrimary, (\<lambda>_. HandleXor2Wide)),
     (F_PREF_V8, DPrimary, (\<lambda>_. HandleShl2)),
     (F_PREF_V8, DPrimary, (\<lambda>_. HandleShl2Wide)),
     (F_PREF_V8, DPrimary, (\<lambda>_. HandleShr2)),
     (F_PREF_V8, DPrimary, (\<lambda>_. HandleShr2Wide)),
     (F_PREF_V8, DPrimary, (\<lambda>_. HandleAshr2)),
     (F_PREF_V8, DPrimary, (\<lambda>_. HandleAshr2Wide)),
     (F_PREF_IMM32, DPrimary, (\<lambda>_. HandleXori)),
     (F_PREF_V4_V4, DPrimary, (\<lambda>_. HandleAnd)),
     (F_PREF_V4_V4, DPrimary, (\<lambda>_. HandleOr)),
     (F_PREF_V4_V4, DPrimary, (\<lambda>_. HandleXor)),
     (F_PREF_V4_V4, DPrimary, (\<lambda>_. HandleShl)),
     (F_PREF_V4_V4, DPrimary, (\<lambda>_. HandleShr)),
     (F_PREF_V4_V4, DPrimary, (\<lambda>_. HandleAshr))]"

definition insn_at :: "nat \<Rightarrow> 'w insn_entry option" where
  "insn_at idx =
     (if idx < 170 then Some (primary_table ! idx)
      else if 256 \<le> idx \<and> idx < 328 then Some (prefixed_table ! (idx - 256))
      else None)"

text \<open>The prefixes: the first entry of their instructions and the number of these.\<close>

definition prefix_at :: "nat \<Rightarrow> (nat \<times> nat) option" where
  "prefix_at idx =
     (if idx = 0xEC then Some (256, 20) else if idx = 0xED then Some (276, 25)
      else if idx = 0xEE then Some (301, 6) else if idx = 0xEF then Some (307, 21) else None)"

definition IsPrimaryOpcodeValid :: "'w rt \<Rightarrow> 'w istate \<Rightarrow> bool" where
  "IsPrimaryOpcodeValid rt st \<longleftrightarrow>
     (case GetPrimaryOpcode rt st of None \<Rightarrow> False | Some opcode \<Rightarrow> \<not> (0xAA \<le> opcode \<and> opcode \<le> 0xEB) \<and> \<not> 0xF0 \<le> opcode)"

text \<open>Where control is: about to jump through an entry of the table, or back from \<open>ExecuteImpl\<close>.\<close>

datatype 'w outcome = Running nat "'w istate" | Returned "'w vm"

definition dispatch_primary :: "'w rt \<Rightarrow> 'w istate \<Rightarrow> 'w outcome option" where
  "dispatch_primary rt st =
     do { idx \<leftarrow> GetPrimaryOpcode rt st; if IsPrimaryOpcodeValid rt st then Some (Running (unat idx) st) else None }"

definition dispatch_exception :: "'w rt \<Rightarrow> 'w istate \<Rightarrow> 'w outcome option" where
  "dispatch_exception rt st =
     do { idx \<leftarrow> GetExceptionOpcode rt st;
          if IsPrimaryOpcodeValid rt st \<or> idx = EXCEPTION_OPCODE then Some (Running (unat idx) st) else None }"

definition instrument_frame_handler :: "'w rt \<Rightarrow> 'w istate \<Rightarrow> 'w outcome option" where
  "instrument_frame_handler rt st =
     do { fr \<leftarrow> GetFrame st;
          if IsForcePop fr
          then do { st \<leftarrow> InstrumentForceReturn (put_frame (clear_frame_flag FORCE_POP fr) st);
                    if IsStackless fr then do { st \<leftarrow> HandleReturnStackless rt st; dispatch_primary rt st }
                    else Some (Returned (st_vm st)) }
          else let fr = clear_frame_flag RETRY_INSTRUCTION fr in
               do { st \<leftarrow> init_state (st_vm (put_frame fr st)) (ip_plus (Code (f_method fr), 0) (f_bc_offset fr));
                    dispatch_primary rt st } }"

definition exception_handler :: "bool \<Rightarrow> 'w rt \<Rightarrow> 'w istate \<Rightarrow> 'w outcome option" where
  "exception_handler instr rt st =
     (if \<not> HasPendingException (st_vm st) then None
      else do {
        (pc_offset, st) \<leftarrow> FindCatchBlockStackless (length (vm_frames (st_vm st))) instr rt st;
        if pc_offset = INVALID_OFFSET
        then Some (Returned (rt_FindCatchBlockInCallStack rt (vm_exception (st_vm st)) (st_vm st)))
        else do {
          fr \<leftarrow> GetFrame st;
          let exception = vm_exception (st_vm st);
          let st = put_frame (fr\<lparr>f_acc := rt_SetExceptionToVReg rt exception (f_acc fr)\<rparr>) st;
          let vm = (st_vm st)\<lparr>vm_exception := nullptr\<rparr>;
          let vm = (if instr then rt_ExceptionCatchEvent rt (f_method fr) pc_offset vm else vm);
          st \<leftarrow> init_state vm (ip_plus (Code (f_method fr), 0) pc_offset);
          dispatch_primary rt st } })"

text \<open>What the code at entry \<open>idx\<close> of the dispatch table does, up to its next dispatch.\<close>

definition exec_label :: "'w exec_env \<Rightarrow> 'w rt \<Rightarrow> nat \<Rightarrow> 'w istate \<Rightarrow> 'w outcome option" where
  "exec_label env rt idx st =
     (if idx = unat EXCEPTION_OPCODE then exception_handler (ee_instrumentation env) rt st
      else case prefix_at idx of
        Some (offset, number) \<Rightarrow>
          do { secondary_opcode \<leftarrow> GetSecondaryOpcode rt st;
               if unat secondary_opcode < number then Some (Running (offset + unat secondary_opcode) st) else None }
      | None \<Rightarrow>
          (case insn_at idx of None \<Rightarrow> None
           | Some (f, k, h) \<Rightarrow>
               do { fr \<leftarrow> GetFrame st;
                    if ee_instrumentation env \<and> (IsForcePop fr \<or> IsRetryInstruction fr) then instrument_frame_handler rt st
                    else do {
                      st \<leftarrow> InstrumentInstruction (ee_instrumentation env) rt st;
                      st \<leftarrow> h env rt f st;
                      st \<leftarrow> (if ee_instrumentation env then SetAcc_frame st else Some st);
                      (case k of
                         DReturn \<Rightarrow> do { fr \<leftarrow> GetFrame st;
                                         if IsStackless fr
                                         then do { st \<leftarrow> HandleReturnStackless rt st; dispatch_exception rt st }
                                         else Some (Returned (st_vm st)) }
                       | DException \<Rightarrow> dispatch_exception rt st
                       | DPrimary \<Rightarrow> dispatch_primary rt st) } }))"

text \<open>The loop, with the number of labels it may visit; a nested interpreter shares the bound.\<close>

fun ExecuteImpl_loop :: "nat \<Rightarrow> bool \<Rightarrow> 'w rt \<Rightarrow> nat \<Rightarrow> 'w istate \<Rightarrow> 'w vm option" where
  "ExecuteImpl_loop 0 instr rt idx st = None"
| "ExecuteImpl_loop (Suc n) instr rt idx st =
     do { out \<leftarrow> exec_label \<lparr>ee_instrumentation = instr,
                   ee_execute = (\<lambda>instr pc vm. do { st \<leftarrow> init_state vm pc; idx \<leftarrow> GetPrimaryOpcode rt st;
                                                   ExecuteImpl_loop n instr rt (unat idx) st })\<rparr> rt idx st;
          (case out of Returned vm \<Rightarrow> Some vm | Running idx st \<Rightarrow> ExecuteImpl_loop n instr rt idx st) }"

definition ExecuteImpl :: "nat \<Rightarrow> bool \<Rightarrow> bool \<Rightarrow> 'w rt \<Rightarrow> ip \<Rightarrow> 'w vm \<Rightarrow> 'w vm option" where
  "ExecuteImpl n instr jump_to_eh rt pc vm =
     do { st \<leftarrow> init_state vm pc;
          if jump_to_eh then ExecuteImpl_loop n instr rt (unat EXCEPTION_OPCODE) st
          else do { idx \<leftarrow> GetPrimaryOpcode rt st;
                    if IsPrimaryOpcodeValid rt st then ExecuteImpl_loop n instr rt (unat idx) st else None } }"


end
