(* ===== verification/CallProperties.thy ===== *)
theory CallProperties
  imports InterpreterCalls
begin

text \<open>
  Calls, returns and unwinding of \<open>InterpreterCalls\<close>: where the arguments of a call end up, that a return resumes the caller
  behind the call, that unwinding stops at the innermost handler, and two ways in which the code loses an exception.
  \<open>quiet_rt\<close> is what the interpreter relies on of the runtime: notifications, verification and the frame allocator leave
  the thread's frames and its pending exception alone.
\<close>

subsection \<open>Placing the arguments\<close>

definition frame_fill :: "nat \<Rightarrow> vreg list \<Rightarrow> frame \<Rightarrow> frame" where
  "frame_fill b xs fr = fr\<lparr>f_vregs := take b (f_vregs fr) @ xs @ drop (b + length xs) (f_vregs fr)\<rparr>"

lemma frame_fill_Nil [simp]: "frame_fill b [] fr = fr"
  by (simp add: frame_fill_def)

lemma frame_fill_sel [simp]:
  "f_method (frame_fill b xs fr) = f_method fr" "f_nregs (frame_fill b xs fr) = f_nregs fr"
  "f_acc (frame_fill b xs fr) = f_acc fr" "f_flags (frame_fill b xs fr) = f_flags fr"
  "f_num_actual_args (frame_fill b xs fr) = f_num_actual_args fr"
  by (simp_all add: frame_fill_def)

lemma frame_fill_length: "b + length xs \<le> length (f_vregs fr) \<Longrightarrow> length (f_vregs (frame_fill b xs fr)) = length (f_vregs fr)"
  by (simp add: frame_fill_def)

lemma frame_fill_nth:
  assumes "b + length xs \<le> length (f_vregs fr)"
  shows "i < length xs \<Longrightarrow> f_vregs (frame_fill b xs fr) ! (b + i) = xs ! i"
    and "i < b \<Longrightarrow> f_vregs (frame_fill b xs fr) ! i = f_vregs fr ! i"
  using assms by (simp_all add: frame_fill_def nth_append)

lemma SetVReg_fill:
  assumes "b + length xs < length (f_vregs fr)"
  shows "frame_SetVReg (b + length xs) r (frame_fill b xs fr) = Some (frame_fill b (xs @ [r]) fr)"
proof -
  have "(take b (f_vregs fr) @ xs @ drop (b + length xs) (f_vregs fr))[b + length xs := r] =
      take b (f_vregs fr) @ (xs @ [r]) @ drop (b + length (xs @ [r])) (f_vregs fr)"
    using assms by (simp add: list_update_append Cons_nth_drop_Suc [symmetric])
  then show ?thesis using assms by (simp add: frame_SetVReg_def frame_fill_def)
qed

lemma iter_fill:
  assumes "\<And>i. i < n \<Longrightarrow> g i = Some (h i)" "b + length ys + n \<le> length (f_vregs fr)"
  shows "iter_opt (\<lambda>i fr. do { r \<leftarrow> g i; frame_SetVReg (b + length ys + i) r fr }) [0..<n] (frame_fill b ys fr) =
    Some (frame_fill b (ys @ map h [0..<n]) fr)"
  using assms
proof (induction n)
  case (Suc n)
  have app: "iter_opt g' (xs @ zs) s = iter_opt g' xs s \<bind> iter_opt g' zs" for g' :: "nat \<Rightarrow> frame \<Rightarrow> frame option" and xs zs s
    by (induction xs arbitrary: s) (auto split: bind_splits)
  have "b + length (ys @ map h [0..<n]) < length (f_vregs fr)" using Suc.prems(2) by simp
  from SetVReg_fill [OF this] Suc show ?case
    by (simp add: app add.assoc)
qed simp

lemma SetVReg_fill_steps:
  "b < length (f_vregs fr) \<Longrightarrow> frame_SetVReg b r fr = Some (frame_fill b [r] fr)"
  "Suc b < length (f_vregs fr) \<Longrightarrow> frame_SetVReg (Suc b) r (frame_fill b [x0] fr) = Some (frame_fill b [x0, r] fr)"
  "Suc (Suc b) < length (f_vregs fr) \<Longrightarrow> frame_SetVReg (Suc (Suc b)) r (frame_fill b [x0, x1] fr) = Some (frame_fill b [x0, x1, r] fr)"
  "Suc (Suc (Suc b)) < length (f_vregs fr) \<Longrightarrow> frame_SetVReg (Suc (Suc (Suc b))) r (frame_fill b [x0, x1, x2] fr) = Some (frame_fill b [x0, x1, x2, r] fr)"
  "Suc (Suc (Suc (Suc b))) < length (f_vregs fr) \<Longrightarrow> frame_SetVReg (Suc (Suc (Suc (Suc b)))) r (frame_fill b [x0, x1, x2, x3] fr) = Some (frame_fill b [x0, x1, x2, x3, r] fr)"
  using SetVReg_fill [of b "[]" fr r] SetVReg_fill [of b "[x0]" fr r] SetVReg_fill [of b "[x0, x1]" fr r]
    SetVReg_fill [of b "[x0, x1, x2]" fr r] SetVReg_fill [of b "[x0, x1, x2, x3]" fr r]
  by (simp_all add: numeral_eq_Suc)

definition actual_arg :: "call_kind \<Rightarrow> 'w rt \<Rightarrow> Format \<Rightarrow> 'w istate \<Rightarrow> nat \<Rightarrow> vreg option" where
  "actual_arg ck rt f st i =
     (let j = (if ck_initobj ck then i - 1 else i) in
      if ck_initobj ck \<and> i = 0 then Some (st_acc st)
      else if ck_range ck then do { s \<leftarrow> inst_VReg rt f 0 st; read_vreg (s + j) st }
      else if ck_accept_acc ck
      then do { p \<leftarrow> inst_Imm rt f 0 st;
                if i = unat p then Some (st_acc st) else arg_reg rt f (if i < unat p then i else i - 1) st }
      else arg_reg rt f j st)"

definition arg_slots :: "call_kind \<Rightarrow> Format \<Rightarrow> nat \<Rightarrow> nat" where
  "arg_slots ck f n =
     (if f = F_V4_V4_ID16 \<or> f = F_V4_IMM4_ID16 then (if ck_initobj ck then 3 else 2)
      else if f = F_V4_V4_V4_V4_ID16 \<or> f = F_V4_V4_V4_IMM4_ID16 then (if ck_initobj ck then 5 else 4) else n)"

definition static_form :: "call_kind \<Rightarrow> Format \<Rightarrow> bool" where
  "static_form ck f \<longleftrightarrow> \<not> ck_dynamic ck \<and>
     (if ck_range ck then \<not> ck_accept_acc ck \<and> f = F_V8_ID16
      else if ck_accept_acc ck then \<not> ck_initobj ck \<and> f \<in> {F_V4_IMM4_ID16, F_V4_V4_V4_IMM4_ID16}
      else f \<in> {F_V4_V4_ID16, F_V4_V4_V4_V4_ID16})"

lemma copy_short:
  assumes "arg_reg rt f 0 st = Some r0" "arg_reg rt f 1 st = Some r1" "b + (if io then 3 else 2) \<le> length (f_vregs fr)"
  shows "CopyCallShortArguments rt f io st b fr = Some (frame_fill b ((if io then [st_acc st] else []) @ [r0, r1]) fr)"
  using assms by (cases io) (simp_all add: CopyCallShortArguments_def put_initobj_def SetVReg_fill_steps numeral_eq_Suc)

lemma copy_four:
  assumes "arg_reg rt f 0 st = Some r0" "arg_reg rt f 1 st = Some r1" "arg_reg rt f 2 st = Some r2" "arg_reg rt f 3 st = Some r3"
    "b + (if io then 5 else 4) \<le> length (f_vregs fr)"
  shows "CopyCallArguments rt f io st b fr = Some (frame_fill b ((if io then [st_acc st] else []) @ [r0, r1, r2, r3]) fr)"
  using assms by (cases io) (simp_all add: CopyCallArguments_def put_initobj_def SetVReg_fill_steps numeral_eq_Suc)

lemma copy_range:
  assumes "inst_VReg rt f 0 st = Some s" "\<And>j. j < n - (if io then 1 else 0) \<Longrightarrow> read_vreg (s + j) st = Some (h j)"
    "0 < n" "b + n \<le> length (f_vregs fr)"
  shows "CopyRangeArguments rt f io st b n fr =
    Some (frame_fill b ((if io then [st_acc st] else []) @ map h [0..<n - (if io then 1 else 0)]) fr)"
  using assms iter_fill [of "n - 1" "\<lambda>j. read_vreg (s + j) st" h b "[st_acc st]" fr]
    iter_fill [of n "\<lambda>j. read_vreg (s + j) st" h b "[]" fr]
  by (cases io) (simp_all add: CopyRangeArguments_def put_initobj_def SetVReg_fill_steps)

lemma copy_acc_short:
  assumes "inst_Imm rt f 0 st = Some p" "unat p < 2" "arg_reg rt f 0 st = Some r0" "b + 2 \<le> length (f_vregs fr)"
  shows "CopyCallAccShortArguments rt f st b fr = Some (frame_fill b (if p = 0 then [st_acc st, r0] else [r0, st_acc st]) fr)"
proof -
  have "p = 0 \<or> p = 1" using assms(2) by (auto simp: less_2_cases_iff word_unat_eq_iff)
  then show ?thesis using assms by (auto simp: CopyCallAccShortArguments_def SetVReg_fill_steps)
qed

lemma copy_acc_four:
  assumes "inst_Imm rt f 0 st = Some p" "unat p < 4"
    "arg_reg rt f 0 st = Some r0" "arg_reg rt f 1 st = Some r1" "arg_reg rt f 2 st = Some r2" "b + 4 \<le> length (f_vregs fr)"
  shows "CopyCallAccArguments rt f st b fr =
    Some (frame_fill b (take (unat p) [r0, r1, r2] @ st_acc st # drop (unat p) [r0, r1, r2]) fr)"
proof -
  have "unat p \<in> {0, 1, 2, 3}" using assms(2) by auto
  then have p: "p = 0 \<or> p = 1 \<or> p = 2 \<or> p = 3"
    by (auto simp: word_unat_eq_iff)
  have it: "iter_opt (\<lambda>i fr. frame_SetVReg (b + i) ([x0, x1, x2, x3] ! i) fr) [0..<4] fr = Some (frame_fill b [x0, x1, x2, x3] fr)"
    for x0 x1 x2 x3
    using assms(6) iter_fill [of 4 "\<lambda>i. Some ([x0, x1, x2, x3] ! i)" "\<lambda>i. [x0, x1, x2, x3] ! i" b "[]" fr]
    by (simp add: upt_rec numeral_eq_Suc)
  show ?thesis using p assms it by (auto simp: CopyCallAccArguments_def)
qed

lemma list_cases_2: "map h [0..<2] = [h 0, h 1]" "map h [0..<3] = [h 0, h 1, h 2]" "map h [0..<4] = [h 0, h 1, h 2, h 3]"
  "map h [0..<5] = [h 0, h 1, h 2, h 3, h 4]"
  by (simp_all add: upt_rec numeral_eq_Suc)

lemma copy_arguments_range:
  assumes cf: "static_form ck f" "ck_range ck" and n: "0 < n" and args: "\<And>i. i < n \<Longrightarrow> actual_arg ck rt f st i = Some (h i)"
    and s: "inst_VReg rt f 0 st = Some s" and size: "b + n \<le> length (f_vregs fr)"
  shows "CopyArguments ck rt f st b n n fr = Some (frame_fill b (map h [0..<n]) fr)"
proof -
  have f: "f = F_V8_ID16" "\<not> ck_accept_acc ck" "\<not> ck_dynamic ck" using cf by (auto simp: static_form_def)
  define io where "io = ck_initobj ck"
  have r: "read_vreg (s + j) st = Some (h (if io then Suc j else j))" if "j < n - (if io then 1 else 0)" for j
    using that args [of "if io then Suc j else j"] s cf(2) by (auto simp: actual_arg_def io_def split: if_splits)
  have h0: "io \<Longrightarrow> h 0 = st_acc st" using args [of 0] n by (simp add: actual_arg_def io_def)
  have "map h [0..<n] = (if io then [st_acc st] else []) @ map (\<lambda>j. h (if io then Suc j else j)) [0..<n - (if io then 1 else 0)]"
    using n h0 by (cases n) (auto simp: upt_conv_Cons map_Suc_upt [symmetric] comp_def simp del: upt_Suc)
  then show ?thesis
    using copy_range [OF s r n, where b = b and fr = fr] size cf(2) f n by (auto simp: CopyArguments_def io_def)
qed

lemma copy_arguments_acc:
  assumes cf: "static_form ck f" "ck_accept_acc ck" and n: "0 < n"
    and args: "\<And>i. i < arg_slots ck f n \<Longrightarrow> actual_arg ck rt f st i = Some (h i)"
    and p: "inst_Imm rt f 0 st = Some p" "unat p < arg_slots ck f n" and size: "b + arg_slots ck f n \<le> length (f_vregs fr)"
  shows "CopyArguments ck rt f st b n n fr = Some (frame_fill b (map h [0..<arg_slots ck f n]) fr)"
proof -
  have ck: "\<not> ck_range ck" "\<not> ck_dynamic ck" "\<not> ck_initobj ck" "f = F_V4_IMM4_ID16 \<or> f = F_V4_V4_V4_IMM4_ID16"
    using cf by (auto simp: static_form_def split: if_splits)
  from ck(4) show ?thesis
  proof
    assume f: "f = F_V4_IMM4_ID16"
    then have s: "arg_slots ck f n = 2" using ck by (simp add: arg_slots_def)
    then have pv: "p = 0 \<or> p = 1" using p(2) by (auto simp: less_2_cases_iff word_unat_eq_iff)
    have "arg_reg rt f 0 st = Some (if p = 0 then h 1 else h 0)" "(if p = 0 then h 0 else h 1) = st_acc st"
      using args [of 0] args [of 1] pv p ck cf(2) s by (auto simp: actual_arg_def)
    then show ?thesis
      using copy_acc_short [OF p(1), where b = b and fr = fr] p(2) size f ck cf(2) n pv s by (auto simp: CopyArguments_def list_cases_2)
  next
    assume f: "f = F_V4_V4_V4_IMM4_ID16"
    then have s: "arg_slots ck f n = 4" using ck by (simp add: arg_slots_def)
    then have "unat p \<in> {0, 1, 2, 3}" using p(2) by auto
    then have pv: "p = 0 \<or> p = 1 \<or> p = 2 \<or> p = 3" by (auto simp: word_unat_eq_iff)
    have "\<exists>r0 r1 r2. arg_reg rt f 0 st = Some r0 \<and> arg_reg rt f 1 st = Some r1 \<and> arg_reg rt f 2 st = Some r2 \<and>
        take (unat p) [r0, r1, r2] @ st_acc st # drop (unat p) [r0, r1, r2] = [h 0, h 1, h 2, h 3]"
      using args [of 0] args [of 1] args [of 2] args [of 3] pv p ck cf(2) s by (auto simp: actual_arg_def)
    then show ?thesis
      using copy_acc_four [OF p(1), where b = b and fr = fr] p(2) size f ck cf(2) n s by (auto simp: CopyArguments_def list_cases_2)
  qed
qed

lemma copy_arguments_plain:
  assumes cf: "static_form ck f" "\<not> ck_range ck" "\<not> ck_accept_acc ck" and n: "0 < n"
    and args: "\<And>i. i < arg_slots ck f n \<Longrightarrow> actual_arg ck rt f st i = Some (h i)" and size: "b + arg_slots ck f n \<le> length (f_vregs fr)"
  shows "CopyArguments ck rt f st b n n fr = Some (frame_fill b (map h [0..<arg_slots ck f n]) fr)"
proof -
  have ck: "\<not> ck_dynamic ck" "f = F_V4_V4_ID16 \<or> f = F_V4_V4_V4_V4_ID16" using cf by (auto simp: static_form_def)
  note defs = CopyArguments_def arg_slots_def actual_arg_def list_cases_2
  from ck(2) show ?thesis
  proof
    assume f: "f = F_V4_V4_ID16"
    show ?thesis
      using copy_short [of rt f st "h 1" "h 2" b True fr] copy_short [of rt f st "h 0" "h 1" b False fr]
        args [of 0] args [of 1] args [of 2] size cf f ck n by (cases "ck_initobj ck") (auto simp: defs)
  next
    assume f: "f = F_V4_V4_V4_V4_ID16"
    show ?thesis
      using copy_four [of rt f st "h 1" "h 2" "h 3" "h 4" b True fr] copy_four [of rt f st "h 0" "h 1" "h 2" "h 3" b False fr]
        args [of 0] args [of 1] args [of 2] args [of 3] args [of 4] size cf f ck n by (cases "ck_initobj ck") (auto simp: defs)
  qed
qed

lemma copy_arguments:
  assumes "static_form ck f" "0 < n" "\<And>i. i < arg_slots ck f n \<Longrightarrow> actual_arg ck rt f st i = Some (h i)"
    and "ck_accept_acc ck \<Longrightarrow> \<exists>p. inst_Imm rt f 0 st = Some p \<and> unat p < arg_slots ck f n"
    and "ck_range ck \<Longrightarrow> \<exists>s. inst_VReg rt f 0 st = Some s" "b + arg_slots ck f n \<le> length (f_vregs fr)"
  shows "CopyArguments ck rt f st b n n fr = Some (frame_fill b (map h [0..<arg_slots ck f n]) fr)"
proof (cases "ck_range ck")
  case True
  then have s: "arg_slots ck f n = n" using assms(1) by (auto simp: static_form_def arg_slots_def)
  obtain v where "inst_VReg rt f 0 st = Some v" using assms(5) True by blast
  then show ?thesis using copy_arguments_range [OF assms(1) True assms(2,3)] assms(6) s by simp
next
  case False
  then show ?thesis
    using copy_arguments_acc [OF assms(1) _ assms(2,3)] copy_arguments_plain [OF assms(1) _ _ assms(2,3)] assms(4,6)
    by (cases "ck_accept_acc ck") auto
qed

lemma frames_only:
  assumes "vm_frames vm' = vm_frames (st_vm st)"
  shows "at_inst rt rd (st\<lparr>st_vm := vm'\<rparr>) = at_inst rt rd st" "read_vreg i (st\<lparr>st_vm := vm'\<rparr>) = read_vreg i st"
    "inst_VReg rt f i (st\<lparr>st_vm := vm'\<rparr>) = inst_VReg rt f i st" "inst_Imm rt f i (st\<lparr>st_vm := vm'\<rparr>) = inst_Imm rt f i st"
    "arg_reg rt f i (st\<lparr>st_vm := vm'\<rparr>) = arg_reg rt f i st" "actual_arg ck rt f (st\<lparr>st_vm := vm'\<rparr>) i = actual_arg ck rt f st i"
  using assms
  by (simp_all add: at_inst_def read_vreg_def GetFrame_def inst_VReg_def inst_Imm_def arg_reg_def actual_arg_def Let_def
      cong del: if_weak_cong)

text \<open>
  The dynamic call \<open>calli.dyn.range\<close> takes its number of arguments from the instruction; the others pass as many as the
  callee declares.
\<close>

definition call_form :: "call_kind \<Rightarrow> Format \<Rightarrow> bool" where
  "call_form ck f \<longleftrightarrow> static_form ck f \<or> ck = dyn_range_call \<and> f = F_IMM16_V16"

definition passed_args :: "call_kind \<Rightarrow> 'w rt \<Rightarrow> Format \<Rightarrow> 'w istate \<Rightarrow> nat \<Rightarrow> nat option" where
  "passed_args ck rt f st n = (if ck_dynamic ck then map_option (\<lambda>imm. unat (ucast imm + 1 :: u32)) (inst_Imm rt f 0 st) else Some n)"

definition frame_slots :: "call_kind \<Rightarrow> Format \<Rightarrow> nat \<Rightarrow> nat \<Rightarrow> nat" where
  "frame_slots ck f n na = (if ck_dynamic ck then max n na else arg_slots ck f n)"

definition copied_args :: "call_kind \<Rightarrow> Format \<Rightarrow> nat \<Rightarrow> nat \<Rightarrow> nat" where
  "copied_args ck f n na = (if ck_dynamic ck then na else arg_slots ck f n)"

lemma wrap32_small [simp]: "n < 2 ^ 32 \<Longrightarrow> wrap32 n = n"
  by (simp add: wrap32_def unat_of_nat)

lemma frame_layout_eq:
  assumes "passed_args ck rt f st n = Some na" "na \<le> frame_slots ck f n na" "b + frame_slots ck f n na < 2 ^ 32"
  shows "frame_layout ck rt f n b st = Some (na, b + frame_slots ck f n na, b + max n na)"
  using assms by (auto simp: frame_layout_def arg_slots_def Let_def passed_args_def frame_slots_def split: if_splits)

lemma Move_eq [simp]: "Move v r = v"
  by (cases v) (simp add: Move_def SetTag_def SetValue_def)

lemma pad_fill:
  assumes "b + (length xs + k) \<le> length (f_vregs fr)"
  shows "iter_opt (\<lambda>i fr. do { r \<leftarrow> frame_GetVReg fr (b + i); frame_SetVReg (b + i) (Move v r) fr }) [length xs..<length xs + k]
    (frame_fill b xs fr) = Some (frame_fill b (xs @ replicate k v) fr)"
  using assms
proof (induction k arbitrary: xs)
  case (Suc k)
  have "length (f_vregs (frame_fill b xs fr)) = length (f_vregs fr)" using Suc.prems by (intro frame_fill_length) simp
  then have "frame_GetVReg (frame_fill b xs fr) (b + length xs) \<noteq> None" using Suc.prems by (simp add: frame_GetVReg_def)
  moreover have "[length xs..<length xs + Suc k] = length xs # [length (xs @ [v])..<length (xs @ [v]) + k]" by (simp add: upt_rec)
  ultimately show ?case using SetVReg_fill [of b xs fr v] Suc.IH [of "xs @ [v]"] Suc.prems by (auto simp: replicate_append_same)
qed simp

lemma copy_arguments_dynamic:
  assumes "0 < n" "0 < na" "inst_VReg rt f 0 st = Some s" "\<And>i. i < na \<Longrightarrow> actual_arg dyn_range_call rt f st i = Some (h i)"
    "b + max n na \<le> length (f_vregs fr)"
  shows "CopyArguments dyn_range_call rt f st b na n fr =
    Some (frame_fill b (map h [0..<na] @ replicate (n - na) (rt_InitialDecodedValue rt)) fr)"
proof -
  have "read_vreg (s + j) st = Some (h j)" if "j < na" for j
    using assms(4) [OF that] assms(3) by (simp add: actual_arg_def)
  then have "CopyRangeArguments rt f False st b na fr = Some (frame_fill b (map h [0..<na]) fr)"
    using copy_range [of rt f st s na False h b fr] assms(2,3,5) by simp
  then show ?thesis
    using pad_fill [of b "map h [0..<na]" "n - na" fr "rt_InitialDecodedValue rt"] assms(1,5)
    by (cases "n \<le> na") (simp_all add: CopyArguments_def)
qed

text \<open>
  C25: For every call format (two or four registers, with or without the accumulator as an argument, a range of registers,
  the object initialising variants, and the dynamic call of a range) of a callee that declares arguments, a call whose
  registers exist gives the callee a frame that holds the arguments, in the order the instruction lists them, right behind
  the callee's own registers; declared arguments that a dynamic call does not pass hold the language's initial value; the
  accumulator is passed on, and the callee's own registers hold what the frame allocator returned. (For a callee without
  declared arguments \<open>CopyArguments\<close> returns at once, also when a dynamic call passes some.)
\<close>

theorem arguments_placed:
  assumes "call_form ck f" "n = mi_num_args (rt_method rt m)" "b = mi_num_vregs (rt_method rt m)"
    and "0 < n" "passed_args ck rt f st n = Some na" "0 < na" "na \<le> frame_slots ck f n na" "b + frame_slots ck f n na < 2 ^ 32"
    and "rt_AllocFrame rt (b + frame_slots ck f n na) (st_vm st) = (Some regs, vm')"
    and "length regs = b + frame_slots ck f n na" "vm_frames vm' = vm_frames (st_vm st)"
    and "\<forall>i < copied_args ck f n na. actual_arg ck rt f st i \<noteq> None" "inst_VReg rt f 0 st \<noteq> None"
    and "ck_accept_acc ck \<longrightarrow> (\<exists>p. inst_Imm rt f 0 st = Some p \<and> unat p < arg_slots ck f n)"
  shows "\<exists>fr. CreateAndSetFrame ck rt f m st = Some (True, Some (Suc (length (vm_frames (st_vm st)))), push_frame fr (st\<lparr>st_vm := vm'\<rparr>)) \<and>
    f_method fr = m \<and> f_acc fr = st_acc st \<and> f_nregs fr = b + max n na \<and> f_num_actual_args fr = na \<and> length (f_vregs fr) = length regs \<and>
    (\<forall>i < na. actual_arg ck rt f st i = Some (f_vregs fr ! (b + i))) \<and>
    (\<forall>i. na \<le> i \<and> i < n \<longrightarrow> f_vregs fr ! (b + i) = rt_InitialDecodedValue rt) \<and> (\<forall>i < b. f_vregs fr ! i = regs ! i)"
proof -
  define h where "h i = the (actual_arg ck rt f st i)" for i
  define fr0 where "fr0 = (make_frame m regs (b + max n na) na)\<lparr>f_acc := st_acc st\<rparr>"
  define st' where "st' = st\<lparr>st_vm := vm'\<rparr>"
  define xs where "xs = map h [0..<copied_args ck f n na] @ (if ck_dynamic ck then replicate (n - na) (rt_InitialDecodedValue rt) else [])"
  define fr where "fr = frame_fill b xs fr0"
  have h: "actual_arg ck rt f st i = Some (h i)" if "i < copied_args ck f n na" for i
    using assms(12) that by (auto simp: h_def)
  have len: "length (f_vregs fr0) = length regs" by (simp add: fr0_def make_frame_def)
  have na: "na \<le> copied_args ck f n na" using assms(7) by (simp add: copied_args_def frame_slots_def split: if_splits)
  have nn: "\<not> ck_dynamic ck \<Longrightarrow> na = n" using assms(5) by (simp add: passed_args_def)
  have "CopyArguments ck rt f st' b na n fr0 = Some fr"
  proof (cases "ck_dynamic ck")
    case True
    then have "ck = dyn_range_call" using assms(1) by (auto simp: call_form_def static_form_def)
    then show ?thesis
      using copy_arguments_dynamic [of n na rt f st' _ h b fr0] assms(4,6,10,11,13) h len True
      by (auto simp: fr_def xs_def copied_args_def frame_slots_def st'_def frames_only)
  next
    case False
    then show ?thesis
      unfolding fr_def st'_def xs_def using assms h len nn
      by (simp add: copied_args_def frame_slots_def) (intro copy_arguments, auto simp: frames_only call_form_def)
  qed
  then have "CreateAndSetFrame ck rt f m st = Some (True, Some (Suc (length (vm_frames (st_vm st)))), push_frame fr st')"
    using assms(2,3,9,11) frame_layout_eq [OF assms(5,7,8)] by (simp add: CreateAndSetFrame_def fr0_def st'_def push_frame_def)
  moreover have lx: "length xs = frame_slots ck f n na" by (simp add: xs_def copied_args_def frame_slots_def max_def)
  moreover have "f_vregs fr ! (b + i) = h i" if "i < na" for i
    using frame_fill_nth(1) [of b xs fr0 i] that assms(7,10) len lx na by (simp add: fr_def) (simp add: xs_def nth_append)
  moreover have "f_vregs fr ! (b + i) = rt_InitialDecodedValue rt" if "na \<le> i \<and> i < n" for i
    using frame_fill_nth(1) [of b xs fr0 i] that assms(10) len lx nn
    by (cases "ck_dynamic ck") (auto simp: fr_def xs_def copied_args_def frame_slots_def nth_append)
  moreover have "f_vregs fr ! i = regs ! i" if "i < b" for i
    using frame_fill_nth(2) [of b xs fr0 i] that assms(10) len lx by (simp add: fr_def) (simp add: fr0_def make_frame_def)
  moreover have "f_method fr = m" "f_acc fr = st_acc st" "f_nregs fr = b + max n na" "f_num_actual_args fr = na" "length (f_vregs fr) = length regs"
    using len assms(10) lx by (simp_all add: fr_def frame_fill_length) (simp_all add: fr0_def make_frame_def)
  moreover have "actual_arg ck rt f st i = Some (h i)" if "i < na" for i using h that na by simp
  ultimately show ?thesis unfolding st'_def by auto
qed

definition call_rt :: "unit rt" where
  "call_rt = sample_rt\<lparr>rt_method := (\<lambda>m. if m = 0
     then \<lparr>mi_code = [0x96, 0x01, 0x05, 0x00], mi_num_vregs = 2, mi_num_args = 0, mi_static = True, mi_abstract = False, mi_constructor = False, mi_class = 0\<rparr>
     else \<lparr>mi_code = [0x92], mi_num_vregs = 1, mi_num_args = 2, mi_static = True, mi_abstract = False, mi_constructor = False, mi_class = 0\<rparr>)\<rparr>"

definition call_state :: "unit istate" where
  "call_state = sample_state\<lparr>st_vm := sample_vm\<lparr>vm_frames := [sample_frame\<lparr>f_vregs := [SetPrimitive True (7 :: u32) vreg0, SetPrimitive True (9 :: u32) vreg0]\<rparr>]\<rparr>\<rparr>"

lemma call_decode:
  "GetVReg F_V4_V4_ID16 0 [0x96, 0x01, 0x05, 0x00] 0 = Some 1" "GetVReg F_V4_V4_ID16 (Suc 0) [0x96, 0x01, 0x05, 0x00] 0 = Some 0"
  by code_simp+

lemma call_operands:
  "inst_VReg call_rt F_V4_V4_ID16 0 call_state = Some 1" "inst_VReg call_rt F_V4_V4_ID16 (Suc 0) call_state = Some 0"
  by (simp_all add: inst_VReg_def at_inst_def call_state_def sample_state_def code_of_def call_rt_def call_decode)

lemma call_args:
  "actual_arg plain_call call_rt F_V4_V4_ID16 call_state 0 = Some (SetPrimitive True (9 :: u32) vreg0)"
  "actual_arg plain_call call_rt F_V4_V4_ID16 call_state (Suc 0) = Some (SetPrimitive True (7 :: u32) vreg0)"
  by (simp_all add: actual_arg_def arg_reg_def call_operands)
    (simp_all add: read_vreg_def GetFrame_def call_state_def sample_state_def frame_GetVReg_def)

theorem arguments_placed_witness:
  "\<exists>fr. CreateAndSetFrame plain_call call_rt F_V4_V4_ID16 5 call_state = Some (True, Some 2, push_frame fr call_state) \<and>
     f_vregs fr ! 1 = SetPrimitive True (9 :: u32) vreg0 \<and> f_vregs fr ! 2 = SetPrimitive True (7 :: u32) vreg0"
proof -
  have s: "frame_slots plain_call F_V4_V4_ID16 2 2 = 2" "copied_args plain_call F_V4_V4_ID16 2 2 = 2"
    by (simp_all add: arg_slots_def frame_slots_def copied_args_def)
  have m: "mi_num_args (rt_method call_rt 5) = 2" "mi_num_vregs (rt_method call_rt 5) = 1" by (simp_all add: call_rt_def)
  have p: "call_form plain_call F_V4_V4_ID16" "passed_args plain_call call_rt F_V4_V4_ID16 call_state 2 = Some 2"
    by (simp_all add: call_form_def static_form_def passed_args_def)
  have l: "length (vm_frames (st_vm call_state)) = 1" by (simp add: call_state_def)
  have "rt_AllocFrame call_rt (1 + 2) (st_vm call_state) = (Some ([vreg0, vreg0, vreg0]), st_vm call_state)"
    by (simp add: call_rt_def sample_rt_def)
  moreover have "\<forall>i < 2. actual_arg plain_call call_rt F_V4_V4_ID16 call_state i \<noteq> None"
    using call_args by (auto simp: less_2_cases_iff)
  ultimately obtain fr where
    "CreateAndSetFrame plain_call call_rt F_V4_V4_ID16 5 call_state = Some (True, Some 2, push_frame fr call_state)"
    "\<forall>i < 2. actual_arg plain_call call_rt F_V4_V4_ID16 call_state i = Some (f_vregs fr ! (1 + i))"
    using arguments_placed [OF p(1), of 2 call_rt 5 1 call_state 2 "[vreg0, vreg0, vreg0]" "st_vm call_state"] m p(2) l
    by (auto simp: s call_operands)
  then show ?thesis using call_args by (auto simp: less_2_cases_iff numeral_2_eq_2)
qed

subsection \<open>Call and return\<close>

definition frame_header :: "frame \<Rightarrow> frame" where
  "frame_header fr = fr\<lparr>f_vregs := []\<rparr>"

lemma header_SetVReg: "frame_SetVReg i r fr = Some fr' \<Longrightarrow> frame_header fr' = frame_header fr"
  by (auto simp: frame_SetVReg_def frame_header_def split: if_splits)

lemma header_iter:
  assumes "\<And>i fr fr'. g i fr = Some fr' \<Longrightarrow> frame_header fr' = frame_header fr"
  shows "iter_opt g xs fr = Some fr' \<Longrightarrow> frame_header fr' = frame_header fr"
  by (induction xs arbitrary: fr) (auto split: bind_splits dest: assms)

lemma header_CopyArguments: "CopyArguments ck rt f st b na n fr = Some fr' \<Longrightarrow> frame_header fr' = frame_header fr"
  by (auto simp: CopyArguments_def CopyRangeArguments_def CopyCallAccShortArguments_def CopyCallAccArguments_def
      CopyCallAccArguments_n_def CopyCallShortArguments_def CopyCallArguments_def CopyCallArguments_n_def put_initobj_def Let_def
      split: bind_splits if_splits dest!: header_SetVReg header_iter [rotated])

lemma header_sel:
  "frame_header fr = frame_header fr' \<Longrightarrow> f_method fr = f_method fr' \<and> f_flags fr = f_flags fr' \<and> f_acc fr = f_acc fr' \<and>
     f_inst fr = f_inst fr' \<and> f_next_inst fr = f_next_inst fr' \<and> f_bc_offset fr = f_bc_offset fr'"
  by (cases fr; cases fr') (simp add: frame_header_def)

definition keeps :: "('w vm \<Rightarrow> 'w vm) \<Rightarrow> bool" where
  "keeps g \<longleftrightarrow> (\<forall>vm. vm_frames (g vm) = vm_frames vm \<and> vm_exception (g vm) = vm_exception vm)"

definition quiet_rt :: "'w rt \<Rightarrow> bool" where
  "quiet_rt rt \<longleftrightarrow> (\<forall>m. keeps (rt_MethodEntryEvent rt m)) \<and> (\<forall>m. keeps (rt_MethodExitEvent rt m)) \<and>
     (\<forall>m. keeps (rt_IncrementHotnessCounter rt m)) \<and> (\<forall>m. keeps (\<lambda>vm. snd (rt_Verify rt m vm))) \<and>
     (\<forall>n. keeps (\<lambda>vm. snd (rt_AllocFrame rt n vm)))"

lemma keepsD: "keeps g \<Longrightarrow> vm_frames (g vm) = vm_frames vm" "keeps g \<Longrightarrow> vm_exception (g vm) = vm_exception vm"
  by (simp_all add: keeps_def)

lemma quiet_rtD:
  assumes "quiet_rt rt"
  shows "keeps (rt_MethodEntryEvent rt m)" "keeps (rt_MethodExitEvent rt m)" "keeps (rt_IncrementHotnessCounter rt m)"
    "rt_Verify rt m vm = (ok, vm') \<Longrightarrow> vm_frames vm' = vm_frames vm \<and> vm_exception vm' = vm_exception vm"
    "rt_AllocFrame rt n vm = (mem, vm') \<Longrightarrow> vm_frames vm' = vm_frames vm \<and> vm_exception vm' = vm_exception vm"
  using assms unfolding quiet_rt_def keeps_def by (metis snd_conv)+

lemma frame_top:
  assumes "vm_frames vm = fr # rest"
  shows "frame_at (Some (Suc (length rest))) vm = Some fr" "frame_write (Some (Suc (length rest))) g vm = Some (vm\<lparr>vm_frames := g fr # rest\<rparr>)"
  using assms by (simp_all add: frame_at_def frame_write_def)

lemma frame_below_top:
  assumes "vm_frames vm = fr # ca # rest"
  shows "frame_write (Some (Suc (length rest))) g vm = Some (vm\<lparr>vm_frames := fr # g ca # rest\<rparr>)"
  using assms by (simp add: frame_at_def frame_write_def)

lemma frame_null: "frame_at None vm = None" "frame_write None g vm = None"
  by (simp_all add: frame_at_def frame_write_def)

lemma CreateAndSetFrame_ptr:
  "CreateAndSetFrame ck rt f m st = Some (ok, frame, st') \<Longrightarrow> frame = (if ok then Some (length (vm_frames (st_vm st'))) else None)"
  by (auto simp: CreateAndSetFrame_def Let_def split: bind_splits option.splits prod.splits)

lemma calls_created:
  assumes "VerifyMethod rt m st = (True, st0)" "CallInterpreterStackless ck m rt f st = Some st' \<or> CallInterpreter env ck m rt f st = Some st'"
  obtains st1 where "CreateAndSetFrame ck rt f m st0 = Some (True, Some (length (vm_frames (st_vm st1))), st1)"
proof -
  obtain ok frame st1 where c: "CreateAndSetFrame ck rt f m st0 = Some (ok, frame, st1)"
    using assms by (auto simp: CallInterpreterStackless_def CallInterpreter_def Let_def split: bind_splits)
  have "frame \<noteq> None"
  proof
    assume "frame = None"
    then show False using assms c by (simp add: CallInterpreterStackless_def CallInterpreter_def frame_null)
  qed
  then show ?thesis using that c CreateAndSetFrame_ptr [OF c] by (auto split: if_splits)
qed

text \<open>What the stackless call does once the frame is there.\<close>

lemma CallInterpreterStackless_frame:
  assumes "VerifyMethod rt m st = (True, st0)"
    and "CreateAndSetFrame ck rt f m st0 = Some (True, Some (length (vm_frames (st_vm st1))), st1)"
    and "vm_frames (rt_MethodEntryEvent rt m (st_vm st1)) = fr # ca # rest" "length (vm_frames (st_vm st1)) = Suc (Suc (length rest))"
    and "length (vm_frames (st_vm st0)) = Suc (length rest)"
  defines "fr' \<equiv> (if ck_initobj ck then set_frame_flag IS_INITOBJ (set_frame_flag IS_STACKLESS fr)
      else set_frame_flag IS_STACKLESS fr)\<lparr>f_inst := (Code m, 0)\<rparr>"
    and "ca' \<equiv> ca\<lparr>f_next_inst := st_inst (MoveToNextInst f False st1)\<rparr>"
  shows "CallInterpreterStackless ck m rt f st = Some ((MoveToNextInst f False st1)
    \<lparr>st_vm := (rt_MethodEntryEvent rt m (st_vm st1))\<lparr>vm_frames := fr' # ca' # rest\<rparr>, st_inst := (Code m, 0), st_instructions := (Code m, 0)\<rparr>)"
proof -
  have top: "frame_write (Some (Suc (Suc (length rest)))) g (vm\<lparr>vm_frames := x # y # rest\<rparr>) = Some (vm\<lparr>vm_frames := g x # y # rest\<rparr>)"
    "frame_write (Some (Suc (length rest))) g (vm\<lparr>vm_frames := x # y # rest\<rparr>) = Some (vm\<lparr>vm_frames := x # g y # rest\<rparr>)" for g x y and vm :: "'a vm"
    using frame_top(2) [of "vm\<lparr>vm_frames := x # y # rest\<rparr>" x "y # rest" g] frame_below_top [of "vm\<lparr>vm_frames := x # y # rest\<rparr>" x y rest g]
    by simp_all
  show ?thesis
    using assms(1,2) frame_top(2) [OF assms(3)]
    by (simp add: CallInterpreterStackless_def assms(4,5) Let_def top fr'_def ca'_def UpdateInstructionHandlerState_def GetFrame_def)
qed

lemma CreateAndSetFrame_created:
  assumes "quiet_rt rt" "CreateAndSetFrame ck rt f m st = Some (True, frame, st')"
  shows "\<exists>fr vm. st' = push_frame fr (st\<lparr>st_vm := vm\<rparr>) \<and> vm_frames vm = vm_frames (st_vm st) \<and>
    vm_exception vm = vm_exception (st_vm st) \<and> f_method fr = m \<and> f_flags fr = 0 \<and> f_acc fr = st_acc st"
proof -
  obtain na fs nr where l: "frame_layout ck rt f (mi_num_args (rt_method rt m)) (mi_num_vregs (rt_method rt m)) st = Some (na, fs, nr)"
    using assms(2) by (auto simp: CreateAndSetFrame_def Let_def split: bind_splits)
  obtain mem vm where a: "rt_AllocFrame rt fs (st_vm st) = (mem, vm)" by fastforce
  from assms(2) l a obtain regs fr where r: "mem = Some regs"
    "CopyArguments ck rt f (st\<lparr>st_vm := vm\<rparr>) (mi_num_vregs (rt_method rt m)) na (mi_num_args (rt_method rt m))
       ((make_frame m regs nr na)\<lparr>f_acc := st_acc st\<rparr>) = Some fr" "st' = push_frame fr (st\<lparr>st_vm := vm\<rparr>)"
    by (auto simp: CreateAndSetFrame_def Let_def split: bind_splits option.splits)
  then show ?thesis
    using header_sel [OF header_CopyArguments [OF r(2)]] quiet_rtD(5) [OF assms(1) a]
    by (intro exI [of _ fr] exI [of _ vm]) (simp add: make_frame_def)
qed

lemma call_flags:
  assumes "f_flags fr = 0"
  defines "fr' \<equiv> set_frame_flag IS_STACKLESS fr"
  shows "IsStackless fr'" "\<not> IsInitobj fr'" "IsStackless (set_frame_flag IS_INITOBJ fr')" "IsInitobj (set_frame_flag IS_INITOBJ fr')"
  using assms(1) by (simp_all add: fr'_def frame_flag_def set_frame_flag_def IS_STACKLESS_def IS_INITOBJ_def)

lemma CallInterpreterStackless_enters:
  assumes "quiet_rt rt" "vm_frames (st_vm st) = caller # rest" "fst (rt_Verify rt m (st_vm st))"
    and "CallInterpreterStackless ck m rt f st = Some st'"
  defines "next_inst \<equiv> (fst (st_inst st), snd (st_inst st) + int (InstSize f))"
  shows "\<exists>fr. vm_frames (st_vm st') = fr # caller\<lparr>f_next_inst := next_inst\<rparr> # rest \<and> f_method fr = m \<and> f_inst fr = (Code m, 0) \<and>
    f_acc fr = st_acc st \<and> IsStackless fr \<and> IsInitobj fr = ck_initobj ck \<and> st_inst st' = (Code m, 0) \<and> st_instructions st' = (Code m, 0) \<and>
    st_opext st' = st_opext st \<and> st_acc st' = st_acc st \<and> vm_exception (st_vm st') = vm_exception (st_vm st)"
proof -
  obtain vm where v: "rt_Verify rt m (st_vm st) = (True, vm)" using assms(3) by (cases "rt_Verify rt m (st_vm st)") auto
  define st0 where "st0 = st\<lparr>st_vm := vm\<rparr>"
  have v': "vm_frames vm = caller # rest" "vm_exception vm = vm_exception (st_vm st)"
    using quiet_rtD(4) [OF assms(1) v] assms(2) by simp_all
  have vst: "VerifyMethod rt m st = (True, st0)" by (simp add: VerifyMethod_def v st0_def)
  from calls_created [OF vst, of ck f st' undefined] assms(4) obtain st1 where
    c: "CreateAndSetFrame ck rt f m st0 = Some (True, Some (length (vm_frames (st_vm st1))), st1)" by blast
  from CreateAndSetFrame_created [OF assms(1) c] obtain fr vm1 where
    fr: "st1 = push_frame fr (st0\<lparr>st_vm := vm1\<rparr>)" "vm_frames vm1 = caller # rest" "vm_exception vm1 = vm_exception (st_vm st)"
      "f_method fr = m" "f_flags fr = 0" "f_acc fr = st_acc st"
    using v' by (auto simp: st0_def)
  have fs: "vm_frames (rt_MethodEntryEvent rt m (st_vm st1)) = fr # caller # rest"
    "vm_exception (rt_MethodEntryEvent rt m (st_vm st1)) = vm_exception (st_vm st)"
    using keepsD [OF quiet_rtD(1) [OF assms(1)], of m "st_vm st1"] fr by (simp_all add: push_frame_def)
  define fr' where "fr' = (if ck_initobj ck then set_frame_flag IS_INITOBJ (set_frame_flag IS_STACKLESS fr)
    else set_frame_flag IS_STACKLESS fr)\<lparr>f_inst := (Code m, 0)\<rparr>"
  have nx: "st_inst (MoveToNextInst f False st1) = next_inst"
    by (simp add: MoveToNextInst_def fr(1) push_frame_def st0_def next_inst_def)
  have eq: "st' = (MoveToNextInst f False st1)\<lparr>st_vm := (rt_MethodEntryEvent rt m (st_vm st1))\<lparr>vm_frames := fr' # caller\<lparr>f_next_inst := next_inst\<rparr> # rest\<rparr>,
      st_inst := (Code m, 0), st_instructions := (Code m, 0)\<rparr>"
    using CallInterpreterStackless_frame [OF vst c fs(1)] assms(4) fr(1,2) v'(1) nx by (simp add: fr'_def push_frame_def st0_def)
  have "IsStackless fr' \<and> IsInitobj fr' = ck_initobj ck"
    using call_flags [OF fr(5)] by (simp add: fr'_def Let_def frame_flag_def)
  moreover have "f_method fr' = m" "f_inst fr' = (Code m, 0)" "f_acc fr' = st_acc st"
    using fr by (simp_all add: fr'_def Let_def set_frame_flag_def)
  moreover have "st_opext (MoveToNextInst f False st1) = st_opext st" "st_acc (MoveToNextInst f False st1) = st_acc st"
    by (simp_all add: MoveToNextInst_def fr(1) push_frame_def st0_def)
  ultimately show ?thesis unfolding eq using fs(2) by simp
qed

text \<open>
  C23: A call of interpreted code pushes one frame and continues at the callee's first instruction. However the callee gets
  to its return, if its frame is still on top of the caller's and no exception is pending, returning removes that frame and
  resumes the caller at the instruction behind the call, with the callee's result in the accumulator, or, for an object
  initialisation, with the caller's own accumulator (the new object).
\<close>

theorem call_and_return:
  assumes "quiet_rt rt" "vm_frames (st_vm st) = caller # rest" "fst (rt_Verify rt m (st_vm st))"
    and "CallInterpreterStackless ck m rt f st = Some st1"
    and "vm_frames (st_vm st2) = fr # tl (vm_frames (st_vm st1))" "f_flags fr = f_flags (hd (vm_frames (st_vm st1)))"
    and "\<not> HasPendingException (st_vm st2)"
  defines "next_inst \<equiv> (fst (st_inst st), snd (st_inst st) + int (InstSize f))"
  shows "st_inst st1 = (Code m, 0) \<and> length (vm_frames (st_vm st1)) = Suc (length (vm_frames (st_vm st))) \<and>
    (\<exists>st3. HandleReturnStackless rt st2 = Some st3 \<and> st_inst st3 = next_inst \<and>
       vm_frames (st_vm st3) = caller\<lparr>f_next_inst := next_inst\<rparr> # rest \<and>
       st_acc st3 = (if ck_initobj ck then f_acc caller else f_acc fr) \<and> st_instructions st3 = f_inst caller)"
proof -
  obtain fr1 where c: "vm_frames (st_vm st1) = fr1 # caller\<lparr>f_next_inst := next_inst\<rparr> # rest" "IsStackless fr1"
    "IsInitobj fr1 = ck_initobj ck" "st_inst st1 = (Code m, 0)"
    using CallInterpreterStackless_enters [OF assms(1-4)] by (auto simp: next_inst_def)
  have fl: "IsStackless fr" "IsInitobj fr = ck_initobj ck" using c assms(6) by (simp_all add: frame_flag_def)
  define vm where "vm = rt_MethodExitEvent rt (f_method fr) (st_vm st2)"
  have vm: "vm_frames vm = fr # caller\<lparr>f_next_inst := next_inst\<rparr> # rest" "vm_exception vm = vm_exception (st_vm st2)"
    using keepsD [OF quiet_rtD(2) [OF assms(1)], of "f_method fr" "st_vm st2"] assms(5) c(1) by (simp_all add: vm_def)
  have "GetFrame st2 = Some fr" using assms(5) by (simp add: GetFrame_def)
  then have "\<exists>st3. HandleReturnStackless rt st2 = Some st3 \<and> st_inst st3 = next_inst \<and>
       vm_frames (st_vm st3) = caller\<lparr>f_next_inst := next_inst\<rparr> # rest \<and>
       st_acc st3 = (if ck_initobj ck then f_acc caller else f_acc fr) \<and> st_instructions st3 = f_inst caller"
    using fl assms(7) vm
    by (simp add: HandleReturnStackless_def vm_def [symmetric] pop_frame_def UpdateInstructionHandlerState_def GetFrame_def
        HasPendingException_def)
  then show ?thesis using c assms(2) by simp
qed

definition no_env :: "unit exec_env" where
  "no_env = \<lparr>ee_instrumentation = False, ee_execute = (\<lambda>_ _ _. None)\<rparr>"

text \<open>
  C36: When the frame allocator has no memory for the callee's frame, \<open>CreateAndSetFrame\<close> throws \<open>OutOfMemoryError\<close>, sets
  up the dispatch to the exception handler (label 328), stores a null pointer and returns false. Both ways to call
  interpreted code nevertheless access the new frame through that pointer: their behaviour is undefined.
\<close>

theorem frame_allocation_failure:
  assumes "rt_Verify rt m (st_vm st) = (True, vm)"
    and "frame_layout ck rt f (mi_num_args (rt_method rt m)) (mi_num_vregs (rt_method rt m)) (st\<lparr>st_vm := vm\<rparr>) = Some (na, frame_size, nregs)"
    and "rt_AllocFrame rt frame_size vm = (None, vm1)" "at_inst rt GetOpcode (st\<lparr>st_vm := vm1\<rparr>) = Some opc"
  shows "(\<exists>st'. CreateAndSetFrame ck rt f m (st\<lparr>st_vm := vm\<rparr>) = Some (False, None, st') \<and>
      st' = (Throw rt OutOfMemoryError (st\<lparr>st_vm := vm1\<rparr>))\<lparr>st_opext := st_opext st'\<rparr> \<and> GetExceptionOpcode rt st' = Some 328) \<and>
    CallInterpreterStackless ck m rt f st = None \<and> CallInterpreter env ck m rt f st = None"
proof -
  define st1 where "st1 = Throw rt OutOfMemoryError (st\<lparr>st_vm := vm1\<rparr>)"
  have o: "at_inst rt GetOpcode st1 = Some opc" using assms(4) by (simp add: st1_def Throw_def)
  have c: "CreateAndSetFrame ck rt f m (st\<lparr>st_vm := vm\<rparr>) = Some (False, None, st1\<lparr>st_opext := 328 - (opc AND 0xFF)\<rparr>)"
    using assms(2,3) MoveToExceptionHandler_eq(1) [OF o] by (simp add: CreateAndSetFrame_def throw_to_handler_def st1_def)
  have "VerifyMethod rt m st = (True, st\<lparr>st_vm := vm\<rparr>)" using assms(1) by (simp add: VerifyMethod_def)
  then have "CallInterpreterStackless ck m rt f st = None" "CallInterpreter env ck m rt f st = None"
    using c by (simp_all add: CallInterpreterStackless_def CallInterpreter_def frame_null)
  then show ?thesis using c MoveToExceptionHandler_eq(2) [OF o] unfolding st1_def by simp
qed

definition full_rt :: "unit rt" where
  "full_rt = call_rt\<lparr>rt_AllocFrame := (\<lambda>_ vm. (None, vm))\<rparr>"

theorem frame_allocation_failure_witness:
  "CallInterpreterStackless plain_call 5 full_rt F_V4_V4_ID16 call_state = None \<and>
   (\<exists>st'. CreateAndSetFrame plain_call full_rt F_V4_V4_ID16 5 call_state = Some (False, None, st') \<and> HasPendingException (st_vm st'))"
proof -
  have o: "at_inst full_rt GetOpcode (call_state\<lparr>st_vm := st_vm call_state\<rparr>) = Some 0x96"
    by (simp add: at_inst_def call_state_def sample_state_def code_of_def call_rt_def full_rt_def GetOpcode_def word_le_nat_alt)
  have v: "rt_Verify full_rt 5 (st_vm call_state) = (True, st_vm call_state)" "rt_AllocFrame full_rt 3 (st_vm call_state) = (None, st_vm call_state)"
    by (simp_all add: full_rt_def call_rt_def sample_rt_def)
  have l: "frame_layout plain_call full_rt F_V4_V4_ID16 (mi_num_args (rt_method full_rt 5)) (mi_num_vregs (rt_method full_rt 5))
      (call_state\<lparr>st_vm := st_vm call_state\<rparr>) = Some (2, 3, 3)"
    by (simp add: frame_layout_def full_rt_def call_rt_def)
  have t: "HasPendingException (st_vm (Throw full_rt OutOfMemoryError call_state))"
    by (simp add: Throw_def full_rt_def call_rt_def sample_rt_def HasPendingException_def)
  obtain st' where st': "CreateAndSetFrame plain_call full_rt F_V4_V4_ID16 5 call_state = Some (False, None, st')"
    "st' = (Throw full_rt OutOfMemoryError call_state)\<lparr>st_opext := st_opext st'\<rparr>"
    "CallInterpreterStackless plain_call 5 full_rt F_V4_V4_ID16 call_state = None"
    using frame_allocation_failure [OF v(1) l v(2) o, of no_env] by auto
  have "st_vm st' = st_vm (Throw full_rt OutOfMemoryError call_state)" by (subst st'(2)) simp
  then show ?thesis using st'(1,3) t by simp
qed

lemma GetFrame_vm: "GetFrame (st\<lparr>st_vm := vm\<rparr>) = (case vm_frames vm of [] \<Rightarrow> None | f # _ \<Rightarrow> Some f)"
  by (simp add: GetFrame_def)

text \<open>
  C37: When a safepoint at a call leaves an exception pending, the call is carried out nevertheless, with the opcode
  extension of the exception handler still set: the state is at the callee's first instruction with the exception pending,
  and the next dispatch selects entry \<open>first + 328 - call\<close> of the table, which is neither the first instruction of the callee
  nor, unless the two opcodes agree, the exception handler.
\<close>

theorem call_ignores_pending_exception:
  assumes "quiet_rt rt" "vm_frames (st_vm st) = caller # rest" "rt_TestAllFlags rt (st_vm st)"
    and "\<forall>vm. vm_frames (rt_Safepoint rt vm) = vm_frames vm \<and> HasPendingException (rt_Safepoint rt vm)"
    and "\<forall>vm. \<not> rt_HasCompiledCode rt m vm \<and> fst (rt_Verify rt m vm)" "rt_IsDebugMode rt = ee_instrumentation env"
    and "at_inst rt GetOpcode st = Some opc" "GetOpcode (mi_code (rt_method rt m)) 0 = Some opc2"
    and "HandleCall env ck m rt f st = Some st1"
  shows "st_inst st1 = (Code m, 0) \<and> HasPendingException (st_vm st1) \<and>
    GetExceptionOpcode rt st1 = Some ((opc2 AND 0xFF) + (328 - (opc AND 0xFF)))"
proof -
  define vm where "vm = rt_Safepoint rt (st_vm (put_frame (caller\<lparr>f_acc := st_acc st\<rparr>) st))"
  define st0 where "st0 = st\<lparr>st_vm := vm, st_opext := 328 - (opc AND 0xFF)\<rparr>"
  have f: "GetFrame st = Some caller" using assms(2) by (simp add: GetFrame_def)
  have vm: "vm_frames vm = caller\<lparr>f_acc := st_acc st\<rparr> # rest" "HasPendingException vm"
    using assms(2,4) by (simp_all add: vm_def put_frame_def)
  have "Safepoint rt st = Some (st\<lparr>st_vm := vm\<rparr>)"
    using f vm(1) by (simp add: Safepoint_def call_runtime_def SetAcc_frame_def GetAcc_frame_def GetFrame_vm vm_def [symmetric])
      (simp add: put_frame_def)
  moreover have "MoveToExceptionHandler rt (st\<lparr>st_vm := vm\<rparr>) = Some st0"
    using MoveToExceptionHandler_eq(1) [of rt "st\<lparr>st_vm := vm\<rparr>" opc] assms(7) by (simp add: st0_def)
  ultimately have "HandleCallPrologue rt m st = Some st0"
    using assms(3) vm(2) by (simp add: HandleCallPrologue_def)
  then have "CallInterpreterStackless ck m rt f st0 = Some st1" using assms(5,6,9) by (simp add: HandleCall_def)
  from CallInterpreterStackless_enters [OF assms(1) _ _ this, of "caller\<lparr>f_acc := st_acc st\<rparr>" rest] vm assms(5)
  have "st_inst st1 = (Code m, 0)" "st_opext st1 = 328 - (opc AND 0xFF)" "HasPendingException (st_vm st1)"
    by (auto simp: st0_def HasPendingException_def)
  then show ?thesis using assms(8) by (simp add: GetExceptionOpcode_def at_inst_def code_of_def)
qed

lemma call_rt_operands:
  assumes "st_inst st = (Code 0, 0)" "rt_method rt = rt_method call_rt"
  shows "inst_VReg rt F_V4_V4_ID16 0 st = Some 1" "inst_VReg rt F_V4_V4_ID16 (Suc 0) st = Some 0" "at_inst rt GetOpcode st = Some 0x96"
  using assms by (simp_all add: inst_VReg_def at_inst_def code_of_def call_decode)
    (simp_all add: call_rt_def call_decode GetOpcode_def word_le_nat_alt)

definition exc_rt :: "unit rt" where
  "exc_rt = call_rt\<lparr>rt_TestAllFlags := (\<lambda>_. True), rt_Safepoint := (\<lambda>vm. vm\<lparr>vm_exception := 16\<rparr>)\<rparr>"

lemma call_rt_sel:
  "rt_method call_rt 5 = \<lparr>mi_code = [0x92], mi_num_vregs = 1, mi_num_args = 2, mi_static = True, mi_abstract = False, mi_constructor = False, mi_class = 0\<rparr>"
  "rt_AllocFrame call_rt n vm = (Some (replicate n vreg0), vm)" "rt_Verify call_rt m vm = (True, vm)"
  "rt_MethodEntryEvent call_rt m vm = vm" "rt_HasCompiledCode call_rt m vm = False" "rt_IsDebugMode call_rt = False"
  "rt_IncrementHotnessCounter call_rt m vm = vm" "rt_TestAllFlags call_rt vm = False" "rt_MethodExitEvent call_rt m vm = vm"
  by (simp_all add: call_rt_def sample_rt_def)

lemma exc_rt_sel:
  "rt_method exc_rt = rt_method call_rt" "rt_AllocFrame exc_rt n vm = (Some (replicate n vreg0), vm)" "rt_Verify exc_rt m vm = (True, vm)"
  "rt_MethodEntryEvent exc_rt m vm = vm" "rt_HasCompiledCode exc_rt m vm = False" "rt_IsDebugMode exc_rt = False"
  "rt_IncrementHotnessCounter exc_rt m vm = vm" "rt_TestAllFlags exc_rt vm = True" "rt_MethodExitEvent exc_rt m vm = vm"
  "rt_Safepoint exc_rt vm = vm\<lparr>vm_exception := 16\<rparr>"
  by (simp_all add: exc_rt_def call_rt_sel)

lemma quiet_samples: "quiet_rt call_rt" "quiet_rt exc_rt"
  by (simp_all add: quiet_rt_def keeps_def call_rt_sel exc_rt_sel)

lemma call_stackless:
  assumes "rt \<in> {call_rt, exc_rt}" "st_inst st = (Code 0, 0)" "vm_frames (st_vm st) = [fr]" "length (f_vregs fr) = 2"
  shows "\<exists>st1. CallInterpreterStackless plain_call 5 rt F_V4_V4_ID16 st = Some st1"
proof -
  have rt: "rt_method rt = rt_method call_rt" "rt_AllocFrame rt n vm = (Some (replicate n vreg0), vm)" "rt_Verify rt m vm = (True, vm)"
    "rt_MethodEntryEvent rt m vm = vm" for n m vm
    using assms(1) by (auto simp: call_rt_sel exc_rt_sel)
  show ?thesis
    using assms(2-4) rt
    by (simp add: CallInterpreterStackless_def VerifyMethod_def CreateAndSetFrame_def frame_layout_def CopyArguments_def frame_write_def frame_at_def
        CopyCallShortArguments_def put_initobj_def arg_reg_def call_rt_operands read_vreg_def GetFrame_def frame_GetVReg_def
        frame_SetVReg_def make_frame_def push_frame_def Let_def UpdateInstructionHandlerState_def MoveToNextInst_def call_rt_sel)
qed

lemma exc_call: "\<exists>st1. HandleCall no_env plain_call 5 exc_rt F_V4_V4_ID16 call_state = Some st1"
proof -
  have i: "st_inst call_state = (Code 0, 0)" by (simp add: call_state_def sample_state_def)
  define fr where "fr = sample_frame\<lparr>f_vregs := [SetPrimitive True (7 :: u32) vreg0, SetPrimitive True (9 :: u32) vreg0], f_acc := vreg0\<rparr>"
  define st where "st = call_state\<lparr>st_vm := (st_vm call_state)\<lparr>vm_frames := [fr], vm_exception := 16\<rparr>\<rparr>"
  have "Safepoint exc_rt call_state = Some st"
    by (simp add: Safepoint_def call_runtime_def SetAcc_frame_def GetAcc_frame_def put_frame_def GetFrame_def exc_rt_sel st_def fr_def)
      (simp add: call_state_def sample_state_def)
  moreover have "at_inst exc_rt GetOpcode st = Some 0x96"
    by (rule call_rt_operands) (simp_all add: st_def i exc_rt_sel)
  ultimately have "HandleCallPrologue exc_rt 5 call_state = Some (st\<lparr>st_opext := 328 - (0x96 AND 0xFF)\<rparr>)"
    using MoveToExceptionHandler_eq(1) [of exc_rt st "0x96"] by (simp add: HandleCallPrologue_def exc_rt_sel HasPendingException_def st_def)
  then show ?thesis
    using call_stackless [of exc_rt "st\<lparr>st_opext := 328 - (0x96 AND 0xFF)\<rparr>" fr]
    by (simp add: HandleCall_def exc_rt_sel no_env_def st_def i fr_def)
qed

theorem call_ignores_pending_exception_witness:
  "\<exists>st1. HandleCall no_env plain_call 5 exc_rt F_V4_V4_ID16 call_state = Some st1 \<and> HasPendingException (st_vm st1) \<and>
     GetExceptionOpcode exc_rt st1 = Some 324"
proof -
  obtain st1 where st1: "HandleCall no_env plain_call 5 exc_rt F_V4_V4_ID16 call_state = Some st1" using exc_call by blast
  have "vm_frames (st_vm call_state) = [sample_frame\<lparr>f_vregs := [SetPrimitive True (7 :: u32) vreg0, SetPrimitive True (9 :: u32) vreg0]\<rparr>]"
    by (simp add: call_state_def)
  moreover have "at_inst exc_rt GetOpcode call_state = Some 0x96"
    by (rule call_rt_operands) (simp_all add: call_state_def sample_state_def exc_rt_sel)
  moreover have "GetOpcode (mi_code (rt_method exc_rt 5)) 0 = Some 0x92"
    by (simp add: exc_rt_sel call_rt_sel GetOpcode_def word_le_nat_alt)
  ultimately show ?thesis
    using call_ignores_pending_exception [OF quiet_samples(2) _ _ _ _ _ _ _ st1, of _ "[]" "0x96" "0x92"] st1
    by (simp add: exc_rt_sel no_env_def HasPendingException_def)
qed

theorem call_and_return_witness:
  "\<exists>st1 st3. CallInterpreterStackless plain_call 5 call_rt F_V4_V4_ID16 call_state = Some st1 \<and>
     HandleReturnStackless call_rt st1 = Some st3 \<and> st_inst st3 = (Code 0, 4)"
proof -
  define fr where "fr = sample_frame\<lparr>f_vregs := [SetPrimitive True (7 :: u32) vreg0, SetPrimitive True (9 :: u32) vreg0]\<rparr>"
  have c: "vm_frames (st_vm call_state) = [fr]" "st_inst call_state = (Code 0, 0)" "\<not> HasPendingException (st_vm call_state)"
    by (simp_all add: call_state_def fr_def sample_state_def sample_vm_def HasPendingException_def)
  obtain st1 where st1: "CallInterpreterStackless plain_call 5 call_rt F_V4_V4_ID16 call_state = Some st1"
    using call_stackless [of call_rt call_state fr] c by (auto simp: fr_def)
  have v: "fst (rt_Verify call_rt 5 (st_vm call_state))" by (simp add: call_rt_sel)
  obtain fr1 where "vm_frames (st_vm st1) = fr1 # tl (vm_frames (st_vm st1))" "\<not> HasPendingException (st_vm st1)"
    using CallInterpreterStackless_enters [OF quiet_samples(1) c(1) v st1] c(3) by (auto simp: HasPendingException_def)
  moreover from this have "f_flags fr1 = f_flags (hd (vm_frames (st_vm st1)))" by (metis list.sel(1))
  ultimately show ?thesis
    using call_and_return [OF quiet_samples(1) c(1) v st1, of st1 fr1] st1 c(2)
    by (auto simp: InstSize_def opcode_bits_def prefixed_def)
qed

fun catch_search :: "'w rt \<Rightarrow> (method_id \<Rightarrow> u32 \<Rightarrow> u32) \<Rightarrow> u32 \<Rightarrow> frame list \<Rightarrow> u32 \<times> frame list" where
  "catch_search rt catch pc [] = (INVALID_OFFSET, [])"
| "catch_search rt catch pc (fr # rest) =
     (if catch (f_method fr) pc \<noteq> INVALID_OFFSET then (catch (f_method fr) pc, fr # rest)
      else if rest = [] \<or> \<not> IsStackless fr \<or> rt_IsBoundaryFrame rt (hd rest) then (INVALID_OFFSET, fr # rest)
      else catch_search rt catch (f_bc_offset (hd rest)) rest)"

definition code_frame :: "frame \<Rightarrow> bool" where
  "code_frame fr \<longleftrightarrow> f_inst fr = (Code (f_method fr), 0)"

definition insn_pc :: "'w rt \<Rightarrow> 'w istate \<Rightarrow> method_id \<Rightarrow> u32" where
  "insn_pc rt st m = ucast (inst_address rt st - rt_address rt (Code m))"

lemma insn_pc_code: "st_inst st = ip_plus (Code m, 0) off \<Longrightarrow> insn_pc rt st m = off"
  by (simp add: insn_pc_def inst_address_def ip_plus_def) (auto intro!: bit_word_eqI simp: bit_ucast_iff)

text \<open>
  C24: Unwinding terminates within as many iterations as there are frames and stops where the specification
  \<open>catch_search\<close> says: at the innermost frame whose method has a handler for the pending exception at the frame's
  instruction, if all frames above it belong to the same interpreter loop, and otherwise at the outermost frame of the
  loop with no handler. It removes exactly the frames above, and the exception stays pending.
\<close>

theorem exception_unwinding:
  assumes "quiet_rt rt"
    and "\<forall>m e pc vm. fst (rt_FindCatchBlock rt m e pc vm) = catch m e pc \<and> keeps (\<lambda>vm. snd (rt_FindCatchBlock rt m e pc vm))"
    and "vm_frames (st_vm st) = fr # rest" "\<forall>g \<in> set rest. code_frame g" "HasPendingException (st_vm st)"
  shows "\<exists>off st'. FindCatchBlockStackless (length (vm_frames (st_vm st))) False rt st = Some (off, st') \<and>
    (off, vm_frames (st_vm st')) =
      catch_search rt (\<lambda>m. catch m (vm_exception (st_vm st))) (insn_pc rt st (f_method fr)) (vm_frames (st_vm st)) \<and>
    vm_exception (st_vm st') = vm_exception (st_vm st)"
  using assms(3-5)
proof (induction rest arbitrary: fr st)
  case Nil
  obtain off vm where f: "rt_FindCatchBlock rt (f_method fr) (vm_exception (st_vm st)) (insn_pc rt st (f_method fr)) (st_vm st) = (off, vm)"
    by fastforce
  then have "off = catch (f_method fr) (vm_exception (st_vm st)) (insn_pc rt st (f_method fr))"
    "vm_frames vm = [fr]" "vm_exception vm = vm_exception (st_vm st)"
    using assms(2) Nil(1) unfolding keeps_def by (metis fst_conv snd_conv)+
  then show ?case
    using Nil f by (simp add: InstrumentInstruction_def GetMethod_def GetFrame_def insn_pc_def)
next
  case (Cons prev rest)
  let ?m = "f_method fr" and ?e = "vm_exception (st_vm st)"
  obtain off vm where f: "rt_FindCatchBlock rt ?m ?e (insn_pc rt st ?m) (st_vm st) = (off, vm)" by fastforce
  then have v: "off = catch ?m ?e (insn_pc rt st ?m)" "vm_frames vm = fr # prev # rest" "vm_exception vm = ?e"
    using assms(2) Cons.prems(1) unfolding keeps_def by (metis fst_conv snd_conv)+
  define vm1 where "vm1 = rt_MethodExitEvent rt ?m vm"
  have v1: "vm_frames vm1 = fr # prev # rest" "vm_exception vm1 = ?e"
    using keepsD [OF quiet_rtD(2) [OF assms(1)], of ?m vm] v by (simp_all add: vm1_def)
  define st1 where "st1 = st\<lparr>st_vm := vm1\<lparr>vm_frames := prev # rest\<rparr>, st_inst := ip_plus (f_inst prev) (f_bc_offset prev),
    st_instructions := f_inst prev\<rparr>"
  define st2 where "st2 = (if IsInitobj fr then st1\<lparr>st_acc := f_acc prev\<rparr> else st1)"
  have pop: "pop_frame (st\<lparr>st_vm := vm1\<rparr>) = Some (fr, prev, st1)"
    using v1 by (simp add: pop_frame_def UpdateInstructionHandlerState_def GetFrame_def st1_def)
  have st2: "vm_frames (st_vm st2) = prev # rest" "vm_exception (st_vm st2) = ?e" "insn_pc rt st2 (f_method prev) = f_bc_offset prev"
    using v1 Cons.prems(2) insn_pc_code [of st2 "f_method prev" "f_bc_offset prev"] by (simp_all add: st2_def st1_def code_frame_def)
  have pend: "HasPendingException (st_vm st1)" "HasPendingException (st_vm st2)"
    using Cons.prems(3) st2(2) v1(2) by (simp_all add: HasPendingException_def st1_def)
  have step: "FindCatchBlockStackless (length (vm_frames (st_vm st))) False rt st =
      (if off \<noteq> INVALID_OFFSET \<or> \<not> IsStackless fr \<or> rt_IsBoundaryFrame rt prev then Some (off, st\<lparr>st_vm := vm\<rparr>)
       else FindCatchBlockStackless (length (vm_frames (st_vm st2))) False rt st2)"
    using Cons.prems(1,3) f v pop pend st2(1) unfolding vm1_def st2_def
    by (auto simp: InstrumentInstruction_def GetMethod_def GetFrame_def insn_pc_def Let_def)
  show ?case
  proof (cases "off \<noteq> INVALID_OFFSET \<or> \<not> IsStackless fr \<or> rt_IsBoundaryFrame rt prev")
    case True
    then show ?thesis using step v Cons.prems(1) by auto
  next
    case False
    then show ?thesis
      using step Cons.IH [of st2 prev] st2 pend(2) Cons.prems(1,2) v(1) by auto
  qed
qed

definition catch_rt :: "unit rt" where
  "catch_rt = call_rt\<lparr>rt_FindCatchBlock := (\<lambda>m _ _ vm. (if m = 0 then 12 else INVALID_OFFSET, vm))\<rparr>"

definition catch_state :: "unit istate" where
  "catch_state = call_state\<lparr>st_vm := (st_vm call_state)\<lparr>vm_exception := 16,
     vm_frames := [set_frame_flag IS_STACKLESS (make_frame 5 [] 0 0), sample_frame]\<rparr>\<rparr>"

theorem exception_unwinding_witness:
  "\<exists>st'. FindCatchBlockStackless (length (vm_frames (st_vm catch_state))) False catch_rt catch_state = Some (12, st') \<and> vm_frames (st_vm st') = [sample_frame]"
proof -
  have c: "vm_frames (st_vm catch_state) = [set_frame_flag IS_STACKLESS (make_frame 5 [] 0 0), sample_frame]"
    "HasPendingException (st_vm catch_state)" by (simp_all add: catch_state_def HasPendingException_def)
  have f: "f_method (set_frame_flag IS_STACKLESS (make_frame 5 [] 0 0)) = 5" "IsStackless (set_frame_flag IS_STACKLESS (make_frame 5 [] 0 0))"
    by (simp_all add: set_frame_flag_def make_frame_def frame_flag_def IS_STACKLESS_def)
  have g: "f_method sample_frame = 0" "code_frame sample_frame" by (simp_all add: sample_frame_def make_frame_def code_frame_def)
  have r: "rt_FindCatchBlock catch_rt m e pc vm = (if m = 0 then 12 else INVALID_OFFSET, vm)" "\<not> rt_IsBoundaryFrame catch_rt fr" for m e pc vm fr
    by (simp_all add: catch_rt_def call_rt_def sample_rt_def)
  have i: "(12 :: u32) \<noteq> INVALID_OFFSET" by (simp add: INVALID_OFFSET_def)
  have "quiet_rt catch_rt" by (simp add: quiet_rt_def keeps_def catch_rt_def call_rt_sel)
  from exception_unwinding [OF this, of "\<lambda>m _ _. if m = 0 then 12 else INVALID_OFFSET", OF _ c(1) _ c(2)]
  show ?thesis
    by (auto simp: r keeps_def f g c(1) i simp del: FindCatchBlockStackless.simps)
qed

end
