(* ===== verification/LoopStates.thy ===== *)
theory LoopStates
  imports InterpreterLoop CallProperties
begin

text \<open>
  What the interpreter loop keeps between two instructions. \<open>ctl_of\<close> is the part of a frame that decides where control goes;
  \<open>stack_ok\<close> says that the frames of a loop are well formed. \<open>runtime_ok\<close> collects what the loop relies on of the runtime.
  \<open>runtime_reports\<close>: the runtime leaves the control data of the frames alone, reports a failure exactly by a pending
  exception, and its notifications do not throw. \<open>polls_quiet\<close>: a safepoint and the resolution of a string do not throw
  either. This is a restriction: \<open>InstrumentBranches\<close> and \<open>HandleCallPrologue\<close> do look for an exception after a safepoint, but
  what they do about it does not reach the exception handler (the last theorem of \<open>LoopProperties\<close> shows it for a jump, and
  \<open>CallProperties\<close> for a call), and \<open>HandleLdaStr\<close> does not look.
\<close>

subsection \<open>Control data of the frames\<close>

record ctl =
  c_method :: method_id
  c_inst :: ip
  c_next :: ip
  c_stackless :: bool

definition ctl_of :: "frame \<Rightarrow> ctl" where
  "ctl_of fr = \<lparr>c_method = f_method fr, c_inst = f_inst fr, c_next = f_next_inst fr, c_stackless = IsStackless fr\<rparr>"

definition ctls :: "'w vm \<Rightarrow> ctl list" where
  "ctls vm = map ctl_of (vm_frames vm)"

record base =
  b_method :: method_id
  b_below :: "ctl list"

text \<open>
  The frames of one interpreter loop that was entered for method \<open>b_method B\<close> on top of the frames \<open>b_below B\<close>: stackless ones,
  down to the entry frame, which is not. Every frame points to the code of its method, and every caller knows where in that
  code to go on.
\<close>

fun callers_ok :: "base \<Rightarrow> ctl list \<Rightarrow> bool" where
  "callers_ok B [] = False"
| "callers_ok B (c # cs) \<longleftrightarrow>
     fst (c_inst c) = Code (c_method c) \<and> fst (c_next c) = Code (c_method c) \<and>
     (if c_stackless c then callers_ok B cs else c_method c = b_method B \<and> cs = b_below B)"

fun stack_ok :: "base \<Rightarrow> ctl list \<Rightarrow> bool" where
  "stack_ok B [] = False"
| "stack_ok B (c # cs) \<longleftrightarrow>
     fst (c_inst c) = Code (c_method c) \<and> (if c_stackless c then callers_ok B cs else c_method c = b_method B \<and> cs = b_below B)"

lemma callers_stack: "callers_ok B cs \<Longrightarrow> stack_ok B cs"
  by (cases cs) auto

subsection \<open>What the loop relies on of the runtime\<close>

definition quiet :: "'w vm \<Rightarrow> 'w vm \<Rightarrow> bool" where
  "quiet vm vm' \<longleftrightarrow> ctls vm' = ctls vm \<and> HasPendingException vm' = HasPendingException vm"

definition reports :: "bool \<Rightarrow> 'w vm \<Rightarrow> 'w vm \<Rightarrow> bool" where
  "reports failed vm vm' \<longleftrightarrow> ctls vm' = ctls vm \<and> (\<not> HasPendingException vm \<longrightarrow> (HasPendingException vm' \<longleftrightarrow> failed))"

definition polls_quiet :: "'w rt \<Rightarrow> bool" where
  "polls_quiet rt \<longleftrightarrow>
     (\<forall>vm. quiet vm (rt_Safepoint rt vm)) \<and> (\<forall>m i vm r vm'. rt_ResolveString rt m i vm = (r, vm') \<longrightarrow> quiet vm vm')"

definition runtime_reports :: "'w rt \<Rightarrow> bool" where
  "runtime_reports rt \<longleftrightarrow>
     (\<forall>e vm. ctls (rt_Throw rt e vm) = ctls vm \<and> HasPendingException (rt_Throw rt e vm)) \<and>
     (\<forall>m i vm r vm'. rt_ResolveLiteralArray rt m i vm = (r, vm') \<longrightarrow> reports (r = nullptr) vm vm') \<and>
     (\<forall>m i vm r vm'. rt_ResolveMethod rt m i vm = (r, vm') \<longrightarrow> reports (r = None) vm vm') \<and>
     (\<forall>m i vm r vm'. rt_ResolveField rt m i vm = (r, vm') \<longrightarrow> reports (r = None) vm vm') \<and>
     (\<forall>b m i vm r vm'. rt_ResolveClass rt b m i vm = (r, vm') \<longrightarrow> reports (r = None) vm vm') \<and>
     (\<forall>m i vm r vm'. rt_GetMethodClass rt m i vm = (r, vm') \<longrightarrow> reports (r = None) vm vm') \<and>
     (\<forall>c n vm r vm'. rt_CreateArray rt c n vm = (r, vm') \<longrightarrow> reports (r = nullptr) vm vm') \<and>
     (\<forall>c n g vm r vm'. rt_CreateMultiDimensionalArray rt c n g vm = Some (r, vm') \<longrightarrow> reports (r = nullptr) vm vm') \<and>
     (\<forall>c vm r vm'. rt_CreateObject rt c vm = (r, vm') \<longrightarrow> reports (r = nullptr) vm vm') \<and>
     (\<forall>n vm r vm'. rt_AllocFrame rt n vm = (r, vm') \<longrightarrow> quiet vm vm') \<and>
     (\<forall>m e pc vm r vm'. rt_FindCatchBlock rt m e pc vm = (r, vm') \<longrightarrow> quiet vm vm') \<and>
     (\<forall>m vm. quiet vm (rt_IncrementHotnessCounter rt m vm)) \<and>
     (\<forall>m off a vm osr a' vm'. rt_IncrementHotnessCounterOSR rt m off a vm = (osr, a', vm') \<longrightarrow>
        ctls vm' = ctls vm \<and> (\<not> osr \<longrightarrow> quiet vm vm')) \<and>
     (\<forall>d i m vm. \<exists>xs. ctls (rt_CompiledCodeBridge rt d i m vm) = xs @ ctls vm) \<and>
     (\<forall>m vm ok vm'. rt_Verify rt m vm = (ok, vm') \<longrightarrow> quiet vm vm') \<and>
     (\<forall>m vm. quiet vm (rt_MethodEntryEvent rt m vm)) \<and>
     (\<forall>m vm. quiet vm (rt_MethodExitEvent rt m vm)) \<and>
     (\<forall>m off c vm. quiet vm (rt_UpdateInlineCaches rt m off c vm)) \<and>
     (\<forall>vm. quiet vm (rt_BytecodePcChangedEvent rt vm)) \<and>
     (\<forall>m off vm. quiet vm (rt_ExceptionCatchEvent rt m off vm)) \<and>
     (\<forall>e vm. ctls (rt_FindCatchBlockInCallStack rt e vm) = ctls vm) \<and>
     (\<forall>fr. fst (f_inst fr) = Code (f_method fr) \<longrightarrow> \<not> rt_IsBoundaryFrame rt fr)"

definition runtime_ok :: "'w rt \<Rightarrow> bool" where
  "runtime_ok rt \<longleftrightarrow> runtime_reports rt \<and> polls_quiet rt"

lemma runtime_okD:
  assumes "runtime_ok rt"
  shows "ctls (rt_Throw rt e vm) = ctls vm" "HasPendingException (rt_Throw rt e vm)"
    "rt_ResolveString rt m i vm = (s, vm') \<Longrightarrow> quiet vm vm'"
    "rt_ResolveLiteralArray rt m i vm = (s, vm') \<Longrightarrow> reports (s = nullptr) vm vm'"
    "rt_ResolveMethod rt m i vm = (r, vm') \<Longrightarrow> reports (r = None) vm vm'"
    "rt_ResolveField rt m i vm = (r, vm') \<Longrightarrow> reports (r = None) vm vm'"
    "rt_ResolveClass rt b m i vm = (r, vm') \<Longrightarrow> reports (r = None) vm vm'"
    "rt_GetMethodClass rt m i vm = (r, vm') \<Longrightarrow> reports (r = None) vm vm'"
    "rt_CreateArray rt c i vm = (s, vm') \<Longrightarrow> reports (s = nullptr) vm vm'"
    "rt_CreateMultiDimensionalArray rt c n g vm = Some (s, vm') \<Longrightarrow> reports (s = nullptr) vm vm'"
    "rt_CreateObject rt c vm = (s, vm') \<Longrightarrow> reports (s = nullptr) vm vm'"
    "rt_AllocFrame rt n vm = (mem, vm') \<Longrightarrow> quiet vm vm'"
    "rt_FindCatchBlock rt m s pc vm = (off, vm') \<Longrightarrow> quiet vm vm'"
    "quiet vm (rt_Safepoint rt vm)" "quiet vm (rt_IncrementHotnessCounter rt m vm)"
    "rt_IncrementHotnessCounterOSR rt m i a vm = (osr, a', vm') \<Longrightarrow> ctls vm' = ctls vm \<and> (\<not> osr \<longrightarrow> quiet vm vm')"
    "rt_Verify rt m vm = (ok, vm') \<Longrightarrow> quiet vm vm'"
    "quiet vm (rt_MethodEntryEvent rt m vm)" "quiet vm (rt_MethodExitEvent rt m vm)" "quiet vm (rt_UpdateInlineCaches rt m i c vm)"
    "quiet vm (rt_BytecodePcChangedEvent rt vm)" "quiet vm (rt_ExceptionCatchEvent rt m i vm)"
    "ctls (rt_FindCatchBlockInCallStack rt s vm) = ctls vm" "fst (f_inst fr) = Code (f_method fr) \<Longrightarrow> \<not> rt_IsBoundaryFrame rt fr"
  using assms by (simp_all add: runtime_ok_def runtime_reports_def polls_quiet_def)

lemma runtime_ok_bridge: "runtime_ok rt \<Longrightarrow> \<exists>xs. ctls (rt_CompiledCodeBridge rt d p m vm) = xs @ ctls vm"
  by (cases p) (simp add: runtime_ok_def runtime_reports_def)

subsection \<open>States of the loop\<close>

text \<open>
  \<open>ready\<close>: before an ordinary instruction of the current frame's method; \<open>faulted\<close>: an exception is pending;
  \<open>raised\<close>: moreover the next dispatch goes to the exception handler; \<open>replaced\<close>: compiled code has finished the current
  method, and what is left is to return from it.
\<close>

definition key :: "'w istate \<Rightarrow> ctl list \<times> bool \<times> u16 \<times> code_base" where
  "key st = (ctls (st_vm st), HasPendingException (st_vm st), st_opext st, fst (st_inst st))"

definition ready :: "base \<Rightarrow> 'w istate \<Rightarrow> bool" where
  "ready B st \<longleftrightarrow> (case key st of (cs, pending, ext, code) \<Rightarrow>
     stack_ok B cs \<and> \<not> pending \<and> ext = 0 \<and> code = Code (c_method (hd cs)))"

definition faulted :: "base \<Rightarrow> 'w istate \<Rightarrow> bool" where
  "faulted B st \<longleftrightarrow> stack_ok B (ctls (st_vm st)) \<and> HasPendingException (st_vm st)"

definition raised :: "'w rt \<Rightarrow> base \<Rightarrow> 'w istate \<Rightarrow> bool" where
  "raised rt B st \<longleftrightarrow> faulted B st \<and> GetExceptionOpcode rt st = Some EXCEPTION_OPCODE"

definition replaced :: "'w rt \<Rightarrow> base \<Rightarrow> 'w istate \<Rightarrow> bool" where
  "replaced rt B st \<longleftrightarrow> rt_SupportOSR rt \<and> stack_ok B (ctls (st_vm st)) \<and> st_opext st = 0 \<and> st_inst st = (FakeInstBuf, 0)"

lemma ready_key: "key st' = key st \<Longrightarrow> ready B st' = ready B st"
  by (simp add: ready_def)

lemma readyI:
  "ready B st \<Longrightarrow> ctls (st_vm st') = ctls (st_vm st) \<Longrightarrow> HasPendingException (st_vm st') = HasPendingException (st_vm st) \<Longrightarrow>
   st_opext st' = st_opext st \<Longrightarrow> fst (st_inst st') = fst (st_inst st) \<Longrightarrow> ready B st'"
  by (simp add: ready_def key_def)

lemma ready_quiet: "ready B st \<Longrightarrow> quiet (st_vm st) vm \<Longrightarrow> ready B (st\<lparr>st_vm := vm\<rparr>)"
  by (erule readyI) (simp_all add: quiet_def)

lemma ready_reports:
  "ready B st \<Longrightarrow> reports False (st_vm st) vm \<Longrightarrow> ready B (st\<lparr>st_vm := vm\<rparr>)"
  "ready B st \<Longrightarrow> reports True (st_vm st) vm \<Longrightarrow> faulted B (st\<lparr>st_vm := vm\<rparr>)"
  by (auto simp: ready_def key_def reports_def faulted_def)

lemma ready_upd [simp]:
  "ready B (st\<lparr>st_acc := r\<rparr>) = ready B st" "faulted B (st\<lparr>st_acc := r\<rparr>) = faulted B st"
  "ready B (set_acc r st) = ready B st" "faulted B (set_acc r st) = faulted B st"
  "ready B (put_heap h st) = ready B st" "ready B (barrier g st) = ready B st"
  "faulted B (st\<lparr>st_opext := x\<rparr>) = faulted B st"
  "ready B (st\<lparr>st_vm := (st_vm st)\<lparr>vm_cache := c\<rparr>\<rparr>) = ready B st"
  "ready B (st\<lparr>st_vm := (st_vm st)\<lparr>vm_statics := s\<rparr>\<rparr>) = ready B st"
  by (simp_all add: ready_def key_def faulted_def set_acc_def put_heap_def barrier_def ctls_def HasPendingException_def)

lemma ready_next [simp]: "ready B st \<Longrightarrow> ready B (MoveToNextInst f b st)" "ready B st \<Longrightarrow> ready B (JumpToInst b i st)"
  by (simp_all add: ready_def key_def MoveToNextInst_def JumpToInst_def)

lemma ctls_put_frame:
  "GetFrame st = Some fr \<Longrightarrow> ctl_of fr' = ctl_of fr \<Longrightarrow> ctls (st_vm (put_frame fr' st)) = ctls (st_vm st)"
  by (auto simp: ctls_def put_frame_def GetFrame_def split: list.splits)

lemma ready_put_frame:
  assumes "GetFrame st = Some fr" "ctl_of fr' = ctl_of fr"
  shows "ready B (put_frame fr' st) = ready B st" "faulted B (put_frame fr' st) = faulted B st"
  using ctls_put_frame [OF assms] by (simp_all add: ready_def key_def faulted_def) (simp_all add: put_frame_def HasPendingException_def)

lemma ctl_upd [simp]:
  "ctl_of (fr\<lparr>f_acc := r\<rparr>) = ctl_of fr" "ctl_of (fr\<lparr>f_bc_offset := x\<rparr>) = ctl_of fr"
  by (simp_all add: ctl_of_def frame_flag_def)

lemma frame_SetVReg_ctl: "frame_SetVReg i r fr = Some fr' \<Longrightarrow> ctl_of fr' = ctl_of fr"
  by (auto simp: frame_SetVReg_def ctl_of_def frame_flag_def split: if_splits)

lemma frame_ops:
  "SetAcc_frame st = Some st' \<Longrightarrow> (ready B st' = ready B st) \<and> (faulted B st' = faulted B st)"
  "GetAcc_frame st = Some st' \<Longrightarrow> (ready B st' = ready B st) \<and> (faulted B st' = faulted B st)"
  "UpdateBytecodeOffset st = Some st' \<Longrightarrow> (ready B st' = ready B st) \<and> (faulted B st' = faulted B st)"
  "write_vreg i r st = Some st' \<Longrightarrow> (ready B st' = ready B st) \<and> (faulted B st' = faulted B st)"
  "upd_vreg i g st = Some st' \<Longrightarrow> (ready B st' = ready B st) \<and> (faulted B st' = faulted B st)"
  by (auto simp: SetAcc_frame_def GetAcc_frame_def UpdateBytecodeOffset_def write_vreg_def upd_vreg_def ready_put_frame
      split: bind_splits dest: frame_SetVReg_ctl)

lemma set_acc_int_ready: "set_acc_int sg v st = Some st' \<Longrightarrow> ready B st' = ready B st"
  by (auto simp: set_acc_int_def)

lemma Throw_faulted: "runtime_ok rt \<Longrightarrow> ready B st \<Longrightarrow> faulted B (Throw rt e st)"
  by (simp add: ready_def key_def faulted_def Throw_def runtime_okD)

lemma MoveToExceptionHandler_raised: "MoveToExceptionHandler rt st = Some st' \<Longrightarrow> faulted B st \<Longrightarrow> raised rt B st'"
  using MoveToExceptionHandler_eq [of rt st]
  by (auto simp: raised_def MoveToExceptionHandler_def GetPrimaryOpcode_def EXCEPTION_OPCODE_def NUM_PREFIXED_def split: bind_splits)

lemma throw_raised: "throw_to_handler rt e st = Some st' \<Longrightarrow> runtime_ok rt \<Longrightarrow> ready B st \<Longrightarrow> raised rt B st'"
  using Throw_faulted MoveToExceptionHandler_raised by (fastforce simp: throw_to_handler_def)

lemma call_runtime_ready:
  assumes "call_runtime g st = Some (x, st')" "ready B st"
    and "\<And>vm vm'. g vm = (x, vm') \<Longrightarrow> reports failed vm vm'"
  shows "if failed then faulted B st' else ready B st'"
proof -
  obtain st1 vm where s: "SetAcc_frame st = Some st1" "g (st_vm st1) = (x, vm)" "GetAcc_frame (st1\<lparr>st_vm := vm\<rparr>) = Some st'"
    using assms(1) by (auto simp: call_runtime_def split: bind_splits prod.splits)
  have "ready B st1" using frame_ops(1) [OF s(1)] assms(2) by simp
  then show ?thesis using frame_ops(2) [OF s(3)] assms(3) [OF s(2)] ready_reports [of B st1 vm] by (cases failed) simp_all
qed

lemma quiet_reports: "quiet vm vm' \<Longrightarrow> reports False vm vm'"
  by (simp add: quiet_def reports_def)

end
