(* ===== verification/LoopHandlers.thy ===== *)
theory LoopHandlers
  imports LoopStates
begin

text \<open>
  Every handler of the dispatch table keeps the invariant of the loop: after a handler that is dispatched with
  \<open>GetPrimaryOpcode\<close> no exception is pending, after one dispatched with \<open>GetExceptionOpcode\<close> either none is pending or the
  next entry is the exception handler. The rules of \<open>vcg\<close> reduce a handler to the specifications of the operations it calls.
\<close>

subsection \<open>Handlers without calls\<close>

fun leaves :: "dispatch_kind \<Rightarrow> 'w rt \<Rightarrow> base \<Rightarrow> 'w istate \<Rightarrow> bool" where
  "leaves DPrimary rt B st \<longleftrightarrow> ready B st \<or> replaced rt B st"
| "leaves DException rt B st \<longleftrightarrow> ready B st \<or> raised rt B st"
| "leaves DReturn rt B st \<longleftrightarrow> ready B st"

definition calm :: "('w istate \<Rightarrow> 'w istate option) \<Rightarrow> bool" where
  "calm h \<longleftrightarrow> (\<forall>B st st'. ready B st \<longrightarrow> h st = Some st' \<longrightarrow> ready B st')"

definition safe :: "dispatch_kind \<Rightarrow> 'w rt \<Rightarrow> ('w istate \<Rightarrow> 'w istate option) \<Rightarrow> bool" where
  "safe k rt h \<longleftrightarrow> (\<forall>B st st'. ready B st \<longrightarrow> h st = Some st' \<longrightarrow> leaves k rt B st')"

lemma calm_safe: "calm h \<Longrightarrow> safe k rt h"
  by (cases k) (auto simp: calm_def safe_def)

lemma Set_mem_ready: "Set_mem sl v st = Some st' \<Longrightarrow> ready B st \<Longrightarrow> ready B st'"
  by (cases sl) (auto simp: Set_mem_def put_mem_def split: bind_splits)

lemma frame_ops_ready:
  "SetAcc_frame st = Some st' \<Longrightarrow> ready B st \<Longrightarrow> ready B st'" "GetAcc_frame st = Some st' \<Longrightarrow> ready B st \<Longrightarrow> ready B st'"
  "UpdateBytecodeOffset st = Some st' \<Longrightarrow> ready B st \<Longrightarrow> ready B st'" "upd_vreg i g st = Some st' \<Longrightarrow> ready B st \<Longrightarrow> ready B st'"
  "upd_vreg i g st = Some st' \<Longrightarrow> faulted B st \<Longrightarrow> faulted B st'" "set_acc_int sg v st = Some st' \<Longrightarrow> ready B st \<Longrightarrow> ready B st'"
  using frame_ops(1-3) [of st st' B] frame_ops(5) [of i g st st' B] set_acc_int_ready [of sg v st st' B] by simp_all

lemma SetObject_ready: "SetObject rt sl ob v st = Some st' \<Longrightarrow> ready B st \<Longrightarrow> ready B st'"
  using Set_mem_ready [of sl v "barrier g st" _ B for g] by (auto simp: SetObject_def split: bind_splits)

lemma SetFieldPrimitive_ready: "SetFieldPrimitive ty sl r st = Some st' \<Longrightarrow> ready B st \<Longrightarrow> ready B st'"
  by (cases ty) (auto simp: SetFieldPrimitive_def split: bind_splits intro: Set_mem_ready)

lemma field_ready:
  "LoadPrimitiveFieldReg vd sl fi st = Some st' \<Longrightarrow> ready B st \<Longrightarrow> ready B st'" "LoadPrimitiveField sl fi st = Some st' \<Longrightarrow> ready B st \<Longrightarrow> ready B st'"
  "StorePrimitiveFieldReg vd sl fi st = Some st' \<Longrightarrow> ready B st \<Longrightarrow> ready B st'" "StorePrimitiveField sl fi st = Some st' \<Longrightarrow> ready B st \<Longrightarrow> ready B st'"
  by (auto simp: LoadPrimitiveFieldReg_def LoadPrimitiveField_def StorePrimitiveFieldReg_def StorePrimitiveField_def
      split: bind_splits intro: frame_ops_ready SetFieldPrimitive_ready)

lemmas ready_intros = ready_next frame_ops_ready SetObject_ready field_ready Set_mem_ready

lemma set_cached_ready: "set_cached rt it st = Some st' \<Longrightarrow> ready B st \<Longrightarrow> ready B st'"
  by (auto simp: set_cached_def split: bind_splits)

lemma resolve_slow_ready:
  assumes "resolve_slow rt ask mk st = Some (r, st')" "ready B st"
    and "\<And>m vm r vm'. ask m vm = (r, vm') \<Longrightarrow> reports (r = None) vm vm'"
  shows "if r = None then faulted B st' else ready B st'"
proof -
  obtain m res st1 where s: "call_runtime (ask m) st = Some (res, st1)"
    "case res of None \<Rightarrow> r = None \<and> st' = st1 | Some e \<Rightarrow> r = Some e \<and> set_cached rt (mk e) st1 = Some st'"
    using assms(1) by (auto simp: resolve_slow_def split: bind_splits option.splits if_splits)
  have "if res = None then faulted B st1 else ready B st1"
    by (rule call_runtime_ready [OF s(1) assms(2)]) (rule assms(3))
  then show ?thesis
    using s(2) set_cached_ready [of rt _ st1 st' B]
    by (cases res) (auto split: if_splits)
qed

lemma Resolve_ready:
  assumes "runtime_ok rt" "ready B st"
  shows "ResolveType rt b i st = Some (r, st') \<Longrightarrow> if r = None then faulted B st' else ready B st'"
    "ResolveField rt b i st = Some (r2, st') \<Longrightarrow> if r2 = None then faulted B st' else ready B st'"
    "ResolveMethod rt i st = Some (r3, st') \<Longrightarrow> if r3 = None then faulted B st' else ready B st'"
proof -
  show "if r = None then faulted B st' else ready B st'" if "ResolveType rt b i st = Some (r, st')"
    using that assms(2) resolve_slow_ready [where st = st, OF _ assms(2) runtime_okD(7) [OF assms(1)]]
    by (auto simp: ResolveType_def split: bind_splits option.splits)
  show "if r2 = None then faulted B st' else ready B st'" if "ResolveField rt b i st = Some (r2, st')"
    using that assms(2) resolve_slow_ready [where B = B and ask = "\<lambda>m. rt_ResolveField rt m i", OF _ _ runtime_okD(6) [OF assms(1)]] frame_ops_ready(3) [of st _ B]
    by (auto simp: ResolveField_def split: bind_splits option.splits if_splits)
  show "if r3 = None then faulted B st' else ready B st'" if "ResolveMethod rt i st = Some (r3, st')"
    using that assms(2) resolve_slow_ready [where B = B and ask = "\<lambda>m. rt_ResolveMethod rt m i", OF _ _ runtime_okD(5) [OF assms(1)]] frame_ops_ready(3) [of st _ B]
    by (auto simp: ResolveMethod_def split: bind_splits option.splits if_splits)
qed

lemma calm_moves:
  "calm (HandleNop rt f)" "calm (HandleFldaiDyn rt f)" "calm (HandleLdaiDyn rt f)" "calm (HandleMov rt f)"
  "calm (HandleMovWide rt f)" "calm (HandleMovObj rt f)" "calm (HandleMovDyn rt f)" "calm (HandleMovi rt f)"
  "calm (HandleMoviWide rt f)" "calm (HandleFmovi rt f)" "calm (HandleFmoviWide rt f)" "calm (HandleMovNull rt f)"
  "calm (HandleLda rt f)" "calm (HandleLdaWide rt f)" "calm (HandleLdaObj rt f)" "calm (HandleLdai rt f)"
  "calm (HandleLdaiWide rt f)" "calm (HandleFldai rt f)" "calm (HandleFldaiWide rt f)" "calm (HandleLdaNull rt f)"
  "calm (HandleLdaDyn rt f)" "calm (HandleSta rt f)" "calm (HandleStaWide rt f)" "calm (HandleStaObj rt f)"
  "calm (HandleStaDyn rt f)" "calm (HandleInci rt f)"
  by (auto simp: calm_def HandleNop_def HandleFldaiDyn_def HandleLdaiDyn_def HandleMov_def HandleMovWide_def HandleMovObj_def
      HandleMovDyn_def HandleMovi_def HandleMoviWide_def HandleFmovi_def HandleFmoviWide_def HandleMovNull_def
      HandleLda_def HandleLdaWide_def HandleLdaObj_def HandleLdai_def HandleLdaiWide_def HandleFldai_def
      HandleFldaiWide_def HandleLdaNull_def HandleLdaDyn_def HandleSta_def HandleStaWide_def HandleStaObj_def
      HandleStaDyn_def HandleInci_def
      split: bind_splits intro: ready_intros)

lemma calm_arith:
  "calm (HandleBinaryOp2 sg False op rt f)" "calm (HandleBinaryOp2Imm sg False op rt f)" "calm (HandleBinaryOp sg False op rt f)"
  "calm (HandleUnaryOp sg op1 rt f)" "calm (HandleConversion sg cv rt f)" "calm (HandleFloatToIntConversion sg cv1 rt f)"
  by (auto simp: calm_def HandleBinaryOp2_def HandleBinaryOp2Imm_def HandleBinaryOp_def HandleUnaryOp_def HandleConversion_def
      HandleFloatToIntConversion_def split: bind_splits intro: ready_intros)

lemma safe_division:
  assumes "runtime_ok rt"
  shows "safe DException rt (HandleBinaryOp2 sg True op rt f)" "safe DException rt (HandleBinaryOp2Imm sg True op rt f)"
    "safe DException rt (HandleBinaryOp sg True op rt f)"
  using assms
  by (auto simp: safe_def HandleBinaryOp2_def HandleBinaryOp2Imm_def HandleBinaryOp_def Let_def split: bind_splits if_splits
      intro: ready_intros throw_raised)

lemma Safepoint_ready: "Safepoint rt st = Some st' \<Longrightarrow> runtime_ok rt \<Longrightarrow> ready B st \<Longrightarrow> ready B st'"
  using call_runtime_ready [of "\<lambda>vm. ((), rt_Safepoint rt vm)" st "()" st' B False] runtime_okD(14) [of rt]
  by (auto simp: Safepoint_def quiet_reports)

lemma UpdateHotness_ready: "runtime_ok rt \<Longrightarrow> ready B st \<Longrightarrow> ready B (UpdateHotness rt m st)"
  by (simp add: UpdateHotness_def ready_quiet runtime_okD)

lemma ready_pending: "ready B st \<Longrightarrow> \<not> HasPendingException (st_vm st)"
  by (simp add: ready_def key_def)

lemma UpdateHotnessOSR_ready:
  assumes "UpdateHotnessOSR rt m i st = Some (osr, st')" "runtime_ok rt" "ready B st"
  shows "if osr then stack_ok B (ctls (st_vm st')) \<and> st_opext st' = 0 else ready B st'"
proof -
  obtain fr where fr: "GetFrame st = Some fr" using assms(1) by (auto simp: UpdateHotnessOSR_def split: bind_splits)
  show ?thesis
  proof (cases "IsDeoptimized fr")
    case True
    then show ?thesis using assms fr UpdateHotness_ready [OF assms(2,3)] by (auto simp: UpdateHotnessOSR_def)
  next
    case False
    then obtain a vm where a: "rt_IncrementHotnessCounterOSR rt m (GetBytecodeOffset st + i) (st_acc st) (st_vm st) = (osr, a, vm)"
      "st' = st\<lparr>st_vm := vm, st_acc := a\<rparr>"
      using assms(1) fr by (auto simp: UpdateHotnessOSR_def split: prod.splits)
    then show ?thesis
      using runtime_okD(16) [OF assms(2) a(1)] assms(3) ready_quiet [OF assms(3), of vm] by (auto simp: ready_def key_def)
  qed
qed

lemma branch_to_safe:
  assumes "branch_to rt imm st = Some st'" "runtime_ok rt" "ready B st"
  shows "ready B st' \<or> replaced rt B st'"
proof -
  obtain stop st1 where s: "InstrumentBranches rt imm st = Some (stop, st1)" "st' = (if stop then st1 else JumpToInst False imm st1)"
    using assms(1) by (auto simp: branch_to_def split: bind_splits)
  have "if stop then replaced rt B st1 else ready B st1"
  proof (cases "0 < sint imm")
    case True
    then show ?thesis using s(1) assms(3) by (simp add: InstrumentBranches_def)
  next
    case False
    define st0 where "st0 = (if rt_TestAllFlags rt (st_vm st) then Safepoint rt st else Some st)"
    obtain st2 where st2: "st0 = Some st2" using s(1) False by (auto simp: InstrumentBranches_def Let_def st0_def split: bind_splits)
    have r: "ready B st2" using st2 assms(2,3) Safepoint_ready [of rt st st2 B] by (auto simp: st0_def split: if_splits)
    obtain m where m: "GetMethod st2 = Some m" 
      "(if rt_SupportOSR rt then do { (osr, st) \<leftarrow> UpdateHotnessOSR rt m imm st2;
          if osr then Some (True, st\<lparr>st_inst := (FakeInstBuf, 0)\<rparr>) else Some (False, st) }
        else Some (False, UpdateHotness rt m st2)) = Some (stop, st1)"
      using s(1) False st2 ready_pending [OF r] unfolding InstrumentBranches_def Let_def st0_def by (auto split: bind_splits if_splits)
    show ?thesis
    proof (cases "rt_SupportOSR rt")
      case True
      then obtain osr st3 where o: "UpdateHotnessOSR rt m imm st2 = Some (osr, st3)"
        "(if osr then (True, st3\<lparr>st_inst := (FakeInstBuf, 0)\<rparr>) else (False, st3)) = (stop, st1)"
        using m(2) by (auto split: bind_splits if_splits)
      then show ?thesis using UpdateHotnessOSR_ready [OF o(1) assms(2) r] True by (auto simp: replaced_def split: if_splits)
    next
      case False
      then show ?thesis using m(2) UpdateHotness_ready [OF assms(2) r] by auto
    qed
  qed
  then show ?thesis using s(2) by auto
qed

lemma safe_branches:
  assumes "runtime_ok rt"
  shows "safe DPrimary rt (HandleJmp rt f)" "safe DPrimary rt (HandleCondJmpz cond rt f)" "safe DPrimary rt (HandleCondJmp cond rt f)"
    "safe DPrimary rt (HandleCondJmpzObj ocond rt f)" "safe DPrimary rt (HandleCondJmpObj ocond rt f)"
  using branch_to_safe [OF _ assms]
  by (auto simp: safe_def HandleJmp_def HandleCondJmpz_def HandleCondJmp_def HandleCondJmpzObj_def HandleCondJmpObj_def
      split: bind_splits if_splits)

subsection \<open>A verification condition generator\<close>

definition post :: "'a option \<Rightarrow> ('a \<Rightarrow> bool) \<Rightarrow> bool" where
  "post m Q \<longleftrightarrow> (\<forall>x. m = Some x \<longrightarrow> Q x)"

named_theorems vcg

lemma post_bind [vcg]: "post m (\<lambda>x. post (g x) Q) \<Longrightarrow> post (m \<bind> g) Q"
  by (auto simp: post_def split: bind_splits)

lemma post_pair [vcg]: "post (h a b) Q \<Longrightarrow> post (case (a, b) of (x, y) \<Rightarrow> h x y) Q"
  by simp

lemma post_option [vcg]:
  "post n Q \<Longrightarrow> post (case None of None \<Rightarrow> n | Some x \<Rightarrow> s x) Q" "post (s x) Q \<Longrightarrow> post (case Some x of None \<Rightarrow> n | Some x \<Rightarrow> s x) Q"
  by simp_all

lemma post_Let [vcg]: "post (l v) Q \<Longrightarrow> post (let x = v in l x) Q"
  by simp

lemma post_intros [vcg]:
  "Q x \<Longrightarrow> post (Some x) Q" "post None Q" "(c \<Longrightarrow> post m Q) \<Longrightarrow> (\<not> c \<Longrightarrow> post m' Q) \<Longrightarrow> post (if c then m else m') Q"
  by (auto simp: post_def)

lemma post_any: "(\<And>x. Q x) \<Longrightarrow> post m Q"
  by (simp add: post_def)

lemma safeI: "(\<And>B st. ready B st \<Longrightarrow> post (h st) (leaves k rt B)) \<Longrightarrow> safe k rt h"
  by (simp add: safe_def post_def)

lemma calmI: "(\<And>B st. ready B st \<Longrightarrow> post (h st) (ready B)) \<Longrightarrow> calm h"
  by (simp add: calm_def post_def)

lemma safeD: "safe k rt h \<Longrightarrow> ready B st \<Longrightarrow> h st = Some st' \<Longrightarrow> leaves k rt B st'"
  by (simp add: safe_def)

lemma post_read [vcg]:
  "(\<And>x. Q1 x) \<Longrightarrow> post (inst_VReg rt f i st) Q1" "(\<And>x. Q2 x) \<Longrightarrow> post (inst_Imm rt f i st) Q2"
  "(\<And>x. Q3 x) \<Longrightarrow> post (inst_Id rt f st) Q3" "(\<And>x. Q4 x) \<Longrightarrow> post (read_vreg i st) Q4"
  "(\<And>x. Q5 x) \<Longrightarrow> post (GetReference r) Q5" "(\<And>x. Q6 x) \<Longrightarrow> post (Get32 r) Q6" "(\<And>x. Q7 x) \<Longrightarrow> post (GetAs r) Q7"
  "(\<And>x. Q8 x) \<Longrightarrow> post (ho_class_of h ob) Q8" "(\<And>x. Q9 x) \<Longrightarrow> post (array_GetLength h ob) Q9"
  "(\<And>x. Q10 x) \<Longrightarrow> post (array_Get h ob j) Q10" "(\<And>x. Q11 x) \<Longrightarrow> post (array_Set h ob j v) Q11"
  "(\<And>x. Q12 x) \<Longrightarrow> post (Get_mem sl st) Q12" "(\<And>x. Q13 x) \<Longrightarrow> post (arg_reg rt f i st) Q13" "(\<And>x. Q14 x) \<Longrightarrow> post (GetMethod st) Q14"
  "(\<And>x. Q15 x) \<Longrightarrow> post (GetLong r) Q15"
  by (simp_all add: post_def)

lemma post_update [vcg]:
  "(\<And>st'. \<forall>B. (ready B st \<longrightarrow> ready B st') \<and> (faulted B st \<longrightarrow> faulted B st') \<Longrightarrow> Q1 st') \<Longrightarrow> post (upd_vreg i g st) Q1"
  "(\<And>st'. \<forall>B. ready B st \<longrightarrow> ready B st' \<Longrightarrow> Q2 st') \<Longrightarrow> post (set_acc_int sg v st) Q2"
  "(\<And>st'. \<forall>B. ready B st \<longrightarrow> ready B st' \<Longrightarrow> Q3 st') \<Longrightarrow> post (SetObject rt sl ob x st) Q3"
  "(\<And>st'. \<forall>B. ready B st \<longrightarrow> ready B st' \<Longrightarrow> Q4 st') \<Longrightarrow> post (LoadPrimitiveFieldReg i sl fi st) Q4"
  "(\<And>st'. \<forall>B. ready B st \<longrightarrow> ready B st' \<Longrightarrow> Q5 st') \<Longrightarrow> post (LoadPrimitiveField sl fi st) Q5"
  "(\<And>st'. \<forall>B. ready B st \<longrightarrow> ready B st' \<Longrightarrow> Q6 st') \<Longrightarrow> post (StorePrimitiveFieldReg i sl fi st) Q6"
  "(\<And>st'. \<forall>B. ready B st \<longrightarrow> ready B st' \<Longrightarrow> Q7 st') \<Longrightarrow> post (StorePrimitiveField sl fi st) Q7"
  "(\<And>st'. \<forall>B. (ready B st \<longrightarrow> ready B st') \<and> (faulted B st \<longrightarrow> faulted B st') \<Longrightarrow> Q8 st') \<Longrightarrow> post (UpdateBytecodeOffset st) Q8"
  "(\<And>st'. \<forall>B. ready B st \<longrightarrow> ready B st' \<Longrightarrow> Q9 st') \<Longrightarrow> post (SetAcc_frame st) Q9"
  "(\<And>st'. \<forall>B. ready B st \<longrightarrow> ready B st' \<Longrightarrow> Q10 st') \<Longrightarrow> post (GetAcc_frame st) Q10"
  unfolding post_def using ready_intros frame_ops(3) by metis+

lemma post_throw:
  assumes "runtime_ok rt" "\<And>st'. \<forall>B. ready B st \<longrightarrow> raised rt B st' \<Longrightarrow> Q st'"
  shows "post (throw_to_handler rt e st) Q"
  using throw_raised [OF _ assms(1)] assms(2) unfolding post_def by blast

lemma post_handler [vcg]:
  "(\<And>st'. \<forall>B. faulted B st \<longrightarrow> raised rt B st' \<Longrightarrow> Q st') \<Longrightarrow> post (MoveToExceptionHandler rt st) Q"
  using MoveToExceptionHandler_raised unfolding post_def by blast

lemma post_outcome:
  assumes "\<And>st'. \<forall>B. ready B st \<longrightarrow> faulted B st' \<Longrightarrow> Q (z, st')" "\<And>x st'. x \<noteq> z \<Longrightarrow> \<forall>B. ready B st \<longrightarrow> ready B st' \<Longrightarrow> Q (x, st')"
    "\<And>B r st'. ready B st \<Longrightarrow> m = Some (r, st') \<Longrightarrow> if r = z then faulted B st' else ready B st'"
  shows "post m Q"
proof -
  have "Q (r, st')" if "m = Some (r, st')" for r st'
    using assms(3) [OF _ that] assms(1) [of st'] assms(2) [of r st'] by (cases "r = z") simp_all
  then show ?thesis by (auto simp: post_def)
qed

lemma CheckLoad_ready:
  "runtime_ok rt \<Longrightarrow> ready B st \<Longrightarrow> CheckLoadArrayOp rt a i st = Some (ok, st') \<Longrightarrow> if ok = False then faulted B st' else ready B st'"
  by (auto simp: CheckLoadArrayOp_def split: bind_splits if_splits intro: Throw_faulted)

lemma CheckStore_ready:
  "runtime_ok rt \<Longrightarrow> ready B st \<Longrightarrow> CheckStoreArrayOp rt a i e st = Some (ok, st') \<Longrightarrow> if ok = False then faulted B st' else ready B st'"
  by (auto simp: CheckStoreArrayOp_def split: bind_splits if_splits option.splits intro: Throw_faulted)

lemma post_check:
  assumes "runtime_ok rt" "\<And>st'. \<forall>B. ready B st \<longrightarrow> faulted B st' \<Longrightarrow> Q (False, st')" "\<And>st'. \<forall>B. ready B st \<longrightarrow> ready B st' \<Longrightarrow> Q (True, st')"
  shows "post (CheckLoadArrayOp rt a i st) Q" "post (CheckStoreArrayOp rt a i e st) Q"
proof -
  have q: "Q (ok, st')" if "ok \<noteq> False" "\<forall>B. ready B st \<longrightarrow> ready B st'" for ok st' using assms(3) that by simp
  note outcome = post_outcome [where z = False and st = st and Q = Q, OF assms(2) q]
  show "post (CheckLoadArrayOp rt a i st) Q" by (rule outcome) (assumption | rule CheckLoad_ready [OF assms(1)])+
  show "post (CheckStoreArrayOp rt a i e st) Q" by (rule outcome) (assumption | rule CheckStore_ready [OF assms(1)])+
qed

lemma post_resolve:
  assumes "runtime_ok rt" "\<And>st'. \<forall>B. ready B st \<longrightarrow> faulted B st' \<Longrightarrow> Q (None, st')"
    "\<And>x st'. \<forall>B. ready B st \<longrightarrow> ready B st' \<Longrightarrow> Q (Some x, st')"
  shows "post (ResolveType rt b i st) Q" "post (ResolveField rt b i st) Q" "post (ResolveMethod rt i st) Q"
proof -
  have q: "Q (r, st')" if "r \<noteq> None" "\<forall>B. ready B st \<longrightarrow> ready B st'" for r st' using assms(3) that by auto
  note outcome = post_outcome [where z = None and st = st and Q = Q, OF assms(2) q]
  show "post (ResolveType rt b i st) Q" by (rule outcome) (assumption | rule Resolve_ready(1) [OF assms(1)])+
  show "post (ResolveField rt b i st) Q" by (rule outcome) (assumption | rule Resolve_ready(2) [OF assms(1)])+
  show "post (ResolveMethod rt i st) Q" by (rule outcome) (assumption | rule Resolve_ready(3) [OF assms(1)])+
qed

lemma ready_reports_if: "ready B st \<Longrightarrow> reports x (st_vm st) vm \<Longrightarrow> if x then faulted B (st\<lparr>st_vm := vm\<rparr>) else ready B (st\<lparr>st_vm := vm\<rparr>)"
  using ready_reports [of B st vm] by (cases x) simp_all

lemma ResolveLiteralArray_ready:
  assumes "runtime_ok rt" "ready B st" "ResolveLiteralArray rt i st = Some (r, st')"
  shows "if r = nullptr then faulted B st' else ready B st'"
proof -
  obtain m vm where "rt_ResolveLiteralArray rt m i (st_vm st) = (r, vm)" "st' = st\<lparr>st_vm := vm\<rparr>"
    using assms(3) by (auto simp: ResolveLiteralArray_def split: bind_splits prod.splits)
  then show ?thesis using ready_reports_if [OF assms(2) runtime_okD(4) [OF assms(1)]] by blast
qed

lemma post_string:
  assumes "runtime_ok rt" "\<And>r st'. \<forall>B. ready B st \<longrightarrow> ready B st' \<Longrightarrow> Q (r, st')"
  shows "post (ResolveString rt i st) Q"
  using runtime_okD(3) [OF assms(1)]
  by (auto simp: ResolveString_def post_def split: bind_splits prod.splits intro!: assms(2) ready_quiet [of _ st])

lemma post_create:
  assumes "runtime_ok rt" "\<And>st'. \<forall>B. ready B st \<longrightarrow> faulted B st' \<Longrightarrow> Q (nullptr, st')"
    "\<And>x st'. x \<noteq> nullptr \<Longrightarrow> \<forall>B. ready B st \<longrightarrow> ready B st' \<Longrightarrow> Q (x, st')"
  shows "post (call_runtime (rt_CreateArray rt c n) st) Q" "post (call_runtime (rt_CreateObject rt c) st) Q"
    "post (ResolveLiteralArray rt i st) Q"
proof -
  note outcome = post_outcome [where z = nullptr and st = st and Q = Q, OF assms(2,3)]
  show "post (call_runtime (rt_CreateArray rt c n) st) Q"
    by (rule outcome) (assumption | rule call_runtime_ready runtime_okD(9) [OF assms(1)])+
  show "post (call_runtime (rt_CreateObject rt c) st) Q"
    by (rule outcome) (assumption | rule call_runtime_ready runtime_okD(11) [OF assms(1)])+
  show "post (ResolveLiteralArray rt i st) Q" by (rule outcome) (assumption | rule ResolveLiteralArray_ready [OF assms(1)])+
qed

lemmas vcg_rt = vcg post_throw post_check post_resolve post_create post_string

lemma calm_string: "runtime_ok rt \<Longrightarrow> calm (HandleLdaStr rt f)"
  unfolding HandleLdaStr_def by (intro calmI vcg_rt) simp_all

lemma safe_types:
  assumes "runtime_ok rt"
  shows "safe DException rt (HandleLdaConst rt f)" "safe DException rt (HandleLdaType rt f)" "safe DException rt (HandleCheckcast rt f)"
    "safe DException rt (HandleIsinstance rt f)" "safe DException rt (HandleNewobj rt f)"
  unfolding HandleLdaConst_def HandleLdaType_def HandleCheckcast_def HandleIsinstance_def HandleNewobj_def
  by (intro safeI vcg_rt assms; simp)+

lemma safe_arrays:
  assumes "runtime_ok rt"
  shows "safe DException rt (HandleArrayPrimitiveLoad T sg rt f)" "safe DException rt (HandleLdarrObj rt f)"
    "safe DException rt (HandleArrayStore T rt f)" "safe DException rt (HandleStarrObj rt f)" "safe DException rt (HandleLenarr rt f)"
    "safe DException rt (HandleNewarr rt f)"
  unfolding HandleArrayPrimitiveLoad_def HandleLdarrObj_def HandleArrayStore_def HandleStarrObj_def HandleLenarr_def HandleNewarr_def
  by (intro safeI vcg_rt assms; simp)+

lemma safe_obj_field:
  assumes "runtime_ok rt" "\<And>x fi. calm (act x fi)"
  shows "safe DException rt (with_obj_field k act rt f)"
proof -
  have act: "post (act x fi st) Q" if "\<And>st'. \<forall>B. ready B st \<longrightarrow> ready B st' \<Longrightarrow> Q st'" for x fi st Q
    using assms(2) [of x fi] that unfolding calm_def post_def by blast
  show ?thesis unfolding with_obj_field_def by (intro safeI vcg_rt assms(1) act; simp)
qed

lemma safe_static_field:
  assumes "runtime_ok rt" "\<And>x fi. calm (act x fi)"
  shows "safe DException rt (with_static_field act rt f)"
proof -
  have act: "post (act x fi st) Q" if "\<And>st'. \<forall>B. ready B st \<longrightarrow> ready B st' \<Longrightarrow> Q st'" for x fi st Q
    using assms(2) [of x fi] that unfolding calm_def post_def by blast
  show ?thesis unfolding with_static_field_def by (intro safeI vcg_rt assms(1) act; simp)
qed

lemma safe_bind_read:
  assumes "\<And>vd. safe k rt (h vd)"
  shows "safe k rt (\<lambda>st. inst_VReg rt f i st \<bind> (\<lambda>vd. h vd st))"
  using assms by (auto simp: safe_def split: bind_splits)

lemma safe_fields:
  assumes "runtime_ok rt"
  shows "safe DException rt (HandleLdobj rt f)" "safe DException rt (HandleLdobjWide rt f)" "safe DException rt (HandleLdobjObj rt f)"
    "safe DException rt (HandleStobj rt f)" "safe DException rt (HandleStobjWide rt f)" "safe DException rt (HandleStobjObj rt f)"
    "safe DException rt (HandleLdobjV rt f)" "safe DException rt (HandleLdobjVWide rt f)" "safe DException rt (HandleLdobjVObj rt f)"
    "safe DException rt (HandleStobjV rt f)" "safe DException rt (HandleStobjVWide rt f)" "safe DException rt (HandleStobjVObj rt f)"
    "safe DException rt (HandleLdstatic rt f)" "safe DException rt (HandleLdstaticWide rt f)" "safe DException rt (HandleLdstaticObj rt f)"
    "safe DException rt (HandleStstatic rt f)" "safe DException rt (HandleStstaticWide rt f)" "safe DException rt (HandleStstaticObj rt f)"
  unfolding HandleLdobj_def HandleLdobjWide_def HandleLdobjObj_def HandleStobj_def HandleStobjWide_def HandleStobjObj_def
    HandleLdobjV_def HandleLdobjVWide_def HandleLdobjVObj_def HandleStobjV_def HandleStobjVWide_def HandleStobjVObj_def
    HandleLdstatic_def HandleLdstaticWide_def HandleLdstaticObj_def HandleStstatic_def HandleStstaticWide_def HandleStstaticObj_def
  by (intro safe_bind_read safe_obj_field safe_static_field calmI vcg assms; simp)+

subsection \<open>Calls\<close>

text \<open>A nested interpreter returns with its entry frame on top and the frames below as they were.\<close>

definition env_ok :: "'w rt \<Rightarrow> 'w exec_env \<Rightarrow> bool" where
  "env_ok rt env \<longleftrightarrow> (\<forall>m vm vm' c cs. ee_execute env (rt_IsDebugMode rt) (Code m, 0) vm = Some vm' \<longrightarrow> ctls vm = c # cs \<longrightarrow> c_method c = m \<longrightarrow>
     c_inst c = (Code m, 0) \<longrightarrow> \<not> c_stackless c \<longrightarrow> \<not> HasPendingException vm \<longrightarrow> (\<exists>c'. ctls vm' = c' # cs))"

lemma ctls_SetCurrentFrame:
  assumes "ctls vm' = xs @ ctls vm"
  shows "ctls (SetCurrentFrame (length (vm_frames vm)) vm') = ctls vm"
proof -
  have "length (vm_frames vm') = length xs + length (vm_frames vm)" using arg_cong [OF assms, of length] by (simp add: ctls_def)
  then show ?thesis using assms by (simp add: ctls_def SetCurrentFrame_def flip: drop_map)
qed

lemma ctl_flags:
  "ctl_of (set_frame_flag IS_STACKLESS fr) = (ctl_of fr)\<lparr>c_stackless := True\<rparr>"
  "ctl_of (set_frame_flag IS_INITOBJ fr) = ctl_of fr"
  "ctl_of (fr\<lparr>f_inst := p\<rparr>) = (ctl_of fr)\<lparr>c_inst := p\<rparr>" "ctl_of (fr\<lparr>f_next_inst := p\<rparr>) = (ctl_of fr)\<lparr>c_next := p\<rparr>"
proof -
  have "(x OR 16) AND 16 \<noteq> 0" "(x OR 32) AND 16 = x AND 16" for x :: u64
    by (simp_all add: and.commute [of _ 16] bit.conj_disj_distrib)
  then show "ctl_of (set_frame_flag IS_STACKLESS fr) = (ctl_of fr)\<lparr>c_stackless := True\<rparr>"
    "ctl_of (set_frame_flag IS_INITOBJ fr) = ctl_of fr"
    by (simp_all add: ctl_of_def set_frame_flag_def frame_flag_def IS_STACKLESS_def IS_INITOBJ_def)
qed (simp_all add: ctl_of_def frame_flag_def)

lemma CreateAndSetFrame_ready:
  assumes "CreateAndSetFrame ck rt f m st = Some (ok, frame, st')" "runtime_ok rt" "ready B st"
  shows "if ok then \<exists>fr vm. st' = push_frame fr (st\<lparr>st_vm := vm\<rparr>) \<and> ready B (st\<lparr>st_vm := vm\<rparr>) \<and> f_method fr = m \<and> \<not> IsStackless fr \<and>
      ctls vm = ctls (st_vm st)
    else raised rt B st'"
proof -
  obtain na fs nr where l: "frame_layout ck rt f (mi_num_args (rt_method rt m)) (mi_num_vregs (rt_method rt m)) st = Some (na, fs, nr)"
    using assms(1) by (auto simp: CreateAndSetFrame_def Let_def split: bind_splits)
  obtain mem vm where a: "rt_AllocFrame rt fs (st_vm st) = (mem, vm)" by fastforce
  have r: "ready B (st\<lparr>st_vm := vm\<rparr>)" using ready_quiet [OF assms(3) runtime_okD(12) [OF assms(2) a]] .
  show ?thesis
  proof (cases mem)
    case None
    then obtain st1 where "throw_to_handler rt OutOfMemoryError (st\<lparr>st_vm := vm\<rparr>) = Some st1" "ok = False" "st' = st1"
      using assms(1) l a by (auto simp: CreateAndSetFrame_def Let_def)
    then show ?thesis using throw_raised [OF _ assms(2) r] by simp
  next
    case (Some regs)
    then obtain fr where fr: "CopyArguments ck rt f (st\<lparr>st_vm := vm\<rparr>) (mi_num_vregs (rt_method rt m)) na (mi_num_args (rt_method rt m))
       ((make_frame m regs nr na)\<lparr>f_acc := st_acc st\<rparr>) = Some fr" "ok = True" "st' = push_frame fr (st\<lparr>st_vm := vm\<rparr>)"
      using assms(1) l a by (auto simp: CreateAndSetFrame_def Let_def split: bind_splits)
    then show ?thesis
      using r header_sel [OF header_CopyArguments [OF fr(1)]]
        runtime_okD(12) [OF assms(2) a]
      by (intro if_bool_eq_conj [THEN iffD2] conjI impI exI [of _ fr] exI [of _ vm])
        (simp_all add: make_frame_def frame_flag_def quiet_def)
  qed
qed

lemma VerifyMethod_ready: "VerifyMethod rt m st = (ok, st') \<Longrightarrow> runtime_ok rt \<Longrightarrow> ready B st \<Longrightarrow> ready B st'"
  by (auto simp: VerifyMethod_def split: prod.splits dest!: runtime_okD(17) [of rt] intro: ready_quiet)

lemma ready_frames:
  assumes "ready B st"
  obtains fr rest where "vm_frames (st_vm st) = fr # rest" "fst (st_inst st) = Code (f_method fr)" "fst (f_inst fr) = Code (f_method fr)"
    "st_opext st = 0" "\<not> HasPendingException (st_vm st)"
    "if IsStackless fr then callers_ok B (map ctl_of rest) else f_method fr = b_method B \<and> map ctl_of rest = b_below B"
  using assms that by (cases "vm_frames (st_vm st)") (auto simp: ready_def key_def ctls_def ctl_of_def cong del: if_weak_cong)

lemma CallInterpreterStackless_safe:
  assumes "CallInterpreterStackless ck m rt f st = Some st'" "runtime_ok rt" "ready B st"
  shows "ready B st' \<or> raised rt B st'"
proof -
  obtain ok st0 where v: "VerifyMethod rt m st = (ok, st0)" by fastforce
  have r0: "ready B st0" using VerifyMethod_ready [OF v assms(2,3)] .
  show ?thesis
  proof (cases ok)
    case False
    then show ?thesis using assms(1) v throw_raised [OF _ assms(2) r0] by (simp add: CallInterpreterStackless_def)
  next
    case True
    then have v1: "VerifyMethod rt m st = (True, st0)" using v by simp
    obtain st1 where c: "CreateAndSetFrame ck rt f m st0 = Some (True, Some (length (vm_frames (st_vm st1))), st1)"
      by (rule calls_created [OF v1 disjI1 [OF assms(1)]])
    then obtain fr vm where fr: "st1 = push_frame fr (st0\<lparr>st_vm := vm\<rparr>)" "ready B (st0\<lparr>st_vm := vm\<rparr>)" "f_method fr = m" "\<not> IsStackless fr"
        "ctls vm = ctls (st_vm st0)"
      using CreateAndSetFrame_ready [OF c assms(2) r0] by auto
    obtain ca rest where ca: "vm_frames vm = ca # rest" "fst (st_inst st0) = Code (f_method ca)" "fst (f_inst ca) = Code (f_method ca)"
      "st_opext st0 = 0" "\<not> HasPendingException vm"
      "if IsStackless ca then callers_ok B (map ctl_of rest) else f_method ca = b_method B \<and> map ctl_of rest = b_below B"
      using ready_frames [OF fr(2)] by auto
    have q: "quiet (st_vm st1) (rt_MethodEntryEvent rt m (st_vm st1))" by (rule runtime_okD(18) [OF assms(2)])
    then obtain fr1 ca1 rest1 where e: "vm_frames (rt_MethodEntryEvent rt m (st_vm st1)) = fr1 # ca1 # rest1"
      "ctl_of fr1 = ctl_of fr" "ctl_of ca1 = ctl_of ca" "map ctl_of rest1 = map ctl_of rest" "\<not> HasPendingException (rt_MethodEntryEvent rt m (st_vm st1))"
      using fr(1) ca(1,5) by (auto simp: quiet_def ctls_def push_frame_def HasPendingException_def map_eq_Cons_conv)
    define fr2 where "fr2 = (if ck_initobj ck then set_frame_flag IS_INITOBJ (set_frame_flag IS_STACKLESS fr1)
      else set_frame_flag IS_STACKLESS fr1)\<lparr>f_inst := (Code m, 0)\<rparr>"
    define ca2 where "ca2 = ca1\<lparr>f_next_inst := st_inst (MoveToNextInst f False st1)\<rparr>"
    have len: "length (vm_frames vm) = Suc (length rest1)" "length (vm_frames (st_vm st0)) = length (vm_frames vm)"
      using ca(1) map_eq_imp_length_eq [OF e(4)] map_eq_imp_length_eq [OF fr(5) [unfolded ctls_def]] by simp_all
    have st': "st' = (MoveToNextInst f False st1)\<lparr>st_vm := (rt_MethodEntryEvent rt m (st_vm st1))\<lparr>vm_frames := fr2 # ca2 # rest1\<rparr>,
        st_inst := (Code m, 0), st_instructions := (Code m, 0)\<rparr>"
      using CallInterpreterStackless_frame [OF _ c e(1)] assms(1) v True len fr(1) by (simp add: fr2_def ca2_def push_frame_def)
    have c2: "ctl_of fr2 = (ctl_of fr)\<lparr>c_inst := (Code m, 0), c_stackless := True\<rparr>" "ctl_of ca2 = (ctl_of ca)\<lparr>c_next := st_inst (MoveToNextInst f False st1)\<rparr>"
      using e(2,3) by (simp_all add: fr2_def ca2_def ctl_flags)
    have "ready B st'"
      using fr ca e(4,5) unfolding st' ready_def key_def ctls_def
      by (simp add: c2 MoveToNextInst_def HasPendingException_def push_frame_def) (simp add: ctl_of_def)
    then show ?thesis ..
  qed
qed

lemma ready_with_ctls:
  assumes "ready B st" "ctls vm = ctls (st_vm st)"
  shows "if HasPendingException vm then faulted B (st\<lparr>st_vm := vm\<rparr>) else ready B (st\<lparr>st_vm := vm\<rparr>)"
  using assms by (auto simp: ready_def key_def faulted_def)

lemma env_okD:
  assumes "env_ok rt env" "ee_execute env (rt_IsDebugMode rt) (Code m, 0) vm = Some vm'" "ctls vm = c # cs" "c_method c = m" "c_inst c = (Code m, 0)"
    "\<not> c_stackless c" "\<not> HasPendingException vm"
  shows "\<exists>c'. ctls vm' = c' # cs"
  using assms unfolding env_ok_def by blast

lemma raised_GetAcc: "GetAcc_frame st = Some st' \<Longrightarrow> raised rt B st' = raised rt B st"
  by (auto simp: GetAcc_frame_def raised_def GetExceptionOpcode_def split: bind_splits)

lemma CallInterpreter_safe:
  assumes "CallInterpreter env ck m rt f st = Some st'" "runtime_ok rt" "env_ok rt env" "ready B st"
  shows "ready B st' \<or> raised rt B st'"
proof -
  obtain ok st0 where v: "VerifyMethod rt m st = (ok, st0)" by fastforce
  have r0: "ready B st0" using VerifyMethod_ready [OF v assms(2,4)] .
  show ?thesis
  proof (cases ok)
    case False
    then show ?thesis using assms(1) v throw_raised [OF _ assms(2) r0] by (simp add: CallInterpreter_def)
  next
    case True
    then have v1: "VerifyMethod rt m st = (True, st0)" using v by simp
    obtain st1 where c: "CreateAndSetFrame ck rt f m st0 = Some (True, Some (length (vm_frames (st_vm st1))), st1)"
      by (rule calls_created [OF v1 disjI2 [OF assms(1)]])
    then obtain fr vm where fr: "st1 = push_frame fr (st0\<lparr>st_vm := vm\<rparr>)" "ready B (st0\<lparr>st_vm := vm\<rparr>)" "f_method fr = m" "\<not> IsStackless fr"
        "ctls vm = ctls (st_vm st0)"
      using CreateAndSetFrame_ready [OF c assms(2) r0] by auto
    have pend: "\<not> HasPendingException vm" using ready_pending [OF fr(2)] by simp
    define vm1 where "vm1 = rt_MethodEntryEvent rt m (st_vm st1)"
    obtain fr1 rest1 where e: "vm_frames vm1 = fr1 # rest1" "ctl_of fr1 = ctl_of fr" "map ctl_of rest1 = ctls vm" "\<not> HasPendingException vm1"
      using runtime_okD(18) [OF assms(2), of "st_vm st1" m] fr(1) pend
      by (auto simp: vm1_def quiet_def ctls_def push_frame_def HasPendingException_def map_eq_Cons_conv)
    have len: "length (vm_frames (st_vm st1)) = Suc (length rest1)" "length (vm_frames (st_vm st0)) = length rest1"
      using fr(1) map_eq_imp_length_eq [OF e(3) [unfolded ctls_def]] map_eq_imp_length_eq [OF fr(5) [unfolded ctls_def]]
      by (simp_all add: push_frame_def)
    note w = frame_top(2) [OF e(1), folded len(1)]
    obtain vm2 where x: "ee_execute env (rt_IsDebugMode rt) (Code m, 0) (vm1\<lparr>vm_frames := fr1\<lparr>f_inst := (Code m, 0)\<rparr> # rest1\<rparr>) = Some vm2"
      using assms(1) v True c w by (auto simp: CallInterpreter_def Let_def simp flip: vm1_def split: bind_splits)
    obtain c' where c': "ctls vm2 = c' # ctls (st_vm st0)"
      using env_okD [OF assms(3) x, of "ctl_of (fr1\<lparr>f_inst := (Code m, 0)\<rparr>)" "map ctl_of rest1"] e fr(3-5)
      by (auto simp: ctls_def HasPendingException_def) (auto simp: ctl_of_def frame_flag_def)
    define vm3 where "vm3 = rt_MethodExitEvent rt m vm2"
    have "ctls vm3 = [c'] @ ctls (st_vm st0)" using c' runtime_okD(19) [OF assms(2)] by (simp add: vm3_def quiet_def)
    note cut = ctls_SetCurrentFrame [OF this]
    then obtain fr3 rest3 where f3: "vm_frames vm3 = fr3 # rest3" using c' runtime_okD(19) [OF assms(2), of vm2 m]
      by (auto simp: vm3_def quiet_def ctls_def map_eq_Cons_conv)
    have f3': "frame_at (Some (length (vm_frames (st_vm st1)))) vm3 = Some fr3"
      using frame_top(1) [OF f3] len f3 arg_cong [OF \<open>ctls vm3 = [c'] @ ctls (st_vm st0)\<close>, of length] by (simp add: ctls_def)
    define st4 where "st4 = st0\<lparr>st_vm := SetCurrentFrame (length (vm_frames (st_vm st0))) vm3\<rparr>"
    have st4: "st1\<lparr>st_vm := SetCurrentFrame (length (vm_frames (st_vm st0))) vm3\<rparr> = st4" using fr(1) by (simp add: st4_def push_frame_def)
    obtain st5 where s5: "(if HasPendingException (st_vm st4) then MoveToExceptionHandler rt st4
        else Some (MoveToNextInst f True (set_acc (f_acc fr3) st4))) = Some st5" "(if ck_initobj ck then GetAcc_frame st5 else Some st5) = Some st'"
      using assms(1) v True c w x f3' [unfolded vm3_def]
      by (auto simp: CallInterpreter_def Let_def st4 [unfolded vm3_def] st4_def [unfolded vm3_def] simp flip: vm1_def split: bind_splits if_splits)
    have "ready B st5 \<or> raised rt B st5"
      using s5(1) ready_with_ctls [OF r0 cut] MoveToExceptionHandler_raised by (auto simp: st4_def split: if_splits)
    then show ?thesis using s5(2) frame_ops(2) [of st5 st' B] raised_GetAcc [of st5 st' rt B] by (auto split: if_splits)
  qed
qed

lemma HandleCallPrologue_ready:
  assumes "HandleCallPrologue rt m st = Some st'" "runtime_ok rt" "ready B st"
  shows "ready B st'"
proof -
  obtain st1 where s: "(if rt_TestAllFlags rt (st_vm st) then Safepoint rt st else Some st) = Some st1"
    "(if rt_TestAllFlags rt (st_vm st) \<and> HasPendingException (st_vm st1) then MoveToExceptionHandler rt st1
      else Some (if \<not> rt_HasCompiledCode rt m (st_vm st1) then UpdateHotness rt m st1 else st1)) = Some st'"
    using assms(1) by (auto simp: HandleCallPrologue_def Let_def split: bind_splits)
  have "ready B st1" using s(1) assms(2,3) Safepoint_ready [of rt st st1 B] by (auto split: if_splits)
  then show ?thesis using s(2) ready_pending UpdateHotness_ready [OF assms(2)] by (auto split: if_splits)
qed

lemma HandleCall_safe:
  assumes "HandleCall env ck m rt f st = Some st'" "runtime_ok rt" "env_ok rt env" "ready B st"
  shows "ready B st' \<or> raised rt B st'"
proof -
  obtain st1 where p: "HandleCallPrologue rt m st = Some st1" using assms(1) by (auto simp: HandleCall_def split: bind_splits)
  have r1: "ready B st1" using HandleCallPrologue_ready [OF p assms(2,4)] .
  show ?thesis
  proof (cases "rt_HasCompiledCode rt m (st_vm st1)")
    case False
    then show ?thesis
      using assms(1) p CallInterpreterStackless_safe [OF _ assms(2) r1] CallInterpreter_safe [OF _ assms(2,3) r1]
      by (auto simp: HandleCall_def split: if_splits)
  next
    case True
    then obtain st2 where s: "SetAcc_frame st1 = Some st2" using assms(1) p by (auto simp: HandleCall_def Let_def split: bind_splits)
    have r2: "ready B st2" using frame_ops(1) [OF s] r1 by simp
    define vm where "vm = rt_CompiledCodeBridge rt (ck_dynamic ck) (st_inst st2) m (st_vm st2)"
    obtain xs where "ctls vm = xs @ ctls (st_vm st2)" using runtime_ok_bridge [OF assms(2)] unfolding vm_def by blast
    note cut = ctls_SetCurrentFrame [OF this]
    have len: "length (vm_frames (st_vm st1)) = length (vm_frames (st_vm st2))"
      using s by (auto simp: SetAcc_frame_def put_frame_def GetFrame_def split: bind_splits list.splits)
    define st3 where "st3 = st2\<lparr>st_vm := SetCurrentFrame (length (vm_frames (st_vm st2))) vm\<rparr>"
    have r3: "if HasPendingException (st_vm st3) then faulted B st3 else ready B st3"
      using ready_with_ctls [OF r2 cut] by (simp add: st3_def)
    have "(if HasPendingException (st_vm st3) then MoveToExceptionHandler rt st3
        else do { st \<leftarrow> GetAcc_frame st3; Some (MoveToNextInst f True st) }) = Some st'"
      using assms(1) p True s len by (simp add: HandleCall_def Let_def st3_def vm_def cong del: if_weak_cong)
    then show ?thesis
      using r3 MoveToExceptionHandler_raised [of rt st3 st' B] frame_ops_ready(2) [of st3 _ B]
      by (cases "HasPendingException (st_vm st3)") (auto split: bind_splits)
  qed
qed

lemma post_HandleCall:
  assumes "runtime_ok rt" "env_ok rt env" "\<And>st'. \<forall>B. ready B st \<longrightarrow> ready B st' \<or> raised rt B st' \<Longrightarrow> Q st'"
  shows "post (HandleCall env ck m rt f st) Q"
  using HandleCall_safe [OF _ assms(1,2)] assms(3) unfolding post_def by blast

lemma post_map: "post m (\<lambda>x. Q (g x)) \<Longrightarrow> post (map_option g m) Q"
  by (auto simp: post_def)

lemma post_GetCallerObject:
  assumes "runtime_ok rt" "\<And>st'. \<forall>B. ready B st \<longrightarrow> raised rt B st' \<Longrightarrow> Q (nullptr, st')"
    "\<And>x. x \<noteq> nullptr \<Longrightarrow> Q (x, st)"
  shows "post (GetCallerObject acc rt f st) Q"
  unfolding GetCallerObject_def GetObjHelper_def by (intro vcg post_map post_throw assms; simp add: assms)

lemma safe_calls:
  assumes "runtime_ok rt" "env_ok rt env"
  shows "safe DException rt (static_call env ck rt f)" "safe DException rt (HandleCalliDynRange env rt f)" "safe DException rt (HandleThrow rt f)"
  unfolding static_call_def HandleCalliDynRange_def HandleThrow_def
  subgoal by (intro safeI vcg_rt post_GetCallerObject post_HandleCall assms; simp)
  subgoal by (intro safeI vcg_rt post_HandleCall assms; simp)
  subgoal by (intro safeI vcg_rt assms; simp add: faulted_def ready_def key_def HasPendingException_def ctls_def)
  done

lemma post_resolve_virtual [vcg]: "(\<And>x. Q x) \<Longrightarrow> post (rt_ResolveVirtualMethod rt c m) Q"
  by (rule post_any)

lemma ready_caches: "runtime_ok rt \<Longrightarrow> ready B st \<Longrightarrow> ready B (st\<lparr>st_vm := rt_UpdateInlineCaches rt m i c (st_vm st)\<rparr>)"
  by (simp add: ready_quiet runtime_okD)

lemma safe_virtual_call:
  assumes "runtime_ok rt" "env_ok rt env"
  shows "safe DException rt (virtual_call env ck rt f)"
  unfolding virtual_call_def HandleVirtualCall_def
  by (intro safeI vcg_rt post_resolve_virtual post_GetCallerObject post_HandleCall assms; simp add: ready_caches assms)

lemma post_split: "(\<And>a b. p = (a, b) \<Longrightarrow> post (h a b) Q) \<Longrightarrow> post (case p of (a, b) \<Rightarrow> h a b) Q"
  by (cases p) simp

lemma post_case: "(v = None \<Longrightarrow> post n Q) \<Longrightarrow> (\<And>x. v = Some x \<Longrightarrow> post (s x) Q) \<Longrightarrow> post (case v of None \<Rightarrow> n | Some x \<Rightarrow> s x) Q"
  by (cases v) simp_all

lemma post_InitializeObject_method:
  assumes "runtime_ok rt" "env_ok rt env"
    "\<And>st'. \<forall>B. (if method = None then faulted B st else ready B st) \<longrightarrow> ready B st' \<or> raised rt B st' \<Longrightarrow> Q st'"
  shows "post (InitializeObject_method env k method rt f st) Q"
proof -
  have made: "if obj = nullptr then faulted B (st\<lparr>st_vm := vm\<rparr>) else ready B (st\<lparr>st_vm := vm\<rparr>)"
    if "rt_CreateObject rt k (st_vm st) = (obj, vm)" "ready B st" for obj vm B
    by (rule ready_reports_if [OF that(2) runtime_okD(11) [OF assms(1) that(1)]])
  show ?thesis
    unfolding InitializeObject_method_def
    by (intro post_case vcg_rt post_split post_HandleCall assms(1,2)) (rule assms(3), intro allI impI, (simp split: if_splits)?, (drule (1) made)?, (simp split: if_splits)?)+
qed

lemma post_cached [vcg]: "(\<And>x. Q x) \<Longrightarrow> post (get_cached rt st) Q" "(\<And>x. Q1 x) \<Longrightarrow> post (as_method it) Q1"
  by (simp_all add: post_any)

lemma safe_initobj:
  assumes "runtime_ok rt" "env_ok rt env"
  shows "safe DException rt (InitializeObject env eid rt f)"
proof -
  define klass where "klass m (mth :: method_id option) st = (case mth of
       Some cm \<Rightarrow> (Some (mi_class (rt_method rt cm)), st)
     | None \<Rightarrow> (case rt_GetMethodClass rt m eid (st_vm st) of (k, vm) \<Rightarrow>
                  (k, set_acc (SetPrimitive True (0 :: u32) (st_acc st)) (st\<lparr>st_vm := vm\<rparr>))))" for m mth and st :: "'a istate"
  have k: "if k = None then faulted B st' else ready B st'" if "klass m mth st = (k, st')" "ready B st" for m mth k B st st'
    using that ready_reports_if [OF that(2) runtime_okD(8) [OF assms(1)]]
    by (auto simp: klass_def split: option.splits prod.splits)
  have multi: "post (rt_CreateMultiDimensionalArray rt c n g (st_vm st)) Q"
    if "\<And>r vm. \<forall>B. ready B st \<longrightarrow> (if r = nullptr then faulted B (st\<lparr>st_vm := vm\<rparr>) else ready B (st\<lparr>st_vm := vm\<rparr>)) \<Longrightarrow> Q (r, vm)" for c n g st Q
    using runtime_okD(10) [OF assms(1)] by (auto simp: post_def intro!: that ready_reports_if)
  show ?thesis
    unfolding InitializeObject_def klass_def [symmetric]
    by (intro safeI vcg_rt post_cached post_map post_case post_split multi post_InitializeObject_method assms)
      (drule (1) k | simp)+
qed

subsection \<open>The dispatch table\<close>

lemma calm_return:
  "calm (HandleReturn rt f)" "calm (HandleReturnWide rt f)" "calm (HandleReturnObj rt f)" "calm (HandleReturnVoid rt f)" "calm (HandleReturnDyn rt f)"
proof -
  have u: "post (upd_frame g st) Q" if "\<And>fr. ctl_of (g fr) = ctl_of fr" "\<And>st'. \<forall>B. ready B st \<longrightarrow> ready B st' \<Longrightarrow> Q st'" for g st Q
    using that by (auto simp: upd_frame_def post_def ready_put_frame split: bind_splits)
  show "calm (HandleReturn rt f)" "calm (HandleReturnWide rt f)" "calm (HandleReturnObj rt f)" "calm (HandleReturnVoid rt f)" "calm (HandleReturnDyn rt f)"
    unfolding HandleReturn_def HandleReturnWide_def HandleReturnObj_def HandleReturnVoid_def HandleReturnDyn_def
    by (intro calmI vcg u; simp)+
qed

lemma safe_initobjs:
  assumes "runtime_ok rt" "env_ok rt env"
  shows "safe DException rt (HandleInitobj env rt f)" "safe DException rt (HandleInitobjShort env rt f)" "safe DException rt (HandleInitobjRange env rt f)"
  using safeD [OF safe_initobj [OF assms]]
  unfolding HandleInitobj_def HandleInitobjShort_def HandleInitobjRange_def by (auto simp: safe_def split: bind_splits)

lemmas arith_insns =
  HandleAdd_def HandleAdd2_def HandleAdd2Wide_def HandleAddi_def HandleAnd_def HandleAnd2_def HandleAnd2Wide_def
  HandleAndi_def HandleAshr_def HandleAshr2_def HandleAshr2Wide_def HandleAshri_def HandleCmpWide_def HandleDiv_def
  HandleDiv2_def HandleDiv2Wide_def HandleDivi_def HandleDivu2_def HandleDivu2Wide_def HandleF32tof64_def
  HandleF32toi32_def HandleF32toi64_def HandleF32tou32_def HandleF32tou64_def HandleF64tof32_def HandleF64toi32_def
  HandleF64toi64_def HandleF64tou32_def HandleF64tou64_def HandleFadd2_def HandleFadd2Wide_def HandleFcmpg_def
  HandleFcmpgWide_def HandleFcmpl_def HandleFcmplWide_def HandleFdiv2_def HandleFdiv2Wide_def HandleFmod2_def
  HandleFmod2Wide_def HandleFmul2_def HandleFmul2Wide_def HandleFneg_def HandleFnegWide_def HandleFsub2_def
  HandleFsub2Wide_def HandleI32tof32_def HandleI32tof64_def HandleI32toi16_def HandleI32toi64_def HandleI32toi8_def
  HandleI32tou1_def HandleI32tou16_def HandleI32tou8_def HandleI64tof32_def HandleI64tof64_def HandleI64toi32_def
  HandleI64tou1_def HandleMod_def HandleMod2_def HandleMod2Wide_def HandleModi_def HandleModu2_def HandleModu2Wide_def
  HandleMul_def HandleMul2_def HandleMul2Wide_def HandleMuli_def HandleNeg_def HandleNegWide_def HandleNot_def
  HandleNotWide_def HandleOr_def HandleOr2_def HandleOr2Wide_def HandleOri_def HandleShl_def HandleShl2_def
  HandleShl2Wide_def HandleShli_def HandleShr_def HandleShr2_def HandleShr2Wide_def HandleShri_def HandleSub_def
  HandleSub2_def HandleSub2Wide_def HandleSubi_def HandleU32tof32_def HandleU32tof64_def HandleU32toi16_def
  HandleU32toi64_def HandleU32toi8_def HandleU32tou1_def HandleU32tou16_def HandleU32tou8_def HandleU64tof32_def
  HandleU64tof64_def HandleU64toi32_def HandleU64tou1_def HandleU64tou32_def HandleUcmp_def HandleUcmpWide_def
  HandleXor_def HandleXor2_def HandleXor2Wide_def HandleXori_def

lemmas branch_insns =
  HandleJeq_def HandleJeqObj_def HandleJeqz_def HandleJeqzObj_def HandleJge_def HandleJgez_def HandleJgt_def
  HandleJgtz_def HandleJle_def HandleJlez_def HandleJlt_def HandleJltz_def HandleJne_def HandleJneObj_def HandleJnez_def
  HandleJnezObj_def

lemmas array_insns =
  HandleFldarr32_def HandleFldarrWide_def HandleFstarr32_def HandleFstarrWide_def HandleLdarr_def HandleLdarr16_def
  HandleLdarr8_def HandleLdarrWide_def HandleLdarru16_def HandleLdarru8_def HandleStarr_def HandleStarr16_def
  HandleStarr8_def HandleStarrWide_def

lemmas call_insns =
  HandleCallAcc_def HandleCallAccShort_def HandleCallRange_def HandleCallShort_def HandleCallVirt_def
  HandleCallVirtAcc_def HandleCallVirtAccShort_def HandleCallVirtRange_def HandleCallVirtShort_def HandleCall_insn_def

definition entry_ok :: "'w rt \<Rightarrow> 'w exec_env \<Rightarrow> 'w insn_entry \<Rightarrow> bool" where
  "entry_ok rt env e = (case e of (f, k, h) \<Rightarrow> safe k rt (h env rt f))"

lemma safe_fatal: "safe k rt (\<lambda>st. None)"
  by (simp add: safe_def)

lemma table_ok:
  assumes "runtime_ok rt" "env_ok rt env"
  shows "list_all (entry_ok rt env) primary_table" "list_all (entry_ok rt env) prefixed_table"
  by (simp_all add: primary_table_def prefixed_table_def entry_ok_def calm_safe calm_moves calm_arith calm_string [OF assms(1)] calm_return
      safe_fatal safe_division [OF assms(1)] safe_branches [OF assms(1)] safe_types [OF assms(1)] safe_arrays [OF assms(1)] safe_fields [OF assms(1)]
      safe_calls [OF assms] safe_virtual_call [OF assms] safe_initobjs [OF assms] arith_insns branch_insns array_insns call_insns)

end
