(* ===== verification/LoopProperties.thy ===== *)
theory LoopProperties
  imports LoopHandlers
begin

text \<open>
  The interpreter loop: every label it visits belongs to the instruction it is at, exceptions go to the exception handler,
  and it returns only from the frame it was entered with. The last theorem shows where the dispatch of the code breaks this.
\<close>

subsection \<open>Steps of the loop\<close>

definition label_ok :: "'w rt \<Rightarrow> base \<Rightarrow> nat \<Rightarrow> 'w istate \<Rightarrow> bool" where
  "label_ok rt B idx st \<longleftrightarrow>
     idx = unat EXCEPTION_OPCODE \<and> faulted B st \<or>
     (\<exists>p. GetPrimaryOpcode rt st = Some p \<and>
        ((ready B st \<or> replaced rt B st) \<and> idx = unat p \<or>
         ready B st \<and> (\<exists>off n s. prefix_at (unat p) = Some (off, n) \<and> GetSecondaryOpcode rt st = Some s \<and> unat s < n \<and> idx = off + unat s)))"

definition returns :: "base \<Rightarrow> 'w vm \<Rightarrow> bool" where
  "returns B vm \<longleftrightarrow> (\<exists>c. ctls vm = c # b_below B \<and> c_method c = b_method B \<and> \<not> c_stackless c)"

fun outcome_ok :: "'w rt \<Rightarrow> base \<Rightarrow> 'w outcome \<Rightarrow> bool" where
  "outcome_ok rt B (Running idx st) = label_ok rt B idx st"
| "outcome_ok rt B (Returned vm) = returns B vm"

lemma dispatch_primary_ok: "dispatch_primary rt st = Some out \<Longrightarrow> ready B st \<or> replaced rt B st \<Longrightarrow> outcome_ok rt B out"
  by (auto simp: dispatch_primary_def label_ok_def split: bind_splits if_splits)

lemma dispatch_exception_ok:
  assumes "dispatch_exception rt st = Some out" "ready B st \<or> raised rt B st"
  shows "outcome_ok rt B out"
  using assms(2)
proof
  assume r: "ready B st"
  obtain w where w: "at_inst rt GetOpcode st = Some w" using assms(1) by (auto simp: dispatch_exception_def GetExceptionOpcode_def split: bind_splits)
  have "st_opext st = 0" using r by (simp add: ready_def key_def)
  then have "out = Running (unat (w AND 0xFF)) st"
    using assms(1) w by (auto simp: dispatch_exception_def GetExceptionOpcode_def split: if_splits)
  moreover have "unat (ucast (w AND 0xFF) :: u8) = unat (w AND 0xFF)"
  proof -
    have "unat (ucast y :: u16) = unat y" for y :: u8
    proof -
      have "unat y < 2 ^ LENGTH(8)" by (rule unsigned_less)
      then show ?thesis by (simp add: unsigned_ucast_eq take_bit_nat_eq_self)
    qed
    then show ?thesis using low_byte [of w] by metis
  qed
  ultimately show ?thesis using r w by (simp add: label_ok_def GetPrimaryOpcode_def)
next
  assume "raised rt B st"
  then show ?thesis using assms(1) by (auto simp: dispatch_exception_def raised_def label_ok_def split: if_splits)
qed

lemma stack_returns:
  assumes "stack_ok B (ctls vm)" "vm_frames vm = fr # rest" "\<not> IsStackless fr"
  shows "returns B vm"
  using assms by (simp add: returns_def ctls_def ctl_of_def)

lemma pop_frame_ok:
  assumes "pop_frame st = Some (fr, prev, st')" "stack_ok B (ctls (st_vm st))" "IsStackless fr"
  shows "stack_ok B (ctls (st_vm st'))" "GetFrame st' = Some prev" "fst (f_next_inst prev) = Code (f_method prev)"
    "HasPendingException (st_vm st') = HasPendingException (st_vm st)" "st_opext st' = st_opext st"
proof -
  obtain rest where v: "vm_frames (st_vm st) = fr # prev # rest"
    "st' = st\<lparr>st_vm := (st_vm st)\<lparr>vm_frames := prev # rest\<rparr>, st_inst := ip_plus (f_inst prev) (f_bc_offset prev), st_instructions := f_inst prev\<rparr>"
    using assms(1) by (auto simp: pop_frame_def UpdateInstructionHandlerState_def GetFrame_def split: list.splits)
  have c: "callers_ok B (ctl_of prev # map ctl_of rest)" using assms(2,3) v(1) by (simp add: ctls_def ctl_of_def cong del: if_weak_cong)
  then show "stack_ok B (ctls (st_vm st'))" using callers_stack [OF c] v(2) by (simp add: ctls_def)
  show "GetFrame st' = Some prev" "fst (f_next_inst prev) = Code (f_method prev)"
    "HasPendingException (st_vm st') = HasPendingException (st_vm st)" "st_opext st' = st_opext st"
    using c v(2) by (simp_all add: GetFrame_def HasPendingException_def ctl_of_def)
qed

lemma HandleReturnStackless_ok:
  assumes "HandleReturnStackless rt st = Some st'" "runtime_ok rt" "stack_ok B (ctls (st_vm st))" "st_opext st = 0"
  shows "if HasPendingException (st_vm st) then raised rt B st' else ready B st'"
proof -
  obtain fr where fr: "GetFrame st = Some fr" "IsStackless fr"
    using assms(1) by (auto simp: HandleReturnStackless_def split: bind_splits if_splits)
  define st0 where "st0 = st\<lparr>st_vm := rt_MethodExitEvent rt (f_method fr) (st_vm st)\<rparr>"
  have q: "quiet (st_vm st) (st_vm st0)" using runtime_okD(19) [OF assms(2)] by (simp add: st0_def)
  obtain fr1 prev st1 where p: "pop_frame st0 = Some (fr1, prev, st1)"
    "(if HasPendingException (st_vm st1) then MoveToExceptionHandler rt st1 else Some (st1\<lparr>st_acc := f_acc fr1, st_inst := f_next_inst prev\<rparr>))
       \<bind> (\<lambda>st. Some (if IsInitobj fr1 then st\<lparr>st_acc := f_acc prev\<rparr> else st)) = Some st'"
    using assms(1) fr by (auto simp: HandleReturnStackless_def st0_def split: bind_splits)
  have s: "IsStackless fr1" using q p(1) fr
    by (auto simp: pop_frame_def quiet_def ctls_def GetFrame_def ctl_of_def split: list.splits bind_splits)
  have st1: "stack_ok B (ctls (st_vm st1))" "HasPendingException (st_vm st1) = HasPendingException (st_vm st)" "st_opext st1 = 0"
    "GetFrame st1 = Some prev" "fst (f_next_inst prev) = Code (f_method prev)"
    using pop_frame_ok [OF p(1) _ s, of B] q assms(3,4) by (auto simp: quiet_def st0_def)
  then obtain rest where rest: "vm_frames (st_vm st1) = prev # rest" by (auto simp: GetFrame_def split: list.splits)
  show ?thesis
  proof (cases "HasPendingException (st_vm st)")
    case True
    then obtain st2 where "MoveToExceptionHandler rt st1 = Some st2" "st' = (if IsInitobj fr1 then st2\<lparr>st_acc := f_acc prev\<rparr> else st2)"
      using p(2) st1(2) by (auto split: bind_splits)
    then show ?thesis
      using MoveToExceptionHandler_raised [of rt st1 st2 B] st1(1,2) True by (simp add: faulted_def raised_def GetExceptionOpcode_def)
  next
    case False
    then show ?thesis
      using p(2) st1 rest by (cases "IsInitobj fr1") (auto simp: ready_def key_def ctls_def ctl_of_def)
  qed
qed

lemma faulted_quiet: "quiet (st_vm st) vm \<Longrightarrow> faulted B (st\<lparr>st_vm := vm\<rparr>) = faulted B st"
  by (simp add: faulted_def quiet_def)

lemma InstrumentInstruction_ok:
  assumes "InstrumentInstruction instr rt st = Some st'" "runtime_ok rt"
  shows "ready B st \<Longrightarrow> ready B st'" "faulted B st \<Longrightarrow> faulted B st'" "instr \<or> st' = st"
proof -
  have "(ready B st \<longrightarrow> ready B st') \<and> (faulted B st \<longrightarrow> faulted B st')"
  proof (cases instr)
    case True
    then obtain st1 st2 where s: "SetAcc_frame st = Some st1" "UpdateBytecodeOffset st1 = Some st2"
      "GetAcc_frame (st2\<lparr>st_vm := rt_BytecodePcChangedEvent rt (st_vm st2)\<rparr>) = Some st'"
      using assms(1) by (auto simp: InstrumentInstruction_def split: bind_splits)
    have q: "quiet (st_vm st2) (rt_BytecodePcChangedEvent rt (st_vm st2))" by (rule runtime_okD(21) [OF assms(2)])
    show ?thesis
      using frame_ops(1) [OF s(1), of B] frame_ops(3) [OF s(2), of B] frame_ops(2) [OF s(3), of B] ready_quiet [OF _ q, of B] faulted_quiet [OF q, of B]
      by blast
  next
    case False
    then show ?thesis using assms(1) by (simp add: InstrumentInstruction_def)
  qed
  then show "ready B st \<Longrightarrow> ready B st'" "faulted B st \<Longrightarrow> faulted B st'" by blast+
  show "instr \<or> st' = st" using assms(1) by (cases instr) (auto simp: InstrumentInstruction_def)
qed

lemma faulted_frames:
  assumes "faulted B st" "vm_frames (st_vm st) = fr # prev # rest" "IsStackless fr"
  shows "fst (f_inst prev) = Code (f_method prev)"
  using assms by (simp add: faulted_def ctls_def ctl_of_def)

lemma FindCatchBlockStackless_ok:
  assumes "FindCatchBlockStackless n instr rt st = Some (off, st')" "runtime_ok rt" "faulted B st"
  shows "faulted B st' \<and> (off = INVALID_OFFSET \<longrightarrow> returns B (st_vm st'))"
  using assms(1,3)
proof (induction n arbitrary: st)
  case (Suc n)
  obtain st1 mth where s: "InstrumentInstruction instr rt st = Some st1" "GetMethod st1 = Some mth"
    using Suc.prems(1) by (auto split: bind_splits)
  have f1: "faulted B st1" using InstrumentInstruction_ok(2) [OF s(1) assms(2) Suc.prems(2)] .
  then have pend: "HasPendingException (st_vm st1)" by (simp add: faulted_def)
  define pc :: u32 where "pc = ucast (inst_address rt st1 - rt_address rt (Code mth))"
  obtain o' vm where o: "rt_FindCatchBlock rt mth (vm_exception (st_vm st1)) pc (st_vm st1) = (o', vm)" by fastforce
  define st2 where "st2 = st1\<lparr>st_vm := vm\<rparr>"
  have f2: "faulted B st2" using f1 faulted_quiet [OF runtime_okD(13) [OF assms(2) o]] by (simp add: st2_def)
  have eq: "(if o' \<noteq> INVALID_OFFSET then Some (o', st2)
     else (case vm_frames vm of [] \<Rightarrow> None | [fr] \<Rightarrow> Some (o', st2)
       | fr # prev # rest \<Rightarrow>
           if \<not> IsStackless fr \<or> rt_IsBoundaryFrame rt prev then Some (o', st2)
           else do { (fr, prev, st) \<leftarrow> pop_frame (st2\<lparr>st_vm := rt_MethodExitEvent rt mth vm\<rparr>);
                     if \<not> HasPendingException (st_vm st) then None
                     else FindCatchBlockStackless n instr rt (if IsInitobj fr then st\<lparr>st_acc := f_acc prev\<rparr> else st) })) = Some (off, st')"
    using Suc.prems(1) s pend o by (simp add: pc_def st2_def Let_def cong del: if_weak_cong list.case_cong_weak)
  obtain fr rest where fr: "vm_frames vm = fr # rest"
    using f2 by (cases "vm_frames vm") (auto simp: faulted_def st2_def ctls_def)
  have stk: "stack_ok B (ctls vm)" using f2 by (simp add: faulted_def st2_def)
  show ?case
  proof (cases "IsStackless fr \<and> o' = INVALID_OFFSET")
    case False
    then have "off = o' \<and> st' = st2" using eq fr by (auto split: list.splits if_splits)
    then show ?thesis using f2 False stack_returns [OF stk fr] by (auto simp: st2_def)
  next
    case True
    then obtain prev rest' where rest: "rest = prev # rest'" using stk fr by (cases rest) (auto simp: ctls_def ctl_of_def)
    have "\<not> rt_IsBoundaryFrame rt prev" using faulted_frames [OF f2] fr rest True runtime_okD(24) [OF assms(2)] by (simp add: st2_def)
    then obtain fr1 prev1 st3 where p: "pop_frame (st2\<lparr>st_vm := rt_MethodExitEvent rt mth vm\<rparr>) = Some (fr1, prev1, st3)"
      "FindCatchBlockStackless n instr rt (if IsInitobj fr1 then st3\<lparr>st_acc := f_acc prev1\<rparr> else st3) = Some (off, st')"
      using eq fr rest True by (auto split: if_splits bind_splits)
    have q: "quiet vm (rt_MethodExitEvent rt mth vm)" by (rule runtime_okD(19) [OF assms(2)])
    have s: "IsStackless fr1" using q p(1) fr True
      by (auto simp: pop_frame_def quiet_def ctls_def ctl_of_def split: list.splits bind_splits)
    have "faulted B st3"
      using pop_frame_ok [OF p(1) _ s, of B] q f2 by (simp add: faulted_def st2_def quiet_def)
    then show ?thesis using Suc.IH [OF p(2)] by simp
  qed
qed simp

lemma ready_catch:
  assumes "faulted B st" "GetFrame st = Some fr" "runtime_ok rt"
    and "vm = (st_vm (put_frame (fr\<lparr>f_acc := r\<rparr>) st))\<lparr>vm_exception := nullptr\<rparr>" "quiet vm vm'" "init_state vm' (Code (f_method fr), x) = Some st'"
  shows "ready B st'"
proof -
  have "ctls vm' = ctls (st_vm st)"
    using ctls_put_frame [OF assms(2), of "fr\<lparr>f_acc := r\<rparr>"] assms(4,5) by (simp add: quiet_def ctls_def)
  moreover obtain fr' rest where "vm_frames vm' = fr' # rest" "st' = \<lparr>st_vm = vm', st_acc = f_acc fr', st_inst = (Code (f_method fr), x), st_opext = 0, st_instructions = f_inst fr'\<rparr>"
    using assms(6) by (auto simp: init_state_def split: list.splits)
  moreover have "\<not> HasPendingException vm'" using assms(4,5) by (simp add: quiet_def HasPendingException_def)
  ultimately show ?thesis
    using assms(1,2) by (auto simp: ready_def key_def faulted_def GetFrame_def ctls_def split: list.splits) (simp add: ctl_of_def)
qed

lemma exception_handler_ok:
  assumes "exception_handler instr rt st = Some out" "runtime_ok rt" "faulted B st"
  shows "outcome_ok rt B out"
proof -
  obtain off st1 where c: "FindCatchBlockStackless (length (vm_frames (st_vm st))) instr rt st = Some (off, st1)"
    using assms(1) by (auto simp: exception_handler_def split: if_splits bind_splits)
  have f1: "faulted B st1" "off = INVALID_OFFSET \<Longrightarrow> returns B (st_vm st1)"
    using FindCatchBlockStackless_ok [OF c assms(2,3)] by auto
  have pend: "HasPendingException (st_vm st)" using assms(3) by (simp add: faulted_def)
  show ?thesis
  proof (cases "off = INVALID_OFFSET")
    case True
    then have "out = Returned (rt_FindCatchBlockInCallStack rt (vm_exception (st_vm st1)) (st_vm st1))"
      using assms(1) c pend by (simp add: exception_handler_def)
    then show ?thesis using f1(2) True runtime_okD(23) [OF assms(2)] by (simp add: returns_def)
  next
    case False
    then obtain fr where fr: "GetFrame st1 = Some fr" using assms(1) c pend by (auto simp: exception_handler_def split: bind_splits)
    define vm where "vm = (st_vm (put_frame (fr\<lparr>f_acc := rt_SetExceptionToVReg rt (vm_exception (st_vm st1)) (f_acc fr)\<rparr>) st1))\<lparr>vm_exception := nullptr\<rparr>"
    define vm' where "vm' = (if instr then rt_ExceptionCatchEvent rt (f_method fr) off vm else vm)"
    have q: "quiet vm vm'" using runtime_okD(22) [OF assms(2)] by (auto simp: vm'_def quiet_def)
    obtain st2 where st2: "init_state vm' (ip_plus (Code (f_method fr), 0) off) = Some st2" "dispatch_primary rt st2 = Some out"
      using assms(1) c pend False fr by (auto simp: exception_handler_def Let_def vm_def vm'_def split: bind_splits cong del: if_weak_cong)
    then show ?thesis using dispatch_primary_ok [OF st2(2), of B] ready_catch [OF f1(1) fr assms(2) vm_def q] by (simp add: ip_plus_def)
  qed
qed

lemma instrument_frame_handler_ok:
  assumes "instrument_frame_handler rt st = Some out" "runtime_ok rt" "ready B st"
  shows "outcome_ok rt B out"
proof -
  obtain fr where fr: "GetFrame st = Some fr" using assms(1) by (auto simp: instrument_frame_handler_def split: bind_splits)
  have flag: "ctl_of (clear_frame_flag FORCE_POP fr) = ctl_of fr" "ctl_of (clear_frame_flag RETRY_INSTRUCTION fr) = ctl_of fr"
  proof -
    have "(x AND - 2) AND 16 = x AND 16" "(x AND - 3) AND 16 = x AND 16" for x :: u64 by (simp_all add: and.assoc)
    then show "ctl_of (clear_frame_flag FORCE_POP fr) = ctl_of fr" "ctl_of (clear_frame_flag RETRY_INSTRUCTION fr) = ctl_of fr"
      by (simp_all add: ctl_of_def clear_frame_flag_def frame_flag_def IS_STACKLESS_def FORCE_POP_def RETRY_INSTRUCTION_def)
  qed
  show ?thesis
  proof (cases "IsForcePop fr")
    case True
    define st1 where "st1 = put_frame ((clear_frame_flag FORCE_POP fr)\<lparr>f_acc := vreg0\<rparr>) (st\<lparr>st_acc := vreg0\<rparr>)"
    have r1: "ready B st1"
      using assms(3) ready_put_frame(1) [of "st\<lparr>st_acc := vreg0\<rparr>" fr] fr flag by (simp add: st1_def GetFrame_def)
    then obtain fr1 rest where f1: "vm_frames (st_vm st1) = fr1 # rest" using ready_frames by blast
    have e: "(if IsStackless fr then do { st \<leftarrow> HandleReturnStackless rt st1; dispatch_primary rt st } else Some (Returned (st_vm st1))) = Some out"
      using assms(1) fr True by (simp add: instrument_frame_handler_def InstrumentForceReturn_def st1_def put_frame_def GetFrame_def cong del: if_weak_cong)
    show ?thesis
    proof (cases "IsStackless fr")
      case True
      then obtain st2 where s: "HandleReturnStackless rt st1 = Some st2" "dispatch_primary rt st2 = Some out" using e by (auto split: bind_splits)
      have "ready B st2" using HandleReturnStackless_ok [OF s(1) assms(2), of B] r1 by (simp add: ready_def key_def)
      then show ?thesis using dispatch_primary_ok [OF s(2)] by simp
    next
      case nonst: False
      have "ctl_of fr1 = ctl_of fr" using f1 flag by (auto simp: st1_def put_frame_def)
      then show ?thesis using e nonst r1 stack_returns [OF _ f1, of B] by (auto simp: ready_def key_def ctl_of_def)
    qed
  next
    case False
    define fr1 where "fr1 = clear_frame_flag RETRY_INSTRUCTION fr"
    have r1: "ready B (put_frame fr1 st)" using assms(3) ready_put_frame(1) [OF fr] flag by (simp add: fr1_def)
    obtain st2 where s: "init_state (st_vm (put_frame fr1 st)) (ip_plus (Code (f_method fr1), 0) (f_bc_offset fr1)) = Some st2" "dispatch_primary rt st2 = Some out"
      using assms(1) fr False by (auto simp: instrument_frame_handler_def Let_def fr1_def split: bind_splits)
    have "ready B st2"
      using r1 s(1) by (auto simp: init_state_def ready_def key_def put_frame_def ip_plus_def ctls_def) (simp add: ctl_of_def)
    then show ?thesis using dispatch_primary_ok [OF s(2)] by simp
  qed
qed

lemma OpcodeFake: "st_inst st = (FakeInstBuf, 0) \<Longrightarrow> GetPrimaryOpcode rt st = Some 0x92"
  by (simp add: GetPrimaryOpcode_def at_inst_def code_of_def RETURN_VOID_def GetOpcode_def)

lemma insn_return_void: "insn_at 146 = Some (F_NONE, DReturn, \<lambda>_. HandleReturnVoid)"
  by (simp add: insn_at_def primary_table_def)

lemma insn_ok:
  fixes rt :: "'w rt"
  assumes "runtime_ok rt" "env_ok rt env" "insn_at idx = Some (f, k, h)"
  shows "safe k rt (h env rt f)"
proof -
  have "length (primary_table :: 'w insn_entry list) = 170" "length (prefixed_table :: 'w insn_entry list) = 72"
    by (simp_all add: primary_table_def prefixed_table_def)
  moreover have "idx < 170 \<and> primary_table ! idx = (f, k, h) \<or> idx - 256 < 72 \<and> prefixed_table ! (idx - 256) = (f, k, h)"
    using assms(3) by (auto simp: insn_at_def split: if_splits)
  ultimately have "(f, k, h) \<in> set primary_table \<or> (f, k, h) \<in> set prefixed_table"
    using nth_mem by metis
  then show ?thesis using table_ok [OF assms(1,2)] by (auto simp: list_all_iff entry_ok_def)
qed

lemma return_ok:
  assumes "runtime_ok rt" "stack_ok B (ctls (st_vm st))" "st_opext st = 0" "GetFrame st = Some fr"
    and "(if IsStackless fr then do { st \<leftarrow> HandleReturnStackless rt st; dispatch_exception rt st } else Some (Returned (st_vm st))) = Some out"
  shows "outcome_ok rt B out"
proof (cases "IsStackless fr")
  case True
  then obtain st' where s: "HandleReturnStackless rt st = Some st'" "dispatch_exception rt st' = Some out"
    using assms(5) by (auto split: bind_splits)
  then show ?thesis
    using HandleReturnStackless_ok [OF s(1) assms(1-3)] dispatch_exception_ok [OF s(2), of B] by (auto split: if_splits)
next
  case False
  then show ?thesis using assms(2,4,5) stack_returns [of B "st_vm st" fr] by (auto simp: GetFrame_def split: list.splits)
qed

lemma label_cases:
  assumes "label_ok rt B idx st"
  shows "idx = unat EXCEPTION_OPCODE \<Longrightarrow> faulted B st" "prefix_at idx \<noteq> None \<Longrightarrow> ready B st \<and> GetPrimaryOpcode rt st = Some (of_nat idx) \<and> idx < 256"
    "idx \<noteq> unat EXCEPTION_OPCODE \<Longrightarrow> ready B st \<or> replaced rt B st \<and> idx = 146"
proof -
  have u: "unat (p :: u8) < 256" for p using unsigned_less [where 'b = 8, of p] by simp
  have e: "unat EXCEPTION_OPCODE = 328" by (simp add: EXCEPTION_OPCODE_def NUM_PREFIXED_def)
  have pre: "256 \<le> off \<and> off + s < 328" if "prefix_at i = Some (off, n)" "s < n" for i off n s
    using that by (auto simp: prefix_at_def split: if_splits)
  have fake: "p = 0x92" if "replaced rt B st" "GetPrimaryOpcode rt st = Some p" for p
    using OpcodeFake [of st rt] that by (simp add: replaced_def)
  consider (fault) "idx = 328" "faulted B st" | (plain) p where "GetPrimaryOpcode rt st = Some p" "ready B st \<or> replaced rt B st" "idx = unat p"
    | (prefixed) p off n s where "GetPrimaryOpcode rt st = Some p" "ready B st" "prefix_at (unat p) = Some (off, n)" "unat (s :: u8) < n" "idx = off + unat s"
    using assms unfolding label_ok_def e by blast
  note lcases = this
  show "faulted B st" if "idx = unat EXCEPTION_OPCODE"
    using lcases
  proof cases
    case plain
    then show ?thesis using that u [of p] e by simp
  next
    case prefixed
    then show ?thesis using that pre [of "unat p" off n "unat s"] e by simp
  qed
  have p256: "prefix_at i = None" if "256 \<le> i" for i using that by (simp add: prefix_at_def)
  show "ready B st \<and> GetPrimaryOpcode rt st = Some (of_nat idx) \<and> idx < 256" if "prefix_at idx \<noteq> None"
    using lcases
  proof cases
    case fault
    then show ?thesis using that p256 by simp
  next
    case plain
    moreover have "prefix_at 146 = None" by (simp add: prefix_at_def)
    ultimately show ?thesis using that u [of p] fake [of p] by auto
  next
    case prefixed
    then show ?thesis using that p256 [of idx] pre [of "unat p" off n "unat s"] by simp
  qed
  show "ready B st \<or> replaced rt B st \<and> idx = 146" if "idx \<noteq> unat EXCEPTION_OPCODE"
    using lcases
  proof cases
    case plain
    then show ?thesis using fake [of p] by auto
  qed (use that e in simp_all)
qed

lemma exec_insn_ok:
  assumes "runtime_ok rt" "env_ok rt env" "insn_at idx = Some (f, k, h)" "ready B st \<or> replaced rt B st \<and> idx = 146"
    and "ee_instrumentation env \<Longrightarrow> \<not> rt_SupportOSR rt" "InstrumentInstruction (ee_instrumentation env) rt st = Some st1" "h env rt f st1 = Some st2"
    and "(if ee_instrumentation env then SetAcc_frame st2 else Some st2) = Some st3"
    and "(case k of
       DReturn \<Rightarrow> do { fr \<leftarrow> GetFrame st3; if IsStackless fr then do { st \<leftarrow> HandleReturnStackless rt st3; dispatch_exception rt st } else Some (Returned (st_vm st3)) }
     | DException \<Rightarrow> dispatch_exception rt st3
     | DPrimary \<Rightarrow> dispatch_primary rt st3) = Some out"
  shows "outcome_ok rt B out"
proof (cases "ready B st")
  case True
  then have l: "leaves k rt B st2"
    using safeD [OF insn_ok [OF assms(1-3)] InstrumentInstruction_ok(1) [OF assms(6,1)] assms(7)] by blast
  have l3: "leaves k rt B st3"
  proof (cases "ee_instrumentation env")
    case True
    then have s: "SetAcc_frame st2 = Some st3" using assms(8) by simp
    have "raised rt B st3 = raised rt B st2"
      using s frame_ops(1) [OF s, of B] by (auto simp: raised_def SetAcc_frame_def GetExceptionOpcode_def put_frame_def split: bind_splits)
    then show ?thesis using l frame_ops(1) [OF s, of B] assms(5) True by (cases k) (auto simp: replaced_def)
  next
    case False
    then show ?thesis using l assms(8) by simp
  qed
  show ?thesis
  proof (cases k)
    case DReturn
    then show ?thesis
      using l3 assms(9) return_ok [OF assms(1), of B st3] by (auto simp: ready_def key_def split: bind_splits)
  next
    case DException
    then show ?thesis using l3 assms(9) dispatch_exception_ok by simp
  next
    case DPrimary
    then show ?thesis using l3 assms(9) dispatch_primary_ok by simp
  qed
next
  case False
  then have r: "replaced rt B st" "idx = 146" "\<not> ee_instrumentation env" using assms(4,5) by (auto simp: replaced_def)
  then have "(f, k, h) = (F_NONE, DReturn, \<lambda>_. HandleReturnVoid)" using assms(3) r(2) by (simp add: insn_return_void)
  then have "st3 = st" "k = DReturn" using assms(6-8) r(3) InstrumentInstruction_ok(3) [OF assms(6,1)] by (auto simp: HandleReturnVoid_def)
  then obtain fr where fr: "GetFrame st = Some fr" using assms(9) by (auto split: bind_splits)
  show ?thesis
    by (rule return_ok [OF assms(1) _ _ fr]) (use assms(9) \<open>st3 = st\<close> \<open>k = DReturn\<close> r(1) fr in \<open>simp_all add: replaced_def cong del: if_weak_cong\<close>)
qed

lemma exec_label_ok:
  fixes rt :: "'w rt"
  assumes "exec_label env rt idx st = Some out" "runtime_ok rt" "env_ok rt env" "label_ok rt B idx st"
    and "ee_instrumentation env \<Longrightarrow> \<not> rt_SupportOSR rt"
  shows "outcome_ok rt B out"
proof (cases "idx = unat EXCEPTION_OPCODE")
  case True
  then show ?thesis
    using assms(1) exception_handler_ok [OF _ assms(2) label_cases(1) [OF assms(4) True]] by (simp add: exec_label_def)
next
  case ordinary: False
  show ?thesis
  proof (cases "prefix_at idx")
    case (Some q)
    then obtain off n s where s: "prefix_at idx = Some (off, n)" "GetSecondaryOpcode rt st = Some s" "unat s < n" "out = Running (off + unat s) st"
      using assms(1) ordinary by (cases q) (auto simp: exec_label_def split: bind_splits if_splits)
    have "unat (of_nat idx :: u8) = idx" if "idx < 256" using that by (simp add: unat_of_nat)
    then show ?thesis using label_cases(2) [OF assms(4)] s by (auto simp: label_ok_def)
  next
    case None
    then obtain f k and h :: "'w exec_env \<Rightarrow> 'w handler" where h: "insn_at idx = Some (f, k, h)"
      using assms(1) ordinary by (cases "insn_at idx :: 'w insn_entry option") (auto simp: exec_label_def)
    obtain fr where fr: "GetFrame st = Some fr" using assms(1) ordinary None h by (auto simp: exec_label_def split: bind_splits)
    show ?thesis
    proof (cases "ee_instrumentation env \<and> (IsForcePop fr \<or> IsRetryInstruction fr)")
      case True
      then have "ready B st" using label_cases(3) [OF assms(4) ordinary] assms(5) by (auto simp: replaced_def)
      moreover have "instrument_frame_handler rt st = Some out" using assms(1) ordinary None h fr True by (simp add: exec_label_def)
      ultimately show ?thesis using instrument_frame_handler_ok assms(2) by blast
    next
      case False
      from False have c: "(ee_instrumentation env \<and> (IsForcePop fr \<or> IsRetryInstruction fr)) = False" by simp
      from False obtain st1 st2 st3 where "InstrumentInstruction (ee_instrumentation env) rt st = Some st1" "h env rt f st1 = Some st2"
        "(if ee_instrumentation env then SetAcc_frame st2 else Some st2) = Some st3"
        "(case k of
           DReturn \<Rightarrow> do { fr \<leftarrow> GetFrame st3; if IsStackless fr then do { st \<leftarrow> HandleReturnStackless rt st3; dispatch_exception rt st } else Some (Returned (st_vm st3)) }
         | DException \<Rightarrow> dispatch_exception rt st3
         | DPrimary \<Rightarrow> dispatch_primary rt st3) = Some out"
        using assms(1) ordinary None h fr unfolding exec_label_def
        by (simp add: bind_eq_Some_conv c del: de_Morgan_conj de_Morgan_disj not_imp cong del: if_weak_cong) blast
      then show ?thesis using exec_insn_ok [OF assms(2,3) h label_cases(3) [OF assms(4) ordinary] assms(5)] by blast
    qed
  qed
qed

subsection \<open>The loop\<close>

lemma init_ready:
  assumes "init_state vm (Code m, off) = Some st" "ctls vm = c # cs" "c_method c = m" "fst (c_inst c) = Code m" "\<not> c_stackless c"
  defines "B \<equiv> \<lparr>b_method = m, b_below = cs\<rparr>"
  shows "if HasPendingException vm then faulted B st else ready B st"
  using assms by (auto simp: init_state_def ready_def key_def faulted_def B_def split: list.splits)

text \<open>The environment of the labels in a run with \<open>n\<close> more labels.\<close>

definition loop_env :: "nat \<Rightarrow> bool \<Rightarrow> 'w rt \<Rightarrow> 'w exec_env" where
  "loop_env n instr rt = \<lparr>ee_instrumentation = instr,
     ee_execute = (\<lambda>instr pc vm. do { st \<leftarrow> init_state vm pc; idx \<leftarrow> GetPrimaryOpcode rt st; ExecuteImpl_loop n instr rt (unat idx) st })\<rparr>"

definition loop_returns :: "nat \<Rightarrow> 'w rt \<Rightarrow> bool" where
  "loop_returns n rt \<longleftrightarrow> (\<forall>instr idx st vm B. ExecuteImpl_loop n instr rt idx st = Some vm \<longrightarrow> label_ok rt B idx st \<longrightarrow>
     (instr \<or> rt_IsDebugMode rt \<longrightarrow> \<not> rt_SupportOSR rt) \<longrightarrow> returns B vm)"

lemma loop_env_ok:
  assumes "loop_returns n rt" "rt_IsDebugMode rt \<Longrightarrow> \<not> rt_SupportOSR rt"
  shows "env_ok rt (loop_env n instr rt)"
  unfolding env_ok_def
proof (intro allI impI)
  fix m vm vm' c cs
  assume e: "ee_execute (loop_env n instr rt) (rt_IsDebugMode rt) (Code m, 0) vm = Some vm'" and c: "ctls vm = c # cs" "c_method c = m"
    "c_inst c = (Code m, 0)" "\<not> c_stackless c" "\<not> HasPendingException vm"
  obtain st p where s: "init_state vm (Code m, 0) = Some st" "GetPrimaryOpcode rt st = Some p" "ExecuteImpl_loop n (rt_IsDebugMode rt) rt (unat p) st = Some vm'"
    using e by (auto simp: loop_env_def split: bind_splits)
  have "label_ok rt \<lparr>b_method = m, b_below = cs\<rparr> (unat p) st"
    using init_ready [OF s(1) c(1,2) _ c(4)] c(3,5) s(2) by (simp add: label_ok_def)
  then have "returns \<lparr>b_method = m, b_below = cs\<rparr> vm'" using assms s(3) unfolding loop_returns_def by blast
  then show "\<exists>c'. ctls vm' = c' # cs" by (auto simp: returns_def)
qed

lemma ExecuteImpl_loop_returns: "runtime_ok rt \<Longrightarrow> loop_returns n rt"
proof (induction n)
  case 0
  show ?case by (simp add: loop_returns_def)
next
  case (Suc n)
  show ?case unfolding loop_returns_def
  proof (intro allI impI)
    fix instr idx st vm B
    assume a: "ExecuteImpl_loop (Suc n) instr rt idx st = Some vm" "label_ok rt B idx st" "instr \<or> rt_IsDebugMode rt \<longrightarrow> \<not> rt_SupportOSR rt"
    obtain out where out: "exec_label (loop_env n instr rt) rt idx st = Some out"
      "(case out of Returned vm \<Rightarrow> Some vm | Running idx st \<Rightarrow> ExecuteImpl_loop n instr rt idx st) = Some vm"
      using a(1) by (auto simp: loop_env_def split: bind_splits)
    have "outcome_ok rt B out"
      using exec_label_ok [OF out(1) Suc.prems loop_env_ok [OF Suc.IH [OF Suc.prems]] a(2)] a(3) by (simp add: loop_env_def)
    then show "returns B vm" using out(2) Suc.IH [OF Suc.prems] a(3) unfolding loop_returns_def by (cases out) auto
  qed
qed

text \<open>
  C22: The interpreter loop is balanced, whatever the bytecode: entered with a frame that is not stackless, by a call or
  for a pending exception, it returns, if it returns, with that frame on top, every frame it pushed removed, and the
  control data of the frames below as they were.
\<close>

theorem interpreter_balanced:
  assumes "ExecuteImpl n instr jump_to_eh rt (Code (f_method fr), off) vm = Some vm'" "runtime_ok rt"
    and "instr \<or> rt_IsDebugMode rt \<Longrightarrow> \<not> rt_SupportOSR rt" "vm_frames vm = fr # rest" "fst (f_inst fr) = Code (f_method fr)" "\<not> IsStackless fr"
    and "jump_to_eh \<longleftrightarrow> HasPendingException vm"
  shows "\<exists>fr' rest'. vm_frames vm' = fr' # rest' \<and> f_method fr' = f_method fr \<and> \<not> IsStackless fr' \<and> map ctl_of rest' = map ctl_of rest"
proof -
  define B where "B = \<lparr>b_method = f_method fr, b_below = map ctl_of rest\<rparr>"
  obtain st idx where s: "init_state vm (Code (f_method fr), off) = Some st" "ExecuteImpl_loop n instr rt idx st = Some vm'"
    "if jump_to_eh then idx = unat EXCEPTION_OPCODE else \<exists>p. GetPrimaryOpcode rt st = Some p \<and> idx = unat p"
    using assms(1) by (auto simp: ExecuteImpl_def split: bind_splits if_splits)
  have "if HasPendingException vm then faulted B st else ready B st"
    using init_ready [OF s(1), of "ctl_of fr" "map ctl_of rest"] assms(4-6) by (simp add: ctls_def B_def) (simp add: ctl_of_def)
  then have "label_ok rt B idx st" using s(3) assms(7) by (auto simp: label_ok_def split: if_splits)
  then have "returns B vm'" using ExecuteImpl_loop_returns [OF assms(2), of n] s(2) assms(3) unfolding loop_returns_def by blast
  then show ?thesis
    by (auto simp: returns_def B_def ctls_def ctl_of_def map_eq_Cons_conv)
qed

text \<open>The labels a run visits.\<close>

inductive loop_reach :: "'w exec_env \<Rightarrow> 'w rt \<Rightarrow> nat \<Rightarrow> 'w istate \<Rightarrow> nat \<Rightarrow> 'w istate \<Rightarrow> bool" for env rt idx0 st0 where
  reach_start: "loop_reach env rt idx0 st0 idx0 st0"
| reach_step: "loop_reach env rt idx0 st0 idx st \<Longrightarrow> exec_label env rt idx st = Some (Running idx' st') \<Longrightarrow> loop_reach env rt idx0 st0 idx' st'"

lemma loop_reach_ok:
  assumes "loop_reach env rt idx0 st0 idx st" "label_ok rt B idx0 st0" "runtime_ok rt" "env_ok rt env" "ee_instrumentation env \<Longrightarrow> \<not> rt_SupportOSR rt"
  shows "label_ok rt B idx st"
  using assms(1)
proof induction
  case (reach_step idx st idx' st')
  then show ?case using exec_label_ok [OF reach_step.hyps(2) assms(3,4) _ assms(5)] by simp
qed (rule assms(2))

definition at_label :: "'w rt \<Rightarrow> nat \<Rightarrow> 'w istate \<Rightarrow> bool" where
  "at_label rt idx st \<longleftrightarrow> (\<exists>p. GetPrimaryOpcode rt st = Some p \<and> (idx = unat p \<or>
     (\<exists>off n s. prefix_at (unat p) = Some (off, n) \<and> GetSecondaryOpcode rt st = Some s \<and> unat s < n \<and> idx = off + unat s)))"

text \<open>
  The return that on-stack replacement leaves behind: compiled code may have finished the method with an exception. Then
  the return goes on at the exception handler, or leaves the loop, with the exception still pending.
\<close>

fun still_pending :: "'w outcome \<Rightarrow> bool" where
  "still_pending (Running idx st) \<longleftrightarrow> idx = 328 \<and> HasPendingException (st_vm st)"
| "still_pending (Returned vm) \<longleftrightarrow> HasPendingException vm"

lemma HandleReturnStackless_raises:
  assumes "runtime_ok rt" "HandleReturnStackless rt st = Some st'" "HasPendingException (st_vm st)"
  shows "GetExceptionOpcode rt st' = Some 328 \<and> HasPendingException (st_vm st')"
proof -
  obtain fr where g: "GetFrame st = Some fr" "IsStackless fr" using assms(2) by (auto simp: HandleReturnStackless_def split: bind_splits if_splits)
  define q where "q = pop_frame (st\<lparr>st_vm := rt_MethodExitEvent rt (f_method fr) (st_vm st)\<rparr>)"
  have r: "HandleReturnStackless rt st = do { (fr, prev, st) \<leftarrow> q;
      st \<leftarrow> (if HasPendingException (st_vm st) then MoveToExceptionHandler rt st else Some (st\<lparr>st_acc := f_acc fr, st_inst := f_next_inst prev\<rparr>));
      Some (if IsInitobj fr then st\<lparr>st_acc := f_acc prev\<rparr> else st) }"
    using g by (simp add: HandleReturnStackless_def q_def)
  then obtain fr1 prev st1 where q: "q = Some (fr1, prev, st1)" using assms(2) by (cases q) auto
  then obtain st2 where s:
    "(if HasPendingException (st_vm st1) then MoveToExceptionHandler rt st1 else Some (st1\<lparr>st_acc := f_acc fr1, st_inst := f_next_inst prev\<rparr>)) = Some st2"
    "st' = (if IsInitobj fr1 then st2\<lparr>st_acc := f_acc prev\<rparr> else st2)"
    using assms(2) unfolding r by (auto simp: bind_eq_Some_conv simp del: if_split)
  have p: "HasPendingException (st_vm st1)"
    using q runtime_okD(19) [OF assms(1), of "st_vm st" "f_method fr"] assms(3)
    by (auto simp: q_def pop_frame_def UpdateInstructionHandlerState_def HasPendingException_def quiet_def split: list.splits bind_splits)
  then have m: "MoveToExceptionHandler rt st1 = Some st2" using s(1) by simp
  then obtain opc where o: "at_inst rt GetOpcode st1 = Some opc" by (auto simp: MoveToExceptionHandler_def GetPrimaryOpcode_def split: bind_splits)
  have "st2 = st1\<lparr>st_opext := 328 - (opc AND 0xFF)\<rparr>" using m MoveToExceptionHandler_eq(1) [OF o] by simp
  then show ?thesis
    using MoveToExceptionHandler_eq(2) [OF o] p by (auto simp: s(2) GetExceptionOpcode_def at_inst_def)
qed

lemma replaced_return:
  assumes "runtime_ok rt" "\<not> ee_instrumentation env" "exec_label env rt 146 st = Some out" "HasPendingException (st_vm st)"
  shows "still_pending out"
proof -
  obtain fr where fr: "GetFrame st = Some fr"
    "(if IsStackless fr then do { st \<leftarrow> HandleReturnStackless rt st; dispatch_exception rt st } else Some (Returned (st_vm st))) = Some out"
    using assms(2,3)
    by (auto simp: exec_label_def insn_return_void prefix_at_def EXCEPTION_OPCODE_def NUM_PREFIXED_def InstrumentInstruction_def
        HandleReturnVoid_def split: bind_splits)
  show ?thesis
  proof (cases "IsStackless fr")
    case True
    then obtain st' where "HandleReturnStackless rt st = Some st'" "dispatch_exception rt st' = Some out"
      using fr(2) by (auto split: bind_splits)
    then show ?thesis using HandleReturnStackless_raises [OF assms(1) _ assms(4)] by (auto simp: dispatch_exception_def split: if_splits)
  qed (use fr(2) assms(4) in auto)
qed

text \<open>
  C21: Provided that safepoints and the resolution of strings do not throw (\<open>polls_quiet\<close>; the properties of jumps and of
  calls with a pending exception show what happens otherwise), at every label a run of the loop visits one of three things holds. It is the exception handler, and an
  exception is pending. Or the label is that of the instruction the state is at (or of its secondary opcode), the opcode
  extension is zero, the instruction is one of the current frame's method, and no exception is pending. Or it is the
  \<open>return.void\<close> that on-stack replacement leaves behind; if compiled code left an exception pending there, executing the
  return goes on at the exception handler or leaves the loop, with the exception still pending.
\<close>

theorem exceptions_never_lost:
  assumes "loop_reach (loop_env n instr rt) rt (unat p) st0 idx st" "init_state vm (Code (f_method fr), off) = Some st0" "GetPrimaryOpcode rt st0 = Some p"
    and "runtime_reports rt" "polls_quiet rt" "instr \<or> rt_IsDebugMode rt \<Longrightarrow> \<not> rt_SupportOSR rt"
    and "vm_frames vm = fr # rest" "fst (f_inst fr) = Code (f_method fr)" "\<not> IsStackless fr" "\<not> HasPendingException vm"
  shows "if idx = 328 then HasPendingException (st_vm st)
    else at_label rt idx st \<and> st_opext st = 0 \<and>
      (\<not> HasPendingException (st_vm st) \<and> (\<exists>fr. GetFrame st = Some fr \<and> fst (st_inst st) = Code (f_method fr)) \<or>
       rt_SupportOSR rt \<and> st_inst st = (FakeInstBuf, 0) \<and> idx = 146 \<and>
       (\<forall>out. HasPendingException (st_vm st) \<longrightarrow> exec_label (loop_env n instr rt) rt idx st = Some out \<longrightarrow> still_pending out))"
proof -
  have ok: "runtime_ok rt" using assms(4,5) by (simp add: runtime_ok_def)
  define B where "B = \<lparr>b_method = f_method fr, b_below = map ctl_of rest\<rparr>"
  have "ready B st0"
    using init_ready [OF assms(2), of "ctl_of fr" "map ctl_of rest"] assms(7-10) by (simp add: ctls_def B_def) (simp add: ctl_of_def)
  then have l0: "label_ok rt B (unat p) st0" using assms(3) by (simp add: label_ok_def)
  have l: "label_ok rt B idx st"
    using loop_reach_ok [OF assms(1) l0 ok loop_env_ok [OF ExecuteImpl_loop_returns [OF ok]]] assms(6) by (simp add: loop_env_def)
  have e: "unat EXCEPTION_OPCODE = 328" by (simp add: EXCEPTION_OPCODE_def NUM_PREFIXED_def)
  show ?thesis
  proof (cases "idx = 328")
    case True
    then show ?thesis using label_cases(1) [OF l] e by (simp add: faulted_def)
  next
    case False
    then have a: "at_label rt idx st" using l e by (auto simp: label_ok_def at_label_def)
    have "ready B st \<or> replaced rt B st \<and> idx = 146" using label_cases(3) [OF l] False e by auto
    then show ?thesis
    proof
      assume r: "ready B st"
      then obtain fr rest where "vm_frames (st_vm st) = fr # rest" "fst (st_inst st) = Code (f_method fr)" "st_opext st = 0"
        "\<not> HasPendingException (st_vm st)" by (rule ready_frames)
      then show ?thesis using a False by (simp add: GetFrame_def)
    next
      assume r: "replaced rt B st \<and> idx = 146"
      then have "\<not> ee_instrumentation (loop_env n instr rt)" using assms(6) by (auto simp: replaced_def loop_env_def)
      then show ?thesis using a False r replaced_return [OF ok] by (auto simp: replaced_def)
    qed
  qed
qed

text \<open>A program: method 0 is \<open>call.short 5; return.void\<close>, every other method \<open>return.void\<close>.\<close>

definition prog_rt :: "unit rt" where
  "prog_rt = sample_rt\<lparr>rt_method := (\<lambda>m. if m = 0
     then \<lparr>mi_code = [0x96, 0x01, 0x05, 0x00, 0x92], mi_num_vregs = 2, mi_num_args = 0, mi_static = True, mi_abstract = False, mi_constructor = False, mi_class = 0\<rparr>
     else \<lparr>mi_code = [0x92], mi_num_vregs = 1, mi_num_args = 2, mi_static = True, mi_abstract = False, mi_constructor = False, mi_class = 0\<rparr>)\<rparr>"

lemma prog_rt_ok: "runtime_ok prog_rt" "\<not> rt_SupportOSR prog_rt"
  by (simp_all add: runtime_ok_def runtime_reports_def polls_quiet_def prog_rt_def sample_rt_def quiet_def reports_def ctls_def HasPendingException_def)

lemma prog_runs: "ExecuteImpl 3 False False prog_rt (Code 0, 0) sample_vm \<noteq> None"
  by code_simp

lemma sample_frame_sel: "f_method sample_frame = 0" "f_inst sample_frame = (Code 0, 0)" "\<not> IsStackless sample_frame"
  "vm_frames sample_vm = [sample_frame]" "\<not> HasPendingException sample_vm"
  by (simp_all add: sample_frame_def make_frame_def frame_flag_def sample_vm_def HasPendingException_def)

theorem interpreter_balanced_witness:
  "\<exists>vm' fr'. ExecuteImpl 3 False False prog_rt (Code 0, 0) sample_vm = Some vm' \<and> vm_frames vm' = [fr'] \<and> f_method fr' = 0"
proof -
  obtain vm' where v: "ExecuteImpl 3 False False prog_rt (Code 0, 0) sample_vm = Some vm'" using prog_runs by auto
  then show ?thesis
    using interpreter_balanced [of 3 False False prog_rt sample_frame 0 sample_vm vm' "[]"] sample_frame_sel prog_rt_ok by auto
qed

lemma prog_calls: "case exec_label (loop_env 2 False prog_rt) prog_rt 150 (the (init_state sample_vm (Code 0, 0))) of
    Some (Running idx st) \<Rightarrow> idx = 146 \<and> st_inst st = (Code 5, 0) | _ \<Rightarrow> False"
  by code_simp

lemma prog_start: "init_state sample_vm (Code 0, 0) \<noteq> None" "GetPrimaryOpcode prog_rt (the (init_state sample_vm (Code 0, 0))) = Some 150"
  by code_simp+

theorem exceptions_never_lost_witness:
  "\<exists>st. loop_reach (loop_env 2 False prog_rt) prog_rt 150 (the (init_state sample_vm (Code 0, 0))) 146 st \<and> st_inst st = (Code 5, 0) \<and>
     at_label prog_rt 146 st \<and> st_opext st = 0 \<and> \<not> HasPendingException (st_vm st)"
proof -
  define st0 where "st0 = the (init_state sample_vm (Code 0, 0))"
  have st0: "init_state sample_vm (Code 0, 0) = Some st0" using prog_start(1) by (auto simp: st0_def)
  obtain st where s: "exec_label (loop_env 2 False prog_rt) prog_rt 150 st0 = Some (Running 146 st)" "st_inst st = (Code 5, 0)"
    using prog_calls unfolding st0_def [symmetric] by (auto split: option.splits outcome.splits)
  have r: "loop_reach (loop_env 2 False prog_rt) prog_rt 150 st0 146 st" by (rule reach_step [OF reach_start s(1)])
  have i: "init_state sample_vm (Code (f_method sample_frame), 0) = Some st0" using st0 by (simp add: sample_frame_sel)
  have p: "GetPrimaryOpcode prog_rt st0 = Some 150" using prog_start(2) by (simp add: st0_def)
  have r': "loop_reach (loop_env 2 False prog_rt) prog_rt (unat (150 :: u8)) st0 146 st" using r by simp
  have "at_label prog_rt 146 st \<and> st_opext st = 0 \<and> \<not> HasPendingException (st_vm st)"
    using exceptions_never_lost [OF r' i p prog_rt_ok(1) [unfolded runtime_ok_def, THEN conjunct1] prog_rt_ok(1) [unfolded runtime_ok_def, THEN conjunct2] _
      sample_frame_sel(4)] sample_frame_sel prog_rt_ok(2) by simp
  then show ?thesis using r s(2) unfolding st0_def by blast
qed

lemma Safepoint_inst: "Safepoint rt st = Some st1 \<Longrightarrow> st_inst st1 = st_inst st" "Safepoint rt st = Some st1 \<Longrightarrow> GetFrame st \<noteq> None"
  by (auto simp: Safepoint_def call_runtime_def SetAcc_frame_def GetAcc_frame_def put_frame_def split: bind_splits)

text \<open>
  C40: A jump whose safepoint leaves an exception pending moves to the exception handler, but is dispatched by its primary
  opcode: the same jump is executed again with the exception pending, and the extension that is left behind selects the
  exception handler at no instruction with another opcode.
\<close>

theorem jump_ignores_exception:
  assumes "GetPrimaryOpcode rt st = Some 0x22" "imm32 rt F_IMM8 st = Some imm" "sint imm \<le> 0" "\<not> ee_instrumentation env"
    and "rt_TestAllFlags rt (st_vm st)" "Safepoint rt st = Some st1" "HasPendingException (st_vm st1)"
  shows "\<exists>st'. exec_label env rt 0x22 st = Some (Running 0x22 st') \<and> HasPendingException (st_vm st') \<and> st_inst st' = st_inst st \<and>
    (\<forall>st2 opc. st_opext st2 = st_opext st' \<longrightarrow> at_inst rt GetOpcode st2 = Some opc \<longrightarrow> opc AND 0xFF \<noteq> 0x22 \<longrightarrow> GetExceptionOpcode rt st2 \<noteq> Some 328)"
proof -
  define st' where "st' = st1\<lparr>st_opext := 294\<rparr>"
  have i: "insn_at 34 = Some (F_IMM8, DPrimary, \<lambda>_. HandleJmp)" by (simp add: insn_at_def primary_table_def)
  have g: "GetPrimaryOpcode rt st1 = Some 0x22" "GetPrimaryOpcode rt st' = Some 0x22"
    using assms(1) Safepoint_inst(1) [OF assms(6)] by (simp_all add: st'_def GetPrimaryOpcode_def at_inst_def)
  have "HandleJmp rt F_IMM8 st = Some st'"
    using assms g(1) by (simp add: HandleJmp_def branch_to_def InstrumentBranches_def Let_def MoveToExceptionHandler_def st'_def
        EXCEPTION_OPCODE_def NUM_PREFIXED_def)
  then have "exec_label env rt 0x22 st = Some (Running 0x22 st')"
    using assms(4) Safepoint_inst(2) [OF assms(6)] g(2)
    by (auto simp: exec_label_def i prefix_at_def EXCEPTION_OPCODE_def NUM_PREFIXED_def InstrumentInstruction_def dispatch_primary_def
        IsPrimaryOpcodeValid_def word_le_nat_alt)
  moreover have "x + 294 = 328 \<longleftrightarrow> x = 0x22" for x :: u16 using add_right_cancel [of x 294 34] by simp
  ultimately show ?thesis
    using assms(7) Safepoint_inst(1) [OF assms(6)] by (auto simp: st'_def GetExceptionOpcode_def)
qed

definition stop_rt :: "unit rt" where
  "stop_rt = sample_rt\<lparr>rt_method := (\<lambda>m. \<lparr>mi_code = [0x22, 0x00], mi_num_vregs = 2, mi_num_args = 0, mi_static = True, mi_abstract = False, mi_constructor = False, mi_class = 0\<rparr>),
     rt_TestAllFlags := (\<lambda>_. True), rt_Safepoint := (\<lambda>vm. vm\<lparr>vm_exception := 16\<rparr>)\<rparr>"

theorem jump_ignores_exception_witness:
  "\<exists>st'. exec_label no_env stop_rt 0x22 sample_state = Some (Running 0x22 st') \<and> HasPendingException (st_vm st') \<and> st_inst st' = (Code 0, 0)"
proof -
  have o: "GetPrimaryOpcode stop_rt sample_state = Some 0x22" "imm32 stop_rt F_IMM8 sample_state = Some 0" "\<not> ee_instrumentation no_env"
    "rt_TestAllFlags stop_rt (st_vm sample_state)" by code_simp+
  obtain st1 where s: "Safepoint stop_rt sample_state = Some st1" "HasPendingException (st_vm st1)"
    by (simp add: Safepoint_def call_runtime_def SetAcc_frame_def GetAcc_frame_def GetFrame_def sample_state_def sample_vm_def put_frame_def
        stop_rt_def HasPendingException_def)
  show ?thesis using jump_ignores_exception [OF o(1,2) _ o(3,4) s] by (auto simp: sample_state_def)
qed

end
