(* ===== verification/BytecodeEmitter.thy ===== *)
theory BytecodeEmitter
  imports Bytecode "HOL-Library.Monad_Syntax"
begin

text \<open>
  The branch emission of \<open>libpandafile/bytecode_emitter.cpp\<close> and \<open>bytecode_emitter.h\<close>, with the parts of
  \<open>templates/bytecode_emitter_gen.h.erb\<close> it calls. A label is an iterator into \<open>pc_list_\<close>, whose nodes never move: here it
  is the number of its \<open>CreateLabel\<close> and \<open>pc_list_\<close> is the store from labels to positions. \<open>branches_\<close> (a \<open>std::map\<close>) and
  \<open>targets_\<close> (a \<open>std::multiset\<close> ordered by the position of the label) are lists in the order of the container. A vector
  access out of range, an \<open>UNREACHABLE\<close> and a change of the key of an element inside \<open>targets_\<close>, which the C++ library
  leaves undefined, are \<open>None\<close>.
\<close>

subsection \<open>Jump instructions\<close>

abbreviation JMP_IMM8 :: u8 where "JMP_IMM8 \<equiv> 0x22"
abbreviation JMP_IMM16 :: u8 where "JMP_IMM16 \<equiv> 0x23"
abbreviation JMP_IMM32 :: u8 where "JMP_IMM32 \<equiv> 0x24"
abbreviation JEQ_OBJ_V8_IMM8 :: u8 where "JEQ_OBJ_V8_IMM8 \<equiv> 0x25"
abbreviation JEQ_OBJ_V8_IMM16 :: u8 where "JEQ_OBJ_V8_IMM16 \<equiv> 0x26"
abbreviation JNE_OBJ_V8_IMM8 :: u8 where "JNE_OBJ_V8_IMM8 \<equiv> 0x27"
abbreviation JNE_OBJ_V8_IMM16 :: u8 where "JNE_OBJ_V8_IMM16 \<equiv> 0x28"
abbreviation JEQZ_OBJ_IMM8 :: u8 where "JEQZ_OBJ_IMM8 \<equiv> 0x29"
abbreviation JEQZ_OBJ_IMM16 :: u8 where "JEQZ_OBJ_IMM16 \<equiv> 0x2a"
abbreviation JNEZ_OBJ_IMM8 :: u8 where "JNEZ_OBJ_IMM8 \<equiv> 0x2b"
abbreviation JNEZ_OBJ_IMM16 :: u8 where "JNEZ_OBJ_IMM16 \<equiv> 0x2c"
abbreviation JEQZ_IMM8 :: u8 where "JEQZ_IMM8 \<equiv> 0x2d"
abbreviation JEQZ_IMM16 :: u8 where "JEQZ_IMM16 \<equiv> 0x2e"
abbreviation JNEZ_IMM8 :: u8 where "JNEZ_IMM8 \<equiv> 0x2f"
abbreviation JNEZ_IMM16 :: u8 where "JNEZ_IMM16 \<equiv> 0x30"
abbreviation JLTZ_IMM8 :: u8 where "JLTZ_IMM8 \<equiv> 0x31"
abbreviation JLTZ_IMM16 :: u8 where "JLTZ_IMM16 \<equiv> 0x32"
abbreviation JGTZ_IMM8 :: u8 where "JGTZ_IMM8 \<equiv> 0x33"
abbreviation JGTZ_IMM16 :: u8 where "JGTZ_IMM16 \<equiv> 0x34"
abbreviation JLEZ_IMM8 :: u8 where "JLEZ_IMM8 \<equiv> 0x35"
abbreviation JLEZ_IMM16 :: u8 where "JLEZ_IMM16 \<equiv> 0x36"
abbreviation JGEZ_IMM8 :: u8 where "JGEZ_IMM8 \<equiv> 0x37"
abbreviation JGEZ_IMM16 :: u8 where "JGEZ_IMM16 \<equiv> 0x38"
abbreviation JEQ_V8_IMM8 :: u8 where "JEQ_V8_IMM8 \<equiv> 0x39"
abbreviation JEQ_V8_IMM16 :: u8 where "JEQ_V8_IMM16 \<equiv> 0x3a"
abbreviation JNE_V8_IMM8 :: u8 where "JNE_V8_IMM8 \<equiv> 0x3b"
abbreviation JNE_V8_IMM16 :: u8 where "JNE_V8_IMM16 \<equiv> 0x3c"
abbreviation JLT_V8_IMM8 :: u8 where "JLT_V8_IMM8 \<equiv> 0x3d"
abbreviation JLT_V8_IMM16 :: u8 where "JLT_V8_IMM16 \<equiv> 0x3e"
abbreviation JGT_V8_IMM8 :: u8 where "JGT_V8_IMM8 \<equiv> 0x3f"
abbreviation JGT_V8_IMM16 :: u8 where "JGT_V8_IMM16 \<equiv> 0x40"
abbreviation JLE_V8_IMM8 :: u8 where "JLE_V8_IMM8 \<equiv> 0x41"
abbreviation JLE_V8_IMM16 :: u8 where "JLE_V8_IMM16 \<equiv> 0x42"
abbreviation JGE_V8_IMM8 :: u8 where "JGE_V8_IMM8 \<equiv> 0x43"
abbreviation JGE_V8_IMM16 :: u8 where "JGE_V8_IMM16 \<equiv> 0x44"

datatype BitImmSize = BITSIZE_4 | BITSIZE_8 | BITSIZE_16 | BITSIZE_32

primrec imm_bits :: "BitImmSize \<Rightarrow> nat" where
  "imm_bits BITSIZE_4 = 4"
| "imm_bits BITSIZE_8 = 8"
| "imm_bits BITSIZE_16 = 16"
| "imm_bits BITSIZE_32 = 32"

instantiation BitImmSize :: linorder
begin

definition less_eq_BitImmSize :: "BitImmSize \<Rightarrow> BitImmSize \<Rightarrow> bool" where
  "less_eq_BitImmSize a b \<longleftrightarrow> imm_bits a \<le> imm_bits b"

definition less_BitImmSize :: "BitImmSize \<Rightarrow> BitImmSize \<Rightarrow> bool" where
  "less_BitImmSize a b \<longleftrightarrow> imm_bits a < imm_bits b"

instance
proof
  fix a b c :: BitImmSize
  show "a \<le> b \<Longrightarrow> b \<le> a \<Longrightarrow> a = b"
    by (cases a; cases b) (simp_all add: less_eq_BitImmSize_def)
qed (auto simp: less_eq_BitImmSize_def less_BitImmSize_def)

end

definition GetBitLengthUnsigned :: "u32 \<Rightarrow> BitImmSize" where
  "GetBitLengthUnsigned val =
     (let bitlen = MinimumBitsToStore val
      in if bitlen \<le> 4 then BITSIZE_4 else if bitlen \<le> 8 then BITSIZE_8 else BITSIZE_16)"

definition GetBitLengthSigned :: "u32 \<Rightarrow> BitImmSize" where
  "GetBitLengthSigned val =
     (if - 8 \<le> sint val \<and> sint val \<le> 7 then BITSIZE_4
      else if - 128 \<le> sint val \<and> sint val \<le> 127 then BITSIZE_8
      else if - 32768 \<le> sint val \<and> sint val \<le> 32767 then BITSIZE_16
      else BITSIZE_32)"

definition IsJcondImm8 :: "u8 \<Rightarrow> bool" where
  "IsJcondImm8 opcode \<longleftrightarrow> opcode \<in> {JEQZ_IMM8, JNEZ_IMM8, JLTZ_IMM8, JGTZ_IMM8, JLEZ_IMM8, JGEZ_IMM8, JEQZ_OBJ_IMM8,
     JNEZ_OBJ_IMM8}"

definition IsJcondImm16 :: "u8 \<Rightarrow> bool" where
  "IsJcondImm16 opcode \<longleftrightarrow> opcode \<in> {JEQZ_IMM16, JNEZ_IMM16, JLTZ_IMM16, JGTZ_IMM16, JLEZ_IMM16, JGEZ_IMM16,
     JEQZ_OBJ_IMM16, JNEZ_OBJ_IMM16}"

definition IsJcondV8Imm8 :: "u8 \<Rightarrow> bool" where
  "IsJcondV8Imm8 opcode \<longleftrightarrow> opcode \<in> {JEQ_OBJ_V8_IMM8, JNE_OBJ_V8_IMM8, JEQ_V8_IMM8, JNE_V8_IMM8, JLT_V8_IMM8,
     JGT_V8_IMM8, JLE_V8_IMM8, JGE_V8_IMM8}"

definition IsJcondV8Imm16 :: "u8 \<Rightarrow> bool" where
  "IsJcondV8Imm16 opcode \<longleftrightarrow> opcode \<in> {JEQ_V8_IMM16, JNE_V8_IMM16, JLT_V8_IMM16, JGT_V8_IMM16, JLE_V8_IMM16,
     JGE_V8_IMM16, JEQ_OBJ_V8_IMM16, JNE_OBJ_V8_IMM16}"

text \<open>The format of a jump opcode; the emitter asks for the size and the immediate of jump opcodes only.\<close>

definition jump_format :: "u8 \<Rightarrow> Format option" where
  "jump_format opcode =
     (if opcode = JMP_IMM8 \<or> IsJcondImm8 opcode then Some F_IMM8
      else if opcode = JMP_IMM16 \<or> IsJcondImm16 opcode then Some F_IMM16
      else if opcode = JMP_IMM32 then Some F_IMM32
      else if IsJcondV8Imm8 opcode then Some F_V8_IMM8
      else if IsJcondV8Imm16 opcode then Some F_V8_IMM16
      else None)"

definition GetSizeByOpcode :: "u8 \<Rightarrow> nat option" where
  "GetSizeByOpcode opcode = map_option InstSize (jump_format opcode)"

definition bit_imm_size :: "nat \<Rightarrow> BitImmSize option" where
  "bit_imm_size width = map_of [(4, BITSIZE_4), (8, BITSIZE_8), (16, BITSIZE_16), (32, BITSIZE_32)] width"

definition GetBitImmSizeByOpcode :: "u8 \<Rightarrow> BitImmSize option" where
  "GetBitImmSizeByOpcode opcode =
     do { f \<leftarrow> jump_format opcode; (off, width) \<leftarrow> nth_op OpImm f 0; bit_imm_size width }"

definition RevertConditionCode :: "u8 \<Rightarrow> u8 option" where
  "RevertConditionCode opcode = map_of
     [(JEQ_OBJ_V8_IMM8, JNE_OBJ_V8_IMM8), (JEQ_OBJ_V8_IMM16, JNE_OBJ_V8_IMM16),
      (JNE_OBJ_V8_IMM8, JEQ_OBJ_V8_IMM8), (JNE_OBJ_V8_IMM16, JEQ_OBJ_V8_IMM16),
      (JEQZ_OBJ_IMM8, JNEZ_OBJ_IMM8), (JEQZ_OBJ_IMM16, JNEZ_OBJ_IMM16),
      (JNEZ_OBJ_IMM8, JEQZ_OBJ_IMM8), (JNEZ_OBJ_IMM16, JEQZ_OBJ_IMM16),
      (JEQZ_IMM8, JNEZ_IMM8), (JEQZ_IMM16, JNEZ_IMM16), (JNEZ_IMM8, JEQZ_IMM8), (JNEZ_IMM16, JEQZ_IMM16),
      (JLTZ_IMM8, JGEZ_IMM8), (JLTZ_IMM16, JGEZ_IMM16), (JGTZ_IMM8, JLEZ_IMM8), (JGTZ_IMM16, JLEZ_IMM16),
      (JLEZ_IMM8, JGTZ_IMM8), (JLEZ_IMM16, JGTZ_IMM16), (JGEZ_IMM8, JLTZ_IMM8), (JGEZ_IMM16, JLTZ_IMM16),
      (JEQ_V8_IMM8, JNE_V8_IMM8), (JEQ_V8_IMM16, JNE_V8_IMM16), (JNE_V8_IMM8, JEQ_V8_IMM8), (JNE_V8_IMM16, JEQ_V8_IMM16),
      (JLT_V8_IMM8, JGE_V8_IMM8), (JLT_V8_IMM16, JGE_V8_IMM16), (JGT_V8_IMM8, JLE_V8_IMM8), (JGT_V8_IMM16, JLE_V8_IMM16),
      (JLE_V8_IMM8, JGT_V8_IMM8), (JLE_V8_IMM16, JGT_V8_IMM16), (JGE_V8_IMM8, JLT_V8_IMM8), (JGE_V8_IMM16, JLT_V8_IMM16)]
     opcode"

definition GetLongestConditionalJump :: "u8 \<Rightarrow> u8 option" where
  "GetLongestConditionalJump opcode =
     (if IsJcondImm8 opcode \<or> IsJcondV8Imm8 opcode then Some (opcode + 1)
      else if IsJcondImm16 opcode \<or> IsJcondV8Imm16 opcode then Some opcode
      else None)"

subsection \<open>State\<close>

record Emitter =
  e_pc :: u32
  e_branches :: "(u32 \<times> nat) list"
  e_targets :: "nat list"
  e_labels :: nat
  e_pc_list :: "nat \<Rightarrow> u32"
  e_bytecode :: bytes

datatype ErrorCode = SUCCESS | INTERNAL_ERROR | UNBOUND_LABELS

definition new_emitter :: Emitter where
  "new_emitter = \<lparr>e_pc = 0, e_branches = [], e_targets = [], e_labels = 0, e_pc_list = (\<lambda>_. 0), e_bytecode = []\<rparr>"

definition CreateLabel :: "Emitter \<Rightarrow> nat \<times> Emitter" where
  "CreateLabel e = (e_labels e, e\<lparr>e_labels := e_labels e + 1, e_pc_list := (e_pc_list e)(e_labels e := 0)\<rparr>)"

fun map_insert :: "u32 \<Rightarrow> nat \<Rightarrow> (u32 \<times> nat) list \<Rightarrow> (u32 \<times> nat) list" where
  "map_insert k v [] = [(k, v)]"
| "map_insert k v ((k', v') # m) =
     (if k < k' then (k, v) # (k', v') # m else if k = k' then (k', v') # m else (k', v') # map_insert k v m)"

definition multiset_insert :: "(nat \<Rightarrow> u32) \<Rightarrow> nat \<Rightarrow> nat list \<Rightarrow> nat list" where
  "multiset_insert key l ls = takeWhile (\<lambda>l'. key l' \<le> key l) ls @ [l] @ dropWhile (\<lambda>l'. key l' \<le> key l) ls"

definition Bind :: "nat \<Rightarrow> Emitter \<Rightarrow> Emitter option" where
  "Bind l e =
     (if l \<in> set (e_targets e) \<and> e_pc_list e l \<noteq> e_pc e then None
      else let key = (e_pc_list e)(l := e_pc e)
           in Some (e\<lparr>e_pc_list := key, e_targets := multiset_insert key l (e_targets e)\<rparr>))"

subsection \<open>Emitting instructions\<close>

definition EmitBack :: "Format \<Rightarrow> u16 \<Rightarrow> u64 list \<Rightarrow> Emitter \<Rightarrow> Emitter option" where
  "EmitBack f opcode args e =
     do { code \<leftarrow> EmitInst f opcode args;
          Some (e\<lparr>e_bytecode := e_bytecode e @ code, e_pc := e_pc e + of_nat (length code)\<rparr>) }"

definition EmitAt :: "Format \<Rightarrow> nat \<Rightarrow> u8 \<Rightarrow> u64 list \<Rightarrow> bytes \<Rightarrow> bytes option" where
  "EmitAt f pos opcode args bytecode =
     do { code \<leftarrow> EmitInst f (ucast opcode) args;
          if pos + length code \<le> length bytecode
          then Some (take pos bytecode @ code @ drop (pos + length code) bytecode) else None }"

definition insert_zeros :: "nat \<Rightarrow> nat \<Rightarrow> bytes \<Rightarrow> bytes option" where
  "insert_zeros pos n bytecode =
     (if pos \<le> length bytecode then Some (take pos bytecode @ replicate n 0 @ drop pos bytecode) else None)"

definition byte_at :: "bytes \<Rightarrow> u32 \<Rightarrow> u8 option" where
  "byte_at bytecode pc = (if unat pc < length bytecode then Some (bytecode ! unat pc) else None)"

text \<open>A generated emitter of a mnemonic with several formats tries them in the order of \<open>isa.yaml\<close>.\<close>

definition arg_bitlen :: "opkind \<Rightarrow> u64 \<Rightarrow> BitImmSize" where
  "arg_bitlen k arg = (if k = OpImm then GetBitLengthSigned (ucast arg) else GetBitLengthUnsigned (ucast arg))"

definition format_accepts :: "Format \<Rightarrow> u64 list \<Rightarrow> bool" where
  "format_accepts f args \<longleftrightarrow>
     list_all2 (\<lambda>(k, w) arg. case bit_imm_size w of None \<Rightarrow> False | Some sz \<Rightarrow> arg_bitlen k arg \<le> sz) (format_ops f) args"

fun EmitFirst :: "(Format \<times> u16) list \<Rightarrow> u64 list \<Rightarrow> Emitter \<Rightarrow> Emitter option" where
  "EmitFirst [] args e = Some e"
| "EmitFirst ((f, opcode) # grp) args e =
     (if format_accepts f args then EmitBack f opcode args e else EmitFirst grp args e)"

definition EmitMnemonic :: "(Format \<times> u16) list \<Rightarrow> u64 list \<Rightarrow> Emitter \<Rightarrow> Emitter option" where
  "EmitMnemonic grp args e =
     (case grp of [(f, opcode)] \<Rightarrow> EmitBack f opcode args e | _ \<Rightarrow> EmitFirst grp args e)"

definition add_branch :: "nat \<Rightarrow> Emitter \<Rightarrow> Emitter" where
  "add_branch l e = e\<lparr>e_branches := map_insert (e_pc e) l (e_branches e)\<rparr>"

definition Jmp :: "nat \<Rightarrow> Emitter \<Rightarrow> Emitter option" where
  "Jmp l e = EmitBack F_IMM8 (ucast JMP_IMM8) [0] (add_branch l e)"

definition Jcmp :: "u8 \<Rightarrow> u8 \<Rightarrow> u8 \<Rightarrow> nat \<Rightarrow> Emitter \<Rightarrow> Emitter option" where
  "Jcmp opcode_short opcode_long reg l e =
     do { size \<leftarrow> GetBitImmSizeByOpcode opcode_short;
          if GetBitLengthUnsigned (ucast reg) \<le> BITSIZE_8 \<and> size = BITSIZE_8
          then EmitBack F_V8_IMM8 (ucast opcode_short) [ucast reg, 0] (add_branch l e)
          else EmitBack F_V8_IMM16 (ucast opcode_long) [ucast reg, 0] (add_branch l e) }"

definition Jcmpz :: "u8 \<Rightarrow> nat \<Rightarrow> Emitter \<Rightarrow> Emitter option" where
  "Jcmpz opcode l e = EmitBack F_IMM8 (ucast opcode) [0] (add_branch l e)"

subsection \<open>Building\<close>

definition CheckLabels :: "Emitter \<Rightarrow> ErrorCode" where
  "CheckLabels e =
     (if list_all (\<lambda>(pc, l). list_ex (\<lambda>t. e_pc_list e t = e_pc_list e l) (e_targets e)) (e_branches e)
      then SUCCESS else UNBOUND_LABELS)"

definition EstimateInsnSizeMaxIncrease :: "u8 \<Rightarrow> u32" where
  "EstimateInsnSizeMaxIncrease opcode =
     (if opcode = JMP_IMM8 then 3
      else if IsJcondImm8 opcode \<or> IsJcondV8Imm8 opcode then 1
      else if IsJcondV8Imm16 opcode then 2
      else 0)"

fun add_increases :: "bytes \<Rightarrow> u32 \<Rightarrow> (u32 \<times> nat) list \<Rightarrow> u32 \<Rightarrow> u32 option" where
  "add_increases bytecode bias [] distance = Some distance"
| "add_increases bytecode bias ((pc, l) # bs) distance =
     do { opcode \<leftarrow> byte_at bytecode (pc + bias);
          add_increases bytecode bias bs (distance + EstimateInsnSizeMaxIncrease opcode) }"

definition EstimateMaxDistance :: "Emitter \<Rightarrow> u32 \<Rightarrow> u32 \<Rightarrow> u32 \<Rightarrow> u32 option" where
  "EstimateMaxDistance e insn_pc target_pc bias =
     (let between = (\<lambda>start_pc end_pc. takeWhile (\<lambda>(pc, l). pc < end_pc) (dropWhile (\<lambda>(pc, l). pc < start_pc) (e_branches e)))
      in if insn_pc < target_pc
         then add_increases (e_bytecode e) bias (between (insn_pc - bias) (target_pc - bias)) (target_pc - insn_pc)
         else if target_pc < insn_pc
         then add_increases (e_bytecode e) bias (between (target_pc - bias) (insn_pc - bias)) (target_pc - insn_pc)
         else Some 0)"

definition getRegJcond :: "bytes \<Rightarrow> u32 \<Rightarrow> BitImmSize \<Rightarrow> u8 option" where
  "getRegJcond bytecode insn_pc encoded_imm_size =
     map_option of_nat (GetVReg (if encoded_imm_size \<le> BITSIZE_8 then F_V8_IMM8 else F_V8_IMM16) 0 bytecode (unat insn_pc))"

text \<open>
  A conditional jump is replaced by its 16-bit form, and a far one by the inverted jump over a 32-bit jump; the two
  branches of the source differ in the format and the register operand only.
\<close>

definition widen_jcond ::
    "Format \<Rightarrow> u64 list \<Rightarrow> u8 \<Rightarrow> u32 \<Rightarrow> BitImmSize \<Rightarrow> Emitter \<Rightarrow> (ErrorCode \<times> nat \<times> u32 \<times> Emitter) option" where
  "widen_jcond f regs opcode insn_pc expected_imm_size e =
     do { insn_size \<leftarrow> GetSizeByOpcode opcode;
          longest \<leftarrow> GetLongestConditionalJump opcode;
          extended_insn_size \<leftarrow> GetSizeByOpcode longest;
          jmp_size \<leftarrow> GetSizeByOpcode JMP_IMM32;
          let needs_far_jump = (expected_imm_size = BITSIZE_32);
          let extra_bytes = extended_insn_size - insn_size + (if needs_far_jump then jmp_size else 0);
          if extra_bytes = 0 then None
          else do {
            code \<leftarrow> insert_zeros (unat insn_pc + insn_size) extra_bytes (e_bytecode e);
            if needs_far_jump
            then do {
              inverse \<leftarrow> RevertConditionCode opcode;
              longest_inverse \<leftarrow> GetLongestConditionalJump inverse;
              code \<leftarrow> EmitAt f (unat insn_pc) longest_inverse (regs @ [of_nat (extended_insn_size + jmp_size)]) code;
              code \<leftarrow> EmitAt F_IMM32 (unat insn_pc + extended_insn_size) JMP_IMM32 [0] code;
              Some (SUCCESS, extra_bytes, insn_pc + of_nat extended_insn_size, e\<lparr>e_bytecode := code\<rparr>) }
            else do {
              code \<leftarrow> EmitAt f (unat insn_pc) longest (regs @ [0]) code;
              Some (SUCCESS, extra_bytes, insn_pc, e\<lparr>e_bytecode := code\<rparr>) } } }"

definition widen_jmp :: "u8 \<Rightarrow> u32 \<Rightarrow> Emitter \<Rightarrow> (ErrorCode \<times> nat \<times> u32 \<times> Emitter) option" where
  "widen_jmp wide insn_pc e =
     do { insn_size \<leftarrow> GetSizeByOpcode JMP_IMM8;
          size \<leftarrow> GetSizeByOpcode wide;
          code \<leftarrow> insert_zeros (unat insn_pc + insn_size) (size - insn_size) ((e_bytecode e)[unat insn_pc := wide]);
          Some (SUCCESS, size - insn_size, insn_pc, e\<lparr>e_bytecode := code\<rparr>) }"

definition DoReserveSpaceForOffset ::
    "u8 \<Rightarrow> u32 \<Rightarrow> BitImmSize \<Rightarrow> Emitter \<Rightarrow> (ErrorCode \<times> nat \<times> u32 \<times> Emitter) option" where
  "DoReserveSpaceForOffset opcode insn_pc expected_imm_size e =
     do { encoded_imm_size \<leftarrow> GetBitImmSizeByOpcode opcode;
          if opcode = JMP_IMM8
          then (if expected_imm_size = BITSIZE_16 then widen_jmp JMP_IMM16 insn_pc e
                else if expected_imm_size = BITSIZE_32 then widen_jmp JMP_IMM32 insn_pc e
                else Some (SUCCESS, 0, insn_pc, e))
          else if IsJcondImm8 opcode \<or> IsJcondImm16 opcode
          then widen_jcond F_IMM16 [] opcode insn_pc expected_imm_size e
          else if IsJcondV8Imm16 opcode \<or> IsJcondV8Imm8 opcode
          then do { reg \<leftarrow> getRegJcond (e_bytecode e) insn_pc encoded_imm_size;
                    widen_jcond F_V8_IMM16 [ucast reg] opcode insn_pc expected_imm_size e }
          else Some (INTERNAL_ERROR, 0, insn_pc, e) }"

definition UpdateLabelTargets :: "u32 \<Rightarrow> nat \<Rightarrow> Emitter \<Rightarrow> Emitter" where
  "UpdateLabelTargets pc bias e =
     (let kept = takeWhile (\<lambda>l. e_pc_list e l \<le> pc) (e_targets e);
          updated = dropWhile (\<lambda>l. e_pc_list e l \<le> pc) (e_targets e);
          key = fold (\<lambda>l key. key(l := key l + of_nat bias)) updated (e_pc_list e)
      in e\<lparr>e_pc_list := key, e_targets := fold (multiset_insert key) updated kept\<rparr>)"

fun reserve_loop ::
    "(u32 \<times> nat) list \<Rightarrow> u32 \<Rightarrow> (u32 \<times> nat) list \<Rightarrow> Emitter \<Rightarrow> (ErrorCode \<times> Emitter) option" where
  "reserve_loop [] bias new_branches e = Some (SUCCESS, e\<lparr>e_branches := new_branches\<rparr>)"
| "reserve_loop ((pc, l) # bs) bias new_branches e =
     do { let insn_pc = pc + bias;
          opcode \<leftarrow> byte_at (e_bytecode e) insn_pc;
          encoded_imm_size \<leftarrow> GetBitImmSizeByOpcode opcode;
          distance \<leftarrow> EstimateMaxDistance e insn_pc (e_pc_list e l) bias;
          let real_imm_size = GetBitLengthSigned distance;
          (res, extra_bytes, new_target, e) \<leftarrow>
            (if encoded_imm_size < real_imm_size then DoReserveSpaceForOffset opcode insn_pc real_imm_size e
             else Some (SUCCESS, 0, insn_pc, e));
          if res \<noteq> SUCCESS then Some (res, e)
          else reserve_loop bs (bias + of_nat extra_bytes) (map_insert new_target l new_branches)
                 ((if 0 < extra_bytes then UpdateLabelTargets insn_pc extra_bytes e else e)\<lparr>e_branches := bs\<rparr>) }"

definition ReserveSpaceForOffsets :: "Emitter \<Rightarrow> (ErrorCode \<times> Emitter) option" where
  "ReserveSpaceForOffsets e = reserve_loop (e_branches e) 0 [] e"

definition update_branch :: "u32 \<Rightarrow> u32 \<Rightarrow> bytes \<Rightarrow> (ErrorCode \<times> bytes) option" where
  "update_branch insn_pc target_pc bytecode =
     do { let arg = (scast (target_pc - insn_pc) :: u64);
          opcode \<leftarrow> byte_at bytecode insn_pc;
          let emit = (\<lambda>f args. map_option (Pair SUCCESS) (EmitAt f (unat insn_pc) opcode args bytecode));
          if opcode = JMP_IMM8 then emit F_IMM8 [arg]
          else if opcode = JMP_IMM16 then emit F_IMM16 [arg]
          else if opcode = JMP_IMM32 then emit F_IMM32 [arg]
          else if IsJcondImm8 opcode then emit F_IMM8 [arg]
          else if IsJcondImm16 opcode then emit F_IMM16 [arg]
          else if IsJcondV8Imm8 opcode
          then do { reg \<leftarrow> GetVReg F_V8_IMM8 0 bytecode (unat insn_pc); emit F_V8_IMM8 [of_nat reg, arg] }
          else if IsJcondV8Imm16 opcode
          then do { reg \<leftarrow> GetVReg F_V8_IMM16 0 bytecode (unat insn_pc); emit F_V8_IMM16 [of_nat reg, arg] }
          else Some (INTERNAL_ERROR, bytecode) }"

fun update_loop :: "(nat \<Rightarrow> u32) \<Rightarrow> (u32 \<times> nat) list \<Rightarrow> bytes \<Rightarrow> (ErrorCode \<times> bytes) option" where
  "update_loop key [] bytecode = Some (SUCCESS, bytecode)"
| "update_loop key ((insn_pc, l) # bs) bytecode =
     do { (res, bytecode) \<leftarrow> update_branch insn_pc (key l) bytecode;
          if res \<noteq> SUCCESS then Some (res, bytecode) else update_loop key bs bytecode }"

definition UpdateBranches :: "Emitter \<Rightarrow> (ErrorCode \<times> Emitter) option" where
  "UpdateBranches e =
     do { (res, bytecode) \<leftarrow> update_loop (e_pc_list e) (e_branches e) (e_bytecode e);
          Some (res, e\<lparr>e_bytecode := bytecode\<rparr>) }"

text \<open>The result of \<open>Build\<close>: the error code, what is stored into \<open>*output\<close> if anything is, and the emitter afterwards.\<close>

definition Build :: "Emitter \<Rightarrow> (ErrorCode \<times> bytes option \<times> Emitter) option" where
  "Build e =
     (let res = CheckLabels e
      in if res \<noteq> SUCCESS then Some (res, None, e)
         else do { (res, e) \<leftarrow> ReserveSpaceForOffsets e;
                   if res \<noteq> SUCCESS then Some (res, None, e)
                   else do { (res, e) \<leftarrow> UpdateBranches e;
                             if res \<noteq> SUCCESS then Some (res, None, e)
                             else Some (SUCCESS, Some (e_bytecode e), e) } })"

end
