(* ===== verification/EmitterItems.thy ===== *)
theory EmitterItems
  imports BytecodeEmitter
begin

text \<open>
  The program an emitter holds, as a list of items: bytes, bound labels and jumps. \<open>holds\<close> relates the vector of bytes, the
  multiset of labels and their positions to the items; \<open>reserve\<close> is \<open>ReserveSpaceForOffsets\<close> on items, and
  \<open>reserve_step\<close> shows that one round of its loop does what \<open>reserve\<close> does.
\<close>

subsection \<open>The bytes of a jump\<close>

text \<open>A jump with its register operand, if it has one, and its immediate.\<close>

definition imm_width :: "u8 \<Rightarrow> nat" where
  "imm_width op = (if op = JMP_IMM8 \<or> IsJcondImm8 op \<or> IsJcondV8Imm8 op then 8 else if op = JMP_IMM32 then 32 else 16)"

definition jump_ok :: "u8 \<Rightarrow> u8 list \<Rightarrow> bool" where
  "jump_ok op regs \<longleftrightarrow> jump_format op \<noteq> None \<and> length regs = (if IsJcondV8Imm8 op \<or> IsJcondV8Imm16 op then 1 else 0)"

definition imm_bytes :: "nat \<Rightarrow> u64 \<Rightarrow> bytes" where
  "imm_bytes n a = map (\<lambda>i. ucast (drop_bit (8 * i) a)) [0..<n]"

definition jump_bytes :: "u8 \<Rightarrow> u8 list \<Rightarrow> u64 \<Rightarrow> bytes" where
  "jump_bytes op regs a = op # regs @ imm_bytes (imm_width op div 8) a"

definition jump_size :: "u8 \<Rightarrow> nat" where
  "jump_size op = 1 + (if IsJcondV8Imm8 op \<or> IsJcondV8Imm16 op then 1 else 0) + imm_width op div 8"

lemmas jump_kinds = IsJcondImm8_def IsJcondImm16_def IsJcondV8Imm8_def IsJcondV8Imm16_def

lemma length_jump_bytes [simp]: "jump_ok op regs \<Longrightarrow> length (jump_bytes op regs a) = jump_size op"
  by (auto simp: jump_bytes_def jump_size_def jump_ok_def imm_bytes_def)

lemma jump_bytes_hd [simp]: "jump_bytes op regs a ! 0 = op" "jump_bytes op regs a \<noteq> []"
  by (simp_all add: jump_bytes_def)

lemma ucast_and_FF: "ucast (x AND 0xFF :: u64) = (ucast x :: u8)"
proof -
  have m: "(0xFF :: u64) = mask 8" by (simp add: mask_eq_exp_minus_1)
  show ?thesis unfolding m by (rule bit_word_eqI) (auto simp: bit_and_iff bit_mask_iff bit_ucast_iff simp del: mask_numeral)
qed

lemma ucast_ucast_byte: "ucast (ucast w :: u64) = (ucast (w :: 'a::len word) :: u8)"
  by (rule bit_word_eqI) (auto simp: bit_ucast_iff)

lemma write_bytes_small:
  "write_bytes buf i (Suc 0) val = buf[i := ucast val]"
  "write_bytes buf i 1 val = buf[i := ucast val]"
  "write_bytes buf i 2 val = buf[i := ucast val, i + 1 := ucast (drop_bit 8 val)]"
  "write_bytes buf i 4 val = buf[i := ucast val, i + 1 := ucast (drop_bit 8 val), i + 2 := ucast (drop_bit 16 val),
     i + 3 := ucast (drop_bit 24 val)]"
  by (simp_all add: numeral_eq_Suc ucast_and_FF)

lemma imm_bytes_small:
  "imm_bytes (Suc 0) a = [ucast a]"
  "imm_bytes 1 a = [ucast a]"
  "imm_bytes 2 a = [ucast a, ucast (drop_bit 8 a)]"
  "imm_bytes 4 a = [ucast a, ucast (drop_bit 8 a), ucast (drop_bit 16 a), ucast (drop_bit 24 a)]"
  by (simp_all add: imm_bytes_def upt_rec numeral_2_eq_2)

lemma replicate_small: "replicate 2 x = [x, x]" "replicate 3 x = [x, x, x]" "replicate 4 x = [x, x, x, x]"
  "replicate 5 x = [x, x, x, x, x]"
  by (simp_all add: numeral_eq_Suc)

lemma EmitInst_jump_formats:
  "EmitInst F_IMM8 w [a] = Some (ucast w # imm_bytes 1 a)"
  "EmitInst F_IMM16 w [a] = Some (ucast w # imm_bytes 2 a)"
  "EmitInst F_IMM32 w [a] = Some (ucast w # imm_bytes 4 a)"
  "EmitInst F_V8_IMM8 w [r, a] = Some (ucast w # ucast r # imm_bytes 1 a)"
  "EmitInst F_V8_IMM16 w [r, a] = Some (ucast w # ucast r # imm_bytes 2 a)"
  by (simp_all add: EmitInst_def emit_offsets_def format_layout_def opcode_bits_def prefixed_def InstSize_def emit_field_def
      imm_bytes_small write_bytes_small replicate_small ucast_and_FF ucast_ucast_byte)

lemma kinds_disjoint:
  "IsJcondImm8 op \<Longrightarrow> \<not> IsJcondImm16 op \<and> \<not> IsJcondV8Imm8 op \<and> \<not> IsJcondV8Imm16 op \<and> op \<notin> {JMP_IMM8, JMP_IMM16, JMP_IMM32}"
  "IsJcondImm16 op \<Longrightarrow> \<not> IsJcondV8Imm8 op \<and> \<not> IsJcondV8Imm16 op \<and> op \<notin> {JMP_IMM8, JMP_IMM16, JMP_IMM32}"
  "IsJcondV8Imm8 op \<Longrightarrow> \<not> IsJcondV8Imm16 op \<and> op \<notin> {JMP_IMM8, JMP_IMM16, JMP_IMM32}"
  "IsJcondV8Imm16 op \<Longrightarrow> op \<notin> {JMP_IMM8, JMP_IMM16, JMP_IMM32}"
  unfolding jump_kinds by (elim insertE emptyE; simp)+

lemma imm_width_format:
  "jump_format op = Some F_IMM8 \<Longrightarrow> imm_width op = 8" "jump_format op = Some F_V8_IMM8 \<Longrightarrow> imm_width op = 8"
  "jump_format op = Some F_IMM16 \<Longrightarrow> imm_width op = 16" "jump_format op = Some F_V8_IMM16 \<Longrightarrow> imm_width op = 16"
  "jump_format op = Some F_IMM32 \<Longrightarrow> imm_width op = 32"
  by (auto simp: jump_format_def imm_width_def dest: kinds_disjoint split: if_splits)

lemma jump_formats: "jump_format op = Some f \<Longrightarrow> f \<in> {F_IMM8, F_IMM16, F_IMM32, F_V8_IMM8, F_V8_IMM16}"
  by (auto simp: jump_format_def split: if_splits)

lemma jump_regs:
  "jump_format op = Some f \<Longrightarrow> (IsJcondV8Imm8 op \<or> IsJcondV8Imm16 op) = (f \<in> {F_V8_IMM8, F_V8_IMM16})"
  by (auto simp: jump_format_def dest: kinds_disjoint split: if_splits)

lemma EmitInst_jump:
  assumes "jump_ok op regs" "jump_format op = Some f"
  shows "EmitInst f (ucast op) (map ucast regs @ [a]) = Some (jump_bytes op regs a)"
proof -
  have l: "length regs = (if f \<in> {F_V8_IMM8, F_V8_IMM16} then 1 else 0)"
    using assms(1) jump_regs [OF assms(2)] by (simp add: jump_ok_def)
  have u: "ucast (ucast op :: u16) = op" "ucast (ucast r :: u64) = r" for r :: u8
    by (auto intro!: bit_word_eqI simp: bit_ucast_iff)
  from jump_formats [OF assms(2)] show ?thesis
    using l assms(2) by (elim insertE; cases regs)
      (auto simp: EmitInst_jump_formats jump_bytes_def imm_width_format u imm_bytes_small)
qed

lemma jump_sizes:
  assumes "jump_format op = Some f"
  shows "GetSizeByOpcode op = Some (jump_size op)"
    "GetBitImmSizeByOpcode op = bit_imm_size (imm_width op)"
  using jump_formats [OF assms] assms jump_regs [OF assms]
  by (auto simp: GetSizeByOpcode_def GetBitImmSizeByOpcode_def jump_size_def imm_width_format InstSize_def opcode_bits_def
      prefixed_def nth_op_def operands_of_def format_layout_def)

lemma byte_roundtrip: "drop_bit 56 (push_bit 56 (ucast (b :: u8) :: u64)) = ucast b"
  by (rule bit_word_eqI) (auto simp: bit_simps dest: bit_imp_le_length)

lemma GetVReg_jump:
  assumes "jump_ok op [r]" "jump_format op = Some f"
  shows "GetVReg f 0 (pre @ jump_bytes op [r] a @ suf) (length pre) = Some (unat r)"
proof -
  have f: "f \<in> {F_V8_IMM8, F_V8_IMM16}" using assms jump_regs [OF assms(2)] by (auto simp: jump_ok_def split: if_splits)
  then have n: "nth_op OpV f 0 = Some (8, 8)"
    by (auto simp: nth_op_def operands_of_def format_layout_def opcode_bits_def prefixed_def)
  have "unat (ucast r :: u64) = unat r"
    using unat_lt_2p [of r] by (intro unat_ucast_small) simp
  then show ?thesis
    using byte_roundtrip [of r]
    by (simp add: GetVReg_def n ReadOp_def byte_span_def Read64_def ReadHelper_def jump_bytes_def nth_append)
qed

subsection \<open>Programs as lists of items\<close>

text \<open>
  What the emitter holds: instructions that are not jumps, bound labels, and jumps with their register operand and label.
\<close>

datatype code_item = Plain bytes | Mark nat | Jump u8 "u8 list" nat

fun item_bytes :: "code_item \<Rightarrow> bytes" where
  "item_bytes (Plain bs) = bs"
| "item_bytes (Mark l) = []"
| "item_bytes (Jump op regs l) = jump_bytes op regs 0"

definition flat :: "code_item list \<Rightarrow> bytes" where
  "flat is = concat (map item_bytes is)"

fun jumps :: "nat \<Rightarrow> code_item list \<Rightarrow> (nat \<times> nat) list" where
  "jumps p [] = []"
| "jumps p (i # is) = (case i of Jump op regs l \<Rightarrow> [(p, l)] | _ \<Rightarrow> []) @ jumps (p + length (item_bytes i)) is"

fun marks :: "nat \<Rightarrow> code_item list \<Rightarrow> (nat \<times> nat) list" where
  "marks p [] = []"
| "marks p (i # is) = (case i of Mark l \<Rightarrow> [(p, l)] | _ \<Rightarrow> []) @ marks (p + length (item_bytes i)) is"

fun item_ok :: "code_item \<Rightarrow> bool" where
  "item_ok (Jump op regs l) = jump_ok op regs"
| "item_ok i = True"

lemma flat_simps [simp]: "flat [] = []" "flat (i # is) = item_bytes i @ flat is" "flat (xs @ ys) = flat xs @ flat ys"
  by (simp_all add: flat_def)

lemma jumps_append [simp]: "jumps p (xs @ ys) = jumps p xs @ jumps (p + length (flat xs)) ys"
  by (induction xs arbitrary: p) (auto simp: add.assoc)

lemma marks_append [simp]: "marks p (xs @ ys) = marks p xs @ marks (p + length (flat xs)) ys"
  by (induction xs arbitrary: p) (auto simp: add.assoc)

lemma marks_bounds: "(q, l) \<in> set (marks p is) \<Longrightarrow> p \<le> q \<and> q \<le> p + length (flat is)"
  by (induction "is" arbitrary: p) (force split: code_item.splits)+

lemma jump_bytes_pos: "0 < length (jump_bytes op regs a)" by (simp add: jump_bytes_def)

lemma jumps_bounds: "(q, l) \<in> set (jumps p is) \<Longrightarrow> p \<le> q \<and> q < p + length (flat is)"
proof (induction "is" arbitrary: p)
  case (Cons i "is")
  then show ?case using jump_bytes_pos by (force split: code_item.splits)
qed simp

lemma jumps_sorted: "sorted_wrt (\<lambda>a b. fst a < fst b) (jumps p is)"
proof (induction "is" arbitrary: p)
  case (Cons i "is")
  have "p < q" if "(q, l) \<in> set (jumps (p + length (item_bytes i)) is)" "i = Jump op regs l'" for q l op regs l'
    using jumps_bounds [OF that(1)] jump_bytes_pos [of op regs 0] unfolding that(2) item_bytes.simps by linarith
  then show ?case using Cons.IH by (auto split: code_item.splits)
qed simp

lemma marks_shift: "marks (p + n) is = map (\<lambda>(q, l). (q + n, l)) (marks p is)"
proof (induction "is" arbitrary: p)
  case (Cons i "is")
  have "marks (p + n + length (item_bytes i)) is = marks (p + length (item_bytes i) + n) is" by (simp add: add_ac)
  then show ?case using Cons.IH by (simp split: code_item.splits)
qed simp

lemma jumps_shift: "jumps (p + n) is = map (\<lambda>(q, l). (q + n, l)) (jumps p is)"
proof (induction "is" arbitrary: p)
  case (Cons i "is")
  have "jumps (p + n + length (item_bytes i)) is = jumps (p + length (item_bytes i) + n) is" by (simp add: add_ac)
  then show ?case using Cons.IH by (simp split: code_item.splits)
qed simp

subsection \<open>Words for positions\<close>

lemma of_nat_u32_less: "p < 2 ^ 32 \<Longrightarrow> q < 2 ^ 32 \<Longrightarrow> (of_nat p < (of_nat q :: u32)) = (p < q)"
  by (simp add: word_less_nat_alt unat_of_nat)

lemma of_nat_u32_le: "p < 2 ^ 32 \<Longrightarrow> q < 2 ^ 32 \<Longrightarrow> (of_nat p \<le> (of_nat q :: u32)) = (p \<le> q)"
  by (simp add: word_le_nat_alt unat_of_nat)

lemma unat_u32: "p < 2 ^ 32 \<Longrightarrow> unat (of_nat p :: u32) = p"
  by (simp add: unat_of_nat)

lemma sint_u32: "- (2 ^ 31) \<le> i \<Longrightarrow> i < 2 ^ 31 \<Longrightarrow> sint (word_of_int i :: u32) = i"
  by (rule sint_word_of_int_id) simp_all

subsection \<open>What an emitter holds\<close>

definition holds :: "code_item list \<Rightarrow> Emitter \<Rightarrow> bool" where
  "holds is e \<longleftrightarrow> list_all item_ok is \<and> e_bytecode e = flat is \<and> e_targets e = map snd (marks 0 is) \<and>
     distinct (map snd (marks 0 is)) \<and> (\<forall>(p, l) \<in> set (marks 0 is). e_pc_list e l = of_nat p)"

subsection \<open>The size of a jump\<close>

text \<open>The distance to a label ahead, and what the jumps before it may add.\<close>

fun dist :: "nat \<Rightarrow> code_item list \<Rightarrow> nat" where
  "dist l [] = 0"
| "dist l (i # is) = (if i = Mark l then 0 else length (item_bytes i) + dist l is)"

definition max_increase :: "u8 \<Rightarrow> nat" where
  "max_increase op = unat (EstimateInsnSizeMaxIncrease op)"

fun slack :: "nat \<Rightarrow> code_item list \<Rightarrow> nat" where
  "slack l [] = 0"
| "slack l (i # is) =
     (if i = Mark l then 0
      else (case i of Jump op regs l' \<Rightarrow> max_increase op | _ \<Rightarrow> 0) + slack l is)"

definition estimate :: "code_item list \<Rightarrow> code_item list \<Rightarrow> nat \<Rightarrow> int" where
  "estimate done rest l =
     (if Mark l \<in> set rest then int (dist l rest + slack l rest) else int (dist l done) - int (length (flat done)))"

definition far_pair :: "u8 \<Rightarrow> u8 list \<Rightarrow> nat \<Rightarrow> code_item list" where
  "far_pair op regs l =
     (let long_inverse = the (RevertConditionCode op \<bind> GetLongestConditionalJump)
      in [Plain (jump_bytes long_inverse regs (of_nat (jump_size long_inverse + 5))), Jump JMP_IMM32 [] l])"

definition widened :: "BitImmSize \<Rightarrow> u8 \<Rightarrow> u8 list \<Rightarrow> nat \<Rightarrow> code_item list" where
  "widened sz op regs l =
     (if imm_bits sz \<le> imm_width op then [Jump op regs l]
      else if op = JMP_IMM8 then [Jump (if sz = BITSIZE_16 then JMP_IMM16 else JMP_IMM32) [] l]
      else if sz = BITSIZE_32 then far_pair op regs l
      else [Jump (the (GetLongestConditionalJump op)) regs l])"

fun reserve :: "code_item list \<Rightarrow> code_item list \<Rightarrow> code_item list" where
  "reserve done [] = done"
| "reserve done (Jump op regs l # rest) =
     reserve (done @ widened (GetBitLengthSigned (word_of_int (estimate done (Jump op regs l # rest) l))) op regs l) rest"
| "reserve done (Plain bs # rest) = reserve (done @ [Plain bs]) rest"
| "reserve done (Mark l # rest) = reserve (done @ [Mark l]) rest"

lemma byte_at_jump:
  assumes "length (flat xs) < 2 ^ 32"
  shows "byte_at (flat (xs @ Jump op regs l # ys)) (of_nat (length (flat xs))) = Some op"
  using assms jump_bytes_pos [of op regs 0] by (simp add: byte_at_def unat_of_nat nth_append jump_bytes_def)

definition pcs :: "nat \<Rightarrow> (nat \<times> nat) list \<Rightarrow> (u32 \<times> nat) list" where
  "pcs bias = map (\<lambda>(p, l). (of_nat (p - bias), l))"

lemma pcs_simps [simp]: "pcs b [] = []" "pcs b ((p, l) # js) = (of_nat (p - b), l) # pcs b js" "pcs b (xs @ ys) = pcs b xs @ pcs b ys"
  by (simp_all add: pcs_def)

lemma max_increase_le: "max_increase op \<le> 3" and of_nat_max_increase: "of_nat (max_increase op) = EstimateInsnSizeMaxIncrease op"
  by (simp_all add: max_increase_def EstimateInsnSizeMaxIncrease_def)

text \<open>The estimate of a jump ahead: the distance and the increases of the jumps before the label.\<close>

lemma between_nil:
  assumes "\<And>q l'. (q, l') \<in> set js \<Longrightarrow> \<not> q < t" "\<And>q l'. (q, l') \<in> set js \<Longrightarrow> b \<le> q \<and> q < 2 ^ 32" "b \<le> t" "t < 2 ^ 32"
  shows "takeWhile (\<lambda>(pc, _). pc < of_nat (t - b)) (pcs b js) = []"
proof (cases js)
  case (Cons j js')
  have "\<not> (of_nat (fst j - b) :: u32) < of_nat (t - b)"
    using assms(1) [of "fst j" "snd j"] assms(2) [of "fst j" "snd j"] assms(3,4) Cons of_nat_u32_less [of "fst j - b" "t - b"]
    by simp
  then show ?thesis using Cons by (auto simp: pcs_def split: prod.splits)
qed simp

lemma add_increases_ahead:
  assumes "Mark l \<in> set rest" "length (flat (done @ rest)) < 2 ^ 31" "b \<le> length (flat done)"
  shows "add_increases (flat (done @ rest)) (of_nat b)
      (takeWhile (\<lambda>(pc, _). pc < of_nat (length (flat done) + dist l rest - b)) (pcs b (jumps (length (flat done)) rest))) d =
    Some (d + of_nat (slack l rest))"
  using assms
proof (induction rest arbitrary: "done" d)
  case (Cons i rest)
  let ?p = "length (flat done)" and ?n = "length (item_bytes i)"
  have IH: "add_increases (flat (done @ i # rest)) (of_nat b)
      (takeWhile (\<lambda>(pc, _). pc < of_nat (?p + ?n + dist l rest - b)) (pcs b (jumps (?p + ?n) rest))) d' =
      Some (d' + of_nat (slack l rest))" if "Mark l \<in> set rest" for d'
    using Cons.IH [of "done @ [i]" d'] that Cons.prems by (simp add: add.assoc)
  have d: "dist l rest \<le> length (flat rest)" for rest by (induction rest) auto
  show ?case
  proof (cases "i = Mark l")
    case True
    then show ?thesis
      using between_nil [of "jumps ?p rest" ?p b] jumps_bounds [of _ _ ?p rest] Cons.prems
      by (fastforce simp: le_diff_conv)
  next
    case False
    then have m: "Mark l \<in> set rest" using Cons.prems(1) by auto
    show ?thesis
    proof (cases i)
      case (Jump op regs l')
      have lt: "(of_nat (?p - b) :: u32) < of_nat (?p + ?n + dist l rest - b)"
      proof (subst of_nat_u32_less)
        show "?p - b < ?p + ?n + dist l rest - b" using jump_bytes_pos [of op regs 0] Cons.prems(3) unfolding Jump item_bytes.simps by linarith
      qed (use Cons.prems(2) d [of rest] in simp_all)
      have "of_nat (?p - b) + (of_nat b :: u32) = of_nat ?p" using Cons.prems(3) by (simp add: of_nat_diff)
      moreover have "byte_at (flat (done @ i # rest)) (of_nat ?p) = Some op"
        using byte_at_jump [of "done" op regs l' rest] Cons.prems(2) Jump by simp
      ultimately show ?thesis using IH [OF m, of "d + EstimateInsnSizeMaxIncrease op"] lt Jump False
        by (simp add: add_ac of_nat_max_increase)
    qed (use IH [OF m] False in \<open>simp_all add: add.assoc\<close>)
  qed
qed simp

lemma dist_bound: "dist l is \<le> length (flat is)"
  by (induction "is") auto

lemma dist_append: "dist l (xs @ ys) = (if Mark l \<in> set xs then dist l xs else length (flat xs) + dist l ys)"
  by (induction xs) auto

lemma dist_in_marks: "Mark l \<in> set is \<Longrightarrow> (p + dist l is, l) \<in> set (marks p is)"
proof (induction "is" arbitrary: p)
  case (Cons i "is")
  then show ?case using Cons.IH [of "p + length (item_bytes i)"] by (auto simp: add.assoc)
qed simp

lemma holds_pc: "holds is e \<Longrightarrow> Mark l \<in> set is \<Longrightarrow> e_pc_list e l = of_nat (dist l is)"
  using dist_in_marks [of l "is" 0] by (fastforce simp: holds_def)

lemma marks_label: "l \<in> snd ` set (marks p is) \<longleftrightarrow> Mark l \<in> set is"
  by (induction "is" arbitrary: p) (auto split: code_item.splits)

lemma holds_once: "holds (xs @ ys) e \<Longrightarrow> Mark l \<in> set ys \<Longrightarrow> Mark l \<notin> set xs"
proof -
  assume "holds (xs @ ys) e" "Mark l \<in> set ys"
  then have "snd ` set (marks 0 xs) \<inter> snd ` set (marks (length (flat xs)) ys) = {}" "l \<in> snd ` set (marks (length (flat xs)) ys)"
    by (simp_all add: holds_def marks_label)
  then show ?thesis using marks_label [of l 0 xs] by blast
qed

lemma takeWhile_Nil: "(\<And>x. x \<in> set xs \<Longrightarrow> \<not> P x) \<Longrightarrow> takeWhile P xs = []"
  by (cases xs) auto

lemma EstimateMaxDistance_holds:
  assumes h: "holds (done @ rest) e" and r: "rest = Jump op regs l # rest'"
    and br: "e_branches e = pcs b (jumps (length (flat done)) rest)"
    and sz: "b \<le> length (flat done)" "length (flat (done @ rest)) < 2 ^ 31" and m: "Mark l \<in> set (done @ rest)"
  shows "EstimateMaxDistance e (of_nat (length (flat done))) (e_pc_list e l) (of_nat b) =
    Some (word_of_int (estimate done rest l))"
proof -
  let ?p = "length (flat done)" and ?code = "flat (done @ rest)"
  have code: "e_bytecode e = ?code" using h by (simp add: holds_def)
  have pb: "of_nat ?p - of_nat b = (of_nat (?p - b) :: u32)" using sz(1) by (simp add: of_nat_diff)
  note pc = holds_pc [OF h m]
  show ?thesis
  proof (cases "Mark l \<in> set rest")
    case True
    let ?t = "?p + dist l rest"
    have nd: "Mark l \<notin> set done" using holds_once [OF h True] .
    have t: "e_pc_list e l = of_nat ?t" using pc nd by (simp add: dist_append del: dist.simps)
    have tb: "?t \<le> length ?code" using dist_bound [of l rest] by simp
    have pt: "?p < ?t" using jump_bytes_pos [of op regs 0] by (simp add: r del: length_greater_0_conv jump_bytes_hd)
    have lt: "(of_nat ?p :: u32) < of_nat ?t" using pt tb sz(2) by (subst of_nat_u32_less) simp_all
    have d: "of_nat ?t - of_nat ?p = (of_nat (dist l rest) :: u32)" by simp
    have tb': "of_nat ?t - of_nat b = (of_nat (?t - b) :: u32)" using sz(1) by (simp add: of_nat_diff)
    have dw: "dropWhile (\<lambda>(pc, _). pc < of_nat (?p - b)) (e_branches e) = e_branches e" unfolding br r by simp
    have "EstimateMaxDistance e (of_nat ?p) (e_pc_list e l) (of_nat b) =
        add_increases ?code (of_nat b) (takeWhile (\<lambda>(pc, _). pc < of_nat (?t - b)) (e_branches e)) (of_nat (dist l rest))"
      unfolding EstimateMaxDistance_def t code Let_def pb d tb' dw if_P [OF lt] ..
    also have "... = Some (of_nat (dist l rest) + of_nat (slack l rest))"
      unfolding br by (rule add_increases_ahead [OF True sz(2) sz(1)])
    also have "of_nat (dist l rest) + of_nat (slack l rest) = (word_of_int (estimate done rest l) :: u32)"
      using True by (simp add: estimate_def)
    finally show ?thesis .
  next
    case False
    then have md: "Mark l \<in> set done" using m by auto
    have t: "e_pc_list e l = of_nat (dist l done)" using pc md by (simp add: dist_append)
    have tb: "dist l done \<le> ?p" by (rule dist_bound)
    have nil: "takeWhile (\<lambda>(pc, _). pc < of_nat (?p - b)) (dropWhile Q (e_branches e)) = []" for Q
    proof (rule takeWhile_Nil)
      fix x assume "x \<in> set (dropWhile Q (e_branches e))"
      then have "x \<in> set (e_branches e)" by (rule set_dropWhileD)
      then obtain q l' where x: "x = (of_nat (q - b), l')" "(q, l') \<in> set (jumps ?p rest)"
        unfolding br pcs_def by auto
      have "?p \<le> q" "q < length ?code" using jumps_bounds [OF x(2)] by simp_all
      then show "\<not> (case x of (pc, _) \<Rightarrow> pc < of_nat (?p - b))"
        using of_nat_u32_less [of "q - b" "?p - b"] sz by (simp add: x(1) diff_le_mono)
    qed
    have e: "estimate done rest l = int (dist l done) - int ?p" using False by (simp add: estimate_def)
    have d: "of_nat (dist l done) - of_nat ?p = (word_of_int (estimate done rest l) :: u32)" by (simp add: e)
    have less: "(of_nat a < (of_nat c :: u32)) = (a < c)" if "a \<le> ?p" "c \<le> ?p" for a c
      using that sz(2) by (intro of_nat_u32_less) simp_all
    show ?thesis
      unfolding EstimateMaxDistance_def t Let_def pb d nil
      using tb e by (auto simp: less)
  qed
qed

lemma fold_shift: "distinct ls \<Longrightarrow>
    fold (\<lambda>l key. key(l := key l + c)) ls k = (\<lambda>l. if l \<in> set ls then k l + c else (k l :: u32))"
  by (induction ls arbitrary: k) auto

lemma multiset_insert_last: "(\<And>l'. l' \<in> set ls \<Longrightarrow> key l' \<le> key l) \<Longrightarrow> multiset_insert key l ls = ls @ [l]"
  by (simp add: multiset_insert_def)

lemma fold_multiset_insert: "sorted (map key (ys @ xs)) \<Longrightarrow> fold (multiset_insert key) xs ys = ys @ xs"
proof (induction xs arbitrary: ys)
  case (Cons x xs)
  have "multiset_insert key x ys = ys @ [x]" using Cons.prems by (intro multiset_insert_last) (auto simp: sorted_append)
  then show ?case using Cons.IH [of "ys @ [x]"] Cons.prems by simp
qed simp

lemma marks_sorted: "sorted (map fst (marks p is))"
proof (induction "is" arbitrary: p)
  case (Cons i "is")
  have "p \<le> q" if "(q, l) \<in> set (marks (p + length (item_bytes i)) is)" for q l
    using marks_bounds [OF that] by simp
  then show ?case using Cons.IH by (auto split: code_item.splits)
qed simp

lemma map_key_marks:
  assumes "\<And>p l. (p, l) \<in> set ms \<Longrightarrow> key l = of_nat p" "\<And>p l. (p, l) \<in> set ms \<Longrightarrow> p < 2 ^ 32" "sorted (map fst ms)"
  shows "sorted (map (key :: nat \<Rightarrow> u32) (map snd ms))"
  using assms
proof (induction ms)
  case (Cons m ms)
  have "key (snd m) \<le> key l" if "(p, l) \<in> set ms" for p l
    using Cons.prems(1) [of "fst m" "snd m"] Cons.prems(1) [of p l] Cons.prems(2) [of "fst m" "snd m"] Cons.prems(2) [of p l]
      Cons.prems(3) that by (auto simp: of_nat_u32_le)
  moreover have "sorted (map key (map snd ms))" 
    using Cons.prems(3) by (intro Cons.IH Cons.prems(1,2) list.set_intros(2)) simp_all
  ultimately show ?case by auto
qed simp

lemma split_while:
  assumes "\<And>x. x \<in> set xs \<Longrightarrow> P x" "\<And>y. y \<in> set ys \<Longrightarrow> \<not> P y"
  shows "takeWhile P (xs @ ys) = xs" "dropWhile P (xs @ ys) = ys"
  using assms by (induction xs; cases ys; auto)+

lemma UpdateLabelTargets_holds:
  assumes h: "holds (done @ Jump op regs l # rest) e" and new: "list_all item_ok new" "marks 0 new = []"
    and len: "length (flat new) = length (jump_bytes op regs 0) + extra"
    and sz: "length (flat (done @ new @ rest)) < 2 ^ 31"
    and e': "e_targets e' = e_targets e" "e_pc_list e' = e_pc_list e" "e_bytecode e' = flat (done @ new @ rest)"
  shows "holds (done @ new @ rest) (UpdateLabelTargets (of_nat (length (flat done))) extra e')"
    "e_branches (UpdateLabelTargets pc extra e') = e_branches e'"
proof -
  let ?p = "length (flat done)" and ?n = "length (jump_bytes op regs 0)"
  define A where "A = marks 0 done"
  define B where "B = marks (?p + ?n) rest"
  define B' where "B' = map (\<lambda>(q, l). (q + extra, l)) B"
  have mB: "marks (?p + length (flat new)) rest = B'"
    using marks_shift [of "?p + ?n" extra rest] by (simp add: len B_def B'_def add.assoc)
  have mn: "marks q new = []" for q using marks_shift [of 0 q new] new(2) by simp
  have marks: "marks 0 (done @ Jump op regs l # rest) = A @ B" "marks 0 (done @ new @ rest) = A @ B'"
    using mB mn by (simp_all add: A_def B_def)
  have t: "e_targets e = map snd A @ map snd B" and dt: "distinct (map snd (A @ B))"
    and key: "\<And>q l. (q, l) \<in> set (A @ B) \<Longrightarrow> e_pc_list e l = of_nat q"
    using h unfolding holds_def marks map_append by blast+
  have bA: "q \<le> ?p" if "(q, l) \<in> set A" for q l using marks_bounds [of q l 0 "done"] that by (simp add: A_def)
  have bB: "?p < q \<and> q + extra \<le> length (flat (done @ new @ rest))" if "(q, l) \<in> set B" for q l
    using marks_bounds [of q l "?p + ?n" rest] that jump_bytes_pos [of op regs 0] len
    unfolding B_def flat_simps length_append by linarith
  have leA: "e_pc_list e (snd a) \<le> of_nat ?p" if "a \<in> set A" for a
    using key [of "fst a" "snd a"] bA [of "fst a" "snd a"] that sz by (simp add: of_nat_u32_le)
  have gtB: "\<not> e_pc_list e (snd a) \<le> of_nat ?p" if "a \<in> set B" for a
    using key [of "fst a" "snd a"] bB [of "fst a" "snd a"] that sz by (simp add: of_nat_u32_le)
  have w: "takeWhile (\<lambda>l. e_pc_list e l \<le> of_nat ?p) (e_targets e) = map snd A"
    "dropWhile (\<lambda>l. e_pc_list e l \<le> of_nat ?p) (e_targets e) = map snd B"
    using split_while [of "map snd A" "\<lambda>l. e_pc_list e l \<le> of_nat ?p" "map snd B"] leA gtB unfolding t set_map by blast+
  define k where "k = (\<lambda>l. if l \<in> set (map snd B) then e_pc_list e l + of_nat extra else e_pc_list e l)"
  have k: "k l = of_nat q" if m: "(q, l) \<in> set (A @ B')" for q l
  proof (cases "(q, l) \<in> set A")
    case True
    then have "l \<notin> set (map snd B)" using dt unfolding map_append distinct_append by force
    then show ?thesis using key [of q l] True by (simp add: k_def)
  next
    case False
    then obtain q' where q': "(q', l) \<in> set B" "q = q' + extra" using m unfolding B'_def by auto
    then have "l \<in> set (map snd B)" by force
    then show ?thesis using key [of q' l] q' by (simp add: k_def)
  qed
  have l': "map snd B' = map snd B" by (auto simp: B'_def)
  have "q < 2 ^ 32" if "(q, l) \<in> set (A @ B')" for q l
    using marks_bounds [of q l 0 "done @ new @ rest"] that sz unfolding marks by simp
  then have srt: "sorted (map k (map snd (A @ B')))"
    using marks_sorted [of 0 "done @ new @ rest"] unfolding marks by (intro map_key_marks k)
  have ins: "fold (multiset_insert k) (map snd B) (map snd A) = map snd A @ map snd B"
    using srt l' by (intro fold_multiset_insert) simp
  have u: "UpdateLabelTargets (of_nat ?p) extra e' = e'\<lparr>e_pc_list := k, e_targets := map snd A @ map snd B\<rparr>"
    using dt unfolding UpdateLabelTargets_def e' w Let_def
    by (simp add: fold_shift t k_def [symmetric] ins del: set_map)
  have ok: "list_all item_ok (done @ new @ rest)" using h new(1) by (simp add: holds_def)
  show "holds (done @ new @ rest) (UpdateLabelTargets (of_nat ?p) extra e')"
    unfolding u holds_def marks using dt k e'(3) ok by (auto simp: t l')
  show "e_branches (UpdateLabelTargets pc extra e') = e_branches e'" by (simp add: UpdateLabelTargets_def Let_def)
qed

definition short :: "u8 \<Rightarrow> bool" where
  "short op \<longleftrightarrow> op = JMP_IMM8 \<or> IsJcondImm8 op \<or> IsJcondV8Imm8 op"

lemma EmitAt_eq:
  assumes "EmitInst f (ucast op) args = Some code" "length old = length code" "pos = length pre"
  shows "EmitAt f pos op args (pre @ old @ suf) = Some (pre @ code @ suf)"
  using assms by (simp add: EmitAt_def)

lemma insert_zeros_eq: "pos = length pre \<Longrightarrow> insert_zeros pos n (pre @ suf) = Some (pre @ replicate n 0 @ suf)"
  by (simp add: insert_zeros_def)

definition short_jcond :: "u8 \<Rightarrow> bool" where
  "short_jcond op \<longleftrightarrow> IsJcondImm8 op \<or> IsJcondV8Imm8 op"

lemma next_kind: "IsJcondImm8 op \<Longrightarrow> IsJcondImm16 (op + 1)" "IsJcondV8Imm8 op \<Longrightarrow> IsJcondV8Imm16 (op + 1)"
  unfolding jump_kinds by (elim insertE emptyE; simp)+

lemma inverse_kind:
  "IsJcondImm8 op \<Longrightarrow> \<exists>c. RevertConditionCode op = Some c \<and> IsJcondImm8 c"
  "IsJcondV8Imm8 op \<Longrightarrow> \<exists>c. RevertConditionCode op = Some c \<and> IsJcondV8Imm8 c"
  unfolding jump_kinds RevertConditionCode_def by (elim insertE emptyE; simp)+

lemma jcond_kinds:
  assumes "short_jcond op"
  shows "GetLongestConditionalJump op = Some (op + 1)"
    "jump_format (op + 1) = Some (if IsJcondV8Imm8 op then F_V8_IMM16 else F_IMM16)"
    "jump_format op = Some (if IsJcondV8Imm8 op then F_V8_IMM8 else F_IMM8)"
    "IsJcondV8Imm16 (op + 1) = IsJcondV8Imm8 op" "\<not> IsJcondV8Imm8 (op + 1)" "\<not> IsJcondImm8 (op + 1)" "\<not> IsJcondImm16 op"
    "\<not> IsJcondV8Imm16 op" "IsJcondImm8 op = (\<not> IsJcondV8Imm8 op)" "op + 1 \<notin> {JMP_IMM8, JMP_IMM16, JMP_IMM32}"
    "op \<notin> {JMP_IMM8, JMP_IMM16, JMP_IMM32}"
  using assms next_kind [of op] kinds_disjoint [of op] kinds_disjoint [of "op + 1"]
  unfolding short_jcond_def GetLongestConditionalJump_def jump_format_def by auto

lemma jcond_simps:
  assumes "short_jcond op"
  shows "GetLongestConditionalJump op = Some (op + 1)"
    "jump_format (op + 1) = Some (if IsJcondV8Imm8 op then F_V8_IMM16 else F_IMM16)"
    "jump_format op = Some (if IsJcondV8Imm8 op then F_V8_IMM8 else F_IMM8)"
    "imm_width op = 8" "imm_width (op + 1) = 16"
    "jump_size op = (if IsJcondV8Imm8 op then 3 else 2)" "jump_size (op + 1) = (if IsJcondV8Imm8 op then 4 else 3)"
    "jump_ok (op + 1) regs = jump_ok op regs" "jump_ok op regs = (length regs = (if IsJcondV8Imm8 op then 1 else 0))"
    "op \<noteq> JMP_IMM8" "IsJcondImm8 op = (\<not> IsJcondV8Imm8 op)" "\<not> IsJcondImm16 op" "\<not> IsJcondV8Imm16 op"
proof -
  note k = jcond_kinds [OF assms]
  show "GetLongestConditionalJump op = Some (op + 1)" "\<not> IsJcondImm16 op" "\<not> IsJcondV8Imm16 op"
    "IsJcondImm8 op = (\<not> IsJcondV8Imm8 op)"
    and f2: "jump_format (op + 1) = Some (if IsJcondV8Imm8 op then F_V8_IMM16 else F_IMM16)"
    and f1: "jump_format op = Some (if IsJcondV8Imm8 op then F_V8_IMM8 else F_IMM8)"
    by (fact k)+
  show w: "imm_width op = 8" "imm_width (op + 1) = 16" "op \<noteq> JMP_IMM8" using k by (auto simp: imm_width_def)
  show "jump_size op = (if IsJcondV8Imm8 op then 3 else 2)" "jump_size (op + 1) = (if IsJcondV8Imm8 op then 4 else 3)"
    using w k by (simp_all add: jump_size_def)
  show "jump_ok (op + 1) regs = jump_ok op regs" "jump_ok op regs = (length regs = (if IsJcondV8Imm8 op then 1 else 0))"
    using k by (simp_all add: jump_ok_def)
qed

lemma jcond_inverse:
  assumes "short_jcond op"
  obtains c where "RevertConditionCode op = Some c" "short_jcond c" "IsJcondV8Imm8 c = IsJcondV8Imm8 op"
  using assms inverse_kind [of op] kinds_disjoint(1) unfolding short_jcond_def by blast

lemma jmp_simps:
  "jump_format JMP_IMM8 = Some F_IMM8" "jump_format JMP_IMM16 = Some F_IMM16" "jump_format JMP_IMM32 = Some F_IMM32"
  "imm_width JMP_IMM8 = 8" "imm_width JMP_IMM16 = 16" "imm_width JMP_IMM32 = 32"
  "jump_size JMP_IMM8 = 2" "jump_size JMP_IMM16 = 3" "jump_size JMP_IMM32 = 5"
  "jump_ok JMP_IMM8 regs = (regs = [])" "jump_ok JMP_IMM16 regs = (regs = [])" "jump_ok JMP_IMM32 regs = (regs = [])"
  by (simp_all add: jump_format_def imm_width_def jump_size_def jump_ok_def jump_kinds)

lemmas jump_size_ops = jump_sizes(1) [OF jmp_simps(1)] jump_sizes(1) [OF jmp_simps(2)] jump_sizes(1) [OF jmp_simps(3)]

lemma jcond_sizes:
  assumes "short_jcond op"
  shows "GetSizeByOpcode op = Some (jump_size op)" "GetSizeByOpcode (op + 1) = Some (Suc (jump_size op))"
    "jump_size (op + 1) = Suc (jump_size op)"
  using jump_sizes(1) [OF jcond_simps(3) [OF assms]] jump_sizes(1) [OF jcond_simps(2) [OF assms]] jcond_simps [OF assms]
  by simp_all

lemma EmitInst_long:
  assumes "short_jcond op" "jump_ok op regs" "f = (if IsJcondV8Imm8 op then F_V8_IMM16 else F_IMM16)"
  shows "EmitInst f (ucast (op + 1)) (map ucast regs @ [a]) = Some (jump_bytes (op + 1) regs a)"
  using assms jcond_simps [OF assms(1)] by (intro EmitInst_jump) simp_all

lemma widen_jcond_near:
  assumes op: "short_jcond op" "jump_ok op regs" and p: "length pre < 2 ^ 31"
    and e: "e_bytecode e = pre @ jump_bytes op regs a @ suf"
    and f: "f = (if IsJcondV8Imm8 op then F_V8_IMM16 else F_IMM16)"
  shows "widen_jcond f (map ucast regs) op (of_nat (length pre)) BITSIZE_16 e =
    Some (SUCCESS, 1, of_nat (length pre), e\<lparr>e_bytecode := pre @ jump_bytes (op + 1) regs 0 @ suf\<rparr>)"
proof -
  note s = jcond_simps [OF op(1)] and g = jcond_sizes [OF op(1)]
  have u: "unat (of_nat (length pre) :: u32) = length pre" using p by (simp add: unat_of_nat)
  have z: "insert_zeros (length pre + jump_size op) 1 (pre @ jump_bytes op regs a @ suf) =
      Some (pre @ (jump_bytes op regs a @ replicate 1 0) @ suf)"
    using insert_zeros_eq [of "length pre + jump_size op" "pre @ jump_bytes op regs a" 1 suf] op(2) by simp
  have a: "EmitAt f (length pre) (op + 1) (map ucast regs @ [0]) (pre @ (jump_bytes op regs a @ replicate 1 0) @ suf) =
      Some (pre @ jump_bytes (op + 1) regs 0 @ suf)"
    using op(2) s(8) g by (intro EmitAt_eq EmitInst_long [OF op f]) simp_all
  show ?thesis
    using z a by (simp add: widen_jcond_def g(1,2) s(1) u e jump_size_ops)
qed

lemma widen_jcond_far:
  assumes op: "short_jcond op" "jump_ok op regs" and p: "length pre < 2 ^ 31"
    and e: "e_bytecode e = pre @ jump_bytes op regs a @ suf"
    and f: "f = (if IsJcondV8Imm8 op then F_V8_IMM16 else F_IMM16)"
    and c: "RevertConditionCode op = Some c" "short_jcond c" "IsJcondV8Imm8 c = IsJcondV8Imm8 op"
  shows "widen_jcond f (map ucast regs) op (of_nat (length pre)) BITSIZE_32 e =
    Some (SUCCESS, 6, of_nat (length pre + jump_size (op + 1)),
      e\<lparr>e_bytecode := pre @ jump_bytes (c + 1) regs (of_nat (jump_size (op + 1) + 5)) @ jump_bytes JMP_IMM32 [] 0 @ suf\<rparr>)"
proof -
  note s = jcond_simps [OF op(1)] and g = jcond_sizes [OF op(1)] and sc = jcond_simps [OF c(2)] and gc = jcond_sizes [OF c(2)]
  let ?inv = "jump_bytes (c + 1) regs (of_nat (jump_size (op + 1) + 5))"
  have cr: "jump_ok c regs" "jump_size c = jump_size op" using op(2) s c(3) sc by simp_all
  have u: "unat (of_nat (length pre) :: u32) = length pre" using p by (simp add: unat_of_nat)
  have z: "insert_zeros (length pre + jump_size op) 6 (pre @ jump_bytes op regs a @ suf) =
      Some (pre @ (jump_bytes op regs a @ [0]) @ replicate 5 0 @ suf)"
    using insert_zeros_eq [of "length pre + jump_size op" "pre @ jump_bytes op regs a" 6 suf] op(2)
    by (simp add: numeral_eq_Suc)
  have a1: "EmitAt f (length pre) (c + 1) (map ucast regs @ [of_nat (jump_size (op + 1) + 5)])
      (pre @ (jump_bytes op regs a @ [0]) @ replicate 5 0 @ suf) = Some (pre @ ?inv @ replicate 5 0 @ suf)"
    using op(2) cr sc(8) g gc c(3) f by (intro EmitAt_eq EmitInst_long [OF c(2) cr(1)]) simp_all
  have li: "length ?inv = jump_size (op + 1)" using cr sc(8) gc g by simp
  have a2: "EmitAt F_IMM32 (length pre + jump_size (op + 1)) JMP_IMM32 [0] ((pre @ ?inv) @ replicate 5 0 @ suf) =
      Some ((pre @ ?inv) @ jump_bytes JMP_IMM32 [] 0 @ suf)"
    using EmitInst_jump [of JMP_IMM32 "[]" F_IMM32 0] li by (intro EmitAt_eq) (simp_all add: jmp_simps)
  show ?thesis
    using z a1 a2 unfolding g(3) by (simp add: widen_jcond_def g(1,2) s(1) u e jump_size_ops c(1) sc(1) jmp_simps(9))
qed

lemma widen_jmp_eq:
  assumes p: "length pre < 2 ^ 31" and e: "e_bytecode e = pre @ jump_bytes JMP_IMM8 [] 0 @ suf"
    and w: "wide = JMP_IMM16 \<or> wide = JMP_IMM32"
  shows "widen_jmp wide (of_nat (length pre)) e =
    Some (SUCCESS, jump_size wide - 2, of_nat (length pre), e\<lparr>e_bytecode := pre @ jump_bytes wide [] 0 @ suf\<rparr>)"
proof -
  have u: "unat (of_nat (length pre) :: u32) = length pre" using p by (simp add: unat_of_nat)
  have b: "jump_bytes wide [] 0 = wide # 0 # replicate (jump_size wide - 2) 0" "jump_bytes JMP_IMM8 [] 0 = [JMP_IMM8, 0]"
    "GetSizeByOpcode wide = Some (jump_size wide)"
    using w by (elim disjE; simp add: jump_bytes_def jmp_simps imm_bytes_small replicate_small jump_size_ops)+
  have up: "(e_bytecode e)[length pre := wide] = (pre @ [wide, 0]) @ suf" unfolding e b(2) by simp
  show ?thesis
    using insert_zeros_eq [of "length pre + 2" "pre @ [wide, 0]" "jump_size wide - 2" suf]
    unfolding widen_jmp_def u up by (simp add: b jump_size_ops jmp_simps)
qed

lemma short_cases: "short op \<Longrightarrow> (op = JMP_IMM8 \<Longrightarrow> P) \<Longrightarrow> (short_jcond op \<Longrightarrow> P) \<Longrightarrow> P"
  by (auto simp: short_def short_jcond_def)

lemma short_width: "short op \<Longrightarrow> imm_width op = 8" "short op \<Longrightarrow> GetBitImmSizeByOpcode op = Some BITSIZE_8"
proof -
  have b: "bit_imm_size 8 = Some BITSIZE_8" by (simp add: bit_imm_size_def)
  assume "short op"
  then show "imm_width op = 8" by (rule short_cases) (simp_all add: jmp_simps jcond_simps)
  from \<open>short op\<close> show "GetBitImmSizeByOpcode op = Some BITSIZE_8"
    by (rule short_cases) (use jump_sizes(2) b in \<open>simp_all add: jmp_simps jcond_simps\<close>)
qed

lemma getRegJcond_eq:
  assumes "short_jcond op" "IsJcondV8Imm8 op" "length pre < 2 ^ 31"
  shows "getRegJcond (pre @ jump_bytes op [r] a @ suf) (of_nat (length pre)) BITSIZE_8 = Some r"
  using GetVReg_jump [of op r F_V8_IMM8 pre a suf] assms jcond_simps [OF assms(1)]
  by (simp add: getRegJcond_def unat_of_nat)

text \<open>What a jump that does not fit becomes.\<close>

definition grown :: "nat \<Rightarrow> nat \<Rightarrow> code_item list \<Rightarrow> u8 \<Rightarrow> u8 list \<Rightarrow> nat \<Rightarrow> bool" where
  "grown p extra new op regs l \<longleftrightarrow> list_all item_ok new \<and> marks 0 new = [] \<and> extra \<le> 6 \<and>
     length (flat new) = length (jump_bytes op regs 0) + extra \<and> (\<exists>off. jumps p new = [(p + off, l)])"

lemma widened_grown:
  assumes "short op" "jump_ok op regs"
  shows "\<exists>extra. grown p extra (widened sz op regs l) op regs l \<and> (imm_bits sz \<le> 8 \<longrightarrow> extra = 0) \<and> (8 < imm_bits sz \<longrightarrow> 0 < extra)"
  using assms(1)
proof (rule short_cases)
  assume "op = JMP_IMM8"
  then show ?thesis using assms(2)
    by (cases sz) (auto simp: grown_def widened_def jmp_simps)
next
  assume op: "short_jcond op"
  note s = jcond_simps [OF op] and g = jcond_sizes [OF op]
  obtain c where c: "RevertConditionCode op = Some c" "short_jcond c" "IsJcondV8Imm8 c = IsJcondV8Imm8 op"
    using jcond_inverse [OF op] .
  have cs: "GetLongestConditionalJump c = Some (c + 1)" "jump_ok (c + 1) regs" "jump_size (c + 1) = Suc (jump_size op)"
    using jcond_simps [OF c(2)] jcond_sizes [OF c(2)] s c(3) assms(2) by simp_all
  show ?thesis
    using assms(2) s g cs c(1)
    by (cases sz) (auto simp: grown_def widened_def far_pair_def Let_def jmp_simps)
qed

lemma DoReserve_eq:
  assumes "short op" "jump_ok op regs" "length pre < 2 ^ 31" "e_bytecode e = pre @ jump_bytes op regs 0 @ suf"
    "sz = BITSIZE_16 \<or> sz = BITSIZE_32" "grown (length pre) extra (widened sz op regs l) op regs l"
    "jumps (length pre) (widened sz op regs l) = [(q, l)]"
  shows "DoReserveSpaceForOffset op (of_nat (length pre)) sz e =
    Some (SUCCESS, extra, of_nat q, e\<lparr>e_bytecode := pre @ flat (widened sz op regs l) @ suf\<rparr>)"
  using assms(1)
proof (rule short_cases)
  assume op: "op = JMP_IMM8"
  then have r: "regs = []" using assms(2) by (simp add: jmp_simps)
  have "bit_imm_size 8 = Some BITSIZE_8" by (simp add: bit_imm_size_def)
  moreover have "extra = length (flat (widened sz op regs l)) - 2" using assms(6) by (simp add: grown_def op r jmp_simps)
  ultimately show ?thesis
    using assms(5,7) widen_jmp_eq [OF assms(3) assms(4) [unfolded op r]] short_width(2) [OF assms(1)]
    by (auto simp: DoReserveSpaceForOffset_def op r widened_def jmp_simps)
next
  assume op: "short_jcond op"
  note s = jcond_simps [OF op] and g = jcond_sizes [OF op]
  let ?f = "if IsJcondV8Imm8 op then F_V8_IMM16 else F_IMM16"
  obtain c where c: "RevertConditionCode op = Some c" "short_jcond c" "IsJcondV8Imm8 c = IsJcondV8Imm8 op"
    using jcond_inverse [OF op] .
  have cs: "GetLongestConditionalJump c = Some (c + 1)" "jump_ok (c + 1) regs" "jump_size (c + 1) = jump_size (op + 1)"
    using jcond_simps [OF c(2)] jcond_sizes [OF c(2)] s c(3) assms(2) by simp_all
  have ex: "length (flat (widened sz op regs l)) = jump_size op + extra" using assms(2,6) by (simp add: grown_def)
  have w: "widen_jcond ?f (map ucast regs) op (of_nat (length pre)) sz e =
      Some (SUCCESS, extra, of_nat q, e\<lparr>e_bytecode := pre @ flat (widened sz op regs l) @ suf\<rparr>)"
    using assms(5)
  proof
    assume sz: "sz = BITSIZE_16"
    then show ?thesis
      using widen_jcond_near [OF op assms(2-4) refl] assms(2,7) ex s by (simp add: widened_def sz g)
  next
    assume sz: "sz = BITSIZE_32"
    then show ?thesis
      using widen_jcond_far [OF op assms(2-4) refl c] assms(2,7) ex cs c(1) s(4,10) g
      by (auto simp: widened_def sz far_pair_def Let_def jmp_simps)
  qed
  show ?thesis
  proof (cases "IsJcondV8Imm8 op")
    case True
    then obtain r where r: "regs = [r]" using assms(2) s(9) [of regs] by (cases regs) auto
    have "getRegJcond (e_bytecode e) (of_nat (length pre)) BITSIZE_8 = Some r"
      using getRegJcond_eq [OF op True assms(3)] assms(4) r by simp
    then show ?thesis using w True s short_width(2) [OF assms(1)] by (simp add: DoReserveSpaceForOffset_def r)
  next
    case False
    then have "regs = []" using assms(2) s(9) [of regs] by simp
    then show ?thesis using w False s short_width(2) [OF assms(1)] by (simp add: DoReserveSpaceForOffset_def)
  qed
qed

lemma map_insert_last: "(\<And>k' v'. (k', v') \<in> set m \<Longrightarrow> k' < k) \<Longrightarrow> map_insert k v m = m @ [(k, v)]"
  by (induction m rule: map_insert.induct) (auto dest: order_less_asym)

lemma pcs_shift: "pcs (b + n) (jumps (p + n) is) = pcs b (jumps p is)"
  unfolding jumps_shift pcs_def by (auto simp: split_beta)

definition jumps_ready :: "code_item list \<Rightarrow> code_item list \<Rightarrow> bool" where
  "jumps_ready done rest \<longleftrightarrow> (\<forall>op regs l. Jump op regs l \<in> set rest \<longrightarrow> short op \<and> Mark l \<in> set (done @ rest))"

lemma GetBitLengthSigned_large: "BITSIZE_8 < GetBitLengthSigned d \<Longrightarrow> GetBitLengthSigned d = BITSIZE_16 \<or> GetBitLengthSigned d = BITSIZE_32"
  by (cases "GetBitLengthSigned d") (simp_all add: less_BitImmSize_def)

lemma widened_keeps: "Mark l' \<in> set (widened sz op regs l) \<Longrightarrow> False"
  by (auto simp: widened_def far_pair_def Let_def split: if_splits)

lemma jumps_ready_step: "jumps_ready done (i # rest) \<Longrightarrow> (\<And>l. i = Mark l \<Longrightarrow> i \<in> set new) \<Longrightarrow> jumps_ready (done @ new) rest"
  by (auto simp: jumps_ready_def)

text \<open>One jump of the loop.\<close>

lemma reserve_step:
  assumes h: "holds (done @ Jump op regs l # rest) e" and b: "b \<le> length (flat done)"
    and br: "e_branches e = (of_nat (length (flat done) - b), l) # bs"
      "bs = pcs b (jumps (length (flat done) + length (jump_bytes op regs 0)) rest)"
    and sz: "length (flat (done @ Jump op regs l # rest)) + 6 < 2 ^ 31" and rdy: "jumps_ready done (Jump op regs l # rest)"
    and new: "new = widened (GetBitLengthSigned (word_of_int (estimate done (Jump op regs l # rest) l))) op regs l"
  shows "\<exists>e' b'. reserve_loop ((of_nat (length (flat done) - b), l) # bs) (of_nat b) (pcs 0 (jumps 0 done)) e =
      reserve_loop bs (of_nat b') (pcs 0 (jumps 0 (done @ new))) e' \<and> holds ((done @ new) @ rest) e' \<and>
      b' \<le> length (flat (done @ new)) \<and> e_branches e' = bs \<and> bs = pcs b' (jumps (length (flat (done @ new))) rest) \<and>
      length (flat new) \<le> length (jump_bytes op regs 0) + 6"
proof -
  let ?p = "length (flat done)" and ?d = "word_of_int (estimate done (Jump op regs l # rest) l) :: u32"
  have ok: "short op" "jump_ok op regs" "Mark l \<in> set (done @ Jump op regs l # rest)"
    using rdy h by (auto simp: jumps_ready_def holds_def)
  have p: "?p < 2 ^ 31" using sz by simp
  have code: "e_bytecode e = flat done @ jump_bytes op regs 0 @ flat rest" using h by (simp add: holds_def)
  have pc: "of_nat (?p - b) + of_nat b = (of_nat ?p :: u32)" using b by (simp add: of_nat_diff)
  have op: "byte_at (e_bytecode e) (of_nat ?p) = Some op"
    using byte_at_jump [of "done" op regs l rest] p by (simp add: code)
  have est: "EstimateMaxDistance e (of_nat ?p) (e_pc_list e l) (of_nat b) = Some ?d"
    using br sz by (intro EstimateMaxDistance_holds [OF h refl _ b _ ok(3)]) simp_all
  obtain extra where g: "grown ?p extra new op regs l" "imm_bits (GetBitLengthSigned ?d) \<le> 8 \<longrightarrow> extra = 0"
    "8 < imm_bits (GetBitLengthSigned ?d) \<longrightarrow> 0 < extra"
    using widened_grown [OF ok(1,2), of ?p "GetBitLengthSigned ?d" l] new by blast
  then obtain off where off: "jumps ?p new = [(?p + off, l)]" by (auto simp: grown_def)
  have len: "length (flat new) = length (jump_bytes op regs 0) + extra" "extra \<le> 6" using g by (simp_all add: grown_def)
  have offb: "?p + off < 2 ^ 32" using jumps_bounds [of "?p + off" l ?p new] off len sz by simp
  have ins: "map_insert (of_nat (?p + off)) l (pcs 0 (jumps 0 done)) = pcs 0 (jumps 0 (done @ new))"
  proof -
    have "k < of_nat (?p + off)" if m: "(k, l') \<in> set (pcs 0 (jumps 0 done))" for k l'
    proof -
      obtain q where q: "k = of_nat q" "(q, l') \<in> set (jumps 0 done)" using m by (auto simp: pcs_def)
      then show ?thesis using jumps_bounds [OF q(2)] offb p of_nat_u32_less [of q "?p + off"] by simp
    qed
    then show ?thesis using off by (simp add: map_insert_last)
  qed
  have shift: "bs = pcs (b + extra) (jumps (length (flat (done @ new))) rest)"
    using pcs_shift [of b extra "?p + length (jump_bytes op regs 0)" rest] br(2) len by (simp add: add.assoc)
  have szn: "length (flat (done @ new @ rest)) < 2 ^ 31" using len sz by simp
  show ?thesis
  proof (cases "BITSIZE_8 < GetBitLengthSigned ?d")
    case True
    define e1 where "e1 = e\<lparr>e_bytecode := flat (done @ new @ rest)\<rparr>"
    define e2 where "e2 = (UpdateLabelTargets (of_nat ?p) extra e1)\<lparr>e_branches := bs\<rparr>"
    have ex: "0 < extra" using g(3) True by (simp add: less_BitImmSize_def)
    have "DoReserveSpaceForOffset op (of_nat ?p) (GetBitLengthSigned ?d) e = Some (SUCCESS, extra, of_nat (?p + off), e1)"
      using DoReserve_eq [OF ok(1,2) p code GetBitLengthSigned_large [OF True]] g(1) off unfolding new e1_def by simp
    then have run: "reserve_loop ((of_nat (?p - b), l) # bs) (of_nat b) (pcs 0 (jumps 0 done)) e =
        reserve_loop bs (of_nat (b + extra)) (pcs 0 (jumps 0 (done @ new))) e2"
      using ex True by (simp add: Let_def pc op short_width(2) [OF ok(1)] est e2_def ins [unfolded of_nat_add])
    have "holds (done @ new @ rest) (UpdateLabelTargets (of_nat ?p) extra e1)"
      using g(1) by (intro UpdateLabelTargets_holds(1) [OF h _ _ len(1) szn]) (simp_all add: grown_def e1_def)
    then have "holds ((done @ new) @ rest) e2" by (simp add: e2_def holds_def)
    then show ?thesis using run shift len b
      by (intro exI [of _ e2] exI [of _ "b + extra"] conjI) (simp_all add: e2_def del: reserve_loop.simps)
  next
    case False
    then have ex: "extra = 0" and kept: "new = [Jump op regs l]"
      using g(2) short_width(1) [OF ok(1)] by (simp_all add: less_BitImmSize_def new widened_def)
    then have "off = 0" using off by simp
    then have run: "reserve_loop ((of_nat (?p - b), l) # bs) (of_nat b) (pcs 0 (jumps 0 done)) e =
        reserve_loop bs (of_nat b) (pcs 0 (jumps 0 (done @ new))) (e\<lparr>e_branches := bs\<rparr>)"
      using False ins by (simp add: Let_def pc op short_width(2) [OF ok(1)] est)
    have "holds ((done @ new) @ rest) (e\<lparr>e_branches := bs\<rparr>)" using h ok(2) by (simp add: kept holds_def)
    then show ?thesis using run shift b len(1)
      by (intro exI [of _ "e\<lparr>e_branches := bs\<rparr>"] exI [of _ b] conjI) (simp_all add: ex del: reserve_loop.simps)
  qed
qed

end
