(* ===== verification/EmitterProperties.thy ===== *)
theory EmitterProperties
  imports EmitterItems
begin

text \<open>
  Building a program: the loop over the branches refines \<open>reserve\<close>, \<open>UpdateBranches\<close> links the items, the displacements
  fit their immediates, and the calls of the emitter put the program into it. Two theorems show where the checks and the
  estimate of the source fall short.
\<close>

lemma reserve_loop_holds:
  assumes "holds (done @ rest) e" "b \<le> length (flat done)" "e_branches e = pcs b (jumps (length (flat done)) rest)"
    "length (flat (done @ rest)) + 6 * length (jumps 0 rest) < 2 ^ 31" "jumps_ready done rest"
  shows "\<exists>e'. reserve_loop (pcs b (jumps (length (flat done)) rest)) (of_nat b) (pcs 0 (jumps 0 done)) e = Some (SUCCESS, e') \<and>
    holds (reserve done rest) e' \<and> e_branches e' = pcs 0 (jumps 0 (reserve done rest))"
  using assms
proof (induction "done" rest arbitrary: b e rule: reserve.induct)
  case (1 "done")
  then show ?case by (auto simp: holds_def)
next
  case (2 "done" op regs l rest)
  let ?n = "length (jump_bytes op regs 0)" and ?p = "length (flat done)"
  define new where "new = widened (GetBitLengthSigned (word_of_int (estimate done (Jump op regs l # rest) l))) op regs l"
  define bs where "bs = pcs b (jumps (?p + ?n) rest)"
  have js: "length (jumps ?n rest) = length (jumps 0 rest)" using jumps_shift [of 0 ?n rest] by simp
  obtain e' b' where s: "reserve_loop ((of_nat (?p - b), l) # bs) (of_nat b) (pcs 0 (jumps 0 done)) e =
      reserve_loop bs (of_nat b') (pcs 0 (jumps 0 (done @ new))) e'" "holds ((done @ new) @ rest) e'"
    "b' \<le> length (flat (done @ new))" "e_branches e' = bs" "bs = pcs b' (jumps (length (flat (done @ new))) rest)"
    "length (flat new) \<le> ?n + 6"
    using reserve_step [OF 2(2,3) _ bs_def _ 2(6) new_def] 2(4,5) js by (auto simp: bs_def)
  have sz: "length (flat ((done @ new) @ rest)) + 6 * length (jumps 0 rest) < 2 ^ 31" using 2(5) s(6) js by simp
  have "jumps_ready (done @ new) rest" using jumps_ready_step [OF 2(6), of new] by simp
  then have "\<exists>e''. reserve_loop bs (of_nat b') (pcs 0 (jumps 0 (done @ new))) e' = Some (SUCCESS, e'') \<and>
      holds (reserve (done @ new) rest) e'' \<and> e_branches e'' = pcs 0 (jumps 0 (reserve (done @ new) rest))"
    using 2(1) [of e' b', folded new_def, OF s(2,3) _ sz] s(4,5) by simp
  then show ?case using s(1) unfolding reserve.simps new_def [symmetric] by (simp add: bs_def del: reserve_loop.simps)
next
  case (3 "done" bs rest)
  then show ?case using 3(1) [of e b] jumps_ready_step [OF 3(6), of "[Plain bs]"] jumps_shift [of 0 "length bs" rest]
    by (simp del: reserve_loop.simps)
next
  case (4 "done" l rest)
  then show ?case using 4(1) [of e b] jumps_ready_step [OF 4(6), of "[Mark l]"] by (simp del: reserve_loop.simps)
qed

subsection \<open>Linking\<close>

fun link :: "(nat \<Rightarrow> u32) \<Rightarrow> nat \<Rightarrow> code_item list \<Rightarrow> bytes" where
  "link key p [] = []"
| "link key p (i # is) =
     (case i of Jump op regs l \<Rightarrow> jump_bytes op regs (scast (key l - of_nat p)) | _ \<Rightarrow> item_bytes i) @
     link key (p + length (item_bytes i)) is"

lemma GetVReg_of_nat: "of_nat (unat (r :: u8)) = (ucast r :: u64)"
  by simp

lemma update_branch_eq:
  assumes "jump_ok op regs" "length pre < 2 ^ 31"
  shows "update_branch (of_nat (length pre)) t (pre @ jump_bytes op regs a @ suf) =
    Some (SUCCESS, pre @ jump_bytes op regs (scast (t - of_nat (length pre))) @ suf)"
proof -
  let ?code = "pre @ jump_bytes op regs a @ suf" and ?d = "scast (t - of_nat (length pre)) :: u64"
  obtain f where f: "jump_format op = Some f" using assms(1) by (auto simp: jump_ok_def)
  have u: "unat (of_nat (length pre) :: u32) = length pre" using assms(2) by (simp add: unat_of_nat)
  have op: "byte_at ?code (of_nat (length pre)) = Some op"
    using jump_bytes_pos [of op regs a] by (simp add: byte_at_def u nth_append jump_bytes_def)
  have emit: "EmitAt f (length pre) op (map ucast regs @ [?d]) ?code = Some (pre @ jump_bytes op regs ?d @ suf)"
    using assms(1) by (intro EmitAt_eq EmitInst_jump [OF assms(1) f]) simp_all
  have kinds: "IsJcondImm8 op \<longrightarrow> f = F_IMM8" "IsJcondImm16 op \<longrightarrow> f = F_IMM16" "IsJcondV8Imm8 op \<longrightarrow> f = F_V8_IMM8"
    "IsJcondV8Imm16 op \<longrightarrow> f = F_V8_IMM16" "op = JMP_IMM8 \<longrightarrow> f = F_IMM8" "op = JMP_IMM16 \<longrightarrow> f = F_IMM16"
    "op = JMP_IMM32 \<longrightarrow> f = F_IMM32"
    "op = JMP_IMM8 \<or> op = JMP_IMM16 \<or> op = JMP_IMM32 \<or> IsJcondImm8 op \<or> IsJcondImm16 op \<or> IsJcondV8Imm8 op \<or> IsJcondV8Imm16 op"
    using f by (auto simp: jump_format_def dest: kinds_disjoint split: if_splits)
  show ?thesis
  proof (cases "f \<in> {F_V8_IMM8, F_V8_IMM16}")
    case True
    then obtain r where r: "regs = [r]" using assms(1) jump_regs [OF f] by (cases regs) (auto simp: jump_ok_def)
    have "GetVReg f 0 ?code (length pre) = Some (unat r)" using GetVReg_jump [OF _ f] assms(1) r by simp
    then show ?thesis using emit kinds True unfolding update_branch_def u op
      by (auto simp: r Let_def GetVReg_of_nat)
  next
    case False
    then have "regs = []" using assms(1) jump_regs [OF f] by (simp add: jump_ok_def)
    then show ?thesis using emit kinds False unfolding update_branch_def u op by (auto simp: Let_def)
  qed
qed

lemma update_loop_link:
  assumes "list_all item_ok is" "length pre + length (flat is) < 2 ^ 31"
  shows "update_loop key (pcs 0 (jumps (length pre) is)) (pre @ flat is) = Some (SUCCESS, pre @ link key (length pre) is)"
  using assms
proof (induction "is" arbitrary: pre)
  case (Cons i "is")
  show ?case
  proof (cases i)
    case (Jump op regs l)
    have ok: "jump_ok op regs" using Cons.prems(1) Jump by simp
    let ?b = "jump_bytes op regs (scast (key l - of_nat (length pre)))"
    have "update_branch (of_nat (length pre)) (key l) (pre @ jump_bytes op regs 0 @ flat is) = Some (SUCCESS, pre @ ?b @ flat is)"
      using Cons.prems(2) by (intro update_branch_eq ok) simp
    then show ?thesis using Cons.IH [of "pre @ ?b"] Cons.prems ok Jump by (simp add: add.assoc)
  next
    case (Plain bs)
    then show ?thesis using Cons.IH [of "pre @ bs"] Cons.prems by (simp add: add.assoc)
  next
    case (Mark l)
    then show ?thesis using Cons.IH [of pre] Cons.prems by simp
  qed
qed simp

text \<open>The jumps of a program with their positions and opcodes.\<close>

fun sites :: "nat \<Rightarrow> code_item list \<Rightarrow> (nat \<times> u8 \<times> nat) list" where
  "sites p [] = []"
| "sites p (i # is) = (case i of Jump op regs l \<Rightarrow> [(p, op, l)] | _ \<Rightarrow> []) @ sites (p + length (item_bytes i)) is"

definition assemble :: "code_item list \<Rightarrow> bytes" where
  "assemble is = link (\<lambda>l. of_nat (dist l is)) 0 is"

lemma link_cong: "(\<And>op regs l. Jump op regs l \<in> set is \<Longrightarrow> key l = key' l) \<Longrightarrow> link key p is = link key' p is"
proof (induction "is" arbitrary: p)
  case (Cons i "is")
  have IH: "link key q is = link key' q is" for q using Cons.IH Cons.prems by (meson list.set_intros(2))
  show ?case
  proof (cases i)
    case (Jump op regs l)
    then show ?thesis using Cons.prems [of op regs l] by (simp add: IH)
  qed (simp_all add: IH)
qed simp

lemma sites_append [simp]: "sites p (xs @ ys) = sites p xs @ sites (p + length (flat xs)) ys"
  by (induction xs arbitrary: p) (auto simp: add.assoc)

lemma sites_site:
  assumes "(q, op, l) \<in> set (sites p is)" "list_all item_ok is"
  obtains pre regs suf where "link key p is = pre @ jump_bytes op regs (scast (key l - of_nat q)) @ suf" "p + length pre = q"
    "jump_ok op regs"
  using assms
proof (induction "is" arbitrary: p thesis)
  case (Cons i "is")
  let ?b = "case i of Jump op regs l \<Rightarrow> jump_bytes op regs (scast (key l - of_nat p)) | _ \<Rightarrow> item_bytes i"
  have len: "length ?b = length (item_bytes i)" using Cons.prems(3) by (cases i) auto
  show ?case
  proof (cases "(q, op, l) \<in> set (sites (p + length (item_bytes i)) is)")
    case True
    obtain pre regs suf where *: "link key (p + length (item_bytes i)) is = pre @ jump_bytes op regs (scast (key l - of_nat q)) @ suf"
      "p + length (item_bytes i) + length pre = q" "jump_ok op regs"
      using Cons.IH [OF _ True] Cons.prems(3) by auto
    show ?thesis using Cons.prems(1) [of "?b @ pre" regs suf] * len by (simp add: add.assoc)
  next
    case False
    then obtain regs where i: "i = Jump op regs l" "q = p" using Cons.prems(2) by (auto split: code_item.splits)
    show ?thesis using Cons.prems(1) [of "[]" regs "link key (p + length (item_bytes i)) is"] Cons.prems(3) i by simp
  qed
qed simp

lemma GetImm_jump:
  assumes "jump_ok op regs" "jump_format op = Some f"
  shows "GetImm f 0 (pre @ jump_bytes op regs a @ suf) (length pre) = Some (signed_take_bit (imm_width op - 1) a)"
proof -
  let ?args = "map ucast regs @ [a] :: u64 list"
  have l: "length regs = (if f \<in> {F_V8_IMM8, F_V8_IMM16} then 1 else 0)"
    using assms(1) jump_regs [OF assms(2)] by (simp add: jump_ok_def)
  have args: "length ?args = length (format_ops f)" and op: "nth_op OpImm f 0 = Some (8 + 8 * length regs, imm_width op)"
    and lay: "format_layout f ! length regs = (OpImm, 8 + 8 * length regs, imm_width op)"
    using jump_formats [OF assms(2)] l assms(2)
    by (elim insertE emptyE; simp add: nth_op_def operands_of_def format_layout_def opcode_bits_def prefixed_def imm_width_format)+
  obtain code where c: "EmitInst f (ucast op) ?args = Some code" "length code = InstSize f"
    "\<And>i o' w k' k. i < length ?args \<Longrightarrow> format_layout f ! i = (k', o', w) \<Longrightarrow> k < w \<Longrightarrow>
       stream_bit (\<lambda>n. code ! n) (o' + k) = bit (?args ! i) k"
    using EmitInst_bits [OF args, of "ucast op"] by auto
  have code: "code = jump_bytes op regs a" using EmitInst_jump [OF assms, of a] c(1) by simp
  have i: "length regs < length ?args" by simp
  have "?args ! length regs = a" by (simp add: nth_append)
  then show ?thesis
    using ReadOp_emitted [OF args i lay c(2), of True pre suf] c(3) [OF i lay] op by (simp add: GetImm_def code)
qed

subsection \<open>Displacements fit\<close>

definition in_width :: "nat \<Rightarrow> int \<Rightarrow> bool" where
  "in_width w d \<longleftrightarrow> - (2 ^ (w - 1)) \<le> d \<and> d < 2 ^ (w - 1)"

text \<open>What a jump at \<open>q\<close> in the finished part may still need.\<close>

definition need :: "code_item list \<Rightarrow> code_item list \<Rightarrow> nat \<Rightarrow> nat \<Rightarrow> int" where
  "need done rest q l =
     (if Mark l \<in> set rest then int (length (flat done)) - int q + int (dist l rest + slack l rest)
      else int (dist l done) - int q)"

definition fits :: "code_item list \<Rightarrow> code_item list \<Rightarrow> bool" where
  "fits done rest \<longleftrightarrow>
     (\<forall>(q, op, l) \<in> set (sites 0 done). Mark l \<in> set (done @ rest) \<and> in_width (imm_width op) (need done rest q l))"

lemma GetBitLengthSigned_fits:
  assumes "imm_bits (GetBitLengthSigned (word_of_int d)) \<le> w" "in_width 32 d" "w \<in> {8, 16, 32}"
  shows "in_width w d"
proof -
  have "sint (word_of_int d :: u32) = d" using assms(2) by (intro sint_u32) (simp_all add: in_width_def)
  then show ?thesis using assms by (auto simp: GetBitLengthSigned_def in_width_def split: if_splits)
qed

lemma widened_width:
  assumes "short op" "widened sz op regs l = [Jump op' regs' l']"
  shows "imm_bits sz \<le> imm_width op'" "imm_width op' \<in> {8, 16, 32}" "l' = l"
  using assms(1)
  by (rule short_cases; use assms(2) in \<open>cases sz; auto simp: widened_def jmp_simps jcond_simps far_pair_def Let_def split: if_splits\<close>)+

lemma widened_growth:
  assumes "short op" "jump_ok op regs" "widened sz op regs l = [Jump op' regs' l']"
  shows "length (jump_bytes op' regs' 0) \<le> length (jump_bytes op regs 0) + max_increase op"
  using assms(1)
  by (rule short_cases; use assms(2,3) in \<open>cases sz; auto simp: widened_def jmp_simps jcond_simps jcond_sizes far_pair_def Let_def
     max_increase_def EstimateInsnSizeMaxIncrease_def split: if_splits\<close>)

lemma widened_single:
  assumes "length (widened sz op regs l) \<le> 1"
  obtains op' regs' where "widened sz op regs l = [Jump op' regs' l]"
  using assms by (auto simp: widened_def far_pair_def Let_def split: if_splits)

lemma widened_ne: "1 \<le> length (widened sz op regs l)"
  by (simp add: widened_def far_pair_def Let_def)

lemma reserve_length: "length done + length rest \<le> length (reserve done rest)"
proof (induction "done" rest rule: reserve.induct)
  case (2 "done" op regs l rest)
  show ?case using 2 widened_ne [of "GetBitLengthSigned (word_of_int (estimate done (Jump op regs l # rest) l))" op regs l]
    unfolding reserve.simps length_append by simp
qed simp_all

lemma slack_bound: "slack l rest \<le> 3 * length (jumps p rest)"
proof (induction rest arbitrary: p)
  case (Cons i rest)
  have "slack l rest \<le> 3 * length (jumps (p + length (item_bytes i)) rest)" by (rule Cons.IH)
  then show ?case using max_increase_le by (auto split: code_item.splits intro: add_mono)
qed simp

lemma sites_bound: "(q, op, l) \<in> set (sites p is) \<Longrightarrow> p \<le> q \<and> q \<le> p + length (flat is)"
  by (induction "is" arbitrary: p) (force split: code_item.splits)+

lemma in_width_mono: "in_width w d \<Longrightarrow> 0 \<le> d' \<Longrightarrow> d' \<le> d \<Longrightarrow> in_width w d'"
  unfolding in_width_def using zero_le_power [of "2 :: int" "w - 1"] by linarith

lemma estimate_in_range:
  assumes "length (flat (done @ rest)) + 6 * length (jumps 0 rest) < 2 ^ 31"
  shows "in_width 32 (estimate done rest l)"
  using assms dist_bound [of l rest] dist_bound [of l "done"] slack_bound [of l rest 0]
  by (auto simp: in_width_def estimate_def)

lemma fitsI:
  assumes "\<And>q op l. (q, op, l) \<in> set (sites 0 done) \<Longrightarrow> Mark l \<in> set (done @ rest) \<and> in_width (imm_width op) (need done rest q l)"
  shows "fits done rest"
  using assms by (auto simp: fits_def)

lemma fitsD: "fits done rest \<Longrightarrow> (q, op, l) \<in> set (sites 0 done) \<Longrightarrow> Mark l \<in> set (done @ rest) \<and> in_width (imm_width op) (need done rest q l)"
  by (auto simp: fits_def)

lemma fits_step_mark:
  assumes "fits done (Mark m # rest)" "Mark m \<notin> set rest" "Mark m \<notin> set done"
  shows "fits (done @ [Mark m]) rest"
proof (rule fitsI)
  fix q op l assume "(q, op, l) \<in> set (sites 0 (done @ [Mark m]))"
  then have f: "Mark l \<in> set (done @ Mark m # rest) \<and> in_width (imm_width op) (need done (Mark m # rest) q l)"
    using fitsD [OF assms(1)] by simp
  moreover have "need (done @ [Mark m]) rest q l = need done (Mark m # rest) q l"
    using f assms(2,3) by (auto simp: need_def dist_append)
  ultimately show "Mark l \<in> set ((done @ [Mark m]) @ rest) \<and> in_width (imm_width op) (need (done @ [Mark m]) rest q l)" by simp
qed

lemma fits_step_plain:
  assumes "fits done (Plain bs # rest)"
  shows "fits (done @ [Plain bs]) rest"
proof (rule fitsI)
  fix q op l assume "(q, op, l) \<in> set (sites 0 (done @ [Plain bs]))"
  then have f: "Mark l \<in> set (done @ Plain bs # rest) \<and> in_width (imm_width op) (need done (Plain bs # rest) q l)"
    using fitsD [OF assms(1)] by simp
  moreover have "need (done @ [Plain bs]) rest q l = need done (Plain bs # rest) q l"
    using f by (auto simp: need_def dist_append)
  ultimately show "Mark l \<in> set ((done @ [Plain bs]) @ rest) \<and> in_width (imm_width op) (need (done @ [Plain bs]) rest q l)" by simp
qed

lemma need_ahead:
  assumes "Mark k \<in> set rest"
  shows "need done rest q k = int (length (flat done)) - int q + (int (dist k rest) + int (slack k rest))"
  using assms by (simp add: need_def)

lemma need_behind: "Mark k \<notin> set rest \<Longrightarrow> need done rest q k = int (dist k done) - int q"
  by (simp add: need_def)

lemma need_jump:
  assumes "Mark k \<in> set rest" "length (jump_bytes op' regs' 0) \<le> length (jump_bytes op regs 0) + max_increase op" "q \<le> length (flat done)"
  shows "0 \<le> need (done @ [Jump op' regs' l]) rest q k"
    "need (done @ [Jump op' regs' l]) rest q k \<le> need done (Jump op regs l # rest) q k"
proof -
  have "need done (Jump op regs l # rest) q k = int (length (flat done)) - int q +
      (int (length (jump_bytes op regs 0)) + int (dist k rest) + (int (max_increase op) + int (slack k rest)))"
    using assms(1) by (simp add: need_ahead)
  then show "0 \<le> need (done @ [Jump op' regs' l]) rest q k"
    "need (done @ [Jump op' regs' l]) rest q k \<le> need done (Jump op regs l # rest) q k"
    using assms(2,3) by (simp_all add: need_ahead [OF assms(1)])
qed

lemma fits_step_jump:
  assumes f: "fits done (Jump op regs l # rest)" and ok: "short op" "jump_ok op regs" "Mark l \<in> set (done @ rest)"
    and new: "widened (GetBitLengthSigned (word_of_int (estimate done (Jump op regs l # rest) l))) op regs l = [Jump op' regs' l]"
    and sz: "length (flat (done @ Jump op regs l # rest)) + 6 * length (jumps 0 (Jump op regs l # rest)) < 2 ^ 31"
  shows "fits (done @ [Jump op' regs' l]) rest"
proof (rule fitsI)
  let ?J = "Jump op regs l" and ?J' = "Jump op' regs' l"
  note grow = widened_growth [OF ok(1,2) new]
  have est: "in_width (imm_width op') (estimate done (?J # rest) l)"
    by (rule GetBitLengthSigned_fits [OF widened_width(1) [OF ok(1) new] estimate_in_range [OF sz] widened_width(2) [OF ok(1) new]])
  have self: "need done (?J # rest) (length (flat done)) l = estimate done (?J # rest) l"
    by (simp add: need_def estimate_def)
  fix q o' k assume "(q, o', k) \<in> set (sites 0 (done @ [?J']))"
  then have c: "(q, o', k) \<in> set (sites 0 done) \<or> q = length (flat done) \<and> o' = op' \<and> k = l" by auto
  have s: "Mark k \<in> set (done @ rest)" "in_width (imm_width o') (need done (?J # rest) q k)" "q \<le> length (flat done)"
  proof (atomize(full), rule disjE [OF c])
    assume m: "(q, o', k) \<in> set (sites 0 done)"
    then show "Mark k \<in> set (done @ rest) \<and> in_width (imm_width o') (need done (?J # rest) q k) \<and> q \<le> length (flat done)"
      using fitsD [OF f m] sites_bound [OF m] by simp
  qed (use ok(3) est self in simp)
  have "in_width (imm_width o') (need (done @ [?J']) rest q k)"
  proof (cases "Mark k \<in> set rest")
    case True
    show ?thesis by (rule in_width_mono [OF s(2) need_jump [OF True grow s(3)]])
  next
    case False
    then show ?thesis using s by (simp add: need_behind dist_append)
  qed
  then show "Mark k \<in> set ((done @ [?J']) @ rest) \<and> in_width (imm_width o') (need (done @ [?J']) rest q k)" using s(1) by auto
qed

lemma once_marks:
  assumes "distinct (map snd (marks 0 (done @ Mark m # rest)))"
  shows "Mark m \<notin> set rest" "Mark m \<notin> set done"
  using assms marks_label [of m "length (flat done)" rest] marks_label [of m 0 "done"] by simp_all

lemma marks_labels_at: "map snd (marks p is) = map snd (marks 0 is)"
  using marks_shift [of 0 p "is"] by (auto simp: split_beta)

lemma widened_marks: "map snd (marks p (widened sz op regs l)) = []"
  by (simp add: widened_def far_pair_def Let_def)

lemma reserve_fits:
  assumes "fits done rest" "jumps_ready done rest" "list_all item_ok (done @ rest)"
    "distinct (map snd (marks 0 (done @ rest)))" "length (flat (done @ rest)) + 6 * length (jumps 0 rest) < 2 ^ 31"
    "length (reserve done rest) = length done + length rest"
  shows "fits (reserve done rest) []"
  using assms
proof (induction "done" rest rule: reserve.induct)
  case (2 "done" op regs l rest)
  define new where "new = widened (GetBitLengthSigned (word_of_int (estimate done (Jump op regs l # rest) l))) op regs l"
  have res: "reserve done (Jump op regs l # rest) = reserve (done @ new) rest" by (simp add: new_def)
  have ok: "short op" "jump_ok op regs" "Mark l \<in> set (done @ rest)" using 2(3,4) by (auto simp: jumps_ready_def)
  have "length new \<le> 1" using reserve_length [of "done @ new" rest] 2(7) unfolding res by simp
  then obtain op' regs' where new: "new = [Jump op' regs' l]" unfolding new_def by (rule widened_single)
  obtain extra where g: "grown 0 extra new op regs l" using widened_grown [OF ok(1,2)] unfolding new_def by blast
  have js: "length (jumps (length (jump_bytes op regs 0)) rest) = length (jumps 0 rest)"
    using jumps_shift [of 0 "length (jump_bytes op regs 0)" rest] by simp
  have "fits (done @ new) rest" using fits_step_jump [OF 2(2) ok new [unfolded new_def] 2(6)] unfolding new .
  moreover have "jumps_ready (done @ new) rest" using jumps_ready_step [OF 2(3), of new] by simp
  moreover have "list_all item_ok ((done @ new) @ rest)" using 2(4) g by (simp add: grown_def)
  moreover have "map snd (marks 0 ((done @ new) @ rest)) = map snd (marks 0 (done @ Jump op regs l # rest))"
    using marks_labels_at [of "length (flat done) + length (jump_bytes op regs 0)" rest]
      marks_labels_at [of "length (flat done) + length (jump_bytes op' regs' 0)" rest]
    unfolding new marks_append map_append by simp
  then have "distinct (map snd (marks 0 ((done @ new) @ rest)))" using 2(5) by (simp only:)
  moreover have "length (flat ((done @ new) @ rest)) + 6 * length (jumps 0 rest) < 2 ^ 31"
    using 2(6) g js by (simp add: grown_def)
  moreover have "length (reserve (done @ new) rest) = length (done @ new) + length rest" using 2(7) unfolding res by (simp add: new)
  ultimately show ?case unfolding res using 2(1) [folded new_def] by blast
next
  case (3 "done" bs rest)
  have "length (jumps (length bs) rest) = length (jumps 0 rest)" using jumps_shift [of 0 "length bs" rest] by simp
  then show ?case using 3 fits_step_plain [OF 3(2)] jumps_ready_step [OF 3(3), of "[Plain bs]"] by simp
next
  case (4 "done" m rest)
  then show ?case using fits_step_mark [OF 4(2) once_marks [OF 4(5)]] jumps_ready_step [OF 4(3), of "[Mark m]"] by simp
qed simp

subsection \<open>Emitting a program\<close>

datatype call = CBind nat | CEmit "(Format \<times> u16) list" "u64 list" | CJmp nat | CJcmp u8 u8 u8 nat | CJcmpz u8 nat

fun run_call :: "call \<Rightarrow> Emitter \<Rightarrow> Emitter option" where
  "run_call (CBind l) e = Bind l e"
| "run_call (CEmit grp args) e = EmitMnemonic grp args e"
| "run_call (CJmp l) e = Jmp l e"
| "run_call (CJcmp opcode_short opcode_long reg l) e = Jcmp opcode_short opcode_long reg l e"
| "run_call (CJcmpz opcode l) e = Jcmpz opcode l e"

fun run_calls :: "call list \<Rightarrow> Emitter \<Rightarrow> Emitter option" where
  "run_calls [] e = Some e"
| "run_calls (c # cs) e = run_call c e \<bind> run_calls cs"

text \<open>The calls of the generated emitters: a comparison with a register or with zero.\<close>

fun call_ok :: "call \<Rightarrow> bool" where
  "call_ok (CJcmp opcode_short opcode_long reg l) = IsJcondV8Imm8 opcode_short"
| "call_ok (CJcmpz opcode l) = IsJcondImm8 opcode"
| "call_ok c = True"

fun bound_label :: "call \<Rightarrow> nat list" where
  "bound_label (CBind l) = [l]"
| "bound_label c = []"

fun jump_of :: "call \<Rightarrow> (u8 \<times> u8 list \<times> nat) option" where
  "jump_of (CJmp l) = Some (JMP_IMM8, [], l)"
| "jump_of (CJcmp opcode_short opcode_long reg l) = Some (opcode_short, [reg], l)"
| "jump_of (CJcmpz opcode l) = Some (opcode, [], l)"
| "jump_of c = None"

text \<open>The items a call may end as: a bound label, the bytes of an instruction, or a jump in one of its forms.\<close>

fun encodes :: "call \<Rightarrow> code_item list \<Rightarrow> bool" where
  "encodes (CBind l) is \<longleftrightarrow> is = [Mark l]"
| "encodes (CEmit grp args) is \<longleftrightarrow> (\<exists>e. EmitMnemonic grp args new_emitter = Some e \<and> is = [Plain (e_bytecode e)])"
| "encodes c is \<longleftrightarrow> (\<exists>sz op regs l. jump_of c = Some (op, regs, l) \<and> is = widened sz op regs l)"

fun first_item :: "call \<Rightarrow> code_item \<Rightarrow> bool" where
  "first_item (CBind l) i \<longleftrightarrow> i = Mark l"
| "first_item (CEmit grp args) i \<longleftrightarrow> (\<exists>e. EmitMnemonic grp args new_emitter = Some e \<and> i = Plain (e_bytecode e))"
| "first_item c i \<longleftrightarrow> (\<exists>op regs l. jump_of c = Some (op, regs, l) \<and> i = Jump op regs l)"

lemma EmitBack_eq: "EmitBack f op args e = map_option (\<lambda>code. e\<lparr>e_bytecode := e_bytecode e @ code, e_pc := e_pc e + of_nat (length code)\<rparr>)
    (EmitInst f op args)"
  by (cases "EmitInst f op args") (simp_all add: EmitBack_def)

lemma EmitFirst_new:
  assumes "EmitFirst grp args e = Some e'"
  shows "\<exists>e0. EmitFirst grp args new_emitter = Some e0 \<and>
    e' = e\<lparr>e_bytecode := e_bytecode e @ e_bytecode e0, e_pc := e_pc e + of_nat (length (e_bytecode e0))\<rparr>"
  using assms
  by (induction grp args e rule: EmitFirst.induct) (auto simp: new_emitter_def EmitBack_eq split: if_splits)

lemma EmitMnemonic_new:
  assumes "EmitMnemonic grp args e = Some e'"
  shows "\<exists>e0. EmitMnemonic grp args new_emitter = Some e0 \<and>
    e' = e\<lparr>e_bytecode := e_bytecode e @ e_bytecode e0, e_pc := e_pc e + of_nat (length (e_bytecode e0))\<rparr>"
  using assms EmitFirst_new [of grp args e e']
  by (auto simp: EmitMnemonic_def EmitBack_eq new_emitter_def split: list.splits)

text \<open>What the emitter holds while the program is emitted.\<close>

definition emitted :: "code_item list \<Rightarrow> Emitter \<Rightarrow> bool" where
  "emitted is e \<longleftrightarrow> holds is e \<and> e_pc e = of_nat (length (flat is)) \<and> e_branches e = pcs 0 (jumps 0 is)"

lemma emitted_jump:
  assumes "emitted is e" "jump_ok op regs" "jump_format op = Some f" "length (flat is) < 2 ^ 31"
    "EmitBack f (ucast op) (map ucast regs @ [0]) (add_branch l e) = Some e'"
  shows "emitted (is @ [Jump op regs l]) e'"
proof -
  have e': "e' = e\<lparr>e_branches := map_insert (e_pc e) l (e_branches e), e_bytecode := e_bytecode e @ jump_bytes op regs 0,
      e_pc := e_pc e + of_nat (length (jump_bytes op regs 0))\<rparr>"
    using assms(5) EmitInst_jump [OF assms(2,3), of 0] by (auto simp: EmitBack_eq add_branch_def)
  have "k < of_nat (length (flat is))" if m: "(k, l') \<in> set (pcs 0 (jumps 0 is))" for k l'
  proof -
    obtain q where q: "k = of_nat q" "(q, l') \<in> set (jumps 0 is)" using m by (auto simp: pcs_def)
    then show ?thesis using jumps_bounds [OF q(2)] assms(4) by (simp add: of_nat_u32_less)
  qed
  then have "map_insert (e_pc e) l (e_branches e) = pcs 0 (jumps 0 (is @ [Jump op regs l]))"
    using assms(1) by (simp add: emitted_def map_insert_last)
  then show ?thesis using assms(1,2) by (simp add: e' emitted_def holds_def)
qed

lemma emitted_bind:
  assumes "emitted is e" "Mark l \<notin> set is" "length (flat is) < 2 ^ 31" "Bind l e = Some e'"
  shows "emitted (is @ [Mark l]) e'"
proof -
  let ?n = "of_nat (length (flat is)) :: u32" and ?key = "(e_pc_list e)(l := e_pc e)"
  have h: "e_targets e = map snd (marks 0 is)" "\<And>p k. (p, k) \<in> set (marks 0 is) \<Longrightarrow> e_pc_list e k = of_nat p" "e_pc e = ?n"
    using assms(1) by (auto simp: emitted_def holds_def)
  have nl: "l \<notin> snd ` set (marks 0 is)" using assms(2) marks_label [of l 0 "is"] by simp
  have "?key k \<le> ?key l" if "k \<in> set (e_targets e)" for k
  proof -
    obtain p where p: "(p, k) \<in> set (marks 0 is)" using \<open>k \<in> set (e_targets e)\<close> by (auto simp: h(1))
    then show ?thesis using h(2) [OF p] marks_bounds [OF p] nl assms(3) h(3) by (auto simp: of_nat_u32_le)
  qed
  then have "multiset_insert ?key l (e_targets e) = e_targets e @ [l]" by (rule multiset_insert_last)
  then have e': "e' = e\<lparr>e_pc_list := ?key, e_targets := e_targets e @ [l]\<rparr>" using assms(4) by (auto simp: Bind_def Let_def split: if_splits)
  have "\<forall>(p, k) \<in> set (marks 0 (is @ [Mark l])). ?key k = of_nat p" using h nl by force
  then show ?thesis using assms(1) nl h(1) unfolding e' by (auto simp: emitted_def holds_def)
qed

lemma run_call_emitted:
  assumes "emitted is e" "run_call c e = Some e'" "call_ok c" "\<And>l. l \<in> set (bound_label c) \<Longrightarrow> Mark l \<notin> set is"
    "length (flat is) < 2 ^ 31"
  shows "\<exists>i. emitted (is @ [i]) e' \<and> first_item c i"
proof (cases c)
  case (CBind l)
  then show ?thesis using emitted_bind [of "is" e l e'] assms by auto
next
  case (CEmit grp args)
  then obtain e0 where e0: "EmitMnemonic grp args new_emitter = Some e0"
    "e' = e\<lparr>e_bytecode := e_bytecode e @ e_bytecode e0, e_pc := e_pc e + of_nat (length (e_bytecode e0))\<rparr>"
    using EmitMnemonic_new [of grp args e e'] assms(2) by auto
  then have "emitted (is @ [Plain (e_bytecode e0)]) e'" using assms(1) by (simp add: emitted_def holds_def)
  then show ?thesis using e0 CEmit by auto
next
  case (CJmp l)
  then have "emitted (is @ [Jump JMP_IMM8 [] l]) e'"
    using emitted_jump [OF assms(1) _ _ assms(5), of JMP_IMM8 "[]" F_IMM8 l e'] assms(2) by (simp add: jmp_simps Jmp_def)
  then show ?thesis using CJmp by auto
next
  case (CJcmp s lg r l)
  then have s: "short_jcond s" "IsJcondV8Imm8 s" using assms(3) by (simp_all add: short_jcond_def)
  have sz: "GetBitImmSizeByOpcode s = Some BITSIZE_8" using s by (intro short_width) (simp add: short_def)
  have "MinimumBitsToStore (ucast r :: u32) \<le> 8"
    using unat_lt_2p [of r] by (simp add: MinimumBitsToStore_le_iff unat_ucast_small)
  then have "GetBitLengthUnsigned (ucast r) \<le> BITSIZE_8" by (simp add: GetBitLengthUnsigned_def Let_def less_eq_BitImmSize_def)
  then have "emitted (is @ [Jump s [r] l]) e'"
    using emitted_jump [OF assms(1) _ _ assms(5), of s "[r]" F_V8_IMM8 l e'] assms(2) s jcond_simps [OF s(1)] CJcmp sz
    by (simp add: Jcmp_def)
  then show ?thesis using CJcmp by auto
next
  case (CJcmpz op l)
  then have s: "short_jcond op" "\<not> IsJcondV8Imm8 op" using assms(3) kinds_disjoint(1) by (auto simp: short_jcond_def)
  then have "emitted (is @ [Jump op [] l]) e'"
    using emitted_jump [OF assms(1) _ _ assms(5), of op "[]" F_IMM8 l e'] assms(2) jcond_simps [OF s(1)] CJcmpz
    by (simp add: Jcmpz_def)
  then show ?thesis using CJcmpz by auto
qed

lemma emitted_length: "emitted is e \<Longrightarrow> length (e_bytecode e) = length (flat is)"
  by (simp add: emitted_def holds_def)

lemma run_call_grows: "run_call c e = Some e' \<Longrightarrow> length (e_bytecode e) \<le> length (e_bytecode e')"
proof (cases c)
  case (CEmit grp args)
  assume "run_call c e = Some e'"
  then show ?thesis using EmitMnemonic_new [of grp args e e'] CEmit by auto
qed (auto simp: Bind_def Jmp_def Jcmp_def Jcmpz_def EmitBack_eq add_branch_def Let_def split: if_splits bind_splits)

lemma run_calls_grows: "run_calls cs e = Some e' \<Longrightarrow> length (e_bytecode e) \<le> length (e_bytecode e')"
  by (induction cs arbitrary: e) (auto split: bind_splits dest!: run_call_grows intro: order_trans)

lemma first_item_mark: "first_item c i \<Longrightarrow> Mark l = i \<longleftrightarrow> l \<in> set (bound_label c)"
  by (cases c) auto

lemma run_calls_emitted:
  assumes "emitted is e" "run_calls cs e = Some e'" "list_all call_ok cs" "distinct (concat (map bound_label cs))"
    "\<And>l. l \<in> set (concat (map bound_label cs)) \<Longrightarrow> Mark l \<notin> set is" "length (e_bytecode e') < 2 ^ 31"
  shows "\<exists>js. emitted (is @ js) e' \<and> list_all2 first_item cs js"
  using assms
proof (induction cs arbitrary: "is" e)
  case (Cons c cs)
  obtain e1 where e1: "run_call c e = Some e1" "run_calls cs e1 = Some e'" using Cons.prems(2) by (auto split: bind_splits)
  have "length (flat is) < 2 ^ 31"
    using run_call_grows [OF e1(1)] run_calls_grows [OF e1(2)] Cons.prems(6) emitted_length [OF Cons.prems(1)] by simp
  then obtain i where i: "emitted (is @ [i]) e1" "first_item c i"
    using run_call_emitted [OF Cons.prems(1) e1(1)] Cons.prems(3,5) by auto
  have "Mark l \<notin> set (is @ [i])" if "l \<in> set (concat (map bound_label cs))" for l
    using that Cons.prems(4,5) first_item_mark [OF i(2), of l] by auto
  then obtain js where "emitted ((is @ [i]) @ js) e'" "list_all2 first_item cs js"
    using Cons.IH [OF i(1) e1(2)] Cons.prems(3,4,6) by auto
  then show ?case using i(2) by (intro exI [of _ "i # js"]) simp
qed simp

lemma reserve_encodes:
  assumes "list_all2 first_item cs js"
  shows "\<exists>pieces. reserve done js = done @ concat pieces \<and> list_all2 encodes cs pieces"
  using assms
proof (induction cs js arbitrary: "done" rule: list_all2_induct)
  case (Cons c cs i js)
  obtain piece where p: "reserve done (i # js) = reserve (done @ piece) js" "encodes c piece"
    using Cons.hyps(1) by (cases c) auto
  obtain pieces where "reserve (done @ piece) js = (done @ piece) @ concat pieces" "list_all2 encodes cs pieces"
    using Cons.IH by blast
  then show ?case using p by (intro exI [of _ "piece # pieces"]) simp
qed simp

lemma reserve_keeps: "i \<in> set (done @ rest) \<Longrightarrow> i = Mark l \<Longrightarrow> i \<in> set (reserve done rest)"
  by (induction "done" rest rule: reserve.induct) auto

lemma widened_labels: "Jump op' regs' l' \<in> set (widened sz op regs l) \<Longrightarrow> l' = l"
  by (auto simp: widened_def far_pair_def Let_def split: if_splits)

lemma reserve_jump_labels:
  "Jump op regs l \<in> set (reserve done rest) \<Longrightarrow> \<exists>op' regs'. Jump op' regs' l \<in> set (done @ rest)"
proof (induction "done" rest rule: reserve.induct)
  case (2 "done" op1 regs1 l1 rest)
  then obtain op' regs' where "Jump op' regs' l \<in> set (done @ rest) \<or>
      Jump op' regs' l \<in> set (widened (GetBitLengthSigned (word_of_int (estimate done (Jump op1 regs1 l1 # rest) l1))) op1 regs1 l1)"
    by auto
  then show ?case by (auto dest!: widened_labels)
qed auto

lemma jumps_in: "(p, l) \<in> set (jumps q is) \<Longrightarrow> \<exists>op regs. Jump op regs l \<in> set is"
proof (induction "is" arbitrary: q)
  case (Cons i "is")
  show ?case
  proof (cases "(p, l) \<in> set (jumps (q + length (item_bytes i)) is)")
    case True
    then show ?thesis using Cons.IH by (meson list.set_intros(2))
  next
    case False
    then show ?thesis using Cons.prems by (auto split: code_item.splits)
  qed
qed simp

lemma CheckLabels_holds:
  assumes "emitted is e" "\<And>op regs l. Jump op regs l \<in> set is \<Longrightarrow> Mark l \<in> set is"
  shows "CheckLabels e = SUCCESS"
proof -
  have t: "e_targets e = map snd (marks 0 is)" "e_branches e = pcs 0 (jumps 0 is)" using assms(1) by (simp_all add: emitted_def holds_def)
  have "\<exists>t \<in> set (e_targets e). e_pc_list e t = e_pc_list e l" if m: "(k, l) \<in> set (e_branches e)" for k l
  proof -
    obtain p where "(p, l) \<in> set (jumps 0 is)" using m by (auto simp: t pcs_def)
    then have "Mark l \<in> set is" using jumps_in assms(2) by blast
    then have "l \<in> set (e_targets e)" using marks_label [of l 0 "is"] by (simp add: t)
    then show ?thesis by blast
  qed
  then show ?thesis by (auto simp: CheckLabels_def list_all_iff list_ex_iff)
qed

lemma reserve_size:
  assumes "jumps_ready done rest" "list_all item_ok rest"
  shows "length (flat (reserve done rest)) \<le> length (flat (done @ rest)) + 6 * length (jumps 0 rest)"
  using assms
proof (induction "done" rest rule: reserve.induct)
  case (2 "done" op regs l rest)
  define new where "new = widened (GetBitLengthSigned (word_of_int (estimate done (Jump op regs l # rest) l))) op regs l"
  have ok: "short op" "jump_ok op regs" using 2(2,3) by (auto simp: jumps_ready_def)
  obtain extra where g: "grown 0 extra new op regs l" using widened_grown [OF ok] unfolding new_def by blast
  have js: "length (jumps (length (jump_bytes op regs 0)) rest) = length (jumps 0 rest)"
    using jumps_shift [of 0 "length (jump_bytes op regs 0)" rest] by simp
  have "length (flat (reserve (done @ new) rest)) \<le> length (flat ((done @ new) @ rest)) + 6 * length (jumps 0 rest)"
    using 2(1) [folded new_def] jumps_ready_step [OF 2(2), of new] 2(3) by simp
  then show ?case using g js by (simp add: new_def [symmetric] grown_def)
next
  case (3 "done" bs rest)
  then show ?case using jumps_ready_step [OF 3(2), of "[Plain bs]"] jumps_shift [of 0 "length bs" rest] by simp
next
  case (4 "done" m rest)
  then show ?case using jumps_ready_step [OF 4(2), of "[Mark m]"] by simp
qed simp

lemma Build_reserve:
  assumes em: "emitted is e" and labels: "\<And>op regs l. Jump op regs l \<in> set is \<Longrightarrow> short op \<and> Mark l \<in> set is"
    and sz: "length (flat is) + 6 * length (jumps 0 is) < 2 ^ 31"
  shows "\<exists>e'. Build e = Some (SUCCESS, Some (assemble (reserve [] is)), e') \<and> list_all item_ok (reserve [] is) \<and>
    length (flat (reserve [] is)) < 2 ^ 31 \<and> (\<forall>l. Mark l \<in> set is \<longrightarrow> e_pc_list e' l = of_nat (dist l (reserve [] is)))"
proof -
  let ?fin = "reserve [] is"
  have h: "holds ([] @ is) e" "e_branches e = pcs 0 (jumps (length (flat [])) is)" using em by (simp_all add: emitted_def)
  have rdy: "jumps_ready [] is" using labels by (auto simp: jumps_ready_def)
  obtain e1 where e1: "reserve_loop (pcs 0 (jumps 0 is)) 0 [] e = Some (SUCCESS, e1)" "holds ?fin e1" "e_branches e1 = pcs 0 (jumps 0 ?fin)"
    using reserve_loop_holds [OF h(1) _ h(2) _ rdy] sz by auto
  have ok: "list_all item_ok ?fin" "e_bytecode e1 = flat ?fin" using e1(2) by (simp_all add: holds_def)
  have len: "length (flat ?fin) < 2 ^ 31" using reserve_size [OF rdy] h(1) sz by (simp add: holds_def)
  have m: "Mark l \<in> set ?fin" if "Jump op regs l \<in> set ?fin" for op regs l
    using reserve_jump_labels [OF that] labels reserve_keeps [of "Mark l" "[]" "is" l] by auto
  have "e_pc_list e1 l = of_nat (dist l ?fin)" if "Jump op regs l \<in> set ?fin" for op regs l
    by (rule holds_pc [OF e1(2) m [OF that]])
  then have "link (e_pc_list e1) 0 ?fin = assemble ?fin" unfolding assemble_def by (rule link_cong)
  then have "update_loop (e_pc_list e1) (e_branches e1) (e_bytecode e1) = Some (SUCCESS, assemble ?fin)"
    using update_loop_link [OF ok(1), of "[]" "e_pc_list e1"] len e1(3) ok(2) by simp
  then have "UpdateBranches e1 = Some (SUCCESS, e1\<lparr>e_bytecode := assemble ?fin\<rparr>)" by (simp add: UpdateBranches_def)
  moreover have "CheckLabels e = SUCCESS" using CheckLabels_holds [OF em] labels by blast
  ultimately have "Build e = Some (SUCCESS, Some (assemble ?fin), e1\<lparr>e_bytecode := assemble ?fin\<rparr>)"
    using e1(1) h(2) by (simp add: Build_def ReserveSpaceForOffsets_def)
  moreover have "e_pc_list e1 l = of_nat (dist l ?fin)" if "Mark l \<in> set is" for l
    using that reserve_keeps [of "Mark l" "[]" "is" l] by (intro holds_pc [OF e1(2)]) simp
  ultimately show ?thesis using ok(1) len by fastforce
qed

text \<open>The decoded program: at every jump the opcode, and the distance from the jump to its label.\<close>

definition resolved :: "bytes \<Rightarrow> code_item list \<Rightarrow> bool" where
  "resolved out is \<longleftrightarrow> (\<forall>(q, op, l) \<in> set (sites 0 is). out ! q = op \<and>
     (case jump_format op of None \<Rightarrow> False
      | Some f \<Rightarrow> GetImm f 0 out q = Some (word_of_int (int (dist l is) - int q))))"

lemma imm_sign_extended:
  assumes "in_width w d" "w \<in> {8, 16, 32}"
  shows "signed_take_bit (w - 1) (scast (word_of_int d :: u32) :: u64) = word_of_int d"
proof -
  have r: "- (2 ^ 31) \<le> d" "d < 2 ^ 31" using assms by (auto simp: in_width_def)
  then have "scast (word_of_int d :: u32) = (word_of_int d :: u64)"
    using sint_u32 [of d] by (metis scast_eq)
  moreover have "signed_take_bit (w - 1) (word_of_int d :: u64) = word_of_int (signed_take_bit (w - 1) d)"
    using assms(2) by (intro bit_word_eqI) (auto simp: bit_simps min_def)
  moreover have "signed_take_bit (w - 1) d = d" using assms(1) by (simp add: in_width_def signed_take_bit_int_eq_self)
  ultimately show ?thesis by simp
qed

lemma resolved_assemble:
  assumes "fits is []" "list_all item_ok is" "length (flat is) < 2 ^ 31"
  shows "resolved (assemble is) is"
proof -
  have "assemble is ! q = op \<and> (\<exists>f. jump_format op = Some f \<and> GetImm f 0 (assemble is) q = Some (word_of_int (int (dist l is) - int q)))"
    if s: "(q, op, l) \<in> set (sites 0 is)" for q op l
  proof -
    let ?d = "int (dist l is) - int q"
    obtain pre regs suf where a: "assemble is = pre @ jump_bytes op regs (scast (of_nat (dist l is) - of_nat q :: u32)) @ suf"
      "length pre = q" "jump_ok op regs"
      using sites_site [OF s assms(2), of "\<lambda>l. of_nat (dist l is)"] by (auto simp: assemble_def)
    obtain f where f: "jump_format op = Some f" using a(3) by (auto simp: jump_ok_def)
    have w: "in_width (imm_width op) ?d" using fitsD [OF assms(1) s] by (simp add: need_def)
    have "(of_nat (dist l is) - of_nat q :: u32) = word_of_int ?d" by simp
    then have "signed_take_bit (imm_width op - 1) (scast (of_nat (dist l is) - of_nat q :: u32) :: u64) = word_of_int ?d"
      using imm_sign_extended [OF w] by (auto simp: imm_width_def)
    then have "GetImm f 0 (assemble is) q = Some (word_of_int ?d)" using GetImm_jump [OF a(3) f, of pre] a(1,2) by metis
    moreover have "assemble is ! q = op" unfolding a(1) using a(2) by (simp add: nth_append jump_bytes_def)
    ultimately show ?thesis using f by blast
  qed
  then show ?thesis unfolding resolved_def by fastforce
qed

lemma first_items:
  assumes "list_all2 first_item cs js"
  shows "Mark l \<in> set js \<longleftrightarrow> l \<in> set (concat (map bound_label cs))"
    "Jump op regs l \<in> set js \<longleftrightarrow> (\<exists>c \<in> set cs. jump_of c = Some (op, regs, l))"
proof -
  have j: "Jump op regs l = i \<longleftrightarrow> jump_of c = Some (op, regs, l)" if "first_item c i" for c i
    using that by (cases c) auto
  show "Mark l \<in> set js \<longleftrightarrow> l \<in> set (concat (map bound_label cs))"
    using assms by (induction rule: list_all2_induct) (simp_all add: first_item_mark)
  show "Jump op regs l \<in> set js \<longleftrightarrow> (\<exists>c \<in> set cs. jump_of c = Some (op, regs, l))"
    using assms by (induction rule: list_all2_induct) (simp_all add: j)
qed

lemma jump_of_short: "jump_of c = Some (op, regs, l) \<Longrightarrow> call_ok c \<Longrightarrow> short op"
  by (cases c) (auto simp: short_def)

lemma emitted_new: "emitted [] new_emitter"
  by (simp add: emitted_def holds_def new_emitter_def)

text \<open>
  C6: Let a program be emitted by any sequence of calls of the emitter: instructions, jumps and bound labels, each label
  bound once and every label of a jump bound. Then \<open>Build\<close> succeeds. Its output is the program linked from one piece for
  each call in their order: the bytes of an instruction, nothing for a bound label, and for a jump one of its encodings;
  and if no conditional jump had to be turned into an inverted jump over a far jump, every jump of the output decodes to
  the distance from its place to the place of its label.
\<close>

theorem build_resolves_branches:
  assumes "run_calls calls new_emitter = Some e" "list_all call_ok calls" "distinct (concat (map bound_label calls))"
    "\<And>c op regs l. c \<in> set calls \<Longrightarrow> jump_of c = Some (op, regs, l) \<Longrightarrow> l \<in> set (concat (map bound_label calls))"
    "length (e_bytecode e) + 6 * length (e_branches e) < 2 ^ 31"
  shows "\<exists>pieces e'. Build e = Some (SUCCESS, Some (assemble (concat pieces)), e') \<and> list_all2 encodes calls pieces \<and>
    (length (concat pieces) = length calls \<longrightarrow> resolved (assemble (concat pieces)) (concat pieces))"
proof -
  obtain js where js: "emitted js e" "list_all2 first_item calls js"
    using run_calls_emitted [OF emitted_new assms(1-3)] assms(5) by auto
  note items = first_items [OF js(2)]
  have labels: "short op \<and> Mark l \<in> set js" if j: "Jump op regs l \<in> set js" for op regs l
    using j assms(2,4) jump_of_short unfolding items(1) items(2) list_all_iff by blast
  have sz: "length (flat js) + 6 * length (jumps 0 js) < 2 ^ 31"
    using assms(5) js(1) by (simp add: emitted_def holds_def pcs_def)
  obtain e' where b: "Build e = Some (SUCCESS, Some (assemble (reserve [] js)), e')" "list_all item_ok (reserve [] js)"
    "length (flat (reserve [] js)) < 2 ^ 31"
    using Build_reserve [OF js(1) _ sz] labels by blast
  obtain pieces where p: "reserve [] js = concat pieces" "list_all2 encodes calls pieces"
    using reserve_encodes [OF js(2), of "[]"] by auto
  have "resolved (assemble (reserve [] js)) (reserve [] js)" if "length (concat pieces) = length calls"
  proof (rule resolved_assemble [OF _ b(2,3)])
    have "jumps_ready [] js" using labels by (auto simp: jumps_ready_def)
    then show "fits (reserve [] js) []"
      using that p(1) list_all2_lengthD [OF js(2)] js(1) sz
      by (intro reserve_fits) (simp_all add: fits_def emitted_def holds_def)
  qed
  then show ?thesis using b(1) p by auto
qed

definition loop_program :: "call list" where
  "loop_program = [CBind 0, CEmit [(F_NONE, 0)] [], CJcmpz JEQZ_IMM8 1, CJmp 0, CBind 1]"

theorem build_resolves_branches_witness:
  "\<exists>e pieces e'. run_calls loop_program new_emitter = Some e \<and>
    Build e = Some (SUCCESS, Some (assemble (concat pieces)), e') \<and> list_all2 encodes loop_program pieces \<and>
    (length (concat pieces) = length loop_program \<longrightarrow> resolved (assemble (concat pieces)) (concat pieces))"
proof -
  have "case run_calls loop_program new_emitter of None \<Rightarrow> False
      | Some e \<Rightarrow> length (e_bytecode e) = 5 \<and> length (e_branches e) = 2" by code_simp
  then obtain e where e: "run_calls loop_program new_emitter = Some e" "length (e_bytecode e) + 6 * length (e_branches e) < 2 ^ 31"
    by (auto split: option.splits)
  have ok: "list_all call_ok loop_program" "distinct (concat (map bound_label loop_program))"
    by (simp_all add: loop_program_def IsJcondImm8_def)
  have "l \<in> set (concat (map bound_label loop_program))" if "c \<in> set loop_program" "jump_of c = Some (op, regs, l)" for c op regs l
    using that by (auto simp: loop_program_def)
  then show ?thesis using build_resolves_branches [OF e(1) ok _ e(2)] e(1) by (intro exI [of _ e]) simp
qed

lemma run_call_unbound: "run_call c e = Some e' \<Longrightarrow> l \<notin> set (bound_label c) \<Longrightarrow> e_pc_list e' l = e_pc_list e l"
proof (cases c)
  case (CEmit grp args)
  assume "run_call c e = Some e'"
  then show ?thesis using EmitMnemonic_new [of grp args e e'] CEmit by auto
qed (auto simp: Bind_def Jmp_def Jcmp_def Jcmpz_def EmitBack_eq add_branch_def Let_def split: if_splits bind_splits)

lemma run_calls_unbound:
  "run_calls cs e = Some e' \<Longrightarrow> l \<notin> set (concat (map bound_label cs)) \<Longrightarrow> e_pc_list e' l = e_pc_list e l"
  by (induction cs arbitrary: e) (auto split: bind_splits dest: run_call_unbound)

lemma CheckLabels_iff:
  "CheckLabels e = SUCCESS \<longleftrightarrow> (\<forall>l \<in> snd ` set (e_branches e). \<exists>t \<in> set (e_targets e). e_pc_list e t = e_pc_list e l)"
  by (force simp: CheckLabels_def list_all_iff list_ex_iff)

lemma jumps_labels: "l \<in> snd ` set (jumps p is) \<longleftrightarrow> (\<exists>op regs. Jump op regs l \<in> set is)"
proof (induction "is" arbitrary: p)
  case (Cons i "is")
  show ?case by (cases i) (simp_all add: Cons.IH ex_disj_distrib)
qed simp

lemma emitted_labels:
  assumes "emitted js e" "list_all2 first_item calls js"
  shows "set (e_targets e) = set (concat (map bound_label calls))"
    "snd ` set (e_branches e) = {l. \<exists>c \<in> set calls. \<exists>op regs. jump_of c = Some (op, regs, l)}"
proof -
  have t: "e_targets e = map snd (marks 0 js)" "e_branches e = pcs 0 (jumps 0 js)" using assms(1) by (simp_all add: emitted_def holds_def)
  show "set (e_targets e) = set (concat (map bound_label calls))"
    using marks_label [of _ 0 js] first_items(1) [OF assms(2)] by (auto simp: t)
  have "snd ` set (pcs 0 (jumps 0 js)) = snd ` set (jumps 0 js)" by (force simp: pcs_def)
  then show "snd ` set (e_branches e) = {l. \<exists>c \<in> set calls. \<exists>op regs. jump_of c = Some (op, regs, l)}"
    using first_items(2) [OF assms(2)] jumps_labels [of _ 0 js] unfolding t(2) set_eq_iff mem_Collect_eq by metis
qed

text \<open>
  C39: Which programs \<open>CheckLabels\<close> accepts, for any sequence of calls with each label bound at most once: those in which
  the label of every jump is bound, and, because the search of \<open>CheckLabels\<close> compares positions and the position of an
  unbound label is 0, every program in which some label is bound at the start of the code. Any other program is rejected:
  \<open>Build\<close> returns \<open>UNBOUND_LABELS\<close> with no output and leaves the emitter as it was.
\<close>

theorem unbound_label_accepted:
  assumes "run_calls calls new_emitter = Some e" "list_all call_ok calls" "distinct (concat (map bound_label calls))"
    "length (e_bytecode e) < 2 ^ 31"
  defines "bound \<equiv> set (concat (map bound_label calls))"
    and "used \<equiv> {l. \<exists>c \<in> set calls. \<exists>op regs. jump_of c = Some (op, regs, l)}"
  shows "CheckLabels e = (if used \<subseteq> bound \<or> (\<exists>t \<in> bound. e_pc_list e t = 0) then SUCCESS else UNBOUND_LABELS) \<and>
    (\<not> used \<subseteq> bound \<and> (\<forall>t \<in> bound. e_pc_list e t \<noteq> 0) \<longrightarrow> Build e = Some (UNBOUND_LABELS, None, e))"
proof -
  obtain js where js: "emitted js e" "list_all2 first_item calls js"
    using run_calls_emitted [OF emitted_new assms(1-3)] assms(4) by auto
  have l: "set (e_targets e) = bound" "snd ` set (e_branches e) = used"
    using emitted_labels [OF js] by (simp_all add: bound_def used_def)
  have z: "e_pc_list e l = 0" if "l \<notin> bound" for l
    using run_calls_unbound [OF assms(1)] that by (simp add: bound_def new_emitter_def)
  have iff: "CheckLabels e = SUCCESS \<longleftrightarrow> used \<subseteq> bound \<or> (\<exists>t \<in> bound. e_pc_list e t = 0)"
    unfolding CheckLabels_iff l using z by (metis subset_iff)
  moreover have "CheckLabels e = SUCCESS \<or> CheckLabels e = UNBOUND_LABELS" by (simp add: CheckLabels_def)
  ultimately show ?thesis by (auto simp: Build_def)
qed

theorem unbound_label_accepted_witness:
  "\<exists>e e'. run_calls [CBind 0, CJmp 1] new_emitter = Some e \<and> CheckLabels e = SUCCESS \<and>
    run_calls [CJmp 1, CBind 0] new_emitter = Some e' \<and> Build e' = Some (UNBOUND_LABELS, None, e')"
proof -
  have "case run_calls [CBind 0, CJmp 1] new_emitter of None \<Rightarrow> False
      | Some e \<Rightarrow> length (e_bytecode e) = 2 \<and> e_pc_list e 0 = 0" by code_simp
  then obtain e where e: "run_calls [CBind 0, CJmp 1] new_emitter = Some e" "length (e_bytecode e) < 2 ^ 31" "e_pc_list e 0 = 0"
    by (auto split: option.splits)
  have "case run_calls [CJmp 1, CBind 0] new_emitter of None \<Rightarrow> False
      | Some e \<Rightarrow> length (e_bytecode e) = 2 \<and> e_pc_list e 0 = 2" by code_simp
  then obtain e' where e': "run_calls [CJmp 1, CBind 0] new_emitter = Some e'" "length (e_bytecode e') < 2 ^ 31" "e_pc_list e' 0 = 2"
    by (auto split: option.splits)
  have "CheckLabels e = SUCCESS" using unbound_label_accepted [OF e(1) _ _ e(2)] e(3) by simp
  moreover have "Build e' = Some (UNBOUND_LABELS, None, e')" using unbound_label_accepted [OF e'(1) _ _ e'(2)] e'(3) by simp
  ultimately show ?thesis using e(1) e'(1) by blast
qed

subsection \<open>Far jumps\<close>

lemma reserve_skip: "(\<And>op regs l. Jump op regs l \<notin> set xs) \<Longrightarrow> reserve done (xs @ rest) = reserve (done @ xs) rest"
proof (induction xs arbitrary: "done")
  case (Cons i xs)
  have "reserve done (i # (xs @ rest)) = reserve (done @ [i]) (xs @ rest)" using Cons.prems by (cases i) auto
  then show ?case using Cons.IH [of "done @ [i]"] Cons.prems by auto
qed simp

lemma flat_replicate: "flat (replicate n (Plain [b])) = replicate n b"
  by (induction n) auto

lemma run_calls_append: "run_calls (cs @ ds) e = run_calls cs e \<bind> run_calls ds"
  by (induction cs arbitrary: e) (auto split: bind_splits)

abbreviation nop :: call where "nop \<equiv> CEmit [(F_NONE, 0)] []"

definition far_program :: "call list" where
  "far_program = CBind 0 # replicate 32767 nop @ [CJmp 1, CJcmpz JEQZ_IMM8 0] @ replicate 119 nop @ [CBind 1]"

lemma first_item_nop: "first_item nop i \<longleftrightarrow> i = Plain [0]"
proof -
  have "EmitInst F_NONE 0 [] = Some [0]" by code_simp
  then show ?thesis by (simp add: EmitMnemonic_def EmitBack_eq new_emitter_def)
qed

lemma first_item_nops: "list_all2 first_item (replicate n nop @ cs) js \<longleftrightarrow> (\<exists>ks. js = replicate n (Plain [0]) @ ks \<and> list_all2 first_item cs ks)"
  by (induction n arbitrary: js) (auto simp: list_all2_Cons1 first_item_nop simp del: first_item.simps)

definition far_items :: "code_item list" where
  "far_items = Mark 0 # replicate 32767 (Plain [0]) @ [Jump JMP_IMM8 [] 1, Jump JEQZ_IMM8 [] 0] @ replicate 119 (Plain [0]) @ [Mark 1]"

lemma far_first_items: "list_all2 first_item far_program js \<longleftrightarrow> js = far_items"
  unfolding far_program_def far_items_def
  by (auto simp: list_all2_Cons1 first_item_nops)

lemma run_call_some:
  assumes "call_ok c" "\<And>grp args. c = CEmit grp args \<Longrightarrow> EmitMnemonic grp args new_emitter \<noteq> None"
    "\<And>l. l \<in> set (bound_label c) \<Longrightarrow> l \<notin> set (e_targets e)"
  shows "\<exists>e'. run_call c e = Some e' \<and> set (e_targets e') \<subseteq> set (e_targets e) \<union> set (bound_label c)"
proof (cases c)
  case (CBind l)
  have "set (multiset_insert key l ls) \<subseteq> insert l (set ls)" for key ls
    by (auto simp: multiset_insert_def dest: set_takeWhileD set_dropWhileD)
  then show ?thesis using assms(3) CBind by (auto simp: Bind_def Let_def)
next
  case (CEmit grp args)
  have "EmitFirst grp args e \<noteq> None" if "EmitFirst grp args new_emitter \<noteq> None"
    using that by (induction grp args e rule: EmitFirst.induct) (auto simp: EmitBack_eq split: if_splits)
  then have "EmitMnemonic grp args e \<noteq> None"
    using assms(2) [OF CEmit] by (auto simp: EmitMnemonic_def EmitBack_eq split: list.splits)
  then show ?thesis using EmitMnemonic_new [of grp args e] CEmit by auto
next
  case (CJmp l)
  then show ?thesis by (simp add: Jmp_def EmitBack_eq EmitInst_jump_formats add_branch_def)
next
  case (CJcmp s lg r l)
  then have "GetBitImmSizeByOpcode s = Some BITSIZE_8" using assms(1) by (intro short_width) (simp add: short_def)
  then show ?thesis using CJcmp by (simp add: Jcmp_def EmitBack_eq EmitInst_jump_formats add_branch_def)
next
  case (CJcmpz op l)
  then show ?thesis by (simp add: Jcmpz_def EmitBack_eq EmitInst_jump_formats add_branch_def)
qed

lemma run_calls_some:
  assumes "list_all call_ok cs" "\<And>grp args. CEmit grp args \<in> set cs \<Longrightarrow> EmitMnemonic grp args new_emitter \<noteq> None"
    "distinct (concat (map bound_label cs))" "\<And>l. l \<in> set (concat (map bound_label cs)) \<Longrightarrow> l \<notin> set (e_targets e)"
  shows "\<exists>e'. run_calls cs e = Some e'"
  using assms
proof (induction cs arbitrary: e)
  case (Cons c cs)
  obtain e1 where e1: "run_call c e = Some e1" "set (e_targets e1) \<subseteq> set (e_targets e) \<union> set (bound_label c)"
    using run_call_some [of c e] Cons.prems by auto
  have "l \<notin> set (e_targets e1)" if "l \<in> set (concat (map bound_label cs))" for l
    using that Cons.prems(3,4) e1(2) by auto
  then show ?case using Cons.IH [of e1] Cons.prems e1(1) by auto
qed simp

lemma dist_skip: "(\<And>i. i \<in> set xs \<Longrightarrow> i \<noteq> Mark l) \<Longrightarrow> dist l (xs @ ys) = length (flat xs) + dist l ys"
  by (induction xs) auto

lemma slack_nops: "slack l (replicate n (Plain [b]) @ ys) = slack l ys"
  by (induction n) auto

definition far_result :: "code_item list" where
  "far_result = (Mark 0 # replicate 32767 (Plain [0])) @ Jump JMP_IMM8 [] 1 # far_pair JEQZ_IMM8 [] 0 @ replicate 119 (Plain [0]) @ [Mark 1]"

lemma far_reserve: "reserve [] far_items = far_result"
proof -
  let ?pre = "Mark 0 # replicate 32767 (Plain [0])" and ?suf = "replicate 119 (Plain [0]) @ [Mark 1]"
  let ?J1 = "Jump JMP_IMM8 [] 1" and ?J2 = "Jump JEQZ_IMM8 [] 0"
  have k: "IsJcondImm8 JEQZ_IMM8" "short_jcond JEQZ_IMM8" "\<not> IsJcondV8Imm8 JEQZ_IMM8" by (simp_all add: jump_kinds short_jcond_def)
  note s = jcond_simps [OF k(2)]
  have pre: "length (flat ?pre) = 32767" by (simp add: flat_replicate)
  have len: "length (jump_bytes JMP_IMM8 [] 0) = 2" "length (jump_bytes JEQZ_IMM8 [] 0) = 2"
    using s k(3) by (simp_all add: jmp_simps)
  have max_increase: "max_increase JMP_IMM8 = 3" "max_increase JEQZ_IMM8 = 1" using k(1) by (simp_all add: max_increase_def EstimateInsnSizeMaxIncrease_def)
  have d: "dist 1 ?suf = 119" by (subst dist_skip) (auto simp: flat_replicate)
  have sl: "slack 1 ?suf = 0" by (simp add: slack_nops)
  have "estimate ?pre (?J1 # ?J2 # ?suf) 1 = 127" using d sl len max_increase by (simp add: estimate_def)
  then have w1: "widened (GetBitLengthSigned (word_of_int (estimate ?pre (?J1 # ?J2 # ?suf) 1))) JMP_IMM8 [] 1 = [?J1]"
    by (simp add: GetBitLengthSigned_def widened_def jmp_simps)
  have "estimate (?pre @ [?J1]) (?J2 # ?suf) 0 = - 32769" using pre len by (simp add: estimate_def)
  then have w2: "widened (GetBitLengthSigned (word_of_int (estimate (?pre @ [?J1]) (?J2 # ?suf) 0))) JEQZ_IMM8 [] 0 = far_pair JEQZ_IMM8 [] 0"
    using sint_u32 [of "- 32769"] s by (simp add: GetBitLengthSigned_def widened_def)
  have "reserve [] far_items = reserve ?pre (?J1 # ?J2 # ?suf)"
    using reserve_skip [of ?pre "[]" "?J1 # ?J2 # ?suf"] by (auto simp: far_items_def)
  also have "... = reserve (?pre @ [?J1]) (?J2 # ?suf)" using w1 by simp
  also have "... = reserve ((?pre @ [?J1]) @ far_pair JEQZ_IMM8 [] 0) ?suf" unfolding reserve.simps w2 ..
  also have "... = ((?pre @ [?J1]) @ far_pair JEQZ_IMM8 [] 0) @ ?suf" using reserve_skip [of ?suf _ "[]"] by auto
  finally show ?thesis by (simp add: far_result_def)
qed

lemma far_positions: "dist 1 far_result = 32896" "list_all item_ok far_result" "(32767, JMP_IMM8, 1) \<in> set (sites 0 far_result)"
proof -
  have k: "short_jcond JEQZ_IMM8" "\<not> IsJcondV8Imm8 JEQZ_IMM8" "RevertConditionCode JEQZ_IMM8 = Some JNEZ_IMM8" "short_jcond JNEZ_IMM8"
    "\<not> IsJcondV8Imm8 JNEZ_IMM8"
    by (simp_all add: jump_kinds short_jcond_def RevertConditionCode_def)
  have l: "length (flat (far_pair JEQZ_IMM8 [] 0)) = 8" "list_all item_ok (far_pair JEQZ_IMM8 [] 0)"
    using jcond_simps [OF k(4)] k by (simp_all add: far_pair_def Let_def jmp_simps)
  have "Mark 1 \<notin> set (far_pair JEQZ_IMM8 [] 0)" by (simp add: far_pair_def Let_def)
  then have "dist 1 (far_pair JEQZ_IMM8 [] 0 @ replicate 119 (Plain [0]) @ [Mark 1]) = 127"
    using l(1) by (simp add: dist_append flat_replicate)
  then show "dist 1 far_result = 32896" by (simp add: far_result_def dist_append flat_replicate jmp_simps)
  show "list_all item_ok far_result" using l(2) by (simp add: far_result_def jmp_simps list_all_iff)
  show "(32767, JMP_IMM8, 1) \<in> set (sites 0 far_result)" by (simp add: far_result_def flat_replicate)
qed

fun call_size :: "call \<Rightarrow> nat" where
  "call_size (CEmit grp args) = (case EmitMnemonic grp args new_emitter of None \<Rightarrow> 0 | Some e \<Rightarrow> length (e_bytecode e))"
| "call_size (CBind l) = 0"
| "call_size c = 4"

lemma run_call_size: "run_call c e = Some e' \<Longrightarrow> length (e_bytecode e') \<le> length (e_bytecode e) + call_size c"
proof (cases c)
  case (CEmit grp args)
  assume "run_call c e = Some e'"
  then show ?thesis using EmitMnemonic_new [of grp args e e'] CEmit by auto
qed (auto simp: Bind_def Jmp_def Jcmp_def Jcmpz_def EmitBack_eq EmitInst_jump_formats imm_bytes_small add_branch_def Let_def
    split: if_splits bind_splits)

lemma run_calls_size: "run_calls cs e = Some e' \<Longrightarrow> length (e_bytecode e') \<le> length (e_bytecode e) + sum_list (map call_size cs)"
proof (induction cs arbitrary: e)
  case (Cons c cs)
  then obtain e1 where e1: "run_call c e = Some e1" "run_calls cs e1 = Some e'" by (auto split: bind_splits)
  then show ?case using run_call_size [OF e1(1)] Cons.IH [OF e1(2)] by simp
qed simp

lemma call_size_nop: "call_size nop = 1"
  by code_simp

lemma jumps_nops: "jumps p (replicate n (Plain [b])) = []"
  by (induction n arbitrary: p) auto

lemma length_jump_imm8: "length (jump_bytes JMP_IMM8 [] a) = 2" "length (jump_bytes JEQZ_IMM8 [] a) = 2"
  by (simp_all add: jump_bytes_def imm_bytes_def imm_width_def jump_kinds)

text \<open>
  C38: The estimate of the distance of a jump counts no far jump of the conditional jumps it passes over. In a program of
  32767 one-byte instructions, a jump over a conditional jump back to the start, 119 one-byte instructions and the label
  of the first jump, the jump keeps its 8-bit form. The conditional jump then takes six bytes more, the label ends 129
  bytes ahead, and \<open>Build\<close> succeeds with a jump that goes 127 bytes back.
\<close>

theorem far_branch_breaks_jump:
  "\<exists>e e' out. run_calls far_program new_emitter = Some e \<and> Build e = Some (SUCCESS, Some out, e') \<and>
     e_pc_list e' 1 = 32767 + 129 \<and> out ! 32767 = JMP_IMM8 \<and> GetImm F_IMM8 0 out 32767 = Some (word_of_int (- 127))"
proof -
  have ok: "list_all call_ok far_program" "distinct (concat (map bound_label far_program))"
    by (simp_all add: far_program_def list_all_iff IsJcondImm8_def)
  have "EmitMnemonic grp args new_emitter \<noteq> None" if "CEmit grp args \<in> set far_program" for grp args
    using that first_item_nop by (auto simp: far_program_def)
  then obtain e where e: "run_calls far_program new_emitter = Some e"
    using run_calls_some [OF ok(1) _ ok(2), of new_emitter] by (auto simp: new_emitter_def)
  have "sum_list (map call_size far_program) < 2 ^ 31" by (simp add: far_program_def sum_list_replicate call_size_nop del: call_size.simps(1))
  then have "length (e_bytecode e) < 2 ^ 31" using run_calls_size [OF e] by (simp add: new_emitter_def)
  then have em: "emitted far_items e"
    using run_calls_emitted [OF emitted_new e ok] far_first_items by auto
  have labels: "short op \<and> Mark l \<in> set far_items" if "Jump op regs l \<in> set far_items" for op regs l
    using that by (auto simp: far_items_def short_def IsJcondImm8_def)
  have "length (flat far_items) + 6 * length (jumps 0 far_items) < 2 ^ 31"
    by (simp add: far_items_def flat_replicate jumps_nops length_jump_imm8)
  then obtain e' where b: "Build e = Some (SUCCESS, Some (assemble far_result), e')" "\<forall>l. Mark l \<in> set far_items \<longrightarrow> e_pc_list e' l = of_nat (dist l far_result)"
    using Build_reserve [OF em] labels unfolding far_reserve by blast
  obtain pre regs suf where a: "assemble far_result = pre @ jump_bytes JMP_IMM8 regs (scast (of_nat (dist 1 far_result) - of_nat 32767 :: u32)) @ suf"
    "0 + length pre = 32767" "jump_ok JMP_IMM8 regs"
    using sites_site [OF far_positions(3,2), of "\<lambda>l. of_nat (dist l far_result)"] unfolding assemble_def by metis
  have w: "scast (of_nat (dist 1 far_result) - of_nat 32767 :: u32) = (scast (129 :: u32) :: u64)" by (simp add: far_positions(1) [simplified])
  have "signed_take_bit 7 (scast (129 :: u32) :: u64) = word_of_int (- 127)" by code_simp
  then have "GetImm F_IMM8 0 (assemble far_result) 32767 = Some (word_of_int (- 127))"
    using GetImm_jump [OF a(3), of F_IMM8 pre "scast (129 :: u32)" suf] a(2) unfolding a(1) w by (simp add: jmp_simps)
  moreover have "assemble far_result ! 32767 = JMP_IMM8" unfolding a(1) using a(2) by (simp add: nth_append jump_bytes_def)
  moreover have "e_pc_list e' 1 = 32767 + 129" using b(2) far_positions(1) by (simp add: far_items_def)
  ultimately show ?thesis using e b(1) by blast
qed

end
