(* ===== verification/FreeListAllocator.thy ===== *)
theory FreeListAllocator
  imports BitUtils "HOL-Library.Monad_Syntax"
begin

text \<open>
  \<open>runtime/mem/freelist.h\<close> and \<open>runtime/mem/freelist_allocator-inl.h\<close>: the block headers, the links of the free blocks and
  the allocator, on a memory of 8-byte cells. A header at address \<open>h\<close> has its \<open>size_\<close> in cell \<open>h\<close> and its \<open>prev_header_\<close> in
  cell \<open>h + 8\<close>; the cells \<open>h + 16\<close> and \<open>h + 24\<close> are the links of a free block, and the first cells of the memory of a used
  one. Addresses and sizes are natural numbers (the pools end below the end of the address space); \<open>nullptr\<close> is 0. A
  failed \<open>ASSERT\<close> is \<open>None\<close>, and so is a loop that does not end. The sanitizer annotations, the log, the memory
  statistics and the crossing map of \<open>AllocConfigT\<close> have no effect on the memory of the allocator and are left out; the locks
  make every operation atomic. \<open>SEGREGATED_LIST_FAST_INSERT\<close> and \<open>SEGREGATED_LIST_FAST_EXTRACT\<close> are the constant false
  (\<open>freelist_allocator.h\<close>): the branches they select are not part of the model. The assertions are on, and with them the check
  of \<open>FreeUnsafe\<close> that is compiled in debug builds.
\<close>

type_synonym cells = "nat \<Rightarrow> u64"

subsection \<open>Block headers\<close>

abbreviation (input) HEADER_SIZE :: nat where "HEADER_SIZE \<equiv> 16"
abbreviation (input) FREE_HEADER_SIZE :: nat where "FREE_HEADER_SIZE \<equiv> 32"

definition ptr_at :: "nat \<Rightarrow> cells \<Rightarrow> nat" where
  "ptr_at a m = unat (m a)"

definition set_ptr :: "nat \<Rightarrow> nat \<Rightarrow> cells \<Rightarrow> cells" where
  "set_ptr a p m = m(a := of_nat p)"

definition GetPaddingStatus :: "u64 \<Rightarrow> u64" where
  "GetPaddingStatus sz = drop_bit 2 (sz AND 0xC)"

definition SetPaddingStatus :: "u64 \<Rightarrow> u64 \<Rightarrow> u64" where
  "SetPaddingStatus sz status = (sz AND NOT 0xC) OR push_bit 2 status"

definition Initialize :: "nat \<Rightarrow> nat \<Rightarrow> nat \<Rightarrow> cells \<Rightarrow> cells option" where
  "Initialize h sz prev m =
     (if sz < 2 ^ 60 then Some ((set_ptr (h + 8) prev m)(h := push_bit 4 (of_nat sz))) else None)"

definition IsUsed :: "nat \<Rightarrow> cells \<Rightarrow> bool" where
  "IsUsed h m \<longleftrightarrow> m h AND 1 \<noteq> 0"

definition SetUsed :: "nat \<Rightarrow> cells \<Rightarrow> cells option" where
  "SetUsed h m = (if IsUsed h m then None else Some (m(h := m h OR 1)))"

definition SetUnused :: "nat \<Rightarrow> cells \<Rightarrow> cells option" where
  "SetUnused h m = (if IsUsed h m then Some (m(h := m h AND NOT 1)) else None)"

definition IsPaddingHeader :: "nat \<Rightarrow> cells \<Rightarrow> bool" where
  "IsPaddingHeader h m \<longleftrightarrow> GetPaddingStatus (m h) = 1"

definition IsPaddingSizeStoredAfterHeader :: "nat \<Rightarrow> cells \<Rightarrow> bool" where
  "IsPaddingSizeStoredAfterHeader h m \<longleftrightarrow> GetPaddingStatus (m h) = 2"

definition IsPaddingHeaderStoredAfterHeader :: "nat \<Rightarrow> cells \<Rightarrow> bool" where
  "IsPaddingHeaderStoredAfterHeader h m \<longleftrightarrow> GetPaddingStatus (m h) = 3"

definition set_padding :: "u64 \<Rightarrow> nat \<Rightarrow> cells \<Rightarrow> cells option" where
  "set_padding status h m =
     (if IsPaddingSizeStoredAfterHeader h m \<or> IsPaddingHeaderStoredAfterHeader h m \<or> IsPaddingHeader h m then None
      else Some (m(h := SetPaddingStatus (m h) status)))"

definition SetAsPaddingHeader :: "nat \<Rightarrow> cells \<Rightarrow> cells option" where
  "SetAsPaddingHeader = set_padding 1"

definition SetPaddingSizeStoredAfterHeader :: "nat \<Rightarrow> cells \<Rightarrow> cells option" where
  "SetPaddingSizeStoredAfterHeader = set_padding 2"

definition SetPaddingHeaderStoredAfterHeader :: "nat \<Rightarrow> cells \<Rightarrow> cells option" where
  "SetPaddingHeaderStoredAfterHeader = set_padding 3"

definition SetPaddingSize :: "nat \<Rightarrow> nat \<Rightarrow> cells \<Rightarrow> cells option" where
  "SetPaddingSize h sz m = (if IsPaddingSizeStoredAfterHeader h m then Some (m(h + 16 := of_nat sz)) else None)"

definition GetPaddingSize :: "nat \<Rightarrow> cells \<Rightarrow> nat option" where
  "GetPaddingSize h m = (if IsPaddingSizeStoredAfterHeader h m then Some (unat (m (h + 16))) else None)"

definition IsLastBlockInPool :: "nat \<Rightarrow> cells \<Rightarrow> bool option" where
  "IsLastBlockInPool h m = (if IsPaddingHeader h m then None else Some (m h AND 2 \<noteq> 0))"

definition SetLastBlockInPool :: "nat \<Rightarrow> cells \<Rightarrow> cells option" where
  "SetLastBlockInPool h m = (if IsLastBlockInPool h m = Some False then Some (m(h := m h OR 2)) else None)"

definition GetSize :: "nat \<Rightarrow> cells \<Rightarrow> nat option" where
  "GetSize h m = (if IsPaddingHeader h m then None else Some (unat (drop_bit 4 (m h))))"

definition GetPrevHeader :: "nat \<Rightarrow> cells \<Rightarrow> nat" where
  "GetPrevHeader h m = ptr_at (h + 8) m"

definition SetPrevHeader :: "nat \<Rightarrow> nat \<Rightarrow> cells \<Rightarrow> cells" where
  "SetPrevHeader h prev m = set_ptr (h + 8) prev m"

definition GetNextHeader :: "nat \<Rightarrow> cells \<Rightarrow> nat option" where
  "GetNextHeader h m =
     do { last \<leftarrow> IsLastBlockInPool h m;
          if last then Some 0 else do { sz \<leftarrow> GetSize h m; Some (h + 16 + sz) } }"

definition GetPrevUsedHeader :: "nat \<Rightarrow> cells \<Rightarrow> nat option" where
  "GetPrevUsedHeader h m =
     (let prev = GetPrevHeader h m
      in if prev \<noteq> 0 \<and> \<not> IsUsed prev m
         then let prev' = GetPrevHeader prev m in if prev' \<noteq> 0 \<and> \<not> IsUsed prev' m then None else Some prev'
         else Some prev)"

definition GetNextUsedHeader :: "nat \<Rightarrow> cells \<Rightarrow> nat option" where
  "GetNextUsedHeader h m =
     do { nxt \<leftarrow> GetNextHeader h m;
          if nxt \<noteq> 0 \<and> \<not> IsUsed nxt m
          then do { nxt' \<leftarrow> GetNextHeader nxt m; if nxt' \<noteq> 0 \<and> \<not> IsUsed nxt' m then None else Some nxt' }
          else Some nxt }"

definition CanBeCoalescedWithNext :: "nat \<Rightarrow> cells \<Rightarrow> bool option" where
  "CanBeCoalescedWithNext h m =
     do { last \<leftarrow> IsLastBlockInPool h m;
          if last then Some False else do { nxt \<leftarrow> GetNextHeader h m; Some (\<not> IsUsed nxt m) } }"

definition CanBeCoalescedWithPrev :: "nat \<Rightarrow> cells \<Rightarrow> bool" where
  "CanBeCoalescedWithPrev h m \<longleftrightarrow> GetPrevHeader h m \<noteq> 0 \<and> \<not> IsUsed (GetPrevHeader h m) m"

definition GetMemory :: "nat \<Rightarrow> cells \<Rightarrow> nat option" where
  "GetMemory h m =
     (if IsPaddingHeaderStoredAfterHeader h m then Some (h + 16 + HEADER_SIZE)
      else if IsPaddingSizeStoredAfterHeader h m then map_option (\<lambda>sz. h + 16 + sz) (GetPaddingSize h m)
      else Some (h + 16))"

subsection \<open>Links of free blocks\<close>

definition GetNextFree :: "nat \<Rightarrow> cells \<Rightarrow> nat option" where
  "GetNextFree h m = (if IsUsed h m then None else Some (ptr_at (h + 16) m))"

definition GetPrevFree :: "nat \<Rightarrow> cells \<Rightarrow> nat option" where
  "GetPrevFree h m = (if IsUsed h m then None else Some (ptr_at (h + 24) m))"

definition SetNextFree :: "nat \<Rightarrow> nat \<Rightarrow> cells \<Rightarrow> cells option" where
  "SetNextFree h link m = (if IsUsed h m then None else Some (set_ptr (h + 16) link m))"

definition SetPrevFree :: "nat \<Rightarrow> nat \<Rightarrow> cells \<Rightarrow> cells option" where
  "SetPrevFree h link m = (if IsUsed h m then None else Some (set_ptr (h + 24) link m))"

definition InsertPrev :: "nat \<Rightarrow> nat \<Rightarrow> cells \<Rightarrow> cells option" where
  "InsertPrev h link m =
     (if IsUsed h m \<or> link = 0 \<or> IsUsed link m then None
      else do { let prev = ptr_at (h + 24) m;
                m \<leftarrow> (if prev \<noteq> 0 then SetNextFree prev link m else Some m);
                m \<leftarrow> SetNextFree link h m;
                m \<leftarrow> SetPrevFree link (ptr_at (h + 24) m) m;
                Some (set_ptr (h + 24) link m) })"

definition InsertNext :: "nat \<Rightarrow> nat \<Rightarrow> cells \<Rightarrow> cells option" where
  "InsertNext h link m =
     (if IsUsed h m \<or> link = 0 \<or> IsUsed link m then None
      else do { let nxt = ptr_at (h + 16) m;
                m \<leftarrow> (if nxt \<noteq> 0 then SetPrevFree nxt link m else Some m);
                m \<leftarrow> SetNextFree link (ptr_at (h + 16) m) m;
                m \<leftarrow> SetPrevFree link h m;
                Some (set_ptr (h + 16) link m) })"

definition PopFromFreeList :: "nat \<Rightarrow> cells \<Rightarrow> cells option" where
  "PopFromFreeList h m =
     (if IsUsed h m then None
      else do { m \<leftarrow> (if ptr_at (h + 16) m \<noteq> 0 then SetPrevFree (ptr_at (h + 16) m) (ptr_at (h + 24) m) m else Some m);
                if ptr_at (h + 24) m \<noteq> 0 then SetNextFree (ptr_at (h + 24) m) (ptr_at (h + 16) m) m else Some m })"

subsection \<open>The segregated list\<close>

definition FREELIST_ALLOCATOR_MIN_SIZE :: nat where "FREELIST_ALLOCATOR_MIN_SIZE = 256"
definition FREELIST_MAX_ALLOC_SIZE :: nat where "FREELIST_MAX_ALLOC_SIZE = (4194304 - 32) div 2 - HEADER_SIZE"
definition SEGREGATED_LIST_SIZE :: nat where "SEGREGATED_LIST_SIZE = 16"

definition SEGREGATED_LIST_FREE_BLOCK_RANGE :: nat where
  "SEGREGATED_LIST_FREE_BLOCK_RANGE = (FREELIST_MAX_ALLOC_SIZE - FREELIST_ALLOCATOR_MIN_SIZE) div SEGREGATED_LIST_SIZE"

text \<open>
  The allocator object: the address of its array \<open>free_memory_blocks_\<close>, the links to its pools, and whether the
  \<open>MemoryInit\<close> of its configuration \<open>AllocConfigT\<close> clears the memory (the configurations for objects) or does nothing (those for
  raw memory).
\<close>

record FreeListAlloc =
  fl_blocks :: nat
  fl_head :: nat
  fl_tail :: nat
  fl_zeroes :: bool
  fl_mem :: cells

definition list_head :: "nat \<Rightarrow> nat \<Rightarrow> nat" where
  "list_head blocks index = blocks + FREE_HEADER_SIZE * index"

definition GetIndex :: "nat \<Rightarrow> nat option" where
  "GetIndex sz =
     (if sz < FREELIST_ALLOCATOR_MIN_SIZE then None
      else let index = (sz - FREELIST_ALLOCATOR_MIN_SIZE) div SEGREGATED_LIST_FREE_BLOCK_RANGE
           in Some (if index < SEGREGATED_LIST_SIZE then index else SEGREGATED_LIST_SIZE - 1))"

definition GetFirstBlock :: "nat \<Rightarrow> nat \<Rightarrow> cells \<Rightarrow> nat option" where
  "GetFirstBlock blocks index m = (if index < SEGREGATED_LIST_SIZE then GetNextFree (list_head blocks index) m else None)"

definition SetFirstBlock :: "nat \<Rightarrow> nat \<Rightarrow> nat \<Rightarrow> cells \<Rightarrow> cells option" where
  "SetFirstBlock blocks index new_head m =
     (if index < SEGREGATED_LIST_SIZE then SetNextFree (list_head blocks index) new_head m else None)"

partial_function (option) most_suitable_loop :: "nat \<Rightarrow> nat \<Rightarrow> nat \<Rightarrow> cells \<Rightarrow> nat option" where
  "most_suitable_loop current current_size sz m =
     (if current_size = sz then Some current
      else do { nxt \<leftarrow> GetNextFree current m;
                if nxt = 0 then Some current
                else do { next_size \<leftarrow> GetSize nxt m;
                          if next_size < sz then Some current else most_suitable_loop nxt next_size sz m } })"

definition FindTheMostSuitableBlockInOrderedList :: "nat \<Rightarrow> nat \<Rightarrow> nat \<Rightarrow> cells \<Rightarrow> nat option" where
  "FindTheMostSuitableBlockInOrderedList blocks index sz m =
     do { current \<leftarrow> GetFirstBlock blocks index m;
          if current = 0 then Some 0
          else do { current_size \<leftarrow> GetSize current m;
                    if current_size < sz then Some 0 else most_suitable_loop current current_size sz m } }"

definition AddMemoryBlock :: "nat \<Rightarrow> nat \<Rightarrow> cells \<Rightarrow> cells option" where
  "AddMemoryBlock blocks h m =
     do { sz \<leftarrow> GetSize h m;
          index \<leftarrow> GetIndex sz;
          most_suitable \<leftarrow> FindTheMostSuitableBlockInOrderedList blocks index sz m;
          if most_suitable = 0 then InsertNext (list_head blocks index) h m else InsertNext most_suitable h m }"

fun search_lists :: "nat \<Rightarrow> nat list \<Rightarrow> nat \<Rightarrow> cells \<Rightarrow> nat option" where
  "search_lists blocks [] sz m = Some 0"
| "search_lists blocks (index # indices) sz m =
     do { first \<leftarrow> GetFirstBlock blocks index m;
          if first \<noteq> 0 then FindTheMostSuitableBlockInOrderedList blocks index sz m else search_lists blocks indices sz m }"

definition FindMemoryBlock :: "nat \<Rightarrow> nat \<Rightarrow> cells \<Rightarrow> nat option" where
  "FindMemoryBlock blocks sz m =
     do { index \<leftarrow> GetIndex sz;
          head \<leftarrow> GetFirstBlock blocks index m;
          suitable_block \<leftarrow>
            (if head = 0 then Some 0
             else do { head_size \<leftarrow> GetSize head m;
                       if sz \<le> head_size then FindTheMostSuitableBlockInOrderedList blocks index sz m else Some 0 });
          suitable_block \<leftarrow>
            (if suitable_block = 0 then search_lists blocks [index + 1..<SEGREGATED_LIST_SIZE] sz m else Some suitable_block);
          if suitable_block = 0 then Some 0
          else do { suitable_size \<leftarrow> GetSize suitable_block m; if sz \<le> suitable_size then Some suitable_block else None } }"

subsection \<open>Splitting and coalescing\<close>

definition AlignUp :: "nat \<Rightarrow> nat \<Rightarrow> nat" where
  "AlignUp val alignment = unat ((of_nat (val + alignment - 1) :: u64) AND NOT (of_nat (alignment - 1)))"

abbreviation (input) FREELIST_DEFAULT_ALIGNMENT :: nat where "FREELIST_DEFAULT_ALIGNMENT \<equiv> 3"

definition GetAlignmentInBytes :: "nat \<Rightarrow> nat" where
  "GetAlignmentInBytes log_alignment = 2 ^ log_alignment"

definition CoalesceMemoryBlocks :: "nat \<Rightarrow> nat \<Rightarrow> cells \<Rightarrow> cells option" where
  "CoalesceMemoryBlocks first_block second_block m =
     do { nxt \<leftarrow> GetNextHeader first_block m;
          with_next \<leftarrow> CanBeCoalescedWithNext first_block m;
          if nxt \<noteq> second_block \<or> \<not> (with_next \<or> CanBeCoalescedWithPrev second_block m) then None
          else do {
            first_size \<leftarrow> GetSize first_block m;
            second_size \<leftarrow> GetSize second_block m;
            m \<leftarrow> Initialize first_block (first_size + second_size + HEADER_SIZE) (GetPrevHeader first_block m) m;
            last \<leftarrow> IsLastBlockInPool second_block m;
            if last then SetLastBlockInPool first_block m
            else do { nxt \<leftarrow> GetNextHeader first_block m; Some (SetPrevHeader nxt first_block m) } } }"

definition SplitMemoryBlocks :: "nat \<Rightarrow> nat \<Rightarrow> cells \<Rightarrow> (nat \<times> cells) option" where
  "SplitMemoryBlocks memory_block first_block_size m =
     do { sz \<leftarrow> GetSize memory_block m;
          if sz \<le> first_block_size + HEADER_SIZE \<or> IsUsed memory_block m then None
          else do {
            raw \<leftarrow> GetMemory memory_block m;
            let second_block = raw + first_block_size;
            m \<leftarrow> Initialize second_block (sz - first_block_size - HEADER_SIZE) memory_block m;
            last \<leftarrow> IsLastBlockInPool memory_block m;
            m \<leftarrow> (if last then SetLastBlockInPool second_block m
                  else do { nxt \<leftarrow> GetNextHeader second_block m; Some (SetPrevHeader nxt second_block m) });
            m \<leftarrow> Initialize memory_block first_block_size (GetPrevHeader memory_block m) m;
            Some (second_block, m) } }"

definition TryToCoalescing :: "nat \<Rightarrow> cells \<Rightarrow> (nat \<times> cells) option" where
  "TryToCoalescing memory_header m =
     (if memory_header = 0 then None
      else do {
        with_next \<leftarrow> CanBeCoalescedWithNext memory_header m;
        m \<leftarrow> (if with_next
              then do { nxt \<leftarrow> GetNextHeader memory_header m;
                        if IsUsed nxt m then None
                        else do { m \<leftarrow> PopFromFreeList nxt m; CoalesceMemoryBlocks memory_header nxt m } }
              else Some m);
        if CanBeCoalescedWithPrev memory_header m
        then do { let prev = GetPrevHeader memory_header m;
                  m \<leftarrow> PopFromFreeList prev m;
                  m \<leftarrow> CoalesceMemoryBlocks prev memory_header m;
                  Some (prev, m) }
        else Some (memory_header, m) })"

definition GetFromSegregatedList :: "nat \<Rightarrow> nat \<Rightarrow> nat \<Rightarrow> cells \<Rightarrow> (nat \<times> cells) option" where
  "GetFromSegregatedList blocks sz align m =
     do { let aligned_size = (if align \<noteq> FREELIST_DEFAULT_ALIGNMENT then sz + (GetAlignmentInBytes align + HEADER_SIZE) else sz);
          mem_block \<leftarrow> FindMemoryBlock blocks aligned_size m;
          if mem_block = 0 then Some (0, m)
          else do {
            m \<leftarrow> PopFromFreeList mem_block m;
            raw \<leftarrow> GetMemory mem_block m;
            block_size \<leftarrow> GetSize mem_block m;
            if AlignUp raw (GetAlignmentInBytes align) - raw + sz \<le> block_size then Some (mem_block, m) else None } }"

definition CanCreateNewBlockFromRemainder :: "nat \<Rightarrow> nat \<Rightarrow> cells \<Rightarrow> bool option" where
  "CanCreateNewBlockFromRemainder memory alloc_size m =
     do { sz \<leftarrow> GetSize memory m;
          Some (FREELIST_ALLOCATOR_MIN_SIZE + FREE_HEADER_SIZE \<le> sz - alloc_size) }"

subsection \<open>Allocation\<close>

definition add_padding_header :: "nat \<Rightarrow> nat \<Rightarrow> nat \<Rightarrow> nat \<Rightarrow> cells \<Rightarrow> (nat \<times> nat \<times> bool \<times> cells) option" where
  "add_padding_header memory_block memory_pointer alloc_size align m =
     (if memory_pointer AND (GetAlignmentInBytes align - 1) = 0 then Some (memory_pointer, alloc_size, False, m)
      else do {
        let aligned_memory_pointer = AlignUp (memory_pointer + HEADER_SIZE) (GetAlignmentInBytes align);
        let size_with_padding = alloc_size + (aligned_memory_pointer - memory_pointer);
        block_size \<leftarrow> GetSize memory_block m;
        if block_size < size_with_padding then None
        else do {
          m \<leftarrow> Initialize (aligned_memory_pointer - HEADER_SIZE) alloc_size memory_block m;
          m \<leftarrow> SetAsPaddingHeader (aligned_memory_pointer - HEADER_SIZE) m;
          Some (aligned_memory_pointer, size_with_padding, True, m) } })"

definition take_block :: "nat \<Rightarrow> nat \<Rightarrow> nat \<Rightarrow> cells \<Rightarrow> cells option" where
  "take_block blocks memory_block alloc_size m =
     do { can_create \<leftarrow> CanCreateNewBlockFromRemainder memory_block alloc_size m;
          if can_create
          then do { (new_free_block, m) \<leftarrow> SplitMemoryBlocks memory_block alloc_size m;
                    m \<leftarrow> SetUsed memory_block m;
                    (new_free_list_element, m) \<leftarrow> TryToCoalescing new_free_block m;
                    if IsUsed new_free_list_element m then None else AddMemoryBlock blocks new_free_list_element m }
          else SetUsed memory_block m }"

definition record_padding :: "nat \<Rightarrow> nat \<Rightarrow> cells \<Rightarrow> cells option" where
  "record_padding memory_block memory_pointer m =
     do { raw \<leftarrow> GetMemory memory_block m;
          let padding_size = memory_pointer - raw;
          if padding_size = HEADER_SIZE then SetPaddingHeaderStoredAfterHeader memory_block m
          else do { m \<leftarrow> SetPaddingSizeStoredAfterHeader memory_block m; SetPaddingSize memory_block padding_size m } }"

text \<open>\<open>memset_s\<close> with 0, byte by byte.\<close>

definition memset_zero :: "nat \<Rightarrow> nat \<Rightarrow> cells \<Rightarrow> cells" where
  "memset_zero a n m =
     (\<lambda>c. if 8 dvd c
          then fold (\<lambda>i w. if a \<le> c + i \<and> c + i < a + n then w AND NOT (push_bit (8 * i) 0xFF) else w) [0..<8] (m c)
          else m c)"

definition MemoryInit :: "bool \<Rightarrow> nat \<Rightarrow> nat \<Rightarrow> cells \<Rightarrow> cells" where
  "MemoryInit zeroes a n m = (if zeroes then memset_zero a n m else m)"

definition Alloc :: "nat \<Rightarrow> nat \<Rightarrow> FreeListAlloc \<Rightarrow> (nat \<times> FreeListAlloc) option" where
  "Alloc sz align e =
     (let alloc_size = max sz FREELIST_ALLOCATOR_MIN_SIZE;
          alloc_size = max alloc_size (AlignUp alloc_size (GetAlignmentInBytes FREELIST_DEFAULT_ALIGNMENT))
      in if FREELIST_MAX_ALLOC_SIZE < alloc_size then Some (0, e)
         else do {
           (memory_block, m) \<leftarrow> GetFromSegregatedList (fl_blocks e) alloc_size align (fl_mem e);
           if memory_block = 0 then Some (0, e\<lparr>fl_mem := m\<rparr>)
           else do {
             block_size \<leftarrow> GetSize memory_block m;
             memory_pointer \<leftarrow> GetMemory memory_block m;
             if block_size < alloc_size then None
             else do {
               (memory_pointer, alloc_size, required_padding, m) \<leftarrow>
                 add_padding_header memory_block memory_pointer alloc_size align m;
               m \<leftarrow> take_block (fl_blocks e) memory_block alloc_size m;
               m \<leftarrow> (if required_padding then record_padding memory_block memory_pointer m else Some m);
               _ \<leftarrow> GetSize memory_block m;
               Some (memory_pointer, e\<lparr>fl_mem := MemoryInit (fl_zeroes e) memory_pointer sz m\<rparr>) } } })"

subsection \<open>Pools\<close>

abbreviation (input) POOL_HEADER_SIZE :: nat where "POOL_HEADER_SIZE \<equiv> 32"

definition pool_GetPrev :: "nat \<Rightarrow> cells \<Rightarrow> nat" where "pool_GetPrev p m = ptr_at p m"
definition pool_GetNext :: "nat \<Rightarrow> cells \<Rightarrow> nat" where "pool_GetNext p m = ptr_at (p + 8) m"
definition pool_GetSize :: "nat \<Rightarrow> cells \<Rightarrow> nat" where "pool_GetSize p m = unat (m (p + 16))"

definition GetFirstMemoryHeader :: "nat \<Rightarrow> nat" where "GetFirstMemoryHeader p = p + POOL_HEADER_SIZE"

definition pool_Initialize :: "nat \<Rightarrow> nat \<Rightarrow> nat \<Rightarrow> nat \<Rightarrow> cells \<Rightarrow> cells" where
  "pool_Initialize p sz prev nxt m = (set_ptr (p + 8) nxt (set_ptr p prev m))(p + 16 := of_nat sz)"

definition AddMemoryPool :: "nat \<Rightarrow> nat \<Rightarrow> FreeListAlloc \<Rightarrow> FreeListAlloc option" where
  "AddMemoryPool p sz e =
     (if p = 0 \<or> p mod HEADER_SIZE \<noteq> 0 then None
      else do {
        let e = (if fl_head e = 0
                 then e\<lparr>fl_mem := pool_Initialize p sz 0 0 (fl_mem e), fl_head := p, fl_tail := p\<rparr>
                 else e\<lparr>fl_mem := set_ptr (fl_tail e + 8) p (pool_Initialize p sz (fl_tail e) 0 (fl_mem e)), fl_tail := p\<rparr>);
        let first_mem_header = GetFirstMemoryHeader p;
        m \<leftarrow> Initialize first_mem_header (sz - HEADER_SIZE - POOL_HEADER_SIZE) 0 (fl_mem e);
        m \<leftarrow> SetLastBlockInPool first_mem_header m;
        m \<leftarrow> AddMemoryBlock (fl_blocks e) first_mem_header m;
        Some (e\<lparr>fl_mem := m\<rparr>) })"

partial_function (option) allocated_loop :: "nat \<Rightarrow> nat \<Rightarrow> cells \<Rightarrow> bool option" where
  "allocated_loop current_pool a m =
     (if current_pool = 0 then Some False
      else if a < GetFirstMemoryHeader current_pool \<and> current_pool < a then None
      else if GetFirstMemoryHeader current_pool < a \<and> a < current_pool + pool_GetSize current_pool m then Some True
      else allocated_loop (pool_GetNext current_pool m) a m)"

definition AllocatedByFreeListAllocatorUnsafe :: "nat \<Rightarrow> FreeListAlloc \<Rightarrow> bool option" where
  "AllocatedByFreeListAllocatorUnsafe a e = allocated_loop (fl_head e) a (fl_mem e)"

text \<open>The visitors of the pools may have side effects: they return the memory of the pool to the system.\<close>

type_synonym pool_visitor = "nat \<Rightarrow> nat \<Rightarrow> FreeListAlloc \<Rightarrow> FreeListAlloc"

partial_function (option) visit_pools :: "pool_visitor \<Rightarrow> nat \<Rightarrow> FreeListAlloc \<Rightarrow> FreeListAlloc option" where
  "visit_pools visit current_pool e =
     (if current_pool = 0 then Some e
      else visit_pools visit (pool_GetNext current_pool (fl_mem e)) (visit current_pool (pool_GetSize current_pool (fl_mem e)) e))"

definition VisitAndRemoveAllPools :: "pool_visitor \<Rightarrow> FreeListAlloc \<Rightarrow> FreeListAlloc option" where
  "VisitAndRemoveAllPools visit e = visit_pools visit (fl_head e) e"

definition unlink_pool :: "nat \<Rightarrow> FreeListAlloc \<Rightarrow> FreeListAlloc option" where
  "unlink_pool current_pool e =
     do { m \<leftarrow> PopFromFreeList (GetFirstMemoryHeader current_pool) (fl_mem e);
          let nxt = pool_GetNext current_pool m;
          let prev = pool_GetPrev current_pool m;
          e \<leftarrow> (if nxt \<noteq> 0
                then if pool_GetPrev nxt m = current_pool then Some (e\<lparr>fl_mem := set_ptr nxt prev m\<rparr>) else None
                else if fl_tail e = current_pool then Some (e\<lparr>fl_mem := m, fl_tail := prev\<rparr>) else None);
          if prev \<noteq> 0
          then if pool_GetNext prev (fl_mem e) = current_pool then Some (e\<lparr>fl_mem := set_ptr (prev + 8) nxt (fl_mem e)\<rparr>) else None
          else if fl_head e = current_pool then Some (e\<lparr>fl_head := nxt\<rparr>) else None }"

partial_function (option) remove_free_pools :: "pool_visitor \<Rightarrow> nat \<Rightarrow> FreeListAlloc \<Rightarrow> FreeListAlloc option" where
  "remove_free_pools visit current_pool e =
     (if current_pool = 0 then Some e
      else do { let tmp = pool_GetNext current_pool (fl_mem e);
                let first_block = GetFirstMemoryHeader current_pool;
                last \<leftarrow> IsLastBlockInPool first_block (fl_mem e);
                e \<leftarrow> (if last \<and> \<not> IsUsed first_block (fl_mem e)
                      then do { e \<leftarrow> unlink_pool current_pool e;
                                Some (visit current_pool (pool_GetSize current_pool (fl_mem e)) e) }
                      else Some e);
                remove_free_pools visit tmp e })"

definition AlignDownToPageSize :: "nat \<Rightarrow> nat \<Rightarrow> nat" where
  "AlignDownToPageSize page_size addr = unat ((of_nat addr :: u64) AND NOT (of_nat (page_size - 1)))"

partial_function (option) release_blocks :: "(nat \<Rightarrow> nat \<Rightarrow> cells \<Rightarrow> cells) \<Rightarrow> nat \<Rightarrow> nat \<Rightarrow> cells \<Rightarrow> cells option" where
  "release_blocks ReleasePages page_size current m =
     (if current = 0 then Some m
      else do { block_size \<leftarrow> GetSize current m;
                let start_addr = AlignUp (current + FREE_HEADER_SIZE) page_size;
                let end_addr = AlignDownToPageSize page_size (current + HEADER_SIZE + block_size);
                let m = (if start_addr < end_addr then ReleasePages start_addr end_addr m else m);
                nxt \<leftarrow> GetNextFree current m;
                release_blocks ReleasePages page_size nxt m })"

fun release_lists :: "(nat \<Rightarrow> nat \<Rightarrow> cells \<Rightarrow> cells) \<Rightarrow> nat \<Rightarrow> nat \<Rightarrow> nat list \<Rightarrow> cells \<Rightarrow> cells option" where
  "release_lists ReleasePages page_size blocks [] m = Some m"
| "release_lists ReleasePages page_size blocks (index # indices) m =
     do { current \<leftarrow> GetFirstBlock blocks index m;
          m \<leftarrow> release_blocks ReleasePages page_size current m;
          release_lists ReleasePages page_size blocks indices m }"

definition ReleaseFreeMemoryBlocks :: "(nat \<Rightarrow> nat \<Rightarrow> cells \<Rightarrow> cells) \<Rightarrow> nat \<Rightarrow> nat \<Rightarrow> cells \<Rightarrow> cells option" where
  "ReleaseFreeMemoryBlocks ReleasePages page_size blocks m = release_lists ReleasePages page_size blocks [0..<SEGREGATED_LIST_SIZE] m"

definition VisitAndRemoveFreePools ::
    "(nat \<Rightarrow> nat \<Rightarrow> cells \<Rightarrow> cells) \<Rightarrow> nat \<Rightarrow> pool_visitor \<Rightarrow> FreeListAlloc \<Rightarrow> FreeListAlloc option" where
  "VisitAndRemoveFreePools ReleasePages page_size visit e =
     do { e \<leftarrow> remove_free_pools visit (fl_head e) e;
          m \<leftarrow> ReleaseFreeMemoryBlocks ReleasePages page_size (fl_blocks e) (fl_mem e);
          Some (e\<lparr>fl_mem := m\<rparr>) }"

subsection \<open>Freeing\<close>

definition GetFreeListMemoryHeader :: "nat \<Rightarrow> cells \<Rightarrow> nat option" where
  "GetFreeListMemoryHeader a m =
     (if a = 0 then None
      else let memory_header = a - HEADER_SIZE
           in Some (if IsPaddingHeader memory_header m then GetPrevHeader memory_header m else memory_header))"

text \<open>The arguments of \<open>RemoveFromCrossingMap\<close>: the sizes of the block and of its used neighbours, and their objects.\<close>

definition crossing_map_args :: "nat \<Rightarrow> nat \<Rightarrow> cells \<Rightarrow> (nat \<times> nat \<times> nat \<times> nat) option" where
  "crossing_map_args memory_header a m =
     do { header_size \<leftarrow> GetSize memory_header m;
          prev_used_header \<leftarrow> GetPrevUsedHeader memory_header m;
          (prev_object, prev_size) \<leftarrow>
            (if prev_used_header \<noteq> 0
             then do { prev_object \<leftarrow> GetMemory prev_used_header m;
                       sz \<leftarrow> GetSize prev_used_header m;
                       Some (prev_object, prev_used_header + sz + HEADER_SIZE - prev_object) }
             else Some (0, 0));
          next_used_header \<leftarrow> GetNextUsedHeader memory_header m;
          next_object \<leftarrow> (if next_used_header \<noteq> 0 then GetMemory next_used_header m else Some 0);
          Some (memory_header + header_size + HEADER_SIZE - a, next_object, prev_object, prev_size) }"

definition FreeUnsafe :: "nat \<Rightarrow> FreeListAlloc \<Rightarrow> FreeListAlloc option" where
  "FreeUnsafe a e =
     (if a = 0 then Some e
      else do {
        allocated \<leftarrow> AllocatedByFreeListAllocatorUnsafe a e;
        if \<not> allocated then Some e
        else do {
          let m = fl_mem e;
          memory_header \<leftarrow> GetFreeListMemoryHeader a m;
          _ \<leftarrow> crossing_map_args memory_header a m;
          m \<leftarrow> SetUnused memory_header m;
          (new_free_list_element, m) \<leftarrow> TryToCoalescing memory_header m;
          m \<leftarrow> AddMemoryBlock (fl_blocks e) new_free_list_element m;
          Some (e\<lparr>fl_mem := m\<rparr>) } })"

text \<open>The visitor may free the block it is given; the walk then goes on from the header that is left in its place.\<close>

partial_function (option) iterate_blocks ::
    "(nat \<Rightarrow> FreeListAlloc \<Rightarrow> FreeListAlloc option) \<Rightarrow> nat \<Rightarrow> FreeListAlloc \<Rightarrow> FreeListAlloc option" where
  "iterate_blocks visit current_mem_header e =
     (if current_mem_header = 0 then Some e
      else do {
        e \<leftarrow> (if IsUsed current_mem_header (fl_mem e)
              then do { a \<leftarrow> GetMemory current_mem_header (fl_mem e); visit a e }
              else Some e);
        nxt \<leftarrow> GetNextUsedHeader current_mem_header (fl_mem e);
        iterate_blocks visit nxt e })"

partial_function (option) iterate_pools ::
    "(nat \<Rightarrow> FreeListAlloc \<Rightarrow> FreeListAlloc option) \<Rightarrow> nat \<Rightarrow> FreeListAlloc \<Rightarrow> FreeListAlloc option" where
  "iterate_pools visit current_pool e =
     (if current_pool = 0 then Some e
      else do { e \<leftarrow> iterate_blocks visit (GetFirstMemoryHeader current_pool) e;
                iterate_pools visit (pool_GetPrev current_pool (fl_mem e)) e })"

definition IterateOverObjects :: "(nat \<Rightarrow> FreeListAlloc \<Rightarrow> FreeListAlloc option) \<Rightarrow> FreeListAlloc \<Rightarrow> FreeListAlloc option" where
  "IterateOverObjects visit e = iterate_pools visit (fl_tail e) e"

definition CollectDead :: "(nat \<Rightarrow> bool) \<Rightarrow> FreeListAlloc \<Rightarrow> FreeListAlloc option" where
  "CollectDead is_dead e = IterateOverObjects (\<lambda>a e. if is_dead a then FreeUnsafe a e else Some e) e"

declare visit_pools.simps [code] remove_free_pools.simps [code] release_blocks.simps [code] most_suitable_loop.simps [code]
  allocated_loop.simps [code] iterate_blocks.simps [code] iterate_pools.simps [code]

end
