(* ===== verification/FreeListHeaders.thy ===== *)
theory FreeListHeaders
  imports FreeListAllocator
begin

text \<open>
  The memory the free-list allocator works on, seen as blocks. The theory gives the meaning of the header word of a block
  (size, padding status, last and used bits), of the doubly linked chains the free blocks are in, and of a map from the
  addresses of the headers to the blocks, with the lemmas that read and write one header or one link.
\<close>

subsection \<open>The header word\<close>

definition header :: "nat \<Rightarrow> u64 \<Rightarrow> bool \<Rightarrow> bool \<Rightarrow> u64" where
  "header s p l u = push_bit 4 (of_nat s) OR push_bit 2 (take_bit 2 p) OR push_bit 1 (of_bool l) OR of_bool u"

lemma bit_header: "bit (header s p l u) n =
  (if n = 0 then u else if n = 1 then l else if n < 4 then bit p (n - 2) else n < 64 \<and> bit s (n - 4))"
  by (auto simp: header_def bit_simps)

lemma nat_bit_bound: "s < 2 ^ k \<Longrightarrow> bit s n \<Longrightarrow> n < k" for s :: nat
  by (metis bit_take_bit_iff take_bit_nat_eq_self_iff)

lemma header_used [simp]: "header s p l u AND 1 = 0 \<longleftrightarrow> \<not> u"
  using bit_header [of s p l u 0] by (auto simp: and_one_eq bit_0 simp flip: even_iff_mod_2_eq_zero)

lemma header_last [simp]: "header s p l u AND 2 = 0 \<longleftrightarrow> \<not> l"
  using and_exp_eq_0_iff_not_bit [of "header s p l u" 1] by (simp add: bit_header)

lemma C_word: "(0xC :: u64) = push_bit 2 (mask 2)"
  by (simp add: mask_eq_exp_minus_1)

lemma header_status [simp]: "GetPaddingStatus (header s p l u) = take_bit 2 p"
  by (rule bit_word_eqI) (auto simp: GetPaddingStatus_def C_word bit_simps bit_header)

lemma header_size: "s < 2 ^ 60 \<Longrightarrow> unat (drop_bit 4 (header s p l u)) = s"
proof -
  assume "s < 2 ^ 60"
  then have "drop_bit 4 (header s p l u) = of_nat s"
    using nat_bit_bound [of s 60] by (intro bit_word_eqI) (auto simp: bit_simps bit_header)
  then show ?thesis using \<open>s < 2 ^ 60\<close> by (simp add: unat_of_nat)
qed

lemma header_updates:
  "header s p l False OR 1 = header s p l True" "header s p l True AND NOT 1 = header s p l False"
  "header s p False u OR 2 = header s p True u" "push_bit 4 (of_nat s) = header s 0 False False"
proof -
  have 2: "(2 :: u64) = push_bit 1 1" by simp
  show "header s p l False OR 1 = header s p l True" by (rule bit_word_eqI) (auto simp: bit_simps bit_header)
  show "header s p l True AND NOT 1 = header s p l False" by (rule bit_word_eqI) (auto simp: bit_simps bit_header)
  show "header s p False u OR 2 = header s p True u" unfolding 2 by (rule bit_word_eqI) (auto simp: bit_simps bit_header)
  show "push_bit 4 (of_nat s) = header s 0 False False" by (simp add: header_def)
qed

lemma header_unused: "header s p l True AND - 2 = header s p l False"
  using header_updates(2) by simp

lemma header_set_status: "q \<in> {1, 2, 3} \<Longrightarrow> SetPaddingStatus (header s p l u) q = header s q l u"
proof -
  assume q: "q \<in> {1, 2, 3}"
  have 2: "(2 :: u64) = push_bit 1 1" and 3: "(3 :: u64) = mask 2" by (simp_all add: mask_eq_exp_minus_1)
  have "\<not> bit q n" if "2 \<le> n" for n using q that unfolding 2 3 by (auto simp: bit_simps)
  then show ?thesis by (intro bit_word_eqI) (auto simp: SetPaddingStatus_def C_word bit_simps bit_header)
qed

subsection \<open>Chains of free blocks\<close>

text \<open>Nodes are headers: two of them never share one of their four cells.\<close>

definition apart :: "nat set \<Rightarrow> bool" where
  "apart N \<longleftrightarrow> (\<forall>a\<in>N. a \<noteq> 0 \<and> a < 2 ^ 60) \<and> (\<forall>a\<in>N. \<forall>b\<in>N. a \<noteq> b \<longrightarrow> a + 32 \<le> b \<or> b + 32 \<le> a)"

lemma apart_cells: "apart N \<Longrightarrow> a \<in> N \<Longrightarrow> b \<in> N \<Longrightarrow> i < 32 \<Longrightarrow> j < 32 \<Longrightarrow> a + i = b + j \<longleftrightarrow> a = b \<and> i = j"
  unfolding apart_def by fastforce

lemma apart_cells' [simp]:
  assumes "apart N" "a \<in> N" "b \<in> N"
  shows "a + 16 = b + 16 \<longleftrightarrow> a = b" "a + 24 = b + 24 \<longleftrightarrow> a = b" "a + 16 \<noteq> b + 24" "a + 24 \<noteq> b + 16"
    "a \<noteq> b + 16" "a \<noteq> b + 24" "a \<noteq> b + 8" "a + 8 = b + 8 \<longleftrightarrow> a = b" "a + 8 \<noteq> b + 16" "a + 8 \<noteq> b + 24" "b + 16 \<noteq> a" "b + 24 \<noteq> a"
    "b + 16 \<noteq> a + 8" "b + 24 \<noteq> a + 8" "b + 8 \<noteq> a" "a \<noteq> 8 + b" "a \<noteq> 16 + b"
proof -
  have d: "a = b \<or> a + 32 \<le> b \<or> b + 32 \<le> a" using assms by (auto simp: apart_def)
  show "a + 16 = b + 16 \<longleftrightarrow> a = b" "a + 24 = b + 24 \<longleftrightarrow> a = b" "a + 16 \<noteq> b + 24" "a + 24 \<noteq> b + 16"
    "a \<noteq> b + 16" "a \<noteq> b + 24" "a \<noteq> b + 8" "a + 8 = b + 8 \<longleftrightarrow> a = b" "a + 8 \<noteq> b + 16" "a + 8 \<noteq> b + 24" "b + 16 \<noteq> a" "b + 24 \<noteq> a"
    "b + 16 \<noteq> a + 8" "b + 24 \<noteq> a + 8" "b + 8 \<noteq> a" "a \<noteq> 8 + b" "a \<noteq> 16 + b"
    using d by linarith+
qed

lemma apart_node: "apart N \<Longrightarrow> a \<in> N \<Longrightarrow> a \<noteq> 0 \<and> a < 2 ^ 60"
  by (auto simp: apart_def)

lemma apart_0 [simp]: "apart N \<Longrightarrow> 0 \<notin> N"
  by (auto simp: apart_def)

lemma ptr_at_set_ptr [simp]: "p < 2 ^ 60 \<Longrightarrow> ptr_at c (set_ptr c' p m) = (if c = c' then p else ptr_at c m)"
  by (simp add: ptr_at_def set_ptr_def unat_of_nat)

text \<open>The chain from \<open>a\<close> through \<open>xs\<close>: the next links, and back again.\<close>

fun chain :: "cells \<Rightarrow> nat \<Rightarrow> nat list \<Rightarrow> bool" where
  "chain m a [] \<longleftrightarrow> ptr_at (a + 16) m = 0"
| "chain m a (x # xs) \<longleftrightarrow> ptr_at (a + 16) m = x \<and> ptr_at (x + 24) m = a \<and> chain m x xs"

lemma chain_cong:
  "(\<And>x. x \<in> insert a (set xs) \<Longrightarrow> ptr_at (x + 16) m' = ptr_at (x + 16) m) \<Longrightarrow>
   (\<And>x. x \<in> set xs \<Longrightarrow> ptr_at (x + 24) m' = ptr_at (x + 24) m) \<Longrightarrow> chain m' a xs = chain m a xs"
  by (induction xs arbitrary: a) auto

abbreviation hd0 :: "nat list \<Rightarrow> nat" where "hd0 zs \<equiv> (case zs of [] \<Rightarrow> 0 | z # _ \<Rightarrow> z)"

lemma chain_next: "chain m a (ys @ zs) \<Longrightarrow> ptr_at (last (a # ys) + 16) m = hd0 zs"
  by (induction ys arbitrary: a) (auto split: list.splits)

lemma chain_prev: "chain m a (ys @ x # zs) \<Longrightarrow> ptr_at (x + 24) m = last (a # ys)"
  by (induction ys arbitrary: a) auto

lemma chain_append: "chain m a (ys @ zs) \<Longrightarrow> chain m (last (a # ys)) zs"
  by (induction ys arbitrary: a) auto

definition link_after :: "nat \<Rightarrow> nat \<Rightarrow> nat \<Rightarrow> cells \<Rightarrow> cells" where
  "link_after p h z m = (set_ptr (p + 16) h (set_ptr (h + 24) p (set_ptr (h + 16) z (if z = 0 then m else set_ptr (z + 24) h m))))"

definition unlink :: "nat \<Rightarrow> nat \<Rightarrow> cells \<Rightarrow> cells" where
  "unlink p z m = set_ptr (p + 16) z (if z = 0 then m else set_ptr (z + 24) p m)"

lemma link_after_links:
  assumes "apart N" "p \<in> N" "h \<in> N" "x \<in> N" "z = 0 \<or> z \<in> N"
  shows "ptr_at (x + 16) (link_after p h z m) = (if x = p then h else if x = h then z else ptr_at (x + 16) m)"
    "ptr_at (x + 24) (link_after p h z m) = (if x = h then p else if x = z then h else ptr_at (x + 24) m)"
  using assms apart_node [OF assms(1)] apart_node [OF assms(1) assms(4)] by (auto simp: link_after_def)

lemma unlink_links:
  assumes "apart N" "p \<in> N" "x \<in> N" "z = 0 \<or> z \<in> N"
  shows "ptr_at (x + 16) (unlink p z m) = (if x = p then z else ptr_at (x + 16) m)"
    "ptr_at (x + 24) (unlink p z m) = (if x = z then p else ptr_at (x + 24) m)"
  using assms apart_node [OF assms(1)] apart_node [OF assms(1) assms(3)] by (auto simp: unlink_def)

lemma hd0_in: "hd0 zs = 0 \<or> hd0 zs \<in> set zs"
  by (cases zs) auto

lemma last_in: "last (a # ys) \<in> insert a (set ys)"
  using last_in_set [of "a # ys"] by simp

lemma chain_link_after:
  assumes "apart N" "chain m a (ys @ zs)" "insert a (insert h (set (ys @ zs))) \<subseteq> N" "distinct (a # h # ys @ zs)"
  shows "chain (link_after (last (a # ys)) h (hd0 zs) m) a (ys @ h # zs)"
  using assms(2-)
proof (induction ys arbitrary: a)
  case Nil
  note l = link_after_links [OF assms(1)]
  show ?case
  proof (cases zs)
    case Nil
    then show ?thesis using Nil.prems by (simp add: l)
  next
    case (Cons z zs')
    have "chain (link_after a h z m) z zs' = chain m z zs'"
    proof (rule chain_cong)
      fix x assume "x \<in> insert z (set zs')"
      then have "x \<in> N" "a \<in> N" "h \<in> N" "z \<in> N" "x \<noteq> a" "x \<noteq> h" using Nil.prems(2,3) Cons by auto
      then show "ptr_at (x + 16) (link_after a h z m) = ptr_at (x + 16) m" by (simp add: l)
    next
      fix x assume "x \<in> set zs'"
      then have "x \<in> N" "a \<in> N" "h \<in> N" "z \<in> N" "x \<noteq> z" "x \<noteq> h" using Nil.prems(2,3) Cons by auto
      then show "ptr_at (x + 24) (link_after a h z m) = ptr_at (x + 24) m" by (simp add: l)
    qed
    then show ?thesis using Nil.prems Cons by (simp add: l)
  qed
next
  case (Cons y ys)
  define p z where "p = last (y # ys)" and "z = hd0 zs"
  have c: "chain (link_after p h z m) y (ys @ h # zs)" using Cons unfolding p_def z_def by simp
  have N: "p \<in> insert y (set ys)" "z = 0 \<or> z \<in> set zs" using hd0_in [of zs] last_in [of y ys] by (simp_all add: p_def z_def)
  then have "p \<in> N" "h \<in> N" "z = 0 \<or> z \<in> N" "a \<in> N" "y \<in> N" "a \<noteq> p" "y \<noteq> z" using Cons.prems(2,3) assms(1) by auto
  then have "ptr_at (a + 16) (link_after p h z m) = y" "ptr_at (y + 24) (link_after p h z m) = a"
    using Cons.prems(1,3) by (simp_all add: link_after_links [OF assms(1)])
  then show ?case using c unfolding p_def z_def by simp
qed

lemma chain_unlink:
  assumes "apart N" "chain m a (ys @ h # zs)" "insert a (insert h (set (ys @ zs))) \<subseteq> N" "distinct (a # h # ys @ zs)"
  shows "chain (unlink (last (a # ys)) (hd0 zs) m) a (ys @ zs)"
  using assms(2-)
proof (induction ys arbitrary: a)
  case Nil
  note l = unlink_links [OF assms(1)]
  show ?case
  proof (cases zs)
    case Nil
    then show ?thesis using Nil.prems by (simp add: l)
  next
    case (Cons z zs')
    have "chain (unlink a z m) z zs' = chain m z zs'"
    proof (rule chain_cong)
      fix x assume "x \<in> insert z (set zs')"
      then have "x \<in> N" "a \<in> N" "z \<in> N" "x \<noteq> a" using Nil.prems(2,3) Cons by auto
      then show "ptr_at (x + 16) (unlink a z m) = ptr_at (x + 16) m" by (simp add: l)
    next
      fix x assume "x \<in> set zs'"
      then have "x \<in> N" "a \<in> N" "z \<in> N" "x \<noteq> z" using Nil.prems(2,3) Cons by auto
      then show "ptr_at (x + 24) (unlink a z m) = ptr_at (x + 24) m" by (simp add: l)
    qed
    then show ?thesis using Nil.prems Cons by (simp add: l)
  qed
next
  case (Cons y ys)
  define p z where "p = last (y # ys)" and "z = hd0 zs"
  have c: "chain (unlink p z m) y (ys @ zs)" using Cons unfolding p_def z_def by simp
  have N: "p \<in> insert y (set ys)" "z = 0 \<or> z \<in> set zs" using hd0_in [of zs] last_in [of y ys] by (simp_all add: p_def z_def)
  then have "p \<in> N" "z = 0 \<or> z \<in> N" "a \<in> N" "y \<in> N" "a \<noteq> p" "y \<noteq> z" using Cons.prems(2,3) assms(1) by auto
  then have "ptr_at (a + 16) (unlink p z m) = y" "ptr_at (y + 24) (unlink p z m) = a"
    using Cons.prems(1) by (simp_all add: unlink_links [OF assms(1)])
  then show ?case using c unfolding p_def z_def by simp
qed

lemma IsUsed_set_ptr [simp]: "c \<noteq> x \<Longrightarrow> IsUsed x (set_ptr c p m) = IsUsed x m"
  by (simp add: IsUsed_def set_ptr_def)

lemma InsertNext_link_after:
  assumes "apart N" "p \<in> N" "h \<in> N" "p \<noteq> h" "z = ptr_at (p + 16) m" "z = 0 \<or> z \<in> N" "\<not> IsUsed p m" "\<not> IsUsed h m"
    "z \<noteq> 0 \<Longrightarrow> \<not> IsUsed z m"
  shows "InsertNext p h m = Some (link_after p h z m)"
proof -
  have *: "h \<noteq> 0" "h < 2 ^ 60" "p < 2 ^ 60" "z < 2 ^ 60" using assms(6) apart_node [OF assms(1)] assms(2,3) by auto
  show ?thesis
    using assms * by (auto simp: InsertNext_def SetPrevFree_def SetNextFree_def link_after_def Let_def)
qed

lemma PopFromFreeList_unlink:
  assumes "apart N" "h \<in> N" "p = ptr_at (h + 24) m" "z = ptr_at (h + 16) m" "p \<in> N" "z = 0 \<or> z \<in> N" "h \<noteq> p" "h \<noteq> z"
    "\<not> IsUsed p m" "\<not> IsUsed h m" "z \<noteq> 0 \<Longrightarrow> \<not> IsUsed z m"
  shows "PopFromFreeList h m = Some (unlink p z m)"
proof -
  have *: "p \<noteq> 0" "p < 2 ^ 60" "z < 2 ^ 60" using assms(6) apart_node [OF assms(1)] assms(5) by auto
  show ?thesis
    using assms * by (auto simp: PopFromFreeList_def SetPrevFree_def SetNextFree_def unlink_def)
qed

lemma most_suitable_chain:
  assumes "chain m x zs" "\<forall>y\<in>insert x (set zs). \<not> IsUsed y m \<and> GetSize y m = Some (s y)" "0 \<notin> set zs" "n \<le> s x"
  shows "\<exists>us vs. zs = us @ vs \<and> most_suitable_loop x (s x) n m = Some (last (x # us)) \<and> (\<forall>u\<in>set us. n \<le> s u) \<and>
    (s (last (x # us)) = n \<or> vs = [] \<or> s (hd vs) < n)"
  using assms
proof (induction zs arbitrary: x)
  case Nil
  then show ?case by (subst most_suitable_loop.simps) (auto simp: GetNextFree_def)
next
  case (Cons z zs)
  show ?case
  proof (cases "s x = n \<or> s z < n")
    case True
    then have "most_suitable_loop x (s x) n m = Some x"
      using Cons.prems by (subst most_suitable_loop.simps) (auto simp: GetNextFree_def)
    then show ?thesis using True by (intro exI [of _ "[]"] exI [of _ "z # zs"]) auto
  next
    case False
    then have "most_suitable_loop x (s x) n m = most_suitable_loop z (s z) n m"
      using Cons.prems by (subst most_suitable_loop.simps) (auto simp: GetNextFree_def)
    moreover obtain us vs where "zs = us @ vs" "most_suitable_loop z (s z) n m = Some (last (z # us))" "\<forall>u\<in>set us. n \<le> s u"
      "s (last (z # us)) = n \<or> vs = [] \<or> s (hd vs) < n"
      using Cons.IH [of z] Cons.prems False by auto
    ultimately show ?thesis using False by (intro exI [of _ "z # us"] exI [of _ vs]) auto
  qed
qed

lemma FindTheMostSuitable_chain:
  assumes "chain m (list_head S i) xs" "i < 16" "\<forall>y\<in>insert (list_head S i) (set xs). \<not> IsUsed y m" "\<forall>y\<in>set xs. GetSize y m = Some (s y)"
    "0 \<notin> set xs"
  shows "\<exists>ys zs. xs = ys @ zs \<and> FindTheMostSuitableBlockInOrderedList S i n m = Some (if ys = [] then 0 else last ys) \<and>
    (\<forall>y\<in>set ys. n \<le> s y) \<and> (zs = [] \<or> s (hd zs) < n \<or> ys \<noteq> [] \<and> s (last ys) = n)"
proof (cases xs)
  case Nil
  then show ?thesis using assms
    by (auto simp: FindTheMostSuitableBlockInOrderedList_def GetFirstBlock_def SEGREGATED_LIST_SIZE_def GetNextFree_def)
next
  case (Cons x xs')
  have f: "GetFirstBlock S i m = Some x" using assms Cons by (simp add: GetFirstBlock_def SEGREGATED_LIST_SIZE_def GetNextFree_def)
  show ?thesis
  proof (cases "s x < n")
    case True
    then show ?thesis using assms Cons f by (intro exI [of _ "[]"] exI [of _ xs]) (auto simp: FindTheMostSuitableBlockInOrderedList_def)
  next
    case False
    obtain us vs where u: "xs' = us @ vs" "most_suitable_loop x (s x) n m = Some (last (x # us))" "\<forall>u\<in>set us. n \<le> s u"
      "s (last (x # us)) = n \<or> vs = [] \<or> s (hd vs) < n"
      using most_suitable_chain [of m x xs' s n] assms Cons False by auto
    have "FindTheMostSuitableBlockInOrderedList S i n m = Some (last (x # us))"
      using assms Cons f False u(2) by (auto simp: FindTheMostSuitableBlockInOrderedList_def)
    then show ?thesis using u False Cons by (intro exI [of _ "x # us"] exI [of _ vs]) auto
  qed
qed

subsection \<open>The block map\<close>

text \<open>The blocks the memory is cut into, by the address of their header.\<close>

record block =
  b_size :: nat
  b_used :: bool
  b_last :: bool
  b_prev :: nat
  b_pad :: u64

type_synonym blocks = "nat \<rightharpoonup> block"

definition block_end :: "nat \<Rightarrow> block \<Rightarrow> nat" where
  "block_end h b = h + 16 + b_size b"

definition block_ok :: "nat \<Rightarrow> block \<Rightarrow> bool" where
  "block_ok h b \<longleftrightarrow> h \<noteq> 0 \<and> 8 dvd h \<and> 8 dvd b_size b \<and> 256 \<le> b_size b \<and> block_end h b < 2 ^ 60 \<and> b_prev b < h \<and>
     b_pad b \<in> {0, 2, 3} \<and> (b_used b \<or> b_pad b = 0)"

definition blocks_ok :: "blocks \<Rightarrow> bool" where
  "blocks_ok B \<longleftrightarrow> finite (dom B) \<and> (\<forall>h b. B h = Some b \<longrightarrow> block_ok h b) \<and>
     (\<forall>h b h' b'. B h = Some b \<longrightarrow> B h' = Some b' \<longrightarrow> h < h' \<longrightarrow> block_end h b \<le> h') \<and>
     (\<forall>h b. B h = Some b \<longrightarrow> \<not> b_last b \<longrightarrow> (\<exists>b'. B (block_end h b) = Some b' \<and> b_prev b' = h)) \<and>
     (\<forall>h b. B h = Some b \<longrightarrow> b_prev b \<noteq> 0 \<longrightarrow> (\<exists>b'. B (b_prev b) = Some b' \<and> \<not> b_last b' \<and> block_end (b_prev b) b' = h))"

definition free_set :: "blocks \<Rightarrow> nat set" where
  "free_set B = {h. \<exists>b. B h = Some b \<and> \<not> b_used b}"

definition size_of :: "blocks \<Rightarrow> nat \<Rightarrow> nat" where
  "size_of B h = b_size (the (B h))"

definition heads :: "nat \<Rightarrow> nat set" where
  "heads S = list_head S ` {..<16}"

definition heads_ok :: "nat \<Rightarrow> blocks \<Rightarrow> bool" where
  "heads_ok S B \<longleftrightarrow> S \<noteq> 0 \<and> S + 512 < 2 ^ 60 \<and> (\<forall>h b. B h = Some b \<longrightarrow> block_end h b \<le> S \<or> S + 512 \<le> h)"

lemma blocks_okD:
  assumes "blocks_ok B" "B h = Some b"
  shows "block_ok h b" "h \<noteq> 0" "8 dvd h" "8 dvd b_size b" "256 \<le> b_size b" "block_end h b < 2 ^ 60" "b_prev b < h"
    "\<not> b_used b \<Longrightarrow> b_pad b = 0" "b_pad b \<in> {0, 2, 3}"
    "B h' = Some b' \<Longrightarrow> h < h' \<Longrightarrow> block_end h b \<le> h'"
    "\<not> b_last b \<Longrightarrow> \<exists>b'. B (block_end h b) = Some b' \<and> b_prev b' = h"
    "b_prev b \<noteq> 0 \<Longrightarrow> \<exists>b'. B (b_prev b) = Some b' \<and> \<not> b_last b' \<and> block_end (b_prev b) b' = h"
proof -
  show *: "block_ok h b" using assms by (simp add: blocks_ok_def)
  then show "h \<noteq> 0" "8 dvd h" "8 dvd b_size b" "256 \<le> b_size b" "block_end h b < 2 ^ 60" "b_prev b < h"
    "\<not> b_used b \<Longrightarrow> b_pad b = 0" "b_pad b \<in> {0, 2, 3}"
    by (simp_all add: block_ok_def)
  show "B h' = Some b' \<Longrightarrow> h < h' \<Longrightarrow> block_end h b \<le> h'"
    "\<not> b_last b \<Longrightarrow> \<exists>b'. B (block_end h b) = Some b' \<and> b_prev b' = h"
    "b_prev b \<noteq> 0 \<Longrightarrow> \<exists>b'. B (b_prev b) = Some b' \<and> \<not> b_last b' \<and> block_end (b_prev b) b' = h"
    using assms unfolding blocks_ok_def by blast+
qed

lemma apart_nodes: "blocks_ok B \<Longrightarrow> heads_ok S B \<Longrightarrow> apart (dom B \<union> heads S)"
  unfolding apart_def
proof (intro conjI ballI impI)
  fix a assume ok: "blocks_ok B" "heads_ok S B" and a: "a \<in> dom B \<union> heads S"
  have head: "S \<le> x \<and> x + 32 \<le> S + 512" if "x \<in> heads S" for x using that by (auto simp: heads_def list_head_def)
  show "a \<noteq> 0" "a < 2 ^ 60" using a ok head [of a] blocks_okD(2,6) [OF ok(1), of a]
    by (auto simp: heads_ok_def block_end_def)
  fix b assume b: "b \<in> dom B \<union> heads S" "a \<noteq> b"
  have blk: "x + 32 \<le> y" if "x \<in> dom B" "y \<in> dom B" "x < y" for x y
    using that blocks_okD(5,10) [OF ok(1)] by (fastforce simp: block_end_def)
  have mixed: "x + 32 \<le> y \<or> y + 32 \<le> x" if "x \<in> dom B" "y \<in> heads S" for x y
    using that ok(2) head [of y] blocks_okD(5) [OF ok(1)] by (fastforce simp: heads_ok_def block_end_def)
  have hh: "x + 32 \<le> y \<or> y + 32 \<le> x" if "x \<in> heads S" "y \<in> heads S" "x \<noteq> y" for x y
    using that by (auto simp: heads_def list_head_def)
  show "a + 32 \<le> b \<or> b + 32 \<le> a" using a b blk [of a b] blk [of b a] mixed [of a b] mixed [of b a] hh [of a b] by (metis Un_iff linorder_neq_iff)
qed

lemma heads_disjoint: "blocks_ok B \<Longrightarrow> heads_ok S B \<Longrightarrow> dom B \<inter> heads S = {}"
proof -
  assume ok: "blocks_ok B" "heads_ok S B"
  have "h \<notin> heads S" if b: "B h = Some b" for h b
  proof -
    have "block_end h b \<le> S \<or> S + 512 \<le> h" using ok(2) b by (auto simp: heads_ok_def)
    then show ?thesis using blocks_okD(5) [OF ok(1) b] by (auto simp: heads_def list_head_def block_end_def)
  qed
  then show ?thesis by auto
qed

subsection \<open>The memory of the blocks\<close>

definition header_of :: "block \<Rightarrow> u64" where
  "header_of b = header (b_size b) (b_pad b) (b_last b) (b_used b)"

definition mem_blocks :: "blocks \<Rightarrow> cells \<Rightarrow> bool" where
  "mem_blocks B m \<longleftrightarrow> (\<forall>h b. B h = Some b \<longrightarrow> m h = header_of b \<and> ptr_at (h + 8) m = b_prev b)"

definition block_at :: "cells \<Rightarrow> nat \<Rightarrow> block \<Rightarrow> bool" where
  "block_at m h b \<longleftrightarrow> block_ok h b \<and> m h = header_of b \<and> ptr_at (h + 8) m = b_prev b"

lemma read_at:
  assumes "block_at m h b"
  shows "IsUsed h m \<longleftrightarrow> b_used b" "GetSize h m = Some (b_size b)" "IsLastBlockInPool h m = Some (b_last b)" "GetPrevHeader h m = b_prev b"
    "GetNextHeader h m = Some (if b_last b then 0 else block_end h b)" "\<not> IsPaddingHeader h m"
    "IsPaddingSizeStoredAfterHeader h m \<longleftrightarrow> b_pad b = 2" "IsPaddingHeaderStoredAfterHeader h m \<longleftrightarrow> b_pad b = 3"
    "\<not> b_used b \<Longrightarrow> GetMemory h m = Some (h + 16)" "\<exists>a. GetMemory h m = Some a"
proof -
  have m: "m h = header (b_size b) (b_pad b) (b_last b) (b_used b)" "ptr_at (h + 8) m = b_prev b" and ok: "block_ok h b"
    using assms by (auto simp: block_at_def header_of_def)
  have s: "b_size b < 2 ^ 60" and p: "take_bit 2 (b_pad b) = b_pad b" "b_pad b \<noteq> 1" using ok by (auto simp: block_ok_def block_end_def)
  show "IsUsed h m \<longleftrightarrow> b_used b" by (simp add: IsUsed_def m)
  show np: "\<not> IsPaddingHeader h m" by (simp add: IsPaddingHeader_def m p)
  show "GetSize h m = Some (b_size b)" using np header_size [OF s] by (simp add: GetSize_def m)
  show "IsLastBlockInPool h m = Some (b_last b)" using np by (simp add: IsLastBlockInPool_def m)
  show "GetPrevHeader h m = b_prev b" by (simp add: GetPrevHeader_def m)
  show "GetNextHeader h m = Some (if b_last b then 0 else block_end h b)"
    using np header_size [OF s] by (simp add: GetNextHeader_def IsLastBlockInPool_def GetSize_def m block_end_def)
  show *: "IsPaddingSizeStoredAfterHeader h m \<longleftrightarrow> b_pad b = 2" "IsPaddingHeaderStoredAfterHeader h m \<longleftrightarrow> b_pad b = 3"
    by (simp_all add: IsPaddingSizeStoredAfterHeader_def IsPaddingHeaderStoredAfterHeader_def m p)
  then show "\<exists>a. GetMemory h m = Some a" by (simp add: GetMemory_def GetPaddingSize_def)
  show "\<not> b_used b \<Longrightarrow> GetMemory h m = Some (h + 16)" using * ok by (auto simp: GetMemory_def block_ok_def)
qed

lemma block_atI: "blocks_ok B \<Longrightarrow> mem_blocks B m \<Longrightarrow> B h = Some b \<Longrightarrow> block_at m h b"
  by (simp add: block_at_def blocks_ok_def mem_blocks_def)

lemmas read_block = read_at [OF block_atI]

lemma mem_blocksI: "(\<And>h b. B h = Some b \<Longrightarrow> block_at m h b) \<Longrightarrow> mem_blocks B m"
  by (simp add: block_at_def mem_blocks_def)

lemma Initialize_eq: "n < 2 ^ 60 \<Longrightarrow> Initialize h n p m = Some ((set_ptr (h + 8) p m)(h := header n 0 False False))"
  by (simp add: Initialize_def header_updates(4))

lemma write_at:
  assumes "block_at m h b"
  shows "\<not> b_last b \<Longrightarrow> SetLastBlockInPool h m = Some (m(h := header_of (b\<lparr>b_last := True\<rparr>)))"
    "\<not> b_used b \<Longrightarrow> SetUsed h m = Some (m(h := header_of (b\<lparr>b_used := True\<rparr>)))"
    "b_used b \<Longrightarrow> SetUnused h m = Some (m(h := header_of (b\<lparr>b_used := False\<rparr>)))"
  using assms read_at(1,3) [OF assms]
  by (auto simp: SetLastBlockInPool_def SetUsed_def SetUnused_def block_at_def header_of_def header_updates header_unused)

lemma set_padding_at:
  assumes "block_at m h b" "b_pad b = 0" "q \<in> {1, 2, 3}"
  shows "set_padding q h m = Some (m(h := header (b_size b) q (b_last b) (b_used b)))"
  using assms read_at(6-8) [OF assms(1)] by (simp add: set_padding_def block_at_def header_of_def header_set_status)

end
