(* ===== verification/FreeListLists.thy ===== *)
theory FreeListLists
  imports FreeListHeaders
begin

text \<open>
  The sixteen segregated lists. The representation predicate \<open>heap_repr\<close> says that a memory holds a well-formed map of
  blocks and that each list is the chain of the free blocks of its sizes, in the order of their sizes. Taking a block off a
  list and adding one keep it, and the search finds a smallest block that is large enough.
\<close>

subsection \<open>The segregated lists\<close>

definition index_of :: "nat \<Rightarrow> nat" where
  "index_of n = min 15 ((n - 256) div SEGREGATED_LIST_FREE_BLOCK_RANGE)"

lemma GetIndex_index_of: "256 \<le> n \<Longrightarrow> GetIndex n = Some (index_of n)" "index_of n < 16"
  by (auto simp: GetIndex_def index_of_def FREELIST_ALLOCATOR_MIN_SIZE_def SEGREGATED_LIST_SIZE_def Let_def)

lemma index_of_mono: "n \<le> k \<Longrightarrow> index_of n \<le> index_of k"
  unfolding index_of_def by (intro min.mono order_refl div_le_mono diff_le_mono)

lemma index_of_less: "index_of k < index_of n \<Longrightarrow> k < n"
  using index_of_mono [of n k] by (meson leD leI)

definition list_ok :: "nat \<Rightarrow> blocks \<Rightarrow> nat set \<Rightarrow> cells \<Rightarrow> nat \<Rightarrow> nat list \<Rightarrow> bool" where
  "list_ok S B F m i xs \<longleftrightarrow> m (list_head S i) = 0 \<and> chain m (list_head S i) xs \<and> distinct xs \<and>
     set xs = {h \<in> F. index_of (size_of B h) = i} \<and> sorted_wrt (\<lambda>x y. size_of B y \<le> size_of B x) xs"

definition heap_repr :: "nat \<Rightarrow> blocks \<Rightarrow> nat set \<Rightarrow> cells \<Rightarrow> bool" where
  "heap_repr S B F m \<longleftrightarrow> blocks_ok B \<and> heads_ok S B \<and> mem_blocks B m \<and> F \<subseteq> free_set B \<and> (\<forall>i<16. \<exists>xs. list_ok S B F m i xs)"

text \<open>The cells of the allocator: the heads of its lists, the headers and the free blocks.\<close>

definition owned :: "nat \<Rightarrow> blocks \<Rightarrow> nat set" where
  "owned S B = {S..<S + 512} \<union> {c. \<exists>h b. B h = Some b \<and> h \<le> c \<and> c < (if b_used b then h + 16 else block_end h b)}"

definition unchanged :: "nat set \<Rightarrow> cells \<Rightarrow> cells \<Rightarrow> bool" where
  "unchanged R m m' \<longleftrightarrow> (\<forall>c. c \<notin> R \<longrightarrow> m' c = m c)"

lemma unchanged_refl [simp]: "unchanged R m m"
  by (simp add: unchanged_def)

lemma unchanged_trans: "unchanged R m m' \<Longrightarrow> unchanged R m' m'' \<Longrightarrow> unchanged R m m''"
  by (simp add: unchanged_def)

lemma unchanged_set_ptr: "c \<in> R \<Longrightarrow> unchanged R m m' \<Longrightarrow> unchanged R m (set_ptr c p m')"
  by (auto simp: unchanged_def set_ptr_def)

lemma head_in: "i < 16 \<Longrightarrow> list_head S i \<in> heads S"
  by (auto simp: heads_def)

lemma list_head_eq [simp]: "list_head S i = list_head S j \<longleftrightarrow> i = j"
  by (simp add: list_head_def)

lemma heap_reprD:
  assumes "heap_repr S B F m"
  shows "blocks_ok B" "heads_ok S B" "mem_blocks B m" "F \<subseteq> free_set B" "\<And>i. i < 16 \<Longrightarrow> \<exists>xs. list_ok S B F m i xs"
    "apart (dom B \<union> heads S)" "\<And>i. i < 16 \<Longrightarrow> \<not> IsUsed (list_head S i) m"
    "\<And>h. h \<in> F \<Longrightarrow> h \<in> dom B \<and> \<not> IsUsed h m \<and> GetSize h m = Some (size_of B h)" "\<And>h i. h \<in> dom B \<Longrightarrow> i < 16 \<Longrightarrow> h \<noteq> list_head S i"
proof -
  show *: "blocks_ok B" "heads_ok S B" "mem_blocks B m" "F \<subseteq> free_set B" "\<And>i. i < 16 \<Longrightarrow> \<exists>xs. list_ok S B F m i xs"
    using assms by (auto simp: heap_repr_def)
  show "apart (dom B \<union> heads S)" using *(1,2) by (rule apart_nodes)
  show "\<not> IsUsed (list_head S i) m" if "i < 16" for i using *(5) [OF that] by (auto simp: list_ok_def IsUsed_def)
  show "h \<in> dom B \<and> \<not> IsUsed h m \<and> GetSize h m = Some (size_of B h)" if h: "h \<in> F" for h
  proof -
    obtain b where "B h = Some b" "\<not> b_used b" using h *(4) by (auto simp: free_set_def)
    then show ?thesis using read_block(1,2) [OF *(1,3)] by (auto simp: size_of_def)
  qed
  show "h \<noteq> list_head S i" if "h \<in> dom B" "i < 16" for h i
    using that head_in [of i S] heads_disjoint [OF *(1,2)] by blast
qed

lemma owned_free: "heap_repr S B F m \<Longrightarrow> B h = Some b \<Longrightarrow> \<not> b_used b \<Longrightarrow> k < 256 \<Longrightarrow> h + k \<in> owned S B"
  using blocks_okD(5) [OF heap_reprD(1), of S B F m h b] unfolding owned_def
  by (intro UnI2 CollectI exI [of _ h] exI [of _ b]) (simp add: block_end_def)

lemma owned_head: "i < 16 \<Longrightarrow> k < 32 \<Longrightarrow> list_head S i + k \<in> owned S B"
  by (auto simp: owned_def list_head_def)

subsection \<open>Taking a block off its list\<close>

text \<open>A change of the links of list \<open>i\<close> alone.\<close>

lemma relink:
  assumes "heap_repr S B F m" "i < 16" "F' \<subseteq> free_set B" "\<forall>x\<in>dom B \<union> heads S. m' x = m x \<and> ptr_at (x + 8) m' = ptr_at (x + 8) m"
    "\<forall>j<16. j \<noteq> i \<longrightarrow> ptr_at (list_head S j + 16) m' = ptr_at (list_head S j + 16) m"
    "\<forall>x\<in>F. index_of (size_of B x) \<noteq> i \<longrightarrow> ptr_at (x + 16) m' = ptr_at (x + 16) m \<and> ptr_at (x + 24) m' = ptr_at (x + 24) m"
    "{h \<in> F'. index_of (size_of B h) \<noteq> i} = {h \<in> F. index_of (size_of B h) \<noteq> i}"
    "chain m' (list_head S i) xs" "distinct xs" "set xs = {h \<in> F'. index_of (size_of B h) = i}"
    "sorted_wrt (\<lambda>x y. size_of B y \<le> size_of B x) xs"
  shows "heap_repr S B F' m'"
  unfolding heap_repr_def
proof (intro conjI allI impI)
  note r = heap_reprD [OF assms(1)]
  show "blocks_ok B" "heads_ok S B" "F' \<subseteq> free_set B" by (rule r assms)+
  show "mem_blocks B m'" using r(3) assms(4) unfolding mem_blocks_def by (metis UnI1 domI)
  fix j :: nat assume j: "j < 16"
  obtain ys where ys: "list_ok S B F m j ys" using r(5) j by blast
  show "\<exists>xs. list_ok S B F' m' j xs"
  proof (cases "j = i")
    case True
    then have "list_ok S B F' m' j xs" using ys assms(4,8-) head_in [OF j] by (auto simp: list_ok_def)
    then show ?thesis ..
  next
    case False
    have "chain m' (list_head S j) ys = chain m (list_head S j) ys"
      using ys False assms(5,6) j by (intro chain_cong) (auto simp: list_ok_def)
    moreover have "{h \<in> F'. index_of (size_of B h) = j} = {h \<in> F. index_of (size_of B h) = j}" using assms(7) False by blast
    ultimately have "list_ok S B F' m' j ys" using ys assms(4) head_in [OF j] by (auto simp: list_ok_def)
    then show ?thesis ..
  qed
qed

lemma links_frame:
  assumes "apart N" "x \<in> N" "p \<in> N" "z = 0 \<or> z \<in> N"
  shows "unlink p z m x = m x \<and> ptr_at (x + 8) (unlink p z m) = ptr_at (x + 8) m"
    "h \<in> N \<Longrightarrow> link_after p h z m x = m x \<and> ptr_at (x + 8) (link_after p h z m) = ptr_at (x + 8) m"
  using assms apart_0 [OF assms(1)] by (cases "z = 0"; simp add: unlink_def link_after_def set_ptr_def ptr_at_def)+

lemma pop_from_list:
  assumes "heap_repr S B F m" "h \<in> F"
  shows "\<exists>m'. PopFromFreeList h m = Some m' \<and> heap_repr S B (F - {h}) m' \<and> unchanged (owned S B) m m'"
proof -
  note r = heap_reprD [OF assms(1)] and n = heap_reprD(8) [OF assms(1)]
  define i where "i = index_of (size_of B h)"
  have i: "i < 16" by (simp add: i_def GetIndex_index_of)
  obtain xs where xs: "list_ok S B F m i xs" using r(5) i by blast
  then have "h \<in> set xs" using assms(2) by (simp add: list_ok_def i_def)
  then obtain ys zs where xs': "xs = ys @ h # zs" by (meson split_list)
  define p z where "p = last (list_head S i # ys)" and "z = hd0 zs"
  let ?N = "dom B \<union> heads S"
  have l: "chain m (list_head S i) (ys @ h # zs)" "distinct (ys @ h # zs)" "set (ys @ h # zs) = {h \<in> F. index_of (size_of B h) = i}"
    "sorted_wrt (\<lambda>x y. size_of B y \<le> size_of B x) (ys @ h # zs)"
    using xs xs' by (auto simp: list_ok_def)
  have "set (ys @ h # zs) \<subseteq> dom B" using l(3) n by blast
  then have N: "insert (list_head S i) (insert h (set (ys @ zs))) \<subseteq> ?N" using head_in [OF i] by auto
  have hd: "list_head S i \<notin> set (ys @ h # zs)" using l(3) r(9) n i by blast
  have p: "p \<in> insert (list_head S i) (set ys)" "p = ptr_at (h + 24) m" using last_in chain_prev [OF l(1)] by (auto simp: p_def)
  have z: "z = 0 \<or> z \<in> set zs" "z = ptr_at (h + 16) m" using hd0_in [of zs] chain_append [OF l(1)] by (auto simp: z_def split: list.splits)
  have F: "p = list_head S i \<or> p \<in> F" "z = 0 \<or> z \<in> F" using p(1) z(1) l(3) by auto
  have pz: "p \<in> ?N" "z = 0 \<or> z \<in> ?N" "h \<in> ?N" using p z N by auto
  have "PopFromFreeList h m = Some (unlink p z m)"
  proof (rule PopFromFreeList_unlink [OF r(6)])
    show "h \<in> ?N" "p = ptr_at (h + 24) m" "z = ptr_at (h + 16) m" "p \<in> ?N" "z = 0 \<or> z \<in> ?N" by (fact pz p(2) z(2))+
    show "h \<noteq> p" "h \<noteq> z" using p z l(2) hd apart_0 [OF r(6)] pz(3) by auto
    show "\<not> IsUsed p m" "\<not> IsUsed h m" "z \<noteq> 0 \<Longrightarrow> \<not> IsUsed z m" using F n r(7) [OF i] assms(2) by auto
  qed
  moreover have "heap_repr S B (F - {h}) (unlink p z m)"
  proof (rule relink [OF assms(1) i, where xs = "ys @ zs"])
    show "F - {h} \<subseteq> free_set B" using r(4) by blast
    show "\<forall>x\<in>?N. unlink p z m x = m x \<and> ptr_at (x + 8) (unlink p z m) = ptr_at (x + 8) m" using links_frame(1) [OF r(6) _ pz(1,2)] by blast
    show "chain (unlink p z m) (list_head S i) (ys @ zs)"
      unfolding p_def z_def using chain_unlink [OF r(6) l(1) N] hd l(2) by auto
    show "\<forall>j<16. j \<noteq> i \<longrightarrow> ptr_at (list_head S j + 16) (unlink p z m) = ptr_at (list_head S j + 16) m"
      using unlink_links(1) [OF r(6) pz(1) _ pz(2)] head_in F n r(9) by fastforce
    show "\<forall>x\<in>F. index_of (size_of B x) \<noteq> i \<longrightarrow> ptr_at (x + 16) (unlink p z m) = ptr_at (x + 16) m \<and> ptr_at (x + 24) (unlink p z m) = ptr_at (x + 24) m"
    proof (intro ballI impI)
      fix x assume x: "x \<in> F" "index_of (size_of B x) \<noteq> i"
      then have "x \<in> ?N" "x \<noteq> p" "x \<noteq> z" using n [of x] p(1) z(1) l(3) r(9) i apart_0 [OF r(6)] by (auto simp: set_eq_iff)
      then show "ptr_at (x + 16) (unlink p z m) = ptr_at (x + 16) m \<and> ptr_at (x + 24) (unlink p z m) = ptr_at (x + 24) m"
        using pz by (simp add: unlink_links [OF r(6)])
    qed
  qed (use l in \<open>auto simp: i_def sorted_wrt_append\<close>)
  moreover have "unchanged (owned S B) m (unlink p z m)"
  proof -
    have "x + k \<in> owned S B" if "x \<in> F" "k < 256" for x k using owned_free [OF assms(1) _ _ that(2), of x] that(1) r(4) by (auto simp: free_set_def)
    then show ?thesis using F owned_head [OF i, of 16] by (auto simp: unlink_def intro!: unchanged_set_ptr)
  qed
  ultimately show ?thesis by blast
qed

subsection \<open>Adding a block to its list\<close>

lemma sorted_insert:
  assumes "sorted_wrt (\<lambda>x y. s y \<le> s x) (ys @ zs)" "\<forall>y\<in>set ys. n \<le> s y" "zs = [] \<or> s (hd zs) < n \<or> ys \<noteq> [] \<and> s (last ys) = n" "s h = (n :: nat)"
  shows "sorted_wrt (\<lambda>x y. s y \<le> s x) (ys @ h # zs)"
proof -
  have "s z \<le> n" if "z \<in> set zs" for z
    using assms(3)
  proof (elim disjE)
    assume "zs = []" then show ?thesis using that by simp
  next
    assume "s (hd zs) < n"
    moreover have "s z \<le> s (hd zs)" using assms(1) that by (cases zs) (auto simp: sorted_wrt_append)
    ultimately show ?thesis by simp
  next
    assume "ys \<noteq> [] \<and> s (last ys) = n" then show ?thesis using assms(1) that by (auto simp: sorted_wrt_append dest: last_in_set)
  qed
  then show ?thesis using assms by (auto simp: sorted_wrt_append)
qed

lemma find_in_list:
  assumes "heap_repr S B F m" "list_ok S B F m i xs" "i < 16"
  shows "\<exists>ys zs. xs = ys @ zs \<and> FindTheMostSuitableBlockInOrderedList S i n m = Some (if ys = [] then 0 else last ys) \<and>
    (\<forall>y\<in>set ys. n \<le> size_of B y) \<and> (zs = [] \<or> size_of B (hd zs) < n \<or> ys \<noteq> [] \<and> size_of B (last ys) = n)"
proof (rule FindTheMostSuitable_chain)
  note n = heap_reprD(8) [OF assms(1)]
  have F: "set xs \<subseteq> F" using assms(2) by (auto simp: list_ok_def)
  show "chain m (list_head S i) xs" using assms(2) by (simp add: list_ok_def)
  show "i < 16" by fact
  show "\<forall>y\<in>insert (list_head S i) (set xs). \<not> IsUsed y m" using F n heap_reprD(7) [OF assms(1,3)] by auto
  show "\<forall>y\<in>set xs. GetSize y m = Some (size_of B y)" using F n by auto
  show "0 \<notin> set xs" using F n apart_0 [OF heap_reprD(6) [OF assms(1)]] by blast
qed

text \<open>The cells of the links.\<close>

definition links_of :: "nat \<Rightarrow> blocks \<Rightarrow> nat set" where
  "links_of S B = {c. \<exists>y\<in>dom B \<union> heads S. c = y + 16 \<or> c = y + 24}"

lemma links_ofI: "y \<in> dom B \<union> heads S \<Longrightarrow> y + 16 \<in> links_of S B" "y \<in> dom B \<union> heads S \<Longrightarrow> y + 24 \<in> links_of S B"
  unfolding links_of_def by blast+

lemma add_to_list:
  assumes "heap_repr S B F m" "h \<in> free_set B" "h \<notin> F"
  shows "\<exists>m'. AddMemoryBlock S h m = Some m' \<and> heap_repr S B (insert h F) m' \<and> unchanged (owned S B) m m' \<and> unchanged (links_of S B) m m'"
proof -
  note r = heap_reprD [OF assms(1)] and n = heap_reprD(8) [OF assms(1)]
  obtain b where b: "B h = Some b" "\<not> b_used b" using assms(2) by (auto simp: free_set_def)
  have h: "h \<in> dom B" "\<not> IsUsed h m" "GetSize h m = Some (size_of B h)" "256 \<le> size_of B h"
    using b read_block(1,2) [OF r(1,3)] blocks_okD(5) [OF r(1)] by (auto simp: size_of_def)
  define i where "i = index_of (size_of B h)"
  have i: "i < 16" "GetIndex (size_of B h) = Some i" using h(4) by (auto simp: i_def GetIndex_index_of)
  obtain xs where xs: "list_ok S B F m i xs" using r(5) i(1) by blast
  obtain ys zs where f: "xs = ys @ zs" "FindTheMostSuitableBlockInOrderedList S i (size_of B h) m = Some (if ys = [] then 0 else last ys)"
    "\<forall>y\<in>set ys. size_of B h \<le> size_of B y" "zs = [] \<or> size_of B (hd zs) < size_of B h \<or> ys \<noteq> [] \<and> size_of B (last ys) = size_of B h"
    using find_in_list [OF assms(1) xs i(1)] by blast
  define p z where "p = last (list_head S i # ys)" and "z = hd0 zs"
  let ?N = "dom B \<union> heads S" and ?m = "link_after p h z m"
  have l: "chain m (list_head S i) (ys @ zs)" "distinct (ys @ zs)" "set (ys @ zs) = {h \<in> F. index_of (size_of B h) = i}"
    "sorted_wrt (\<lambda>x y. size_of B y \<le> size_of B x) (ys @ zs)"
    using xs f(1) by (auto simp: list_ok_def)
  have "set (ys @ zs) \<subseteq> dom B" using l(3) n by blast
  then have N: "insert (list_head S i) (insert h (set (ys @ zs))) \<subseteq> ?N" using head_in [OF i(1)] h(1) by auto
  have hd: "list_head S i \<notin> set (ys @ zs)" "list_head S i \<noteq> h" "h \<notin> set (ys @ zs)" using l(3) r(9) n i h(1) assms(3) by blast+
  have p: "p \<in> insert (list_head S i) (set ys)" using last_in by (auto simp: p_def)
  have z: "z = 0 \<or> z \<in> set zs" "z = ptr_at (p + 16) m" using hd0_in [of zs] chain_next [OF l(1)] by (auto simp: z_def p_def)
  have F: "p = list_head S i \<or> p \<in> F" "z = 0 \<or> z \<in> F" using p z(1) l(3) by auto
  have pz: "p \<in> ?N" "h \<in> ?N" "z = 0 \<or> z \<in> ?N" using p z N by auto
  have "InsertNext p h m = Some ?m"
  proof (rule InsertNext_link_after [OF r(6) pz(1,2)])
    show "p \<noteq> h" using p hd by auto
    show "z = ptr_at (p + 16) m" "z = 0 \<or> z \<in> ?N" by (fact z pz)+
    show "\<not> IsUsed p m" "\<not> IsUsed h m" "z \<noteq> 0 \<Longrightarrow> \<not> IsUsed z m" using F n r(7) [OF i(1)] h(2) by auto
  qed
  moreover have "AddMemoryBlock S h m = InsertNext p h m"
  proof -
    have "last ys \<noteq> 0" if "ys \<noteq> []" using that p apart_0 [OF r(6)] pz(1) by (auto simp: p_def)
    then show ?thesis using f(2) i h by (auto simp: AddMemoryBlock_def p_def)
  qed
  moreover have "heap_repr S B (insert h F) ?m"
  proof (rule relink [OF assms(1) i(1), where xs = "ys @ h # zs"])
    show "insert h F \<subseteq> free_set B" using r(4) assms(2) by blast
    show "\<forall>x\<in>?N. ?m x = m x \<and> ptr_at (x + 8) ?m = ptr_at (x + 8) m" using links_frame(2) [OF r(6) _ pz(1,3,2)] by blast
    show "chain ?m (list_head S i) (ys @ h # zs)" unfolding p_def z_def using chain_link_after [OF r(6) l(1) N] hd l(2) by auto
    show "\<forall>j<16. j \<noteq> i \<longrightarrow> ptr_at (list_head S j + 16) ?m = ptr_at (list_head S j + 16) m"
    proof (intro allI impI)
      fix j :: nat assume j: "j < 16" "j \<noteq> i"
      have "list_head S j \<notin> dom B" "F \<subseteq> dom B" using r(9) [OF _ j(1)] n by blast+
      then have "list_head S j \<in> ?N" "list_head S j \<noteq> p" "list_head S j \<noteq> h" using j head_in F(1) h(1) by auto
      then show "ptr_at (list_head S j + 16) ?m = ptr_at (list_head S j + 16) m" using pz by (simp add: link_after_links [OF r(6)])
    qed
    show "\<forall>x\<in>F. index_of (size_of B x) \<noteq> i \<longrightarrow> ptr_at (x + 16) ?m = ptr_at (x + 16) m \<and> ptr_at (x + 24) ?m = ptr_at (x + 24) m"
    proof (intro ballI impI)
      fix x assume x: "x \<in> F" "index_of (size_of B x) \<noteq> i"
      then have "x \<in> ?N" "x \<noteq> p" "x \<noteq> z" "x \<noteq> h" using n [of x] p z(1) l(3) r(9) i(1) assms(3) apart_0 [OF r(6)] by (auto simp: set_eq_iff)
      then show "ptr_at (x + 16) ?m = ptr_at (x + 16) m \<and> ptr_at (x + 24) ?m = ptr_at (x + 24) m"
        using pz by (simp add: link_after_links [OF r(6)])
    qed
    show "sorted_wrt (\<lambda>x y. size_of B y \<le> size_of B x) (ys @ h # zs)" using sorted_insert [OF l(4) f(3,4)] by simp
  qed (use l(2,3) hd in \<open>auto simp: i_def\<close>)
  moreover have "unchanged (owned S B) m ?m"
  proof -
    have "x + k \<in> owned S B" if "x \<in> insert h F" "k < 256" for x k using owned_free [OF assms(1) _ _ that(2), of x] that(1) r(4) b by (auto simp: free_set_def)
    then show ?thesis using F owned_head [OF i(1), of 16] by (auto simp: link_after_def intro!: unchanged_set_ptr)
  qed
  moreover have "unchanged (links_of S B) m ?m"
    using links_ofI [OF pz(1)] links_ofI [OF pz(2)] links_ofI [of z B S] pz(3) by (auto simp: link_after_def intro!: unchanged_set_ptr)
  ultimately show ?thesis by auto
qed

subsection \<open>The search for a block\<close>

lemma last_smallest: "sorted_wrt (\<lambda>x y. s y \<le> s x) xs \<Longrightarrow> x \<in> set xs \<Longrightarrow> s (last xs) \<le> (s x :: nat)"
  by (induction xs) auto

lemma find_best_in_list:
  assumes "heap_repr S B F m" "list_ok S B F m i xs" "i < 16"
  shows "\<exists>k. FindTheMostSuitableBlockInOrderedList S i n m = Some k \<and>
    (if \<exists>x\<in>set xs. n \<le> size_of B x then k \<in> set xs \<and> n \<le> size_of B k \<and> (\<forall>x\<in>set xs. n \<le> size_of B x \<longrightarrow> size_of B k \<le> size_of B x) else k = 0)"
proof -
  obtain ys zs where f: "xs = ys @ zs" "FindTheMostSuitableBlockInOrderedList S i n m = Some (if ys = [] then 0 else last ys)"
    "\<forall>y\<in>set ys. n \<le> size_of B y" "zs = [] \<or> size_of B (hd zs) < n \<or> ys \<noteq> [] \<and> size_of B (last ys) = n"
    using find_in_list [OF assms, of n] by blast
  have s: "sorted_wrt (\<lambda>x y. size_of B y \<le> size_of B x) (ys @ zs)" using assms(2) f(1) by (simp add: list_ok_def)
  have z: "size_of B z < n \<or> ys \<noteq> [] \<and> size_of B (last ys) = n" if "z \<in> set zs" for z
  proof -
    have "size_of B z \<le> size_of B (hd zs)" using s that by (cases zs) (auto simp: sorted_wrt_append)
    then show ?thesis using f(4) that by auto
  qed
  show ?thesis
  proof (cases "ys = []")
    case True
    then show ?thesis using f z by fastforce
  next
    case False
    then have l: "last ys \<in> set xs" "n \<le> size_of B (last ys)" using f by auto
    have "size_of B (last ys) \<le> size_of B x" if "x \<in> set xs" "n \<le> size_of B x" for x
      using last_smallest [of "size_of B" ys x] s z [of x] that f(1) by (auto simp: sorted_wrt_append)
    then show ?thesis using l False f(2) by auto
  qed
qed

lemma first_block:
  assumes "heap_repr S B F m" "list_ok S B F m i xs" "i < 16"
  shows "GetFirstBlock S i m = Some (hd0 xs)"
  using chain_next [of m "list_head S i" "[]" xs] assms(2) heap_reprD(7) [OF assms(1,3)] assms(3)
  by (simp add: GetFirstBlock_def GetNextFree_def SEGREGATED_LIST_SIZE_def list_ok_def)

lemma hd0_node: "heap_repr S B F m \<Longrightarrow> list_ok S B F m i xs \<Longrightarrow> hd0 xs = 0 \<longleftrightarrow> xs = []"
proof -
  assume a: "heap_repr S B F m" "list_ok S B F m i xs"
  have "set xs \<subseteq> dom B" using a(2) heap_reprD(8) [OF a(1)] by (auto simp: list_ok_def)
  then show ?thesis using apart_0 [OF heap_reprD(6) [OF a(1)]] by (cases xs) auto
qed

lemma search_lists_best:
  assumes "heap_repr S B F m" "j \<le> 16" "\<forall>x\<in>F. j \<le> index_of (size_of B x) \<longrightarrow> n \<le> size_of B x"
  shows "\<exists>k. search_lists S [j..<16] n m = Some k \<and>
    (if \<exists>x\<in>F. j \<le> index_of (size_of B x)
     then k \<in> F \<and> j \<le> index_of (size_of B k) \<and> (\<forall>x\<in>F. j \<le> index_of (size_of B x) \<longrightarrow> size_of B k \<le> size_of B x) else k = 0)"
  using assms(2,3)
proof (induction "16 - j" arbitrary: j)
  case 0
  then have "\<not> j \<le> index_of (size_of B x)" for x using GetIndex_index_of(2) [of "size_of B x"] by simp
  then show ?case using 0 by simp
next
  case (Suc d)
  then have j: "j < 16" and d: "d = 16 - Suc j" by simp_all
  obtain xs where xs: "list_ok S B F m j xs" using heap_reprD(5) [OF assms(1) j] by blast
  have s: "set xs = {h \<in> F. index_of (size_of B h) = j}" using xs by (simp add: list_ok_def)
  have u: "[j..<16] = j # [Suc j..<16]" using j by (simp add: upt_conv_Cons)
  note f = first_block [OF assms(1) xs j] hd0_node [OF assms(1) xs]
  show ?case
  proof (cases "xs = []")
    case True
    then have e: "j \<le> index_of (size_of B x) \<longleftrightarrow> Suc j \<le> index_of (size_of B x)" if "x \<in> F" for x using s that by force
    have "search_lists S [j..<16] n m = search_lists S [Suc j..<16] n m" using f True by (simp add: u)
    moreover obtain k where "search_lists S [Suc j..<16] n m = Some k" "if \<exists>x\<in>F. Suc j \<le> index_of (size_of B x)
       then k \<in> F \<and> Suc j \<le> index_of (size_of B k) \<and> (\<forall>x\<in>F. Suc j \<le> index_of (size_of B x) \<longrightarrow> size_of B k \<le> size_of B x) else k = 0"
      using Suc.hyps(1) [of "Suc j"] Suc.prems(2) e j d by auto
    ultimately show ?thesis using e by (auto split: if_splits)
  next
    case False
    obtain k where k: "FindTheMostSuitableBlockInOrderedList S j n m = Some k"
      "if \<exists>x\<in>set xs. n \<le> size_of B x then k \<in> set xs \<and> n \<le> size_of B k \<and> (\<forall>x\<in>set xs. n \<le> size_of B x \<longrightarrow> size_of B k \<le> size_of B x) else k = 0"
      using find_best_in_list [OF assms(1) xs j, of n] by blast
    have n: "n \<le> size_of B x" if "x \<in> set xs" for x using that Suc.prems(2) s by auto
    obtain x0 where "x0 \<in> set xs" using False by (cases xs) auto
    then have kk: "k \<in> set xs" "\<forall>x\<in>set xs. size_of B k \<le> size_of B x" using k(2) n by (auto split: if_splits)
    have "size_of B k \<le> size_of B x" if x: "x \<in> F" "j \<le> index_of (size_of B x)" for x
    proof (cases "index_of (size_of B x) = j")
      case True then show ?thesis using kk(2) s x by blast
    next
      case False
      then have "index_of (size_of B k) < index_of (size_of B x)" using kk(1) s x(2) by auto
      then show ?thesis using index_of_less by (simp add: less_imp_le)
    qed
    moreover have "search_lists S [j..<16] n m = Some k" using f False k(1) by (simp add: u)
    ultimately show ?thesis using kk(1) s by auto
  qed
qed

lemma find_block:
  assumes "heap_repr S B F m" "256 \<le> n"
  shows "\<exists>k. FindMemoryBlock S n m = Some k \<and>
    (if \<exists>x\<in>F. n \<le> size_of B x then k \<in> F \<and> n \<le> size_of B k \<and> (\<forall>x\<in>F. n \<le> size_of B x \<longrightarrow> size_of B k \<le> size_of B x) else k = 0)"
proof -
  define i where "i = index_of n"
  have i: "i < 16" "GetIndex n = Some i" using assms(2) by (auto simp: i_def GetIndex_index_of)
  obtain xs where xs: "list_ok S B F m i xs" using heap_reprD(5) [OF assms(1) i(1)] by blast
  have s: "set xs = {h \<in> F. index_of (size_of B h) = i}" using xs by (simp add: list_ok_def)
  note f = first_block [OF assms(1) xs i(1)] hd0_node [OF assms(1) xs]
  have FN: "x \<noteq> 0" "GetSize x m = Some (size_of B x)" if "x \<in> F" for x
    using heap_reprD(8) [OF assms(1) that] apart_0 [OF heap_reprD(6) [OF assms(1)]] by auto
  have lo: "i \<le> index_of (size_of B x)" if "n \<le> size_of B x" for x using index_of_mono [OF that] by (simp add: i_def)
  have hi: "n \<le> size_of B x" if "i < index_of (size_of B x)" for x using index_of_less [of n] that by (simp add: i_def less_imp_le)
  obtain k where k: "FindTheMostSuitableBlockInOrderedList S i n m = Some k"
    "if \<exists>x\<in>set xs. n \<le> size_of B x then k \<in> set xs \<and> n \<le> size_of B k \<and> (\<forall>x\<in>set xs. n \<le> size_of B x \<longrightarrow> size_of B k \<le> size_of B x) else k = 0"
    using find_best_in_list [OF assms(1) xs i(1), of n] by blast
  show ?thesis
  proof (cases "\<exists>x\<in>set xs. n \<le> size_of B x")
    case True
    then have kk: "k \<in> set xs" "n \<le> size_of B k" "\<forall>x\<in>set xs. n \<le> size_of B x \<longrightarrow> size_of B k \<le> size_of B x" using k(2) by auto
    have "n \<le> size_of B (hd xs)" using True xs by (cases xs) (auto simp: list_ok_def)
    moreover have "xs = hd xs # tl xs" using True by (cases xs) auto
    then have "hd xs \<in> F" "hd0 xs = hd xs" using s by (metis (mono_tags, lifting) list.set_intros(1) mem_Collect_eq, metis list.simps(5))
    moreover have "k \<in> F" using kk(1) s by blast
    ultimately have "FindMemoryBlock S n m = Some k"
      using f i k(1) kk(2) FN [of k] FN [of "hd xs"] by (simp add: FindMemoryBlock_def)
    moreover have "size_of B k \<le> size_of B x" if x: "x \<in> F" "n \<le> size_of B x" for x
    proof (cases "index_of (size_of B x) = i")
      case True then show ?thesis using kk(3) s x by blast
    next
      case False
      then have "index_of (size_of B k) < index_of (size_of B x)" using kk(1) s lo [OF x(2)] by auto
      then show ?thesis using index_of_less by (simp add: less_imp_le)
    qed
    ultimately show ?thesis using kk s by auto
  next
    case False
    have e: "n \<le> size_of B x \<longleftrightarrow> Suc i \<le> index_of (size_of B x)" if "x \<in> F" for x
      using False s that lo [of x] hi [of x] by fastforce
    obtain k' where k': "search_lists S [Suc i..<16] n m = Some k'"
      "if \<exists>x\<in>F. Suc i \<le> index_of (size_of B x)
       then k' \<in> F \<and> Suc i \<le> index_of (size_of B k') \<and> (\<forall>x\<in>F. Suc i \<le> index_of (size_of B x) \<longrightarrow> size_of B k' \<le> size_of B x) else k' = 0"
      using search_lists_best [OF assms(1), of "Suc i" n] i(1) e by auto
    have "hd0 xs = 0 \<or> hd0 xs \<in> F \<and> hd0 xs \<in> set xs" using hd0_in [of xs] s by auto
    moreover have "k = 0" using False k(2) by auto
    ultimately have "FindMemoryBlock S n m = Some k'"
      using f i k(1) k' FN False hi [of k'] by (auto simp: FindMemoryBlock_def SEGREGATED_LIST_SIZE_def split: if_splits)
    then show ?thesis using k'(2) e by (auto split: if_splits)
  qed
qed

end
