(* ===== verification/FreeListBlocks.thy ===== *)
theory FreeListBlocks
  imports FreeListLists
begin

text \<open>
  Cutting a block in two and joining two neighbours, first on maps of blocks and then on the memory: \<open>SplitMemoryBlocks\<close> and
  \<open>CoalesceMemoryBlocks\<close> implement the two changes of the map.
\<close>

subsection \<open>Changing one header\<close>

lemma reheader:
  assumes "heap_repr S B F m" "blocks_ok B'" "heads_ok S B'" "mem_blocks B' m'" "F \<subseteq> free_set B'" "\<forall>h\<in>F. size_of B' h = size_of B h"
    "\<forall>c. m' c \<noteq> m c \<longrightarrow> (\<exists>k\<in>dom B'. c = k \<or> c = k + 8)"
  shows "heap_repr S B' F m'"
  unfolding heap_repr_def
proof (intro conjI allI impI)
  show "blocks_ok B'" "heads_ok S B'" "mem_blocks B' m'" "F \<subseteq> free_set B'" by (fact assms)+
  have N: "apart (dom B' \<union> heads S)" using assms(2,3) by (rule apart_nodes)
  have FD: "F \<subseteq> dom B'" using assms(5) by (auto simp: free_set_def)
  have same: "m' (x + 16) = m (x + 16)" "m' (x + 24) = m (x + 24)" if "x \<in> dom B' \<union> heads S" for x
  proof -
    have "x + 16 \<noteq> k \<and> x + 16 \<noteq> k + 8 \<and> x + 24 \<noteq> k \<and> x + 24 \<noteq> k + 8" if "k \<in> dom B'" for k
      using apart_cells'(11-14) [OF N UnI1 [OF that] \<open>x \<in> dom B' \<union> heads S\<close>] by blast
    then show "m' (x + 16) = m (x + 16)" "m' (x + 24) = m (x + 24)" using assms(7) by blast+
  qed
  have hd: "m' x = m x" if x: "x \<in> heads S" for x
  proof -
    have "x \<noteq> k" "x \<noteq> k + 8" if "k \<in> dom B'" for k
      using that x heads_disjoint [OF assms(2,3)] apart_cells'(7) [OF N UnI2 [OF x] UnI1 [OF that]] by auto
    then show ?thesis using assms(7) by blast
  qed
  fix i :: nat assume i: "i < 16"
  obtain xs where xs: "list_ok S B F m i xs" using heap_reprD(5) [OF assms(1) i] by blast
  then have F: "set xs \<subseteq> F" by (auto simp: list_ok_def)
  then have X: "insert (list_head S i) (set xs) \<subseteq> dom B' \<union> heads S" using FD head_in [OF i] by blast
  have "chain m' (list_head S i) xs = chain m (list_head S i) xs"
  proof (intro chain_cong)
    show "ptr_at (x + 16) m' = ptr_at (x + 16) m" if "x \<in> insert (list_head S i) (set xs)" for x
      using same(1) [OF subsetD [OF X that]] by (simp add: ptr_at_def)
    show "ptr_at (x + 24) m' = ptr_at (x + 24) m" if "x \<in> set xs" for x
      using same(2) [OF subsetD [OF X]] that by (simp add: ptr_at_def)
  qed
  moreover have "sorted_wrt (\<lambda>x y. size_of B' y \<le> size_of B' x) xs"
  proof (rule sorted_wrt_mono_rel)
    show "sorted_wrt (\<lambda>x y. size_of B y \<le> size_of B x) xs" using xs by (simp add: list_ok_def)
    show "size_of B' y \<le> size_of B' x" if "x \<in> set xs" "y \<in> set xs" "size_of B y \<le> size_of B x" for x y
      using that assms(6) F by (simp add: subset_iff)
  qed
  moreover have "{h \<in> F. index_of (size_of B' h) = i} = {h \<in> F. index_of (size_of B h) = i}" using assms(6) by auto
  ultimately have "list_ok S B' F m' i xs" using xs hd [OF head_in [OF i]] by (simp add: list_ok_def)
  then show "\<exists>xs. list_ok S B' F m' i xs" ..
qed

subsection \<open>Cutting a block, on the map\<close>

definition upd_prev :: "nat \<Rightarrow> nat \<Rightarrow> blocks \<Rightarrow> blocks" where
  "upd_prev k p B = (case B k of None \<Rightarrow> B | Some b \<Rightarrow> B(k \<mapsto> b\<lparr>b_prev := p\<rparr>))"

definition split_map :: "nat \<Rightarrow> nat \<Rightarrow> block \<Rightarrow> blocks \<Rightarrow> blocks" where
  "split_map h n b B =
     (let h2 = h + 16 + n;
          B' = B(h \<mapsto> b\<lparr>b_size := n, b_last := False\<rparr>,
                 h2 \<mapsto> \<lparr>b_size = b_size b - n - 16, b_used = False, b_last = b_last b, b_prev = h, b_pad = 0\<rparr>)
      in if b_last b then B' else upd_prev (block_end h b) h2 B')"

lemma blocks_neighbour: "blocks_ok B \<Longrightarrow> B h = Some b \<Longrightarrow> B k = Some c \<Longrightarrow> k = h \<or> block_end k c \<le> h \<or> block_end h b \<le> k"
  using blocks_okD(10) [of B] by (metis linorder_neq_iff)

lemma split_map_cases:
  assumes "blocks_ok B" "B h = Some b" "n + 288 \<le> b_size b" "split_map h n b B k = Some c"
  obtains "k = h" "c = b\<lparr>b_size := n, b_last := False\<rparr>"
  | "k = h + 16 + n" "c = \<lparr>b_size = b_size b - n - 16, b_used = False, b_last = b_last b, b_prev = h, b_pad = 0\<rparr>"
  | d where "\<not> b_last b" "k = block_end h b" "B k = Some d" "c = d\<lparr>b_prev := h + 16 + n\<rparr>" "b_prev d = h"
  | "k \<noteq> h" "k \<noteq> h + 16 + n" "b_last b \<or> k \<noteq> block_end h b" "B k = Some c"
proof -
  have e: "block_end h b \<noteq> h" "block_end h b \<noteq> h + 16 + n" using assms(3) by (auto simp: block_end_def)
  show ?thesis
  proof (cases "b_last b")
    case True
    then show ?thesis using assms(4) that by (auto simp: split_map_def Let_def split: if_splits)
  next
    case False
    then obtain d where "B (block_end h b) = Some d" "b_prev d = h" using blocks_okD(11) [OF assms(1,2)] by auto
    then show ?thesis using assms(4) that e False by (auto simp: split_map_def upd_prev_def Let_def split: if_splits)
  qed
qed

lemma split_map_sel:
  assumes "blocks_ok B" "B h = Some b" "n + 288 \<le> b_size b"
  shows "split_map h n b B h = Some (b\<lparr>b_size := n, b_last := False\<rparr>)"
    "split_map h n b B (h + 16 + n) = Some \<lparr>b_size = b_size b - n - 16, b_used = False, b_last = b_last b, b_prev = h, b_pad = 0\<rparr>"
    "k \<noteq> h \<Longrightarrow> k \<noteq> h + 16 + n \<Longrightarrow> b_last b \<or> k \<noteq> block_end h b \<Longrightarrow> split_map h n b B k = B k"
    "\<not> b_last b \<Longrightarrow> B (block_end h b) = Some d \<Longrightarrow> split_map h n b B (block_end h b) = Some (d\<lparr>b_prev := h + 16 + n\<rparr>)"
  using assms by (auto simp: split_map_def upd_prev_def Let_def block_end_def split: option.splits)

lemma split_bounds:
  assumes "n + 288 \<le> b_size b"
  shows "block_end h (b\<lparr>b_size := n, b_last := False\<rparr>) = h + 16 + n" "h < h + 16 + n" "h + 16 + n < block_end h b"
    "block_end (h + 16 + n) \<lparr>b_size = b_size b - n - 16, b_used = False, b_last = b_last b, b_prev = h, b_pad = 0\<rparr> = block_end h b"
  using assms by (auto simp: block_end_def)

lemma blocks_outside: "blocks_ok B \<Longrightarrow> B h = Some b \<Longrightarrow> B k = Some c \<Longrightarrow> k \<noteq> h \<Longrightarrow> k < h \<or> block_end h b \<le> k"
  using blocks_neighbour [of B h b k c] by (auto simp: block_end_def)

lemma split_vacant: "blocks_ok B \<Longrightarrow> B h = Some b \<Longrightarrow> n + 288 \<le> b_size b \<Longrightarrow> B (h + 16 + n) = None"
  using blocks_outside [of B h b "h + 16 + n"] split_bounds(2,3) [of n b h] by (cases "B (h + 16 + n)") auto

lemma split_map_block_ok:
  assumes "blocks_ok B" "B h = Some b" "\<not> b_used b" "256 \<le> n" "8 dvd n" "n + 288 \<le> b_size b" and k: "split_map h n b B k = Some c"
  shows "block_ok k c"
proof -
  let ?B = "split_map h n b B" and ?h2 = "h + 16 + n"
  note c = split_map_cases [OF assms(1,2,6)] and sel = split_map_sel [OF assms(1,2,6)]
  note bounds = split_bounds [OF assms(6), of h]
  have b: "8 dvd h" "8 dvd b_size b" "block_end h b < 2 ^ 60" "h \<noteq> 0" "b_prev b < h" "b_pad b = 0" using blocks_okD [OF assms(1,2)] assms(3) by auto
  show ?thesis
  proof (cases rule: c [OF k(1)])
    case 1 then show ?thesis using blocks_okD(1) [OF assms(1,2)] assms(3-6) by (simp add: block_ok_def block_end_def)
  next
    case 2 then show ?thesis using b assms(4-6) by (simp add: block_ok_def block_end_def)
  next
    case (3 d) then show ?thesis using blocks_okD(1) [OF assms(1) 3(3)] bounds by (simp add: block_ok_def block_end_def)
  next
    case 4 then show ?thesis using blocks_okD(1) [OF assms(1)] by blast
  qed
qed

lemma split_map_disjoint:
  assumes "blocks_ok B" "B h = Some b" "\<not> b_used b" "256 \<le> n" "8 dvd n" "n + 288 \<le> b_size b" and k: "split_map h n b B k = Some c" "split_map h n b B k' = Some c'" "k < k'"
  shows "block_end k c \<le> k'"
proof -
  let ?B = "split_map h n b B" and ?h2 = "h + 16 + n"
  note c = split_map_cases [OF assms(1,2,6)] and sel = split_map_sel [OF assms(1,2,6)]
  note bounds = split_bounds [OF assms(6), of h]
  have nb: "k = h \<or> block_end k c \<le> h \<or> block_end h b \<le> k" if "B k = Some c" for k c using blocks_neighbour [OF assms(1,2) that] .
  note nb' = blocks_outside [OF assms(1,2)]
  show ?thesis
  proof -
    have k1: "k = h \<and> block_end k c = ?h2 \<or> k = ?h2 \<and> block_end k c = block_end h b \<or> (\<exists>d. B k = Some d \<and> k \<noteq> h \<and> block_end k c = block_end k d)"
      by (rule c [OF k(1)]) (use bounds in \<open>simp_all add: block_end_def\<close>)
    have k2: "k' = h \<or> k' = ?h2 \<or> (\<exists>d. B k' = Some d \<and> k' \<noteq> h)" by (rule c [OF k(2)]) (use bounds in simp_all)
    from k1 consider "k = h" "block_end k c = ?h2" | "k = ?h2" "block_end k c = block_end h b" | d where "B k = Some d" "k \<noteq> h" "block_end k c = block_end k d" by blast
    then show ?thesis
    proof cases
      case 1 then show ?thesis using k2 k(3) nb' [of k'] bounds(3) by auto
    next
      case 2 then show ?thesis using k2 k(3) nb' [of k'] bounds(3) by auto
    next
      case (3 d)
      then have "block_end k d \<le> h \<or> block_end h b \<le> k" using nb by blast
      then show ?thesis using k2 k(3) 3 bounds blocks_okD(10) [OF assms(1) 3(1)] by auto
    qed
  qed
qed

lemma split_map_next:
  assumes "blocks_ok B" "B h = Some b" "\<not> b_used b" "256 \<le> n" "8 dvd n" "n + 288 \<le> b_size b" and k: "split_map h n b B k = Some c" "\<not> b_last c"
  shows "\<exists>c'. split_map h n b B (block_end k c) = Some c' \<and> b_prev c' = k"
proof -
  let ?B = "split_map h n b B" and ?h2 = "h + 16 + n"
  note c = split_map_cases [OF assms(1,2,6)] and sel = split_map_sel [OF assms(1,2,6)]
  note bounds = split_bounds [OF assms(6), of h]
  have n2: "B ?h2 = None" using split_vacant [OF assms(1,2,6)] .
  show ?thesis
  proof (cases rule: c [OF k(1)])
    case 1 then show ?thesis using bounds sel by simp
  next
    case 2
    then obtain d where "B (block_end h b) = Some d" using k(2) blocks_okD(11) [OF assms(1,2)] by auto
    then show ?thesis using sel(4) 2 k(2) bounds by simp
  next
    case (3 d)
    then obtain c' where c': "B (block_end k d) = Some c'" "b_prev c' = k" using k(2) blocks_okD(11) [OF assms(1) 3(3)] by auto
    have "block_end k c = block_end k d" "k < block_end k d" using 3 by (auto simp: block_end_def)
    moreover have "?B (block_end k d) = B (block_end k d)" using bounds 3 calculation by (intro sel(3)) auto
    ultimately show ?thesis using c' by simp
  next
    case 4
    then obtain c' where c': "B (block_end k c) = Some c'" "b_prev c' = k" using k(2) blocks_okD(11) [OF assms(1) 4(4)] by auto
    show ?thesis
    proof (cases "block_end k c = h")
      case True then show ?thesis using c' sel(1) assms(2) by simp
    next
      case False
      have "block_end k c \<noteq> block_end h b \<or> b_last b"
      proof (rule ccontr)
        assume "\<not> ?thesis"
        then show False using blocks_okD(11) [OF assms(1,2)] c' 4 by auto
      qed
      moreover have "block_end k c \<noteq> ?h2" using c'(1) n2 by auto
      ultimately show ?thesis using c' sel(3) False by auto
    qed
  qed
qed

lemma split_map_prev:
  assumes "blocks_ok B" "B h = Some b" "\<not> b_used b" "256 \<le> n" "8 dvd n" "n + 288 \<le> b_size b" and k: "split_map h n b B k = Some c" "b_prev c \<noteq> 0"
  shows "\<exists>c'. split_map h n b B (b_prev c) = Some c' \<and> \<not> b_last c' \<and> block_end (b_prev c) c' = k"
proof -
  let ?B = "split_map h n b B" and ?h2 = "h + 16 + n"
  note c = split_map_cases [OF assms(1,2,6)] and sel = split_map_sel [OF assms(1,2,6)]
  note bounds = split_bounds [OF assms(6), of h]
  have n2: "B ?h2 = None" using split_vacant [OF assms(1,2,6)] .
  have b: "b_prev b < h" using blocks_okD(7) [OF assms(1,2)] .
  show ?thesis
  proof (cases rule: c [OF k(1)])
    case 1
    then obtain c' where c': "B (b_prev b) = Some c'" "\<not> b_last c'" "block_end (b_prev b) c' = h" using k(2) blocks_okD(12) [OF assms(1,2)] by auto
    have "b_prev b < h" by (rule b)
    then show ?thesis using c' 1 bounds sel(3) [of "b_prev b"] by auto
  next
    case 2 then show ?thesis using bounds sel by simp
  next
    case (3 d) then show ?thesis using sel(2) bounds by simp
  next
    case 4
    then obtain c' where c': "B (b_prev c) = Some c'" "\<not> b_last c'" "block_end (b_prev c) c' = k" using k(2) blocks_okD(12) [OF assms(1)] by blast
    have "b_prev c \<noteq> h" using c' 4(3) assms(2) by auto
    moreover have "b_prev c \<noteq> ?h2" using c'(1) n2 by auto
    moreover have "?B (b_prev c) = (if \<not> b_last b \<and> b_prev c = block_end h b then Some (c'\<lparr>b_prev := ?h2\<rparr>) else B (b_prev c))"
      using calculation sel(3,4) c' by auto
    ultimately show ?thesis using c' by (auto simp: block_end_def)
  qed
qed

lemma split_map_ok:
  assumes "blocks_ok B" "B h = Some b" "\<not> b_used b" "256 \<le> n" "8 dvd n" "n + 288 \<le> b_size b"
  shows "blocks_ok (split_map h n b B)"
proof -
  have "dom (split_map h n b B) \<subseteq> insert h (insert (h + 16 + n) (dom B))" by (auto elim!: split_map_cases [OF assms(1,2,6)])
  then have "finite (dom (split_map h n b B))" using assms(1) finite_subset unfolding blocks_ok_def by blast
  then show ?thesis
    unfolding blocks_ok_def using split_map_block_ok [OF assms] split_map_disjoint [OF assms] split_map_next [OF assms] split_map_prev [OF assms] by blast
qed

subsection \<open>Joining two blocks, on the map\<close>

definition joined :: "block \<Rightarrow> block \<Rightarrow> block" where
  "joined b d = \<lparr>b_size = b_size b + b_size d + 16, b_used = False, b_last = b_last d, b_prev = b_prev b, b_pad = 0\<rparr>"

definition join_map :: "nat \<Rightarrow> block \<Rightarrow> block \<Rightarrow> blocks \<Rightarrow> blocks" where
  "join_map h b d B =
     (let B' = B(h \<mapsto> joined b d, block_end h b := None)
      in if b_last d then B' else upd_prev (block_end (block_end h b) d) h B')"

lemma joined_sel [simp]:
  "b_size (joined b d) = b_size b + b_size d + 16" "b_used (joined b d) = False" "b_last (joined b d) = b_last d"
  "b_prev (joined b d) = b_prev b" "b_pad (joined b d) = 0" "block_end h (joined b d) = block_end (block_end h b) d"
  by (simp_all add: joined_def block_end_def)

lemma block_end_less [simp]: "h < block_end h b" "h < block_end (block_end h b) d" "block_end h b \<noteq> h" "h \<noteq> block_end h b" "block_end (block_end h b) d \<noteq> h" "h \<noteq> block_end (block_end h b) d"
  by (auto simp: block_end_def)

lemma block_end_update [simp]: "block_end k (c\<lparr>b_prev := p\<rparr>) = block_end k c" "block_end k (c\<lparr>b_used := u\<rparr>) = block_end k c"
  by (simp_all add: block_end_def)

lemma join_map_cases:
  assumes "blocks_ok B" "B h = Some b" "B (block_end h b) = Some d" "join_map h b d B k = Some c"
  obtains "k = h" "c = joined b d"
  | e where "\<not> b_last d" "k = block_end (block_end h b) d" "B k = Some e" "c = e\<lparr>b_prev := h\<rparr>" "b_prev e = block_end h b"
  | "k \<noteq> h" "k \<noteq> block_end h b" "b_last d \<or> k \<noteq> block_end (block_end h b) d" "B k = Some c"
proof (cases "b_last d")
  case True
  then show ?thesis using assms(4) that by (auto simp: join_map_def Let_def split: if_splits)
next
  case False
  then obtain e where "B (block_end (block_end h b) d) = Some e" "b_prev e = block_end h b" using blocks_okD(11) [OF assms(1,3)] by auto
  then show ?thesis using assms(4) that False by (auto simp: join_map_def upd_prev_def Let_def split: if_splits)
qed

lemma join_map_sel:
  shows "join_map h b d B h = Some (joined b d)"
    "k \<noteq> h \<Longrightarrow> k \<noteq> block_end h b \<Longrightarrow> b_last d \<or> k \<noteq> block_end (block_end h b) d \<Longrightarrow> join_map h b d B k = B k"
    "\<not> b_last d \<Longrightarrow> B (block_end (block_end h b) d) = Some e \<Longrightarrow> join_map h b d B (block_end (block_end h b) d) = Some (e\<lparr>b_prev := h\<rparr>)"
  by (auto simp: join_map_def upd_prev_def Let_def split: option.splits)

lemma join_map_block_ok:
  assumes "blocks_ok B" "B h = Some b" "\<not> b_last b" "B (block_end h b) = Some d" and k: "join_map h b d B k = Some c"
  shows "block_ok k c"
proof -
  let ?B = "join_map h b d B" and ?k = "block_end h b"
  note c = join_map_cases [OF assms(1,2,4)] and sel = join_map_sel [where h = h and b = b and d = d and B = B]
  show ?thesis
  proof (cases rule: c [OF k(1)])
    case 1 then show ?thesis using blocks_okD(1) [OF assms(1,2)] blocks_okD(1) [OF assms(1,4)] by (auto simp: block_ok_def block_end_def)
  next
    case (2 e) then show ?thesis using blocks_okD(1) [OF assms(1) 2(3)] by (simp add: block_ok_def block_end_def)
  next
    case 3 then show ?thesis using blocks_okD(1) [OF assms(1)] by blast
  qed
qed

lemma join_map_disjoint:
  assumes "blocks_ok B" "B h = Some b" "\<not> b_last b" "B (block_end h b) = Some d" and k: "join_map h b d B k = Some c" "join_map h b d B k' = Some c'" "k < k'"
  shows "block_end k c \<le> k'"
proof -
  let ?B = "join_map h b d B" and ?k = "block_end h b"
  note c = join_map_cases [OF assms(1,2,4)] and sel = join_map_sel [where h = h and b = b and d = d and B = B]
  have nb: "k < h \<or> block_end ?k d \<le> k" if k: "B k = Some c" "k \<noteq> h" "k \<noteq> ?k" for k c
    using blocks_neighbour [OF assms(1,2) k(1)] blocks_neighbour [OF assms(1,4) k(1)] k(2,3) by (auto simp: block_end_def)
  show ?thesis
  proof -
    have k1: "k = h \<and> block_end k c = block_end ?k d \<or> (\<exists>e. B k = Some e \<and> k \<noteq> h \<and> k \<noteq> ?k \<and> block_end k c = block_end k e)"
      by (rule c [OF k(1)]) simp_all
    have k2: "k' = h \<or> (\<exists>e. B k' = Some e \<and> k' \<noteq> h \<and> k' \<noteq> ?k)" by (rule c [OF k(2)]) simp_all
    from k1 show ?thesis
    proof (elim disjE exE conjE)
      assume "k = h" "block_end k c = block_end ?k d"
      then show ?thesis using k2 k(3) nb [of k'] by auto
    next
      fix e assume "B k = Some e" "block_end k c = block_end k e"
      then show ?thesis using k2 k(3) assms(2) blocks_okD(10) [OF assms(1), of k e k'] by auto
    qed
  qed
qed

lemma join_map_next:
  assumes "blocks_ok B" "B h = Some b" "\<not> b_last b" "B (block_end h b) = Some d" and k: "join_map h b d B k = Some c" "\<not> b_last c"
  shows "\<exists>c'. join_map h b d B (block_end k c) = Some c' \<and> b_prev c' = k"
proof -
  let ?B = "join_map h b d B" and ?k = "block_end h b"
  note c = join_map_cases [OF assms(1,2,4)] and sel = join_map_sel [where h = h and b = b and d = d and B = B]
  have d: "b_prev d = h" using blocks_okD(11) [OF assms(1-3)] assms(4) by auto
  have last: "b_last d" if "block_end k c = block_end ?k d" "B k = Some c" "k \<noteq> ?k" "\<not> b_last c" for k c
    using blocks_okD(11) [OF assms(1) that(2,4)] blocks_okD(11) [OF assms(1,4)] that(1,3) by (metis option.inject)
  show ?thesis
  proof (cases rule: c [OF k(1)])
    case 1
    then obtain e where "B (block_end ?k d) = Some e" using k(2) blocks_okD(11) [OF assms(1,4)] by auto
    then show ?thesis using sel(3) 1 k(2) by simp
  next
    case (2 e)
    then obtain c' where c': "B (block_end k e) = Some c'" "b_prev c' = k" using k(2) blocks_okD(11) [OF assms(1) 2(3)] by auto
    have "h < ?k" "?k < k" "k < block_end k e" using 2 by simp_all
    then have "block_end k e \<noteq> h" "block_end k e \<noteq> ?k" "block_end k e \<noteq> k" by linarith+
    then have "?B (block_end k e) = B (block_end k e)" using 2 by (intro sel(2)) simp_all
    then show ?thesis using c' 2 by simp
  next
    case 3
    then obtain c' where c': "B (block_end k c) = Some c'" "b_prev c' = k" using k(2) blocks_okD(11) [OF assms(1) 3(4)] by auto
    show ?thesis
    proof (cases "block_end k c = h")
      case True then show ?thesis using c' sel(1) assms(2) by simp
    next
      case False
      have "block_end k c \<noteq> ?k" using c' assms(4) d 3 by auto
      moreover have "b_last d \<or> block_end k c \<noteq> block_end ?k d" using last [of k c] 3 k(2) by auto
      ultimately show ?thesis using c' sel(2) False by auto
    qed
  qed
qed

lemma join_map_prev:
  assumes "blocks_ok B" "B h = Some b" "\<not> b_last b" "B (block_end h b) = Some d" and k: "join_map h b d B k = Some c" "b_prev c \<noteq> 0"
  shows "\<exists>c'. join_map h b d B (b_prev c) = Some c' \<and> \<not> b_last c' \<and> block_end (b_prev c) c' = k"
proof -
  let ?B = "join_map h b d B" and ?k = "block_end h b"
  note c = join_map_cases [OF assms(1,2,4)] and sel = join_map_sel [where h = h and b = b and d = d and B = B]
  show ?thesis
  proof (cases rule: c [OF k(1)])
    case 1
    then obtain c' where c': "B (b_prev b) = Some c'" "\<not> b_last c'" "block_end (b_prev b) c' = h" using k(2) blocks_okD(12) [OF assms(1,2)] by auto
    have "b_prev b < h" "h < ?k" "?k < block_end ?k d" using blocks_okD(7) [OF assms(1,2)] by simp_all
    then have "b_prev b \<noteq> h" "b_prev b \<noteq> ?k" "b_prev b \<noteq> block_end ?k d" by linarith+
    then show ?thesis using c' 1 sel(2) [of "b_prev b"] by simp
  next
    case (2 e) then show ?thesis using sel(1) by simp
  next
    case 3
    then obtain c' where c': "B (b_prev c) = Some c'" "\<not> b_last c'" "block_end (b_prev c) c' = k" using k(2) blocks_okD(12) [OF assms(1)] by blast
    have "b_prev c \<noteq> h" using c' 3 assms(2) by auto
    moreover have "b_prev c \<noteq> ?k" using c' 3 assms(4) by auto
    moreover have "?B (b_prev c) = (if \<not> b_last d \<and> b_prev c = block_end ?k d then Some (c'\<lparr>b_prev := h\<rparr>) else B (b_prev c))"
      using calculation sel(2,3) c' by auto
    ultimately show ?thesis using c' by auto
  qed
qed

lemma join_map_ok:
  assumes "blocks_ok B" "B h = Some b" "\<not> b_last b" "B (block_end h b) = Some d"
  shows "blocks_ok (join_map h b d B)"
proof -
  have "dom (join_map h b d B) \<subseteq> insert h (dom B)" by (auto elim!: join_map_cases [OF assms(1,2,4)])
  then have "finite (dom (join_map h b d B))" using assms(1) finite_subset unfolding blocks_ok_def by blast
  then show ?thesis
    unfolding blocks_ok_def using join_map_block_ok [OF assms] join_map_disjoint [OF assms] join_map_next [OF assms] join_map_prev [OF assms] by blast
qed

subsection \<open>Cutting a block, in memory\<close>

lemma block_at_other:
  assumes "apart N" "k \<in> N" "x \<in> N" "k \<noteq> x"
  shows "block_at (m(x := w)) k c = block_at m k c" "block_at (set_ptr (x + 8) p m) k c = block_at m k c"
  using assms by (simp_all add: block_at_def ptr_at_def set_ptr_def)

lemma block_at_write:
  "block_ok h c \<Longrightarrow> block_at ((set_ptr (h + 8) (b_prev c) m)(h := header_of c)) h c"
  "block_ok h c \<Longrightarrow> block_at m h c' \<Longrightarrow> b_prev c = b_prev c' \<Longrightarrow> block_at (m(h := header_of c)) h c"
  "block_at m h c \<Longrightarrow> p < h \<Longrightarrow> block_at (set_ptr (h + 8) p m) h (c\<lparr>b_prev := p\<rparr>)"
  by (auto simp: block_at_def block_ok_def block_end_def header_of_def ptr_at_def set_ptr_def unat_of_nat)

lemma split_map_frame:
  assumes "blocks_ok B" "B h = Some b" "\<not> b_used b" "n + 288 \<le> b_size b"
  shows "heads_ok S B \<Longrightarrow> heads_ok S (split_map h n b B)"
    "F \<subseteq> free_set B \<Longrightarrow> F \<subseteq> free_set (split_map h n b B)"
    "k \<in> dom B \<Longrightarrow> k \<noteq> h \<Longrightarrow> size_of (split_map h n b B) k = size_of B k"
    "dom (split_map h n b B) = insert h (insert (h + 16 + n) (dom B))"
proof -
  let ?B = "split_map h n b B"
  note c = split_map_cases [OF assms(1,2,4)] and sel = split_map_sel [OF assms(1,2,4)]
  have other: "?B k = B k \<or> (\<exists>d. B k = Some d \<and> ?B k = Some (d\<lparr>b_prev := h + 16 + n\<rparr>))" if "k \<noteq> h" "k \<noteq> h + 16 + n" for k
    using sel(3) [OF that] sel(4) blocks_okD(11) [OF assms(1,2)] by (cases "b_last b \<or> k \<noteq> block_end h b") auto
  have n2: "B (h + 16 + n) = None"
  proof (cases "B (h + 16 + n)")
    case (Some c) then show ?thesis using blocks_neighbour [OF assms(1,2) Some] assms(4) by (auto simp: block_end_def)
  qed
  have same: "\<exists>d'. ?B k = Some d' \<and> b_size d' = b_size d \<and> b_used d' = b_used d" if "B k = Some d" "k \<noteq> h" for k d
    using other [of k] that n2 by (cases "k = h + 16 + n") auto
  show "heads_ok S ?B" if h: "heads_ok S B"
    unfolding heads_ok_def
  proof (intro conjI allI impI)
    show "S \<noteq> 0" "S + 512 < 2 ^ 60" using h by (auto simp: heads_ok_def)
    have hb: "block_end k c \<le> S \<or> S + 512 \<le> k" if "B k = Some c" for k c using h that by (auto simp: heads_ok_def)
    fix k c assume "?B k = Some c"
    then show "block_end k c \<le> S \<or> S + 512 \<le> k"
    proof (rule c)
      show "block_end k c \<le> S \<or> S + 512 \<le> k" if "B k = Some d" "c = d\<lparr>b_prev := h + 16 + n\<rparr>" for d
        using hb [OF that(1)] that(2) by simp
    qed (use hb hb [OF assms(2)] assms(4) in \<open>auto simp: block_end_def\<close>)
  qed
  show "F \<subseteq> free_set ?B" if f: "F \<subseteq> free_set B"
  proof
    fix k assume "k \<in> F"
    then obtain d where d: "B k = Some d" "\<not> b_used d" using f by (auto simp: free_set_def)
    then show "k \<in> free_set ?B" using same [OF d(1)] sel(1) assms(3) by (cases "k = h") (auto simp: free_set_def)
  qed
  show "size_of ?B k = size_of B k" if k: "k \<in> dom B" "k \<noteq> h"
    using same [of k] k by (auto simp: size_of_def)
  show "dom ?B = insert h (insert (h + 16 + n) (dom B))"
  proof (intro equalityI subsetI)
    fix k assume "k \<in> insert h (insert (h + 16 + n) (dom B))"
    then show "k \<in> dom ?B" using other [of k] sel(1,2) by fastforce
  qed (auto elim!: c)
qed

lemma owned_header: "B h = Some b \<Longrightarrow> blocks_ok B \<Longrightarrow> k < 16 \<Longrightarrow> h + k \<in> owned S B"
  unfolding owned_def by (intro UnI2 CollectI exI [of _ h] exI [of _ b]) (simp add: block_end_def)

lemma unchanged_upd: "c \<in> R \<Longrightarrow> unchanged R m m' \<Longrightarrow> unchanged R m (m'(c := w))"
  by (auto simp: unchanged_def)

lemma owned_inside: "B h = Some b \<Longrightarrow> \<not> b_used b \<Longrightarrow> h \<le> c \<Longrightarrow> c < block_end h b \<Longrightarrow> c \<in> owned S B"
  unfolding owned_def by (intro UnI2 CollectI exI [of _ h] exI [of _ b]) simp

lemma split_cells:
  assumes "heap_repr S B F m" "B h = Some b" "\<not> b_used b" "256 \<le> n" "8 dvd n" "n + 288 \<le> b_size b"
  shows "\<exists>m'. SplitMemoryBlocks h n m = Some (h + 16 + n, m') \<and> mem_blocks (split_map h n b B) m' \<and>
    (\<forall>c. m' c \<noteq> m c \<longrightarrow> c \<in> {h, h + 8, h + 16 + n, h + 16 + n + 8} \<or> \<not> b_last b \<and> c = block_end h b + 8)"
proof -
  note r = heap_reprD [OF assms(1)]
  define B' h2 b1 b2 where "B' = split_map h n b B" and "h2 = h + 16 + n" and "b1 = b\<lparr>b_size := n, b_last := False\<rparr>" and
    "b2 = \<lparr>b_size = b_size b - n - 16, b_used = False, b_last = b_last b, b_prev = h, b_pad = 0\<rparr>"
  note sel = split_map_sel [OF r(1) assms(2,6), folded B'_def h2_def b1_def b2_def] and
    c = split_map_cases [OF r(1) assms(2,6), folded B'_def h2_def b1_def b2_def]
  have ok: "blocks_ok B'" "heads_ok S B'" using split_map_ok [OF r(1) assms(2-6)] split_map_frame(1) [OF r(1) assms(2,3,6) r(2)] by (simp_all add: B'_def)
  have N: "apart (dom B')" using apart_nodes [OF ok] by (auto simp: apart_def)
  have bo: "block_ok h b1" "block_ok h2 b2" "block_ok h2 (b2\<lparr>b_last := False\<rparr>)"
    using blocks_okD(1) [OF ok(1)] sel(1,2) by (auto simp: block_ok_def block_end_def)
  have s: "b_size b < 2 ^ 60" "b_pad b = 0" "h \<noteq> h2" "h2 < block_end h b"
    using blocks_okD(6,8) [OF r(1) assms(2)] assms(3,6) by (auto simp: block_end_def h2_def)
  have at: "block_at m k c" if "B k = Some c" for k c using block_atI [OF r(1,3) that] .
  have dom: "h \<in> dom B'" "h2 \<in> dom B'" "\<And>k. \<not> b_last b \<Longrightarrow> block_end h b \<in> dom B'" using sel blocks_okD(11) [OF r(1) assms(2)] by auto
  define m1 where "m1 = (set_ptr (h2 + 8) h m)(h2 := header_of (b2\<lparr>b_last := False\<rparr>))"
  define m2 where "m2 = (if b_last b then m1(h2 := header_of b2) else set_ptr (block_end h b + 8) h2 m1)"
  define m3 where "m3 = (set_ptr (h + 8) (b_prev b) m2)(h := header_of b1)"
  have at1: "block_at m1 h2 (b2\<lparr>b_last := False\<rparr>)" "\<And>k c. k \<in> dom B' \<Longrightarrow> k \<noteq> h2 \<Longrightarrow> block_at m k c \<Longrightarrow> block_at m1 k c"
    using block_at_write(1) [OF bo(3)] dom by (auto simp: m1_def b2_def block_at_other [OF N])
  have at2: "block_at m2 h2 b2" "\<And>k c. k \<in> dom B' \<Longrightarrow> k \<noteq> h2 \<Longrightarrow> b_last b \<or> k \<noteq> block_end h b \<Longrightarrow> block_at m k c \<Longrightarrow> block_at m2 k c"
    using at1 block_at_write(2) [OF bo(2) at1(1)] dom s(4) by (cases "b_last b"; simp add: m2_def b2_def block_at_other [OF N])+
  have at2': "block_at m2 (block_end h b) (d\<lparr>b_prev := h2\<rparr>)" if "\<not> b_last b" "B (block_end h b) = Some d" for d
    using at1(2) [OF dom(3) _ at [OF that(2)]] block_at_write(3) that(1) s(4) by (simp add: m2_def)
  have m1: "Initialize h2 (b_size b - n - 16) h m = Some m1" using s(1) by (simp add: Initialize_eq m1_def header_of_def b2_def)
  have "block_end h2 (b2\<lparr>b_last := False\<rparr>) = block_end h b" using assms(6) by (simp add: b2_def h2_def block_end_def)
  then have m2: "(if b_last b then SetLastBlockInPool h2 m1 else do { nxt \<leftarrow> GetNextHeader h2 m1; Some (SetPrevHeader nxt h2 m1) }) = Some m2"
    using write_at(1) [OF at1(1)] read_at(5) [OF at1(1)] by (auto simp: m2_def SetPrevHeader_def b2_def)
  have m3: "Initialize h n (GetPrevHeader h m2) m2 = Some m3"
    using read_at(4) [OF at2(2) [OF dom(1) s(3) _ at [OF assms(2)]]] s assms(3,6) by (simp add: Initialize_eq m3_def header_of_def b1_def)
  have "SplitMemoryBlocks h n m = Some (h2, m3)"
    using read_at [OF at [OF assms(2)]] m1 m2 m3 assms(3,6) read_at(3) [OF at1(2) [OF dom(1) s(3) at [OF assms(2)]]]
    unfolding h2_def by (cases "b_last b") (simp_all add: SplitMemoryBlocks_def Let_def)
  moreover have "mem_blocks B' m3"
  proof (rule mem_blocksI)
    fix k c' assume k: "B' k = Some c'"
    have "block_at m3 k c'" if "k \<noteq> h" "block_at m2 k c'" using that k dom by (simp add: m3_def block_at_other [OF N] domI)
    moreover have "block_at m3 h b1" using block_at_write(1) [OF bo(1)] by (simp add: m3_def b1_def)
    moreover have "block_at m2 k c'" if "k \<noteq> h"
      by (rule c [OF k]) (use that at2(1) at2' at2(2) [OF domI [of B', OF k] _ _ at] in auto)
    ultimately show "block_at m3 k c'" using sel(1) k by (cases "k = h") auto
  qed
  moreover have "\<forall>c. m3 c \<noteq> m c \<longrightarrow> c \<in> {h, h + 8, h2, h2 + 8} \<or> \<not> b_last b \<and> c = block_end h b + 8"
    by (auto simp: m3_def m2_def m1_def set_ptr_def)
  ultimately show ?thesis by (auto simp: B'_def h2_def)
qed

lemma split_repr:
  assumes "heap_repr S B F m" "B h = Some b" "\<not> b_used b" "h \<notin> F" "256 \<le> n" "8 dvd n" "n + 288 \<le> b_size b"
  shows "\<exists>m'. SplitMemoryBlocks h n m = Some (h + 16 + n, m') \<and> heap_repr S (split_map h n b B) F m' \<and> unchanged (owned S B) m m'"
proof -
  note r = heap_reprD [OF assms(1)] and fr = split_map_frame [OF heap_reprD(1) [OF assms(1)] assms(2,3,7)]
  obtain m' where m': "SplitMemoryBlocks h n m = Some (h + 16 + n, m')" "mem_blocks (split_map h n b B) m'"
    "\<forall>c. m' c \<noteq> m c \<longrightarrow> c \<in> {h, h + 8, h + 16 + n, h + 16 + n + 8} \<or> \<not> b_last b \<and> c = block_end h b + 8"
    using split_cells [OF assms(1-3,5-7)] by blast
  obtain d where d: "\<not> b_last b \<Longrightarrow> B (block_end h b) = Some d" using blocks_okD(11) [OF r(1) assms(2)] by blast
  have "heap_repr S (split_map h n b B) F m'"
  proof (rule reheader [OF assms(1) split_map_ok [OF r(1) assms(2,3,5-7)] fr(1) [OF r(2)] m'(2) fr(2) [OF r(4)]])
    show "\<forall>k\<in>F. size_of (split_map h n b B) k = size_of B k" using fr(3) r(8) assms(4) by blast
    show "\<forall>c. m' c \<noteq> m c \<longrightarrow> (\<exists>k\<in>dom (split_map h n b B). c = k \<or> c = k + 8)" using m'(3) d unfolding fr(4) by blast
  qed
  moreover have "c \<in> owned S B" if "m' c \<noteq> m c" for c
  proof -
    have "c \<in> owned S B" if "c \<in> {h, h + 8, h + 16 + n, h + 16 + n + 8}"
      using that assms(7) by (intro owned_inside [of B h b, OF assms(2,3)]) (auto simp: block_end_def)
    then show ?thesis using m'(3) that owned_header [of B "block_end h b" d 8 S] d r(1) by auto
  qed
  ultimately show ?thesis using m'(1) by (auto simp: unchanged_def)
qed

lemma heap_repr_cong:
  assumes "heap_repr S B F m" "\<forall>c\<in>owned S B. m' c = m c"
  shows "heap_repr S B F m'"
proof -
  note r = heap_reprD [OF assms(1)]
  have "mem_blocks B m'"
    unfolding mem_blocks_def
  proof (intro allI impI)
    fix h b assume h: "B h = Some b"
    have "h + 0 \<in> owned S B" "h + 8 \<in> owned S B" by (rule owned_header [of B h b, OF h r(1)]; simp)+
    then show "m' h = header_of b \<and> ptr_at (h + 8) m' = b_prev b" using r(3) h assms(2) by (simp add: mem_blocks_def ptr_at_def)
  qed
  moreover have "\<exists>xs. list_ok S B F m' i xs" if i: "i < 16" for i
  proof -
    obtain xs where xs: "list_ok S B F m i xs" using r(5) [OF i] by blast
    have hd: "m' (list_head S i + k) = m (list_head S i + k)" if "k < 32" for k using assms(2) owned_head [OF i that] by blast
    have F: "m' (x + k) = m (x + k)" if x: "x \<in> set xs" "k < 256" for x k
    proof -
      have "x \<in> free_set B" using x(1) xs r(4) by (auto simp: list_ok_def)
      then obtain b where "B x = Some b" "\<not> b_used b" by (auto simp: free_set_def)
      then show ?thesis using owned_free [OF assms(1) _ _ x(2)] assms(2) by blast
    qed
    have "chain m' (list_head S i) xs = chain m (list_head S i) xs"
      by (rule chain_cong) (use hd [of 16] F [of _ 16] F [of _ 24] in \<open>auto simp: ptr_at_def\<close>)
    then have "list_ok S B F m' i xs" using xs hd [of 0] by (simp add: list_ok_def)
    then show ?thesis ..
  qed
  ultimately show ?thesis using r by (auto simp: heap_repr_def)
qed

subsection \<open>Joining two blocks, in memory\<close>

lemma join_map_frame:
  assumes "blocks_ok B" "B h = Some b" "\<not> b_last b" "B (block_end h b) = Some d"
  shows "heads_ok S B \<Longrightarrow> heads_ok S (join_map h b d B)"
    "F \<subseteq> free_set B \<Longrightarrow> block_end h b \<notin> F \<Longrightarrow> F \<subseteq> free_set (join_map h b d B)"
    "k \<in> dom B \<Longrightarrow> k \<noteq> h \<Longrightarrow> k \<noteq> block_end h b \<Longrightarrow> size_of (join_map h b d B) k = size_of B k"
    "dom (join_map h b d B) = dom B - {block_end h b}"
proof -
  let ?B = "join_map h b d B" and ?k = "block_end h b"
  note c = join_map_cases [OF assms(1,2,4)] and sel = join_map_sel [where h = h and b = b and d = d and B = B]
  have same: "\<exists>e'. ?B k = Some e' \<and> b_size e' = b_size e \<and> b_used e' = b_used e" if "B k = Some e" "k \<noteq> h" "k \<noteq> ?k" for k e
    using sel(2) [OF that(2,3)] sel(3) that(1) by (cases "b_last d \<or> k \<noteq> block_end ?k d") auto
  show "heads_ok S ?B" if h: "heads_ok S B"
    unfolding heads_ok_def
  proof (intro conjI allI impI)
    show "S \<noteq> 0" "S + 512 < 2 ^ 60" using h by (auto simp: heads_ok_def)
    have hb: "block_end k c \<le> S \<or> S + 512 \<le> k" if "B k = Some c" for k c using h that by (auto simp: heads_ok_def)
    fix k c assume "?B k = Some c"
    then show "block_end k c \<le> S \<or> S + 512 \<le> k"
    proof (rule c)
      show "block_end k c \<le> S \<or> S + 512 \<le> k" if "k = h" "c = joined b d"
        using hb [OF assms(2)] hb [OF assms(4)] that by (auto simp: block_end_def)
    qed (use hb in force)+
  qed
  show "F \<subseteq> free_set ?B" if f: "F \<subseteq> free_set B" "?k \<notin> F"
  proof
    fix k assume k: "k \<in> F"
    then obtain e where e: "B k = Some e" "\<not> b_used e" using f by (auto simp: free_set_def)
    then show "k \<in> free_set ?B" using same [OF e(1)] sel(1) k f(2) by (cases "k = h") (auto simp: free_set_def)
  qed
  show "size_of ?B k = size_of B k" if k: "k \<in> dom B" "k \<noteq> h" "k \<noteq> ?k"
    using same [of k] k by (auto simp: size_of_def)
  have "?B ?k = None" by (simp add: join_map_def upd_prev_def Let_def split: option.splits)
  moreover have "B x \<noteq> None \<and> x \<noteq> ?k" if "?B x = Some e" for x e
    by (rule c [OF that]) (use assms(2) in simp_all)
  moreover have "?B x \<noteq> None" if "B x = Some e" "x \<noteq> ?k" for x e
    using same [OF that(1)] that(2) sel(1) by (cases "x = h") auto
  ultimately show "dom ?B = dom B - {?k}" by (auto simp: dom_def)
qed

lemma join_cells:
  assumes "heap_repr S B F m" "B h = Some b" "\<not> b_last b" "B (block_end h b) = Some d" "\<not> b_used d"
  shows "\<exists>m'. CoalesceMemoryBlocks h (block_end h b) m = Some m' \<and> mem_blocks (join_map h b d B) m' \<and>
    (\<forall>c. m' c \<noteq> m c \<longrightarrow> c \<in> {h, h + 8} \<or> \<not> b_last d \<and> c = block_end (block_end h b) d + 8)"
proof -
  note r = heap_reprD [OF assms(1)]
  define B' k j where "B' = join_map h b d B" and "k = block_end h b" and "j = joined b d"
  note sel = join_map_sel [where h = h and b = b and d = d and B = B, folded B'_def k_def j_def] and
    c = join_map_cases [OF r(1) assms(2,4), folded B'_def k_def j_def]
  have ok: "blocks_ok B'" using join_map_ok [OF r(1) assms(2-4)] by (simp add: B'_def)
  have N: "apart (dom B)" using r(6) by (auto simp: apart_def)
  have dom: "dom B' = dom B - {k}" using join_map_frame(4) [OF r(1) assms(2-4)] by (simp add: B'_def k_def)
  have D: "h \<in> dom B" "k \<in> dom B" "\<And>k. \<not> b_last d \<Longrightarrow> block_end (block_end h b) d \<in> dom B" "h \<noteq> k"
    using assms(2,4) blocks_okD(11) [OF r(1) assms(4)] by (auto simp: k_def)
  have bo: "block_ok h j" "block_ok h (j\<lparr>b_last := False\<rparr>)" using blocks_okD(1) [OF ok] sel(1) by (auto simp: block_ok_def block_end_def)
  then have s: "b_size j < 2 ^ 60" by (simp add: block_ok_def block_end_def)
  have at: "block_at m k c" if "B k = Some c" for k c using block_atI [OF r(1,3) that] .
  define m1 where "m1 = (set_ptr (h + 8) (b_prev b) m)(h := header_of (j\<lparr>b_last := False\<rparr>))"
  define m2 where "m2 = (if b_last d then m1(h := header_of j) else set_ptr (block_end k d + 8) h m1)"
  have m1: "Initialize h (b_size b + b_size d + 16) (b_prev b) m = Some m1" using s by (simp add: Initialize_eq m1_def header_of_def j_def)
  have at1: "block_at m1 h (j\<lparr>b_last := False\<rparr>)" "\<And>k c. k \<in> dom B \<Longrightarrow> k \<noteq> h \<Longrightarrow> block_at m k c \<Longrightarrow> block_at m1 k c"
    using block_at_write(1) [OF bo(2)] D(1) by (auto simp: m1_def j_def block_at_other [OF N])
  have jl: "\<not> b_last d \<Longrightarrow> j\<lparr>b_last := False\<rparr> = j" by (simp add: j_def joined_def)
  have e: "block_end h (j\<lparr>b_last := False\<rparr>) = block_end k d" by (simp add: j_def k_def block_end_def)
  have "CoalesceMemoryBlocks h k m = Some m2"
    using read_at [OF at [OF assms(2)]] read_at [OF at [OF assms(4)]] assms(3,5) m1 read_at(3) [OF at1(2) [OF D(2) _ at [OF assms(4) [folded k_def]]]] D(4)
      write_at(1) [OF at1(1)] read_at(5) [OF at1(1)] e
    by (cases "b_last d") (simp_all add: CoalesceMemoryBlocks_def CanBeCoalescedWithNext_def k_def m2_def SetPrevHeader_def header_of_def j_def)
  moreover have "mem_blocks B' m2"
  proof (rule mem_blocksI)
    fix x c' assume x: "B' x = Some c'"
    have X: "x \<in> dom B" using domI [of B', OF x] dom by blast
    show "block_at m2 x c'"
    proof (cases rule: c [OF x])
      case 1
      then show ?thesis
        using block_at_write(2) [OF bo(1) at1(1)] at1(1) D jl by (cases "b_last d") (simp_all add: m2_def k_def block_at_other [OF N])
    next
      case (2 e)
      then have "block_at m1 x e" using at1(2) [OF X _ at] by (simp add: k_def)
      then show ?thesis using 2 block_at_write(3) [of m1 x e h] by (simp add: m2_def k_def)
    next
      case 3
      then have "block_at m1 x c'" using at1(2) [OF X _ at] by simp
      then show ?thesis
        using 3 block_at_other [OF N X D(1)] block_at_other(2) [OF N X D(3)] by (cases "b_last d") (simp_all add: m2_def k_def)
    qed
  qed
  moreover have "\<forall>c. m2 c \<noteq> m c \<longrightarrow> c \<in> {h, h + 8} \<or> \<not> b_last d \<and> c = block_end k d + 8"
    by (auto simp: m2_def m1_def set_ptr_def)
  ultimately show ?thesis by (auto simp: B'_def k_def)
qed

lemma join_repr:
  assumes "heap_repr S B F m" "B h = Some b" "\<not> b_last b" "B (block_end h b) = Some d" "\<not> b_used d" "h \<notin> F" "block_end h b \<notin> F"
  shows "\<exists>m'. CoalesceMemoryBlocks h (block_end h b) m = Some m' \<and> heap_repr S (join_map h b d B) F m' \<and> unchanged (owned S B) m m' \<and>
    m' (block_end h b) = m (block_end h b)"
proof -
  note r = heap_reprD [OF assms(1)] and fr = join_map_frame [OF heap_reprD(1) [OF assms(1)] assms(2-4)]
  obtain m' where m': "CoalesceMemoryBlocks h (block_end h b) m = Some m'" "mem_blocks (join_map h b d B) m'"
    "\<forall>c. m' c \<noteq> m c \<longrightarrow> c \<in> {h, h + 8} \<or> \<not> b_last d \<and> c = block_end (block_end h b) d + 8"
    using join_cells [OF assms(1-5)] by blast
  obtain e where e: "\<not> b_last d \<Longrightarrow> B (block_end (block_end h b) d) = Some e" using blocks_okD(11) [OF r(1) assms(4)] by blast
  have "heap_repr S (join_map h b d B) F m'"
  proof (rule reheader [OF assms(1) join_map_ok [OF r(1) assms(2-4)] fr(1) [OF r(2)] m'(2) fr(2) [OF r(4) assms(7)]])
    show "\<forall>k\<in>F. size_of (join_map h b d B) k = size_of B k" using fr(3) r(8) assms(6,7) by blast
    have "h \<in> dom (join_map h b d B)" using assms(2) by (simp add: fr(4) domI)
    moreover have "\<not> b_last d \<Longrightarrow> block_end (block_end h b) d \<in> dom (join_map h b d B)" using e by (simp add: fr(4) domI)
    ultimately show "\<forall>c. m' c \<noteq> m c \<longrightarrow> (\<exists>k\<in>dom (join_map h b d B). c = k \<or> c = k + 8)" using m'(3) by blast
  qed
  moreover have "c \<in> owned S B" if "m' c \<noteq> m c" for c
    using m'(3) that owned_header [of B h b 0 S] owned_header [of B h b 8 S] owned_header [of B "block_end (block_end h b) d" e 8 S] assms(2) e r(1) by auto
  moreover have "m' (block_end h b) = m (block_end h b)"
  proof (rule ccontr)
    assume "m' (block_end h b) \<noteq> m (block_end h b)"
    then have "block_end h b \<in> {h, h + 8} \<or> block_end h b = block_end (block_end h b) d + 8" using m'(3) by blast
    then show False by (auto simp: block_end_def)
  qed
  ultimately show ?thesis using m'(1) by (auto simp: unchanged_def)
qed

definition same_shape :: "block \<Rightarrow> block \<Rightarrow> bool" where
  "same_shape b b' \<longleftrightarrow> b_size b' = b_size b \<and> b_last b' = b_last b \<and> b_prev b' = b_prev b"

lemma upd_map:
  assumes "blocks_ok B" "B h = Some b" "block_ok h b'" "same_shape b b'"
  shows "blocks_ok (B(h \<mapsto> b'))" "heads_ok S B \<Longrightarrow> heads_ok S (B(h \<mapsto> b'))" "size_of (B(h \<mapsto> b')) k = size_of B k"
proof -
  let ?B = "B(h \<mapsto> b')"
  have old: "\<exists>d. B k = Some d \<and> block_end k c = block_end k d \<and> b_prev c = b_prev d \<and> b_last c = b_last d" if "?B k = Some c" for k c
    using that assms(2,4) by (cases "k = h") (auto simp: same_shape_def block_end_def)
  have new: "\<exists>c. ?B k = Some c \<and> block_end k c = block_end k d \<and> b_prev c = b_prev d \<and> b_last c = b_last d" if "B k = Some d" for k d
    using that assms(2,4) by (cases "k = h") (auto simp: same_shape_def block_end_def)
  have "finite (dom ?B)" using assms(1) by (simp add: blocks_ok_def)
  moreover have "block_ok k c" if "?B k = Some c" for k c
    using that blocks_okD(1) [OF assms(1), of k] assms(3) by (cases "k = h") auto
  moreover have "block_end k c \<le> k'" if "?B k = Some c" "?B k' = Some c'" "k < k'" for k c k' c'
    using old [OF that(1)] old [OF that(2)] blocks_okD(10) [OF assms(1)] that(3) by metis
  moreover have "\<exists>c'. ?B (block_end k c) = Some c' \<and> b_prev c' = k" if "?B k = Some c" "\<not> b_last c" for k c
    using old [OF that(1)] that(2) blocks_okD(11) [OF assms(1)] new by metis
  moreover have "\<exists>c'. ?B (b_prev c) = Some c' \<and> \<not> b_last c' \<and> block_end (b_prev c) c' = k" if "?B k = Some c" "b_prev c \<noteq> 0" for k c
    using old [OF that(1)] that(2) blocks_okD(12) [OF assms(1)] new by metis
  ultimately show "blocks_ok ?B" unfolding blocks_ok_def by blast
  show "heads_ok S B \<Longrightarrow> heads_ok S ?B" using old unfolding heads_ok_def by metis
  show "size_of ?B k = size_of B k" using assms(2,4) by (simp add: size_of_def same_shape_def)
qed

end
