(* ===== verification/FreeListCoalesce.thy ===== *)
theory FreeListCoalesce
  imports FreeListBlocks
begin

text \<open>
  Joining a free block with its free neighbours. After \<open>TryToCoalescing\<close> no two neighbouring blocks are free, the used blocks
  are the same, the same memory is cut into blocks, and the header of the released block still leads to the block behind the joined one.
\<close>

lemma upd_repr:
  assumes "heap_repr S B F m" "B h = Some b" "block_ok h b'" "same_shape b b'" "h \<notin> F"
  shows "heap_repr S (B(h \<mapsto> b')) F (m(h := header_of b'))" "unchanged (owned S B) m (m(h := header_of b'))"
proof -
  note r = heap_reprD [OF assms(1)] and u = upd_map [OF heap_reprD(1) [OF assms(1)] assms(2-4)]
  let ?B = "B(h \<mapsto> b')" and ?m = "m(h := header_of b')"
  have N: "apart (dom B)" using r(6) by (auto simp: apart_def)
  show "heap_repr S ?B F ?m"
  proof (rule reheader [OF assms(1) u(1) u(2) [OF r(2)]])
    show "mem_blocks ?B ?m"
    proof (rule mem_blocksI)
      fix k c assume k: "?B k = Some c"
      show "block_at ?m k c"
      proof (cases "k = h")
        case True
        then show ?thesis using k block_at_write(2) [OF assms(3) block_atI [OF r(1,3) assms(2)]] assms(4) by (auto simp: same_shape_def)
      next
        case False
        then have "block_at m k c" using k block_atI [OF r(1,3)] by simp
        then show ?thesis using block_at_other(1) [OF N, of k h] False k assms(2) by (simp add: domI)
      qed
    qed
    show "F \<subseteq> free_set ?B" using r(4) assms(5) by (auto simp: free_set_def)
    show "\<forall>k\<in>F. size_of ?B k = size_of B k" using u(3) by blast
    show "\<forall>c. ?m c \<noteq> m c \<longrightarrow> (\<exists>k\<in>dom ?B. c = k \<or> c = k + 8)" by auto
  qed
  show "unchanged (owned S B) m ?m" using owned_header [of B h b 0 S] assms(2) r(1) by (auto intro: unchanged_upd)
qed

subsection \<open>Neighbouring free blocks\<close>

text \<open>Two neighbouring free blocks.\<close>

definition adj :: "blocks \<Rightarrow> nat \<Rightarrow> nat \<Rightarrow> bool" where
  "adj B x y \<longleftrightarrow> (\<exists>c d. B x = Some c \<and> \<not> b_last c \<and> \<not> b_used c \<and> y = block_end x c \<and> B y = Some d \<and> \<not> b_used d)"

lemma adj_less: "adj B x y \<Longrightarrow> x < y"
  by (auto simp: adj_def)

lemma adj_unique: "blocks_ok B \<Longrightarrow> adj B x y \<Longrightarrow> adj B x' y \<Longrightarrow> x' = x"
  unfolding adj_def by (metis blocks_okD(11) option.inject)

lemma adj_join:
  assumes "blocks_ok B" "adj B h k" "B h = Some b" "B k = Some d" "adj (join_map h b d B) x y"
  shows "x = h \<and> adj B k y \<or> x \<noteq> h \<and> x \<noteq> k \<and> adj B x y"
proof -
  have a: "\<not> b_last b" "\<not> b_used b" "k = block_end h b" "\<not> b_used d" using assms(2-4) by (auto simp: adj_def)
  let ?B = "join_map h b d B"
  note c = join_map_cases [OF assms(1,3) assms(4) [unfolded a(3)]]
  obtain e f where e: "?B x = Some e" "\<not> b_last e" "\<not> b_used e" "y = block_end x e" "?B y = Some f" "\<not> b_used f"
    using assms(5) by (auto simp: adj_def)
  have old: "z = h \<and> c = joined b d \<or> (\<exists>c0. z \<noteq> h \<and> z \<noteq> k \<and> B z = Some c0 \<and> b_used c0 = b_used c \<and> b_last c0 = b_last c \<and> block_end z c0 = block_end z c)"
    if "?B z = Some c" for z c
    by (rule c [OF that]) (auto simp: a(3))
  have y: "\<exists>f0. B y = Some f0 \<and> \<not> b_used f0" using old [OF e(5)] e(6) assms(3) a(2) by auto
  from old [OF e(1)] show ?thesis
  proof (elim disjE exE conjE)
    assume "x = h" "e = joined b d"
    then show ?thesis using e y assms(4) a by (auto simp: adj_def)
  next
    fix c0 assume "x \<noteq> h" "x \<noteq> k" "B x = Some c0" "b_used c0 = b_used e" "b_last c0 = b_last e" "block_end x c0 = block_end x e"
    then show ?thesis using e y by (auto simp: adj_def)
  qed
qed

lemma can_coalesce:
  assumes "blocks_ok B" "mem_blocks B m" "B h = Some b" "\<not> b_used b"
  shows "\<exists>t. CanBeCoalescedWithNext h m = Some t \<and> (t \<longleftrightarrow> adj B h (block_end h b))"
    "CanBeCoalescedWithPrev h m \<longleftrightarrow> adj B (b_prev b) h" "adj B p h \<Longrightarrow> b_prev b = p"
proof -
  note rd = read_block [OF assms(1,2)]
  show "\<exists>t. CanBeCoalescedWithNext h m = Some t \<and> (t \<longleftrightarrow> adj B h (block_end h b))"
  proof (cases "b_last b")
    case False
    then obtain d where "B (block_end h b) = Some d" using blocks_okD(11) [OF assms(1,3)] by blast
    then show ?thesis using rd(3,5) [OF assms(3)] rd(1) False assms(3,4) by (auto simp: CanBeCoalescedWithNext_def adj_def)
  qed (use rd(3) [OF assms(3)] assms(3) in \<open>auto simp: CanBeCoalescedWithNext_def adj_def\<close>)
  show "CanBeCoalescedWithPrev h m \<longleftrightarrow> adj B (b_prev b) h"
  proof (cases "b_prev b = 0")
    case True
    then show ?thesis using rd(4) [OF assms(3)] blocks_okD(2) [OF assms(1)] by (auto simp: CanBeCoalescedWithPrev_def adj_def)
  next
    case False
    then obtain c where "B (b_prev b) = Some c" "\<not> b_last c" "block_end (b_prev b) c = h" using blocks_okD(12) [OF assms(1,3)] by blast
    then show ?thesis using rd(4) [OF assms(3)] rd(1) False assms(3,4) by (auto simp: CanBeCoalescedWithPrev_def adj_def)
  qed
  show "adj B p h \<Longrightarrow> b_prev b = p" using blocks_okD(11) [OF assms(1)] assms(3) unfolding adj_def by (metis option.inject)
qed

subsection \<open>What joining keeps\<close>

text \<open>What the client sees: the used blocks with their size and padding.\<close>

definition used_of :: "blocks \<Rightarrow> nat \<rightharpoonup> nat \<times> u64" where
  "used_of B x = (case B x of Some c \<Rightarrow> if b_used c then Some (b_size c, b_pad c) else None | None \<Rightarrow> None)"

definition region :: "blocks \<Rightarrow> nat set" where
  "region B = {c. \<exists>h b. B h = Some b \<and> h \<le> c \<and> c < block_end h b}"

lemma regionI: "B h = Some b \<Longrightarrow> h \<le> c \<Longrightarrow> c < block_end h b \<Longrightarrow> c \<in> region B"
  unfolding region_def by blast

text \<open>The ends of the pools, and maps that cut the same memory.\<close>

definition ends :: "blocks \<Rightarrow> nat set" where
  "ends B = {c. \<exists>h b. B h = Some b \<and> b_last b \<and> c = block_end h b}"

definition same_area :: "blocks \<Rightarrow> blocks \<Rightarrow> bool" where
  "same_area B B' \<longleftrightarrow> region B' = region B \<and> ends B' = ends B"

lemma same_area_refl [simp]: "same_area B B"
  by (simp add: same_area_def)

lemma same_area_trans: "same_area B B' \<Longrightarrow> same_area B' B'' \<Longrightarrow> same_area B B''"
  by (simp add: same_area_def)

lemma same_areaD: "same_area B B' \<Longrightarrow> region B' = region B" "same_area B B' \<Longrightarrow> ends B' = ends B"
  by (simp_all add: same_area_def)

lemma endsI: "B h = Some b \<Longrightarrow> b_last b \<Longrightarrow> block_end h b \<in> ends B"
  unfolding ends_def by blast

lemma same_areaI:
  assumes "\<And>x c z. B x = Some c \<Longrightarrow> x \<le> z \<Longrightarrow> z < block_end x c \<Longrightarrow> z \<in> region B'" "\<And>x c. B x = Some c \<Longrightarrow> b_last c \<Longrightarrow> block_end x c \<in> ends B'"
    "\<And>x c z. B' x = Some c \<Longrightarrow> x \<le> z \<Longrightarrow> z < block_end x c \<Longrightarrow> z \<in> region B" "\<And>x c. B' x = Some c \<Longrightarrow> b_last c \<Longrightarrow> block_end x c \<in> ends B"
  shows "same_area B B'"
proof -
  have "region B' = region B" using assms(1,3) unfolding region_def by blast
  moreover have "ends B' = ends B" using assms(2,4) unfolding ends_def by blast
  ultimately show ?thesis by (simp add: same_area_def)
qed

lemma owned_region: "owned S B \<subseteq> {S..<S + 512} \<union> region B"
  by (force simp: owned_def region_def block_end_def split: if_splits)

lemma used_of_eqI:
  assumes "\<And>x c. B x = Some c \<Longrightarrow> b_used c \<Longrightarrow> \<exists>c'. B' x = Some c' \<and> b_used c' \<and> b_size c' = b_size c \<and> b_pad c' = b_pad c"
    "\<And>x c. B' x = Some c \<Longrightarrow> b_used c \<Longrightarrow> \<exists>c'. B x = Some c' \<and> b_used c'"
  shows "used_of B' = used_of B"
proof
  fix x show "used_of B' x = used_of B x"
    using assms(1) [of x] assms(2) [of x] by (auto simp: used_of_def split: option.splits)
qed

lemma owned_block: "B x = Some c \<Longrightarrow> x \<le> z \<Longrightarrow> z < (if b_used c then x + 16 else block_end x c) \<Longrightarrow> z \<in> owned S B"
  unfolding owned_def by blast

lemma join_area:
  assumes "blocks_ok B" "B h = Some b" "B (block_end h b) = Some d" "\<not> b_last b"
  shows "same_area B (join_map h b d B)"
proof (rule same_areaI)
  let ?B = "join_map h b d B" and ?k = "block_end h b"
  note c = join_map_cases [OF assms(1-3)] and sel = join_map_sel [where h = h and b = b and d = d and B = B]
  have old: "\<exists>c'. ?B x = Some c' \<and> block_end x c' = block_end x c \<and> b_last c' = b_last c" if x: "B x = Some c" "x \<noteq> h" "x \<noteq> ?k" for x c
    using sel(2,3) x by (cases "b_last d \<or> x \<noteq> block_end ?k d") auto
  fix x c z
  show "z \<in> region ?B" if x: "B x = Some c" "x \<le> z" "z < block_end x c"
  proof (cases "x = h \<or> x = ?k")
    case True
    then have "h \<le> z" "z < block_end h (joined b d)" using x assms(2,3) by (auto simp: block_end_def)
    then show ?thesis using regionI [of ?B h "joined b d" z] sel(1) by simp
  next
    case False
    then obtain c' where "?B x = Some c'" "block_end x c' = block_end x c" using old [OF x(1)] by blast
    then show ?thesis using regionI [of ?B x c' z] x(2,3) by simp
  qed
  show "block_end x c \<in> ends ?B" if x: "B x = Some c" "b_last c"
  proof (cases "x = ?k")
    case True
    then show ?thesis using endsI [of ?B h "joined b d"] sel(1) x assms(3) by simp
  next
    case False
    moreover have "x \<noteq> h" using x assms(2,4) by auto
    ultimately obtain c' where "?B x = Some c'" "block_end x c' = block_end x c" "b_last c'" using old [OF x(1)] x(2) by blast
    then show ?thesis using endsI [of ?B x c'] by simp
  qed
  show "z \<in> region B" if x: "?B x = Some c" "x \<le> z" "z < block_end x c"
  proof (cases rule: c [OF x(1)])
    case 1
    then have "h \<le> z \<and> z < ?k \<or> ?k \<le> z \<and> z < block_end ?k d" using x by auto
    then show ?thesis using regionI [of B h b z] regionI [of B ?k d z] assms(2,3) by auto
  next
    case (2 e) then show ?thesis using regionI [of B x e z] x by simp
  next
    case 3 then show ?thesis using regionI [of B x c z] x by simp
  qed
  show "block_end x c \<in> ends B" if x: "?B x = Some c" "b_last c"
  proof (cases rule: c [OF x(1)])
    case 1 then show ?thesis using endsI [of B ?k d] assms(3) x(2) by simp
  next
    case (2 e) then show ?thesis using endsI [of B x e] x by simp
  next
    case 3 then show ?thesis using endsI [of B x c] x by simp
  qed
qed

lemma used_join:
  assumes "blocks_ok B" "adj B h k" "B h = Some b" "B k = Some d"
  shows "used_of (join_map h b d B) = used_of B" "owned S (join_map h b d B) \<subseteq> owned S B" "free_set (join_map h b d B) = free_set B - {k}"
    "same_area B (join_map h b d B)"
proof -
  have a: "\<not> b_last b" "\<not> b_used b" "k = block_end h b" "\<not> b_used d" using assms(2-4) by (auto simp: adj_def)
  let ?B = "join_map h b d B"
  note c = join_map_cases [OF assms(1,3) assms(4) [unfolded a(3)]] and sel = join_map_sel [where h = h and b = b and d = d and B = B, folded a(3)]
  have new: "\<exists>c'. ?B x = Some c' \<and> b_used c' \<and> b_size c' = b_size c \<and> b_pad c' = b_pad c" if x: "B x = Some c" "b_used c" for x c
  proof -
    have "x \<noteq> h" "x \<noteq> k" using x assms(3,4) a by auto
    then show ?thesis using sel(2,3) x by (cases "b_last d \<or> x \<noteq> block_end k d") auto
  qed
  show "used_of ?B = used_of B" by (rule used_of_eqI) (auto elim!: c dest: new)
  show "owned S ?B \<subseteq> owned S B"
  proof
    fix z assume "z \<in> owned S ?B"
    then consider "z \<in> {S..<S + 512}" | x c where "?B x = Some c" "x \<le> z" "z < (if b_used c then x + 16 else block_end x c)" by (auto simp: owned_def)
    then show "z \<in> owned S B"
    proof cases
      case (2 x c')
      show ?thesis
      proof (cases rule: c [OF 2(1)])
        case 1
        then have "h \<le> z \<and> z < block_end h b \<or> k \<le> z \<and> z < block_end k d" using 2 a(3) by auto
        then show ?thesis using owned_inside [of B h b z] owned_inside [of B k d z] assms(3,4) a by auto
      next
        case (2 e)
        then have "block_end x c' = block_end x e" "b_used c' = b_used e" by simp_all
        then show ?thesis using owned_block [of B x e, OF 2(3) \<open>x \<le> z\<close>] \<open>z < (if b_used c' then x + 16 else block_end x c')\<close> by (simp split: if_splits)
      next
        case 3 then show ?thesis using owned_block [of B x c' z] \<open>x \<le> z\<close> \<open>z < (if b_used c' then x + 16 else block_end x c')\<close> by simp
      qed
    qed (simp add: owned_def)
  qed
  show "same_area B ?B" by (rule join_area [OF assms(1,3) assms(4) [unfolded a(3)] a(1)])
  have "x \<in> free_set B - {k}" if x: "x \<in> free_set ?B" for x
  proof -
    obtain e where e: "?B x = Some e" "\<not> b_used e" using x by (auto simp: free_set_def)
    show ?thesis by (rule c [OF e(1)]) (use e(2) assms(3) a in \<open>auto simp: free_set_def\<close>)
  qed
  moreover have "free_set B - {k} \<subseteq> free_set ?B" using join_map_frame(2) [OF assms(1,3) a(1) assms(4) [unfolded a(3)], of "free_set B - {k}"] a(3)
    by blast
  ultimately show "free_set ?B = free_set B - {k}" by blast
qed

lemma unchanged_mono: "unchanged R m m' \<Longrightarrow> R \<subseteq> R' \<Longrightarrow> unchanged R' m m'"
  by (auto simp: unchanged_def)

lemma join_step:
  assumes "heap_repr S B F m" "F = free_set B - {h}" "adj B x y" "h = x \<or> h = y" "B x = Some b" "B y = Some d"
  shows "\<exists>m1 m'. PopFromFreeList (if h = x then y else x) m = Some m1 \<and> CoalesceMemoryBlocks x y m1 = Some m' \<and>
    heap_repr S (join_map x b d B) (free_set (join_map x b d B) - {x}) m' \<and> unchanged (owned S B) m m' \<and> m' y = m y"
proof -
  have a: "\<not> b_last b" "\<not> b_used b" "y = block_end x b" "\<not> b_used d" "x \<noteq> y" using assms(3,5,6) by (auto simp: adj_def)
  let ?o = "if h = x then y else x"
  have o: "?o \<in> F" using assms(2,4-6) a by (auto simp: free_set_def)
  obtain m1 where m1: "PopFromFreeList ?o m = Some m1" "heap_repr S B (F - {?o}) m1" "unchanged (owned S B) m m1" using pop_from_list [OF assms(1) o] by blast
  have F: "x \<notin> F - {?o}" "block_end x b \<notin> F - {?o}" using assms(2,4) a by auto
  obtain m' where m': "CoalesceMemoryBlocks x y m1 = Some m'" "heap_repr S (join_map x b d B) (F - {?o}) m'" "unchanged (owned S B) m1 m'" "m' y = m1 y"
    using join_repr [OF m1(2) assms(5) a(1) _ a(4) F] assms(6) a(3) by auto
  have "F - {?o} = free_set (join_map x b d B) - {x}"
    using used_join(3) [OF heap_reprD(1) [OF assms(1)] assms(3,5,6)] assms(2,4) by auto
  moreover have "m1 y = m y" using heap_reprD(3) [OF assms(1)] heap_reprD(3) [OF m1(2)] assms(6) by (simp add: mem_blocks_def)
  moreover have "unchanged (owned S B) m m'" by (rule unchanged_trans [OF m1(3) m'(3)])
  ultimately show ?thesis using m1(1) m' by (intro exI [of _ m1] exI [of _ m']) simp
qed

subsection \<open>Joining with both neighbours\<close>

lemma GetNextHeader_cong: "m' h = m h \<Longrightarrow> GetNextHeader h m' = GetNextHeader h m"
  by (simp add: GetNextHeader_def IsLastBlockInPool_def GetSize_def IsPaddingHeader_def GetPaddingStatus_def)

text \<open>A header that may lie inside of a block, and whose next header is that of the block.\<close>

definition leads :: "blocks \<Rightarrow> nat \<Rightarrow> cells \<Rightarrow> nat \<Rightarrow> bool" where
  "leads B h m k \<longleftrightarrow> (\<exists>c. B k = Some c \<and> (h = k \<or> k + 32 \<le> h) \<and> h < block_end k c \<and> GetNextHeader h m = Some (if b_last c then 0 else block_end k c))"

lemma leads_self: "blocks_ok B \<Longrightarrow> mem_blocks B m \<Longrightarrow> B h = Some b \<Longrightarrow> leads B h m h"
  using read_block(5) [of B m h b] by (simp add: leads_def)

text \<open>Coalescing a free block that is in no list.\<close>

lemma coalesce_next:
  assumes "heap_repr S B (free_set B - {h}) m" "B h = Some b" "\<not> b_used b" "\<forall>x y. adj B x y \<longrightarrow> x = h \<or> y = h"
  shows "\<exists>t B' m' b'. CanBeCoalescedWithNext h m = Some t \<and>
    (if t then do { nxt \<leftarrow> GetNextHeader h m; if IsUsed nxt m then None else do { m \<leftarrow> PopFromFreeList nxt m; CoalesceMemoryBlocks h nxt m } } else Some m) = Some m' \<and>
    heap_repr S B' (free_set B' - {h}) m' \<and> B' h = Some b' \<and> \<not> b_used b' \<and> (\<forall>x y. adj B' x y \<longrightarrow> y = h) \<and>
    used_of B' = used_of B \<and> owned S B' \<subseteq> owned S B \<and> same_area B B' \<and> unchanged (owned S B) m m' \<and> ((\<forall>x y. \<not> adj B x y) \<longrightarrow> B' = B \<and> m' = m)"
proof -
  note r = heap_reprD [OF assms(1)]
  obtain t where t: "CanBeCoalescedWithNext h m = Some t" "t \<longleftrightarrow> adj B h (block_end h b)" using can_coalesce(1) [OF r(1,3) assms(2,3)] by blast
  show ?thesis
  proof (cases t)
    case False
    have "y = h" if a: "adj B x y" for x y
    proof (rule ccontr)
      assume "y \<noteq> h"
      then have "x = h" using assms(4) a by blast
      then show False using a False t(2) assms(2) by (auto simp: adj_def)
    qed
    then show ?thesis
      by (intro exI [of _ t] exI [of _ B] exI [of _ m] exI [of _ b]) (use t(1) False assms(1-3) in simp)
  next
    case True
    define k where "k = block_end h b"
    have k: "adj B h k" using t True by (simp add: k_def)
    obtain d where d: "B k = Some d" "\<not> b_used d" "\<not> b_last b" using k assms(2) by (auto simp: adj_def)
    let ?B = "join_map h b d B"
    obtain m1 m' where m': "PopFromFreeList k m = Some m1" "CoalesceMemoryBlocks h k m1 = Some m'" "heap_repr S ?B (free_set ?B - {h}) m'" "unchanged (owned S B) m m'"
      using join_step [OF assms(1) refl k _ assms(2) d(1)] by auto
    have rd: "GetNextHeader h m = Some k" "\<not> IsUsed k m" using read_block(5) [OF r(1,3) assms(2)] read_block(1) [OF r(1,3) d(1)] d by (auto simp: k_def)
    have y: "y = h" if a: "adj ?B x y" for x y
      using adj_join [OF r(1) k assms(2) d(1) a] assms(4) adj_less [OF k] adj_less [of B k y] by auto
    have na: "\<not> (\<forall>x y. \<not> adj B x y)" using k by blast
    note uj = used_join [OF r(1) k assms(2) d(1)]
    show ?thesis
      by (rule exI [of _ t], rule exI [of _ ?B], rule exI [of _ m'], rule exI [of _ "joined b d"])
        (use t(1) True m' rd uj(1,2,4) join_map_sel(1) [of h b d B] y na in \<open>simp, blast\<close>)
  qed
qed

lemma coalesce:
  assumes "heap_repr S B (free_set B - {h}) m" "B h = Some b" "\<not> b_used b" "\<forall>x y. adj B x y \<longrightarrow> x = h \<or> y = h"
  shows "\<exists>k m' B'. TryToCoalescing h m = Some (k, m') \<and> heap_repr S B' (free_set B' - {k}) m' \<and> k \<in> free_set B' \<and> (\<forall>x y. \<not> adj B' x y) \<and>
    used_of B' = used_of B \<and> owned S B' \<subseteq> owned S B \<and> same_area B B' \<and> unchanged (owned S B) m m' \<and> leads B' h m' k \<and>
    ((\<forall>x y. \<not> adj B x y) \<longrightarrow> k = h \<and> m' = m \<and> B' = B)"
proof -
  obtain t B' m' b' where n: "CanBeCoalescedWithNext h m = Some t"
    "(if t then do { nxt \<leftarrow> GetNextHeader h m; if IsUsed nxt m then None else do { m \<leftarrow> PopFromFreeList nxt m; CoalesceMemoryBlocks h nxt m } } else Some m) = Some m'"
    "heap_repr S B' (free_set B' - {h}) m'" "B' h = Some b'" "\<not> b_used b'" "\<forall>x y. adj B' x y \<longrightarrow> y = h"
    "used_of B' = used_of B" "owned S B' \<subseteq> owned S B" "unchanged (owned S B) m m'" "same_area B B'"
    "(\<forall>x y. \<not> adj B x y) \<longrightarrow> B' = B \<and> m' = m"
    using coalesce_next [OF assms] by blast
  note r = heap_reprD [OF n(3)] and cp = can_coalesce(2,3) [OF heap_reprD(1,3) [OF n(3)] n(4,5)]
  have coal: "TryToCoalescing h m = (if CanBeCoalescedWithPrev h m'
      then do { let prev = GetPrevHeader h m'; m \<leftarrow> PopFromFreeList prev m'; m \<leftarrow> CoalesceMemoryBlocks prev h m; Some (prev, m) } else Some (h, m'))"
    using n(1,2) blocks_okD(2) [OF r(1) n(4)] by (simp add: TryToCoalescing_def)
  show ?thesis
  proof (cases "adj B' (b_prev b') h")
    case False
    then have "\<not> adj B' x y" for x y using n(6) cp(2) by blast
    then show ?thesis using coal False cp(1) n leads_self [OF r(1,3) n(4)] by (intro exI [of _ h] exI [of _ m'] exI [of _ B']) (auto simp: free_set_def)
  next
    case True
    define p where "p = b_prev b'"
    have p: "adj B' p h" "p \<noteq> h" using True adj_less by (auto simp: p_def)
    obtain c where c: "B' p = Some c" using p by (auto simp: adj_def)
    let ?B = "join_map p c b' B'"
    obtain m1 m2 where m2: "PopFromFreeList p m' = Some m1" "CoalesceMemoryBlocks p h m1 = Some m2" "heap_repr S ?B (free_set ?B - {p}) m2" "unchanged (owned S B') m' m2" "m2 h = m' h"
      using join_step [OF n(3) refl p(1) _ c n(4)] p(2) by auto
    have "TryToCoalescing h m = Some (p, m2)"
      using coal cp(1) True m2(1,2) read_block(4) [OF r(1,3) n(4)] by (simp add: p_def)
    moreover have "\<not> adj ?B x y" for x y
      using adj_join [OF r(1) p(1) c n(4), of x y] n(6) adj_less [of B' h y] adj_unique [OF r(1) p(1)] by fastforce
    moreover have "unchanged (owned S B) m m2" using unchanged_trans [OF n(9) unchanged_mono [OF m2(4) n(8)]] .
    moreover have "\<exists>x y. adj B x y" using n(11) p(1) by blast
    moreover have "p \<in> free_set ?B" using join_map_sel(1) [of p c b' B'] by (auto simp: free_set_def)
    moreover have "used_of ?B = used_of B" using used_join(1) [OF r(1) p(1) c n(4)] n(7) by simp
    moreover have "owned S ?B \<subseteq> owned S B" using used_join(2) [OF r(1) p(1) c n(4)] n(8) by blast
    moreover have "same_area B ?B" by (rule same_area_trans [OF n(10) used_join(4) [OF r(1) p(1) c n(4)]])
    moreover have "leads ?B h m2 p"
    proof -
      have e: "block_end p c = h" "256 \<le> b_size c" using p(1) c blocks_okD(5) [OF r(1) c] by (auto simp: adj_def)
      then have "block_end p (joined c b') = block_end h b'" "p + 32 \<le> h" by (auto simp: block_end_def)
      moreover have "GetNextHeader h m2 = Some (if b_last b' then 0 else block_end h b')" using GetNextHeader_cong [of m2 h m', OF m2(5)] read_block(5) [OF r(1,3) n(4)] by simp
      ultimately show ?thesis using join_map_sel(1) [of p c b' B'] by (simp add: leads_def)
    qed
    ultimately show ?thesis using m2(3) by blast
  qed
qed

end
