(* ===== verification/FreeListOperations.thy ===== *)
theory FreeListOperations
  imports FreeListCoalesce
begin

text \<open>
  \<open>Alloc\<close> and \<open>FreeUnsafe\<close> on a represented heap: rounding and alignment, the padding in front of an aligned object, the
  use of the whole block or of its first part, and the release of a block.
\<close>

text \<open>A write that misses the headers and the links.\<close>

lemma write_inside:
  assumes "heap_repr S B F m" "B k = Some b" "k \<notin> F" "k + 16 \<le> c" "c < block_end k b"
  shows "heap_repr S B F (m(c := w))"
proof -
  note r = heap_reprD [OF assms(1)]
  have blk: "x \<noteq> c" "x + 8 \<noteq> c" "x \<noteq> k \<Longrightarrow> x + 16 \<noteq> c \<and> x + 24 \<noteq> c" if x: "B x = Some d" for x d
    using blocks_neighbour [OF r(1) assms(2) x] blocks_okD(5) [OF r(1) x] assms(4,5) by (auto simp: block_end_def)
  have hd: "x \<noteq> c" "x + 16 \<noteq> c" if "x \<in> heads S" for x
  proof -
    have "block_end k b \<le> S \<or> S + 512 \<le> k" using r(2) assms(2) by (auto simp: heads_ok_def)
    then show "x \<noteq> c" "x + 16 \<noteq> c" using that assms(4,5) by (auto simp: heads_def list_head_def)
  qed
  have "list_ok S B F (m(c := w)) i xs" if "i < 16" "list_ok S B F m i xs" for i xs
  proof -
    have F: "x + 16 \<noteq> c" "x + 24 \<noteq> c" if "x \<in> set xs" for x
      using that \<open>list_ok S B F m i xs\<close> blk(3) assms(3) r(8) [of x] by (auto simp: list_ok_def)
    have "chain (m(c := w)) (list_head S i) xs = chain m (list_head S i) xs"
      by (rule chain_cong) (use F hd(2) [OF head_in [OF that(1)]] in \<open>auto simp: ptr_at_def\<close>)
    then show ?thesis using that(2) hd(1) [OF head_in [OF that(1)]] by (simp add: list_ok_def)
  qed
  moreover have "mem_blocks B (m(c := w))" using r(3) blk by (simp add: mem_blocks_def ptr_at_def)
  ultimately show ?thesis using assms(1) unfolding heap_repr_def by blast
qed

subsection \<open>Alignment\<close>

lemma align_down: "unat (w AND NOT (mask k)) = unat w div 2 ^ k * 2 ^ k" for w :: u64
proof -
  have "unat (w AND NOT (mask k)) = push_bit k (drop_bit k (unat w))"
    by (rule bit_eqI) (auto simp: bit_simps dest: bit_imp_le_length)
  then show ?thesis by (simp add: push_bit_eq_mult drop_bit_eq_div)
qed

lemma AlignUp_eq: "v + 2 ^ k \<le> 2 ^ 64 \<Longrightarrow> AlignUp v (2 ^ k) = (v + 2 ^ k - 1) div 2 ^ k * 2 ^ k"
proof -
  assume a: "v + 2 ^ k \<le> 2 ^ 64"
  have m: "(of_nat (2 ^ k - 1) :: u64) = mask k" by (simp add: mask_eq_exp_minus_1 of_nat_diff)
  have "unat (of_nat (v + 2 ^ k - 1) :: u64) = v + 2 ^ k - 1" using a by (simp add: unat_of_nat)
  then show ?thesis unfolding AlignUp_def m align_down by simp
qed

lemma AlignUp_bounds:
  assumes "v + 2 ^ k \<le> 2 ^ 64"
  shows "v \<le> AlignUp v (2 ^ k)" "AlignUp v (2 ^ k) < v + 2 ^ k" "2 ^ k dvd AlignUp v (2 ^ k)" "2 ^ k dvd v \<Longrightarrow> AlignUp v (2 ^ k) = v"
proof -
  have p: "0 < (2 :: nat) ^ k" by simp
  have d: "(v + 2 ^ k - 1) div 2 ^ k * 2 ^ k + (v + 2 ^ k - 1) mod 2 ^ k = v + 2 ^ k - 1" by (rule div_mult_mod_eq)
  have m: "(v + 2 ^ k - 1) mod 2 ^ k < 2 ^ k" using p by simp
  show 1: "v \<le> AlignUp v (2 ^ k)" "AlignUp v (2 ^ k) < v + 2 ^ k" unfolding AlignUp_eq [OF assms] using d m p by linarith+
  show 2: "2 ^ k dvd AlignUp v (2 ^ k)" unfolding AlignUp_eq [OF assms] by simp
  show "AlignUp v (2 ^ k) = v" if v: "2 ^ k dvd v"
  proof (rule ccontr)
    assume "AlignUp v (2 ^ k) \<noteq> v"
    then have "0 < AlignUp v (2 ^ k) - v" "AlignUp v (2 ^ k) - v < 2 ^ k" using 1 by auto
    moreover have "2 ^ k dvd AlignUp v (2 ^ k) - v" using 2 v by simp
    ultimately show False using dvd_imp_le by fastforce
  qed
qed

subsection \<open>What cutting keeps\<close>

lemma split_map_old:
  assumes "blocks_ok B" "B h = Some b" "\<not> b_used b" "n + 288 \<le> b_size b" "split_map h n b B x = Some c"
  obtains "x = h" "\<not> b_used c" "block_end x c = h + 16 + n"
  | "x = h + 16 + n" "\<not> b_used c" "block_end x c = block_end h b" "b_last c = b_last b"
  | d where "x \<noteq> h" "x \<noteq> h + 16 + n" "B x = Some d" "b_used d = b_used c" "block_end x d = block_end x c" "b_last d = b_last c"
proof (cases rule: split_map_cases [OF assms(1,2,4,5)])
  case 1 then show ?thesis using that(1) assms(3) by (simp add: block_end_def)
next
  case 2 then show ?thesis using that(2) assms(4) by (simp add: block_end_def)
next
  case (3 d) then show ?thesis using that(3) [of d] assms(4) by (simp add: block_end_def)
next
  case 4 then show ?thesis using that(3) by blast
qed

lemma split_map_new:
  assumes "blocks_ok B" "B h = Some b" "n + 288 \<le> b_size b" "B x = Some c" "x \<noteq> h"
  shows "x \<noteq> h + 16 + n" "block_end x c \<noteq> h + 16 + n"
    "\<exists>d. split_map h n b B x = Some d \<and> b_used d = b_used c \<and> b_size d = b_size c \<and> b_pad d = b_pad c \<and> b_last d = b_last c"
proof -
  note sel = split_map_sel [OF assms(1-3)]
  show 1: "x \<noteq> h + 16 + n" "block_end x c \<noteq> h + 16 + n" using blocks_neighbour [OF assms(1,2,4)] assms(3,5) by (auto simp: block_end_def)
  show "\<exists>d. split_map h n b B x = Some d \<and> b_used d = b_used c \<and> b_size d = b_size c \<and> b_pad d = b_pad c \<and> b_last d = b_last c"
    using sel(3) [OF assms(5) 1(1)] sel(4) assms(4) by (cases "b_last b \<or> x \<noteq> block_end h b") auto
qed

lemma split_area:
  assumes "blocks_ok B" "B h = Some b" "\<not> b_used b" "n + 288 \<le> b_size b"
  shows "same_area B (split_map h n b B)"
proof (rule same_areaI)
  let ?B = "split_map h n b B" and ?h2 = "h + 16 + n"
  note old = split_map_old [OF assms] and sel = split_map_sel [OF assms(1,2,4)]
  have bd: "h \<le> ?h2" "?h2 < block_end h b" using assms(4) by (auto simp: block_end_def)
  have e: "block_end h (b\<lparr>b_size := n, b_last := False\<rparr>) = ?h2"
    "block_end ?h2 \<lparr>b_size = b_size b - n - 16, b_used = False, b_last = b_last b, b_prev = h, b_pad = 0\<rparr> = block_end h b"
    using assms(4) by (simp_all add: block_end_def)
  have new: "\<exists>d. ?B x = Some d \<and> block_end x d = block_end x c \<and> b_last d = b_last c" if "B x = Some c" "x \<noteq> h" for x c
    using split_map_new(3) [OF assms(1,2,4) that] by (auto simp: block_end_def)
  fix x c z
  show "z \<in> region ?B" if x: "B x = Some c" "x \<le> z" "z < block_end x c"
  proof (cases "x = h")
    case True
    then have "z < ?h2 \<or> ?h2 \<le> z \<and> z < block_end h b" "h \<le> z" using x assms(2) by auto
    then show ?thesis using regionI [of ?B, OF sel(1), of z] regionI [of ?B, OF sel(2), of z] e by auto
  next
    case False
    then obtain d where "?B x = Some d" "block_end x d = block_end x c" using new [OF x(1)] by blast
    then show ?thesis using regionI [of ?B x d z] x(2,3) by simp
  qed
  show "block_end x c \<in> ends ?B" if x: "B x = Some c" "b_last c"
  proof (cases "x = h")
    case True
    then show ?thesis using endsI [of ?B, OF sel(2)] e(2) x assms(2) by auto
  next
    case False
    then obtain d where "?B x = Some d" "block_end x d = block_end x c" "b_last d" using new [OF x(1)] x(2) by blast
    then show ?thesis using endsI [of ?B x d] by simp
  qed
  show "z \<in> region B" if x: "?B x = Some c" "x \<le> z" "z < block_end x c"
  proof (cases rule: old [OF x(1)])
    case (3 d) then show ?thesis using regionI [of B x d z] x by simp
  qed (use x bd regionI [of B h b z] assms(2) in simp_all)
  show "block_end x c \<in> ends B" if x: "?B x = Some c" "b_last c"
  proof (cases rule: old [OF x(1)])
    case 1 then show ?thesis using sel(1) x by auto
  next
    case 2 then show ?thesis using endsI [of B h b] assms(2) x(2) by simp
  next
    case (3 d) then show ?thesis using endsI [of B x d] x(2) by simp
  qed
qed

lemma split_sets:
  assumes "blocks_ok B" "B h = Some b" "\<not> b_used b" "n + 288 \<le> b_size b"
  shows "used_of (split_map h n b B) = used_of B" "same_area B (split_map h n b B)" "free_set (split_map h n b B) = insert (h + 16 + n) (free_set B)"
    "owned S (split_map h n b B) \<subseteq> owned S B"
proof -
  let ?B = "split_map h n b B" and ?h2 = "h + 16 + n"
  note old = split_map_old [OF assms] and new = split_map_new [OF assms(1,2,4)] and sel = split_map_sel [OF assms(1,2,4)]
  have bd: "h \<le> ?h2" "?h2 < block_end h b" using assms(4) by (auto simp: block_end_def)
  show "used_of ?B = used_of B"
  proof (rule used_of_eqI)
    fix x c assume x: "B x = Some c" "b_used c"
    then have "x \<noteq> h" using assms(2,3) by auto
    then show "\<exists>c'. ?B x = Some c' \<and> b_used c' \<and> b_size c' = b_size c \<and> b_pad c' = b_pad c" using new(3) [OF x(1)] x(2) by auto
  next
    fix x c assume "?B x = Some c" "b_used c"
    then show "\<exists>c'. B x = Some c' \<and> b_used c'" by (auto elim!: old)
  qed
  show "same_area B ?B" by (rule split_area [OF assms])
  show "owned S ?B \<subseteq> owned S B"
  proof
    fix z assume "z \<in> owned S ?B"
    then consider "z \<in> {S..<S + 512}" | x c where "?B x = Some c" "x \<le> z" "z < (if b_used c then x + 16 else block_end x c)" by (auto simp: owned_def)
    then show "z \<in> owned S B"
    proof cases
      case x: (2 x c')
      show ?thesis
      proof (cases rule: old [OF x(1)])
        case (3 d) then show ?thesis using owned_block [of B x d z S] x by (simp split: if_splits)
      qed (use x bd owned_inside [of B h b z S] assms(2,3) in simp_all)
    qed (simp add: owned_def)
  qed
  show "free_set ?B = insert ?h2 (free_set B)"
  proof (intro equalityI subsetI)
    fix x assume "x \<in> free_set ?B"
    then obtain c where "?B x = Some c" "\<not> b_used c" by (auto simp: free_set_def)
    then show "x \<in> insert ?h2 (free_set B)" using assms(2,3) by (auto simp: free_set_def elim!: old)
  next
    fix x assume "x \<in> insert ?h2 (free_set B)"
    then show "x \<in> free_set ?B" using new(3) [of x] sel(1,2) assms(3) by (cases "x = h") (auto simp: free_set_def)
  qed
qed

lemma split_adj:
  assumes "blocks_ok B" "B h = Some b" "\<not> b_used b" "n + 288 \<le> b_size b" "adj (split_map h n b B) x y"
  shows "x = h \<or> y = h \<or> adj B x y \<or> x = h + 16 + n \<and> adj B h y"
proof -
  let ?B = "split_map h n b B" and ?h2 = "h + 16 + n"
  note old = split_map_old [OF assms(1-4)] and new = split_map_new [OF assms(1,2,4)]
  obtain e f where e: "?B x = Some e" "\<not> b_last e" "\<not> b_used e" "y = block_end x e" "?B y = Some f" "\<not> b_used f" using assms(5) by (auto simp: adj_def)
  have y: "y = h \<or> y = ?h2 \<or> (\<exists>g. B y = Some g \<and> \<not> b_used g)" by (rule old [OF e(5)]) (use e(6) in auto)
  show ?thesis
  proof (cases rule: old [OF e(1)])
    case 2
    then have "y \<noteq> h" "y \<noteq> ?h2" using e(4) assms(4) by (auto simp: block_end_def)
    then show ?thesis using 2 e y assms(2,3) by (auto simp: adj_def)
  next
    case (3 d)
    then show ?thesis using new(2) [OF 3(3,1)] e y by (auto simp: adj_def)
  qed simp
qed

lemma same_shape_use [simp]: "same_shape b (b\<lparr>b_used := u\<rparr>)" "same_shape b (b\<lparr>b_pad := q\<rparr>)"
  by (simp_all add: same_shape_def)

lemma area_upd:
  assumes "B k = Some b" "same_shape b b'"
  shows "same_area B (B(k \<mapsto> b'))"
proof (rule same_areaI)
  let ?B = "B(k \<mapsto> b')"
  have e: "block_end k b' = block_end k b" "b_last b' = b_last b" using assms(2) by (simp_all add: same_shape_def block_end_def)
  fix x c z
  show "z \<in> region ?B" if "B x = Some c" "x \<le> z" "z < block_end x c"
    using regionI [of ?B k b' z] regionI [of ?B x c z] that e assms(1) by (cases "x = k") simp_all
  show "block_end x c \<in> ends ?B" if "B x = Some c" "b_last c"
    using endsI [of ?B k b'] endsI [of ?B x c] that e assms(1) by (cases "x = k") simp_all
  show "z \<in> region B" if "?B x = Some c" "x \<le> z" "z < block_end x c"
    using regionI [of B k b z] regionI [of B x c z] that e assms(1) by (cases "x = k") simp_all
  show "block_end x c \<in> ends B" if "?B x = Some c" "b_last c"
  proof (cases "x = k")
    case True
    then have "c = b'" using that(1) by simp
    then show ?thesis using endsI [of B k b] assms(1) True e that(2) by metis
  next
    case False
    then show ?thesis using endsI [of B x c] that by simp
  qed
qed

lemma use_sets:
  assumes "B k = Some b" "\<not> b_used b" "same_shape b b'" "b_used b'"
  shows "used_of (B(k \<mapsto> b')) = (used_of B)(k \<mapsto> (b_size b, b_pad b'))" "same_area B (B(k \<mapsto> b'))" "free_set (B(k \<mapsto> b')) = free_set B - {k}"
    "owned S (B(k \<mapsto> b')) \<subseteq> owned S B" "adj (B(k \<mapsto> b')) x y \<Longrightarrow> adj B x y \<and> x \<noteq> k \<and> y \<noteq> k"
proof -
  have e: "block_end k b' = block_end k b" "b_size b' = b_size b" using assms(3) by (auto simp: same_shape_def block_end_def)
  show "used_of (B(k \<mapsto> b')) = (used_of B)(k \<mapsto> (b_size b, b_pad b'))" using assms e by (auto simp: used_of_def fun_eq_iff)
  show "free_set (B(k \<mapsto> b')) = free_set B - {k}" using assms by (auto simp: free_set_def)
  show "adj (B(k \<mapsto> b')) x y \<Longrightarrow> adj B x y \<and> x \<noteq> k \<and> y \<noteq> k" using assms by (auto simp: adj_def split: if_splits)
  show "same_area B (B(k \<mapsto> b'))" by (rule area_upd [of B k b, OF assms(1,3)])
  show "owned S (B(k \<mapsto> b')) \<subseteq> owned S B"
  proof
    fix z assume "z \<in> owned S (B(k \<mapsto> b'))"
    then consider "z \<in> {S..<S + 512}" | x c where "(B(k \<mapsto> b')) x = Some c" "x \<le> z" "z < (if b_used c then x + 16 else block_end x c)" by (auto simp: owned_def)
    then show "z \<in> owned S B"
    proof cases
      case (2 x c)
      show ?thesis
      proof (cases "x = k")
        case True
        then have "z < block_end k b" using 2 assms(4) by (auto simp: block_end_def)
        then show ?thesis using owned_inside [of B k b z] assms(1,2) 2 True by simp
      qed (use 2 owned_block [of B x c z] in simp)
    qed (simp add: owned_def)
  qed
qed

lemma block_ok_use: "block_ok h b \<Longrightarrow> b_pad b = 0 \<Longrightarrow> q \<in> {0, 2, 3} \<Longrightarrow> block_ok h (b\<lparr>b_used := True, b_pad := q\<rparr>)"
  by (auto simp: block_ok_def block_end_def)

lemma use_whole_block:
  assumes "heap_repr S B (free_set B - {k}) m" "B k = Some b" "\<not> b_used b" "\<forall>x y. \<not> adj B x y"
  shows "\<exists>m'. SetUsed k m = Some m' \<and> heap_repr S (B(k \<mapsto> b\<lparr>b_used := True\<rparr>)) (free_set (B(k \<mapsto> b\<lparr>b_used := True\<rparr>))) m' \<and> unchanged (owned S B) m m'"
proof -
  note r = heap_reprD [OF assms(1)]
  have "block_ok k (b\<lparr>b_used := True\<rparr>)" using blocks_okD(1) [OF r(1) assms(2)] by (auto simp: block_ok_def block_end_def)
  then show ?thesis
    using write_at(2) [OF block_atI [OF r(1,3) assms(2)] assms(3)] upd_repr [OF assms(1,2)] use_sets(3) [of B k b "b\<lparr>b_used := True\<rparr>"] assms(2,3)
    by auto
qed

lemma use_first_part:
  assumes "heap_repr S B (free_set B - {k}) m" "B k = Some b" "\<not> b_used b" "\<forall>x y. \<not> adj B x y" "256 \<le> n" "8 dvd n" "n + 288 \<le> b_size b"
  shows "\<exists>m'. take_block S k n m = Some m' \<and>
    (let B' = (split_map k n b B)(k \<mapsto> b\<lparr>b_size := n, b_last := False, b_used := True\<rparr>)
     in heap_repr S B' (free_set B') m' \<and> (\<forall>x y. \<not> adj B' x y) \<and> owned S B' \<subseteq> owned S B \<and> same_area B B' \<and>
        used_of B' = (used_of B)(k \<mapsto> (n, 0)) \<and> unchanged (owned S B) m m')"
proof -
  note r = heap_reprD [OF assms(1)]
  let ?h = "k + 16 + n" and ?b = "b\<lparr>b_size := n, b_last := False\<rparr>"
  define B1 where "B1 = split_map k n b B"
  define B2 where "B2 = B1(k \<mapsto> ?b\<lparr>b_used := True\<rparr>)"
  note sp = split_sets [OF r(1) assms(2,3,7), folded B1_def] and sel = split_map_sel [OF r(1) assms(2,7), folded B1_def]
  have us: "used_of B2 = (used_of B1)(k \<mapsto> (n, b_pad b))" "same_area B1 B2" "free_set B2 = free_set B1 - {k}" "owned S B2 \<subseteq> owned S B1"
    "\<And>x y. adj B2 x y \<Longrightarrow> adj B1 x y \<and> x \<noteq> k \<and> y \<noteq> k"
    using use_sets [of B1 k ?b "?b\<lparr>b_used := True\<rparr>"] sel(1) assms(3) unfolding B2_def by auto
  obtain m1 where m1: "SplitMemoryBlocks k n m = Some (?h, m1)" "heap_repr S B1 (free_set B - {k}) m1" "unchanged (owned S B) m m1"
    using split_repr [OF assms(1-3) _ assms(5-7)] by (auto simp: B1_def)
  note r1 = heap_reprD [OF m1(2)]
  have bo: "block_ok k (?b\<lparr>b_used := True\<rparr>)" using blocks_okD(1) [OF r1(1) sel(1)] by (auto simp: block_ok_def block_end_def)
  have pad: "b_pad b = 0" using blocks_okD(8) [OF r(1) assms(2,3)] .
  define m2 where "m2 = m1(k := header_of (?b\<lparr>b_used := True\<rparr>))"
  have m2: "SetUsed k m1 = Some m2" using write_at(2) [OF block_atI [OF r1(1,3) sel(1)]] assms(3) by (simp add: m2_def)
  have h2: "B (?h) = None" "?h \<noteq> k" using split_map_new(1) [OF r(1) assms(2,7), of ?h] by (auto intro: ccontr)
  have F: "free_set B - {k} = free_set B2 - {?h}" using us(3) sp(3) h2 by (auto simp: free_set_def)
  have "k \<notin> free_set B - {k}" by simp
  note up = upd_repr [OF m1(2) sel(1) bo same_shape_use(1) this]
  have R2: "heap_repr S B2 (free_set B2 - {?h}) m2" using up(1) F by (simp add: B2_def m2_def)
  have U2: "unchanged (owned S B) m m2" unfolding m2_def by (rule unchanged_trans [OF m1(3) unchanged_mono [OF up(2) sp(4)]])
  have noadj: "\<not> adj B2 x y" for x y
    using us(5) [of x y] split_adj [OF r(1) assms(2,3,7), of x y] assms(4) unfolding B1_def by blast
  obtain d where d: "B2 ?h = Some d" "\<not> b_used d" using sel(2) h2(2) by (auto simp: B2_def)
  have co: "TryToCoalescing ?h m2 = Some (?h, m2)" using coalesce [OF R2 d] noadj by blast
  obtain m3 where m3: "AddMemoryBlock S ?h m2 = Some m3" "heap_repr S B2 (free_set B2) m3" "unchanged (owned S B2) m2 m3"
    using add_to_list [OF R2, of ?h] d by (auto simp: free_set_def insert_absorb)
  have rd: "GetSize k m = Some (b_size b)" "\<not> IsUsed ?h m2" using read_block(2) [OF r(1,3) assms(2)] read_block(1) [OF heap_reprD(1,3) [OF R2] d(1)] d(2) by auto
  have "288 \<le> b_size b - n" using assms(7) by simp
  then have "take_block S k n m = Some m3"
    using rd m1(1) m2 co m3(1) by (simp add: take_block_def CanCreateNewBlockFromRemainder_def FREELIST_ALLOCATOR_MIN_SIZE_def)
  moreover have "owned S B2 \<subseteq> owned S B" using us(4) sp(4) by blast
  moreover have "unchanged (owned S B) m m3" using unchanged_trans [OF U2 unchanged_mono [OF m3(3)]] calculation(2) by blast
  ultimately show ?thesis using m3(2) noadj us(1) sp(1) same_area_trans [OF sp(2) us(2)] pad by (simp add: B2_def B1_def Let_def)
qed

subsection \<open>Finding and padding a block\<close>

lemma alloc_size_ok:
  assumes "n = max (max sz 256) (AlignUp (max sz 256) 8)" "n \<le> FREELIST_MAX_ALLOC_SIZE"
  shows "256 \<le> n" "8 dvd n" "sz \<le> n"
proof -
  have "max sz 256 + 2 ^ 3 \<le> 2 ^ 64" using assms by (simp add: FREELIST_MAX_ALLOC_SIZE_def)
  note al = AlignUp_bounds [OF this]
  have "n = AlignUp (max sz 256) 8" using assms(1) al(1) by simp
  then show "256 \<le> n" "8 dvd n" "sz \<le> n" using al(1,3) by auto
qed

definition padded_size :: "nat \<Rightarrow> nat \<Rightarrow> nat" where
  "padded_size n al = (if al \<noteq> 3 then n + (2 ^ al + 16) else n)"

lemma take_from_lists:
  assumes "heap_repr S B (free_set B) m" "256 \<le> n" "al \<le> 13"
  shows "\<exists>k m'. GetFromSegregatedList S n al m = Some (k, m') \<and>
    (if \<exists>x\<in>free_set B. padded_size n al \<le> size_of B x
     then k \<in> free_set B \<and> padded_size n al \<le> size_of B k \<and> (\<forall>x\<in>free_set B. padded_size n al \<le> size_of B x \<longrightarrow> size_of B k \<le> size_of B x) \<and>
       heap_repr S B (free_set B - {k}) m' \<and> unchanged (owned S B) m m'
     else k = 0 \<and> m' = m)"
proof -
  have p: "256 \<le> padded_size n al" using assms(2) by (simp add: padded_size_def)
  obtain k where k: "FindMemoryBlock S (padded_size n al) m = Some k"
    "if \<exists>x\<in>free_set B. padded_size n al \<le> size_of B x then k \<in> free_set B \<and> padded_size n al \<le> size_of B k \<and>
       (\<forall>x\<in>free_set B. padded_size n al \<le> size_of B x \<longrightarrow> size_of B k \<le> size_of B x) else k = 0"
    using find_block [OF assms(1) p] by blast
  have g: "GetFromSegregatedList S n al m = (if k = 0 then Some (0, m)
      else do { m \<leftarrow> PopFromFreeList k m; raw \<leftarrow> GetMemory k m; block_size \<leftarrow> GetSize k m;
                if AlignUp raw (2 ^ al) - raw + n \<le> block_size then Some (k, m) else None })"
    using k(1) by (auto simp: GetFromSegregatedList_def GetAlignmentInBytes_def padded_size_def split: if_splits)
  show ?thesis
  proof (cases "\<exists>x\<in>free_set B. padded_size n al \<le> size_of B x")
    case True
    then have kk: "k \<in> free_set B" "padded_size n al \<le> size_of B k" using k(2) by auto
    obtain b where b: "B k = Some b" "\<not> b_used b" using kk(1) by (auto simp: free_set_def)
    obtain m' where m': "PopFromFreeList k m = Some m'" "heap_repr S B (free_set B - {k}) m'" "unchanged (owned S B) m m'"
      using pop_from_list [OF assms(1) kk(1)] by blast
    note r = heap_reprD [OF m'(2)]
    note rd = read_block [OF r(1,3) b(1)]
    have "k \<noteq> 0" using blocks_okD(2) [OF r(1) b(1)] .
    moreover have "AlignUp (k + 16) (2 ^ al) - (k + 16) + n \<le> b_size b"
    proof -
      have e: "k + 16 < 2 ^ 60" "8 dvd k" using blocks_okD(3,6) [OF r(1) b(1)] by (auto simp: block_end_def)
      have "(2 :: nat) ^ al \<le> 2 ^ 13" using assms(3) by (intro power_increasing) auto
      then have "k + 16 + 2 ^ al \<le> 2 ^ 64" using e(1) by simp
      note al = AlignUp_bounds [OF this]
      show ?thesis using al(1,2,4) e(2) kk(2) b(1) by (cases "al = 3") (auto simp: padded_size_def size_of_def)
    qed
    ultimately have "GetFromSegregatedList S n al m = Some (k, m')" using g m'(1) rd(2,9) b(2) by simp
    then show ?thesis using True k(2) m' by auto
  qed (use g k(2) in auto)
qed

lemma nat_and_mask: "x AND (2 ^ k - Suc 0) = x mod 2 ^ k" for x :: nat
  using take_bit_eq_mask [of k x] by (simp add: take_bit_eq_mod mask_eq_exp_minus_1)

lemma pad_block:
  assumes "heap_repr S B F m" "B k = Some b" "\<not> b_used b" "k \<notin> F" "256 \<le> n" "8 dvd n" "al \<le> 13" "padded_size n al \<le> b_size b"
  shows "\<exists>a n' t m'. add_padding_header k (k + 16) n al m = Some (a, n', t, m') \<and> heap_repr S B F m' \<and> unchanged (owned S B) m m' \<and>
    2 ^ al dvd a \<and> n' = n + (a - (k + 16)) \<and> n' \<le> b_size b \<and> 8 dvd n' \<and> (if t then k + 32 \<le> a else a = k + 16) \<and> (al \<le> 3 \<longrightarrow> \<not> t)"
proof (cases "2 ^ al dvd k + 16")
  case True
  then have "add_padding_header k (k + 16) n al m = Some (k + 16, n, False, m)"
    by (simp add: add_padding_header_def GetAlignmentInBytes_def nat_and_mask mod_eq_0_iff_dvd)
  then show ?thesis using True assms by (auto simp: padded_size_def split: if_splits)
next
  case False
  note r = heap_reprD [OF assms(1)]
  have k: "block_end k b < 2 ^ 60" "8 dvd k" using blocks_okD(3,6) [OF r(1) assms(2)] by auto
  have al: "3 < al"
  proof (rule ccontr)
    assume "\<not> 3 < al"
    then have "(2 :: nat) ^ al dvd 2 ^ 3" by (intro le_imp_power_dvd) simp
    then show False using False k(2) dvd_trans [of "2 ^ al" 8 "k + 16"] by (simp add: dvd_add)
  qed
  define a where "a = AlignUp (k + 16 + 16) (2 ^ al)"
  have "(2 :: nat) ^ al \<le> 2 ^ 13" using assms(7) by (intro power_increasing) auto
  then have "k + 16 + 16 + 2 ^ al \<le> 2 ^ 64" using k(1) by (simp add: block_end_def)
  note bd = AlignUp_bounds [OF this, folded a_def]
  have d8: "8 dvd a - (k + 16)"
  proof -
    have "(2 :: nat) ^ 3 dvd 2 ^ al" using al by (intro le_imp_power_dvd) simp
    then have "8 dvd a" using bd(3) dvd_trans [of 8 "2 ^ al" a] by simp
    then show ?thesis using k(2) by simp
  qed
  have s: "n + (a - (k + 16)) \<le> b_size b" using bd(1,2) assms(8) al by (simp add: padded_size_def)
  have inside: "k + 16 \<le> a - 16" "a - 16 + 8 < block_end k b" using bd(1) s assms(5) by (auto simp: block_end_def)
  define m1 where "m1 = (set_ptr (a - 16 + 8) k m)(a - 16 := header n 0 False False)"
  define m2 where "m2 = m1(a - 16 := header n 1 False False)"
  have n: "n < 2 ^ 60" using s k(1) by (simp add: block_end_def)
  have m1: "Initialize (a - 16) n k m = Some m1" using n by (simp add: Initialize_eq m1_def)
  have m2: "SetAsPaddingHeader (a - 16) m1 = Some m2"
    by (simp add: SetAsPaddingHeader_def set_padding_def IsPaddingHeader_def IsPaddingSizeStoredAfterHeader_def IsPaddingHeaderStoredAfterHeader_def m1_def m2_def header_set_status)
  have 1: "add_padding_header k (k + 16) n al m = Some (a, n + (a - (k + 16)), True, m2)"
    using False m1 m2 s read_block(2) [OF r(1,3) assms(2)]
    by (simp add: add_padding_header_def GetAlignmentInBytes_def nat_and_mask mod_eq_0_iff_dvd Let_def a_def)
  have 2: "heap_repr S B F m2"
    unfolding m2_def m1_def set_ptr_def using assms(1-4) inside by (intro write_inside [where k = k and b = b]) auto
  have 3: "unchanged (owned S B) m m2"
    unfolding m2_def m1_def set_ptr_def using assms(2,3) inside by (intro unchanged_upd owned_inside [where h = k and b = b] unchanged_refl) auto
  have 4: "8 dvd n + (a - (k + 16))" using d8 assms(6) by (rule dvd_add [rotated])
  have 5: "k + 32 \<le> a" using bd(1) by simp
  show ?thesis
    by (rule exI [of _ a], rule exI [of _ "n + (a - (k + 16))"], rule exI [of _ True], rule exI [of _ m2]) (use 1 2 3 4 5 bd(3) s al in simp)
qed

lemma record_pad:
  assumes "heap_repr S B (free_set B) m" "B k = Some b" "b_used b" "b_pad b = 0" "k + 32 \<le> a" "a < block_end k b" "\<forall>x y. \<not> adj B x y"
  shows "\<exists>m' q. record_padding k a m = Some m' \<and> q \<in> {2, 3} \<and> heap_repr S (B(k \<mapsto> b\<lparr>b_pad := q\<rparr>)) (free_set B) m' \<and>
    (\<forall>c. m' c \<noteq> m c \<longrightarrow> k \<le> c \<and> c < k + 32)"
proof -
  note r = heap_reprD [OF assms(1)]
  have at: "block_at m k b" using block_atI [OF r(1,3) assms(2)] .
  have F: "k \<notin> free_set B" using assms(2,3) by (auto simp: free_set_def)
  have bo: "block_ok k (b\<lparr>b_pad := q\<rparr>)" if "q \<in> {2, 3}" for q using that blocks_okD(1) [OF r(1) assms(2)] assms(3) by (auto simp: block_ok_def block_end_def)
  have mem: "GetMemory k m = Some (k + 16)" using read_at(7,8) [OF at] assms(4) by (simp add: GetMemory_def)
  define q :: u64 where "q = (if a - (k + 16) = 16 then 3 else 2)"
  have q: "q \<in> {2, 3}" by (simp add: q_def)
  define m1 where "m1 = m(k := header_of (b\<lparr>b_pad := q\<rparr>))"
  have sp: "set_padding q k m = Some m1" using set_padding_at [OF at assms(4), of q] q by (auto simp: m1_def header_of_def)
  have R1: "heap_repr S (B(k \<mapsto> b\<lparr>b_pad := q\<rparr>)) (free_set B) m1" unfolding m1_def by (rule upd_repr(1) [OF assms(1,2) bo [OF q] same_shape_use(2) F])
  show ?thesis
  proof (cases "q = 3")
    case True
    then have "record_padding k a m = Some m1" using mem sp by (simp add: record_padding_def SetPaddingHeaderStoredAfterHeader_def q_def split: if_splits)
    then show ?thesis using R1 q by (auto simp: m1_def)
  next
    case False
    define m2 where "m2 = m1(k + 16 := of_nat (a - (k + 16)))"
    have "block_at m1 k (b\<lparr>b_pad := q\<rparr>)" using block_atI [OF heap_reprD(1,3) [OF R1]] by simp
    then have "record_padding k a m = Some m2"
      using mem sp False read_at(7) [of m1 k "b\<lparr>b_pad := q\<rparr>"]
      by (auto simp: record_padding_def SetPaddingSizeStoredAfterHeader_def SetPaddingSize_def q_def m2_def split: if_splits)
    moreover have "heap_repr S (B(k \<mapsto> b\<lparr>b_pad := q\<rparr>)) (free_set B) m2"
      unfolding m2_def using R1 F assms(5,6) by (intro write_inside [where k = k]) (auto simp: block_end_def)
    ultimately show ?thesis using q by (auto simp: m1_def m2_def)
  qed
qed

subsection \<open>Allocation\<close>

definition taken :: "nat \<Rightarrow> blocks \<Rightarrow> cells \<Rightarrow> nat \<Rightarrow> nat \<Rightarrow> u64 \<Rightarrow> blocks \<Rightarrow> cells \<Rightarrow> bool" where
  "taken S B m k s q B' m' \<longleftrightarrow> heap_repr S B' (free_set B') m' \<and> (\<forall>x y. \<not> adj B' x y) \<and> same_area B B' \<and>
     used_of B' = (used_of B)(k \<mapsto> (s, q)) \<and> unchanged (owned S B) m m'"

lemma take_repr:
  assumes "heap_repr S B (free_set B - {k}) m" "B k = Some b" "\<not> b_used b" "\<forall>x y. \<not> adj B x y" "256 \<le> n" "8 dvd n" "n \<le> b_size b"
  shows "\<exists>m' B' s. take_block S k n m = Some m' \<and> taken S B m k s 0 B' m' \<and> n \<le> s \<and> s \<le> b_size b"
proof (cases "n + 288 \<le> b_size b")
  case True
  then obtain m' where "take_block S k n m = Some m'" "taken S B m k n 0 ((split_map k n b B)(k \<mapsto> b\<lparr>b_size := n, b_last := False, b_used := True\<rparr>)) m'"
    using use_first_part [OF assms(1-6)] by (auto simp: Let_def taken_def)
  then show ?thesis using assms(7) by blast
next
  case False
  note r = heap_reprD [OF assms(1)]
  let ?B = "B(k \<mapsto> b\<lparr>b_used := True\<rparr>)"
  obtain m' where m': "SetUsed k m = Some m'" "heap_repr S ?B (free_set ?B) m'" "unchanged (owned S B) m m'"
    using use_whole_block [OF assms(1-4)] by blast
  have "\<not> 288 \<le> b_size b - n" using False assms(7) by linarith
  then have "take_block S k n m = Some m'"
    using m'(1) read_block(2) [OF r(1,3) assms(2)] by (simp add: take_block_def CanCreateNewBlockFromRemainder_def FREELIST_ALLOCATOR_MIN_SIZE_def)
  moreover have "taken S B m k (b_size b) 0 ?B m'"
    using m'(2,3) use_sets [of B k b "b\<lparr>b_used := True\<rparr>"] assms(2-4) blocks_okD(8) [OF r(1) assms(2,3)] by (auto simp: taken_def)
  ultimately show ?thesis using assms(7) by blast
qed

lemma repad_sets:
  assumes "B k = Some b" "b_used b"
  shows "used_of (B(k \<mapsto> b\<lparr>b_pad := q\<rparr>)) = (used_of B)(k \<mapsto> (b_size b, q))" "same_area B (B(k \<mapsto> b\<lparr>b_pad := q\<rparr>))"
    "free_set (B(k \<mapsto> b\<lparr>b_pad := q\<rparr>)) = free_set B" "adj (B(k \<mapsto> b\<lparr>b_pad := q\<rparr>)) x y \<Longrightarrow> adj B x y"
proof -
  show "used_of (B(k \<mapsto> b\<lparr>b_pad := q\<rparr>)) = (used_of B)(k \<mapsto> (b_size b, q))" using assms by (auto simp: used_of_def fun_eq_iff)
  show "free_set (B(k \<mapsto> b\<lparr>b_pad := q\<rparr>)) = free_set B" using assms by (auto simp: free_set_def)
  show "adj (B(k \<mapsto> b\<lparr>b_pad := q\<rparr>)) x y \<Longrightarrow> adj B x y" using assms by (auto simp: adj_def split: if_splits)
  show "same_area B (B(k \<mapsto> b\<lparr>b_pad := q\<rparr>))" by (rule area_upd [of B k b, OF assms(1) same_shape_use(2)])
qed

lemma used_ofD: "used_of B k = Some (s, q) \<Longrightarrow> \<exists>b. B k = Some b \<and> b_used b \<and> b_size b = s \<and> b_pad b = q"
  by (auto simp: used_of_def split: option.splits if_splits)

lemma taken_pad:
  assumes "taken S B m k s 0 B' m'" "B k = Some b" "\<not> b_used b" "s \<le> b_size b" "k + 32 \<le> a" "a < k + 16 + s"
  shows "\<exists>m'' q B''. record_padding k a m' = Some m'' \<and> taken S B m k s q B'' m''"
proof -
  have t: "heap_repr S B' (free_set B') m'" "\<forall>x y. \<not> adj B' x y" "same_area B B'" "used_of B' = (used_of B)(k \<mapsto> (s, 0))" "unchanged (owned S B) m m'"
    using assms(1) by (auto simp: taken_def)
  obtain b' where b': "B' k = Some b'" "b_used b'" "b_size b' = s" "b_pad b' = 0" using used_ofD [of B' k s 0] t(4) by auto
  obtain m'' q where m'': "record_padding k a m' = Some m''" "q \<in> {2, 3}" "heap_repr S (B'(k \<mapsto> b'\<lparr>b_pad := q\<rparr>)) (free_set B') m''"
    "\<forall>c. m'' c \<noteq> m' c \<longrightarrow> k \<le> c \<and> c < k + 32"
    using record_pad [OF t(1) b'(1,2,4) assms(5) _ t(2)] assms(6) b'(3) by (auto simp: block_end_def)
  have "c \<in> owned S B" if "k \<le> c" "c < k + 32" for c
    using that owned_inside [of B k b c] assms(2-6) by (simp add: block_end_def)
  then have "unchanged (owned S B) m m''" using t(5) m''(4) unfolding unchanged_def by metis
  then have "taken S B m k s q (B'(k \<mapsto> b'\<lparr>b_pad := q\<rparr>)) m''"
    using m''(3) repad_sets(1,3,4) [of B' k b' q] b'(1,2) t(2,4) b'(3) same_area_trans [OF t(3) repad_sets(2) [of B' k b' q, OF b'(1,2)]] by (auto simp: taken_def)
  then show ?thesis using m''(1) by blast
qed

lemma taken_unchanged: "taken S B m k s q B' m' \<Longrightarrow> unchanged (owned S B) m0 m \<Longrightarrow> taken S B m0 k s q B' m'"
  unfolding taken_def using unchanged_trans by blast

definition alloc_size :: "nat \<Rightarrow> nat" where
  "alloc_size sz = max (max sz 256) (AlignUp (max sz 256) (2 ^ 3))"

lemma Alloc_alt:
  "Alloc sz al e = (if FREELIST_MAX_ALLOC_SIZE < alloc_size sz then Some (0, e)
     else do { (k, m) \<leftarrow> GetFromSegregatedList (fl_blocks e) (alloc_size sz) al (fl_mem e);
               if k = 0 then Some (0, e\<lparr>fl_mem := m\<rparr>)
               else do { block_size \<leftarrow> GetSize k m; p \<leftarrow> GetMemory k m;
                         if block_size < alloc_size sz then None
                         else do { (p, n, required_padding, m) \<leftarrow> add_padding_header k p (alloc_size sz) al m;
                                   m \<leftarrow> take_block (fl_blocks e) k n m;
                                   m \<leftarrow> (if required_padding then record_padding k p m else Some m);
                                   _ \<leftarrow> GetSize k m; Some (p, e\<lparr>fl_mem := MemoryInit (fl_zeroes e) p sz m\<rparr>) } } })"
  unfolding Alloc_def alloc_size_def Let_def FREELIST_ALLOCATOR_MIN_SIZE_def GetAlignmentInBytes_def by (rule refl)

lemma outside_owned:
  assumes "heap_repr S B F m" "B k = Some b" "b_used b" "k + 16 \<le> c" "c < block_end k b"
  shows "c \<notin> owned S B"
proof
  note r = heap_reprD [OF assms(1)]
  assume "c \<in> owned S B"
  then consider "c \<in> {S..<S + 512}" | x d where "B x = Some d" "x \<le> c" "c < (if b_used d then x + 16 else block_end x d)" by (auto simp: owned_def)
  then show False
  proof cases
    case 1
    moreover have "block_end k b \<le> S \<or> S + 512 \<le> k" using r(2) assms(2) unfolding heads_ok_def by blast
    ultimately show False using assms(4,5) by auto
  next
    case (2 x d)
    have "c < block_end x d" using 2(3) by (auto simp: block_end_def split: if_splits)
    moreover have "x \<noteq> k" using 2 assms by auto
    ultimately show False using blocks_outside [OF r(1) 2(1) assms(2)] blocks_outside [OF r(1) assms(2) 2(1)] 2(2) assms(4,5) by auto
  qed
qed

lemma memset_bytes:
  fixes w :: u64
  shows "(\<forall>i\<in>set is. \<not> (a \<le> c + i \<and> c + i < a + n)) \<Longrightarrow> fold (\<lambda>i w. if a \<le> c + i \<and> c + i < a + n then w AND NOT (push_bit (8 * i) 0xFF) else w) is w = w"
  by (induction "is" arbitrary: w) auto

lemma memset_zero_eq:
  "8 dvd c \<Longrightarrow> a \<le> c \<Longrightarrow> c + 8 \<le> a + n \<Longrightarrow> memset_zero a n m c = 0"
  "memset_zero a n m c \<noteq> m c \<Longrightarrow> 8 dvd c \<and> a < c + 8 \<and> c < a + n"
proof -
  show "memset_zero a n m c = 0" if "8 dvd c" "a \<le> c" "c + 8 \<le> a + n"
  proof -
    have z: "(- 18446744073709551616 :: u64) = 0" by simp
    have "fold (\<lambda>i w. if a \<le> c + i \<and> c + i < a + n then w AND NOT (push_bit (8 * i) 0xFF) else w) [0..<8] w = 0" for w :: u64
      using that(2,3) by (simp add: upt_rec and.assoc z)
    then show ?thesis using that(1) by (simp add: memset_zero_def)
  qed
  show "8 dvd c \<and> a < c + 8 \<and> c < a + n" if "memset_zero a n m c \<noteq> m c"
  proof (rule ccontr)
    assume "\<not> ?thesis"
    then have "memset_zero a n m c = m c" using memset_bytes [of "[0..<8]" a c n "m c"] by (auto simp: memset_zero_def)
    then show False using that by simp
  qed
qed

lemma aligned_above: "8 dvd (c :: nat) \<Longrightarrow> 8 dvd k \<Longrightarrow> k + 16 \<le> a \<Longrightarrow> a < c + 8 \<Longrightarrow> k + 16 \<le> c"
  by presburger

lemma taken_init:
  assumes "taken S B m k s q B' m'" "B k = Some b" "\<not> b_used b" "s \<le> b_size b" "k + 16 \<le> a" "a + n \<le> k + 16 + s"
  shows "taken S B m k s q B' (MemoryInit z a n m')"
proof -
  have t: "heap_repr S B' (free_set B') m'" "used_of B' = (used_of B)(k \<mapsto> (s, q))" "unchanged (owned S B) m m'" using assms(1) by (auto simp: taken_def)
  note r = heap_reprD [OF t(1)]
  obtain b' where b': "B' k = Some b'" "b_used b'" "b_size b' = s" using used_ofD [of B' k s q] t(2) by auto
  have c: "k + 16 \<le> c \<and> c < k + 16 + s" if "MemoryInit z a n m' c \<noteq> m' c" for c
  proof -
    have "8 dvd c" "a < c + 8" "c < a + n" using memset_zero_eq(2) [of a n m' c] that by (auto simp: MemoryInit_def split: if_splits)
    moreover have "8 dvd k" using blocks_okD(3) [OF r(1) b'(1)] .
    ultimately show ?thesis using aligned_above [of c k a] assms(5,6) by simp
  qed
  have "c \<notin> owned S B'" if "k + 16 \<le> c" "c < k + 16 + s" for c
    using outside_owned [OF t(1) b'(1,2)] that b'(3) by (simp add: block_end_def)
  then have "heap_repr S B' (free_set B') (MemoryInit z a n m')" using c by (intro heap_repr_cong [OF t(1)]) blast
  moreover have "unchanged (owned S B) m (MemoryInit z a n m')"
  proof -
    have "c \<in> owned S B" if "k + 16 \<le> c" "c < k + 16 + s" for c using owned_inside [of B k b c S] assms(2-4) that by (simp add: block_end_def)
    then have "MemoryInit z a n m' x = m' x" if "x \<notin> owned S B" for x using c [of x] that by blast
    then show ?thesis using t(3) by (simp add: unchanged_def)
  qed
  ultimately show ?thesis using assms(1) by (simp add: taken_def)
qed

lemma alloc_repr:
  assumes "heap_repr S B (free_set B) (fl_mem e)" "\<forall>x y. \<not> adj B x y" "al \<le> 13" "fl_blocks e = S"
  shows "\<exists>a m'. Alloc sz al e = Some (a, e\<lparr>fl_mem := m'\<rparr>) \<and>
    (if alloc_size sz \<le> FREELIST_MAX_ALLOC_SIZE \<and> (\<exists>x\<in>free_set B. padded_size (alloc_size sz) al \<le> size_of B x)
     then \<exists>k s q B'. k \<in> free_set B \<and> (\<forall>x\<in>free_set B. padded_size (alloc_size sz) al \<le> size_of B x \<longrightarrow> size_of B k \<le> size_of B x) \<and>
       taken S B (fl_mem e) k s q B' m' \<and> k + 16 \<le> a \<and> a + alloc_size sz \<le> k + 16 + s \<and> 2 ^ al dvd a \<and> (al \<le> 3 \<longrightarrow> a = k + 16 \<and> q = 0) \<and>
       (\<forall>c. fl_zeroes e \<and> 8 dvd c \<and> a \<le> c \<and> c + 8 \<le> a + sz \<longrightarrow> m' c = 0)
     else a = 0 \<and> m' = fl_mem e)"
proof (cases "alloc_size sz \<le> FREELIST_MAX_ALLOC_SIZE")
  case False
  then have "Alloc sz al e = Some (0, e)"
    by (simp add: Alloc_alt)
  then show ?thesis using False by (intro exI [of _ 0] exI [of _ "fl_mem e"]) simp
next
  case True
  define n where "n = alloc_size sz"
  have n: "256 \<le> n" "8 dvd n" using alloc_size_ok [of n sz] True by (auto simp: n_def alloc_size_def)
  have szn: "sz \<le> n" by (simp add: n_def alloc_size_def)
  obtain k m1 where g: "GetFromSegregatedList S n al (fl_mem e) = Some (k, m1)"
    "if \<exists>x\<in>free_set B. padded_size n al \<le> size_of B x
     then k \<in> free_set B \<and> padded_size n al \<le> size_of B k \<and> (\<forall>x\<in>free_set B. padded_size n al \<le> size_of B x \<longrightarrow> size_of B k \<le> size_of B x) \<and>
       heap_repr S B (free_set B - {k}) m1 \<and> unchanged (owned S B) (fl_mem e) m1
     else k = 0 \<and> m1 = fl_mem e"
    using take_from_lists [OF assms(1) n(1) assms(3)] by blast
  have al: "Alloc sz al e = (if k = 0 then Some (0, e\<lparr>fl_mem := m1\<rparr>)
      else do { block_size \<leftarrow> GetSize k m1; p \<leftarrow> GetMemory k m1;
                if block_size < n then None
                else do { (p, n, required_padding, m) \<leftarrow> add_padding_header k p n al m1; m \<leftarrow> take_block S k n m;
                          m \<leftarrow> (if required_padding then record_padding k p m else Some m); _ \<leftarrow> GetSize k m; Some (p, e\<lparr>fl_mem := MemoryInit (fl_zeroes e) p sz m\<rparr>) } })"
    using True g(1) unfolding Alloc_alt n_def assms(4) by simp
  show ?thesis
  proof (cases "\<exists>x\<in>free_set B. padded_size n al \<le> size_of B x")
    case False
    then show ?thesis using al g(2) by (auto simp: n_def intro!: exI [of _ "fl_mem e"])
  next
    case ex: True
    then have k: "k \<in> free_set B" "padded_size n al \<le> size_of B k" "\<forall>x\<in>free_set B. padded_size n al \<le> size_of B x \<longrightarrow> size_of B k \<le> size_of B x"
      "heap_repr S B (free_set B - {k}) m1" "unchanged (owned S B) (fl_mem e) m1"
      using g(2) by auto
    obtain b where b: "B k = Some b" "\<not> b_used b" using k(1) by (auto simp: free_set_def)
    note r = heap_reprD [OF k(4)]
    have sz: "padded_size n al \<le> b_size b" "n \<le> b_size b" using k(2) b(1) by (auto simp: size_of_def padded_size_def split: if_splits)
    obtain a n' t m2 where p: "add_padding_header k (k + 16) n al m1 = Some (a, n', t, m2)" "heap_repr S B (free_set B - {k}) m2" "unchanged (owned S B) m1 m2"
      "2 ^ al dvd a" "n' = n + (a - (k + 16))" "n' \<le> b_size b" "8 dvd n'" "if t then k + 32 \<le> a else a = k + 16" "al \<le> 3 \<longrightarrow> \<not> t"
      using pad_block [OF k(4) b _ n assms(3) sz(1)] by blast
    have a: "k + 16 \<le> a" using p(8) by (auto split: if_splits)
    obtain m3 B' s where t: "take_block S k n' m2 = Some m3" "taken S B m2 k s 0 B' m3" "n' \<le> s" "s \<le> b_size b"
      using take_repr [OF p(2) b assms(2) _ p(7,6)] p(5) n(1) by auto
    have "unchanged (owned S B) (fl_mem e) m2" by (rule unchanged_trans [OF k(5) p(3)])
    note t' = taken_unchanged [OF t(2) this]
    obtain m4 q B'' where f: "(if t then record_padding k a m3 else Some m3) = Some m4" "taken S B (fl_mem e) k s q B'' m4" "\<not> t \<longrightarrow> q = 0"
    proof (cases t)
      case True
      moreover have "a < k + 16 + s" using p(5) t(3) n(1) a by linarith
      ultimately show ?thesis using taken_pad [OF t' b t(4), of a] p(8) that by auto
    qed (use t' that in auto)
    have "GetSize k m4 \<noteq> None"
    proof -
      obtain b'' where "B'' k = Some b''" using f(2) used_ofD [of B'' k s q] by (auto simp: taken_def)
      then show ?thesis using f(2) read_block(2) heap_reprD(1,3) by (fastforce simp: taken_def)
    qed
    then have alloc: "Alloc sz al e = Some (a, e\<lparr>fl_mem := MemoryInit (fl_zeroes e) a sz m4\<rparr>)"
      using al p(1) t(1) f(1) sz(2) blocks_okD(2) [OF r(1) b(1)] read_block(2,9) [OF r(1,3) b(1)] b(2) by (auto simp: bind_eq_Some_conv)
    have e: "a + n \<le> k + 16 + s" "a + sz \<le> k + 16 + s" using p(5) t(3) a szn by linarith+
    note f' = taken_init [OF f(2) b t(4) a e(2), of "fl_zeroes e"]
    have "\<forall>c. fl_zeroes e \<and> 8 dvd c \<and> a \<le> c \<and> c + 8 \<le> a + sz \<longrightarrow> MemoryInit (fl_zeroes e) a sz m4 c = 0" by (simp add: MemoryInit_def memset_zero_eq(1))
    moreover have "al \<le> 3 \<longrightarrow> a = k + 16 \<and> q = 0" using p(8,9) f(3) by (auto split: if_splits)
    ultimately have "\<exists>k s q B'. k \<in> free_set B \<and> (\<forall>x\<in>free_set B. padded_size n al \<le> size_of B x \<longrightarrow> size_of B k \<le> size_of B x) \<and>
       taken S B (fl_mem e) k s q B' (MemoryInit (fl_zeroes e) a sz m4) \<and> k + 16 \<le> a \<and> a + n \<le> k + 16 + s \<and> 2 ^ al dvd a \<and> (al \<le> 3 \<longrightarrow> a = k + 16 \<and> q = 0) \<and>
       (\<forall>c. fl_zeroes e \<and> 8 dvd c \<and> a \<le> c \<and> c + 8 \<le> a + sz \<longrightarrow> MemoryInit (fl_zeroes e) a sz m4 c = 0)"
      using k(1,3) f' a p(4) e(1) by blast
    then show ?thesis using True ex alloc unfolding n_def by (intro exI [of _ a] exI [of _ "MemoryInit (fl_zeroes e) a sz m4"]) simp
  qed
qed

subsection \<open>Release\<close>

lemma used_neighbours:
  assumes "heap_repr S B F m" "\<forall>x y. \<not> adj B x y" "B k = Some b"
  shows "\<exists>p. GetPrevUsedHeader k m = Some p \<and> (p = 0 \<or> (\<exists>c. B p = Some c))"
    "\<exists>n. GetNextUsedHeader k m = Some n \<and> (n = 0 \<or> (\<exists>c. B n = Some c \<and> b_used c \<and> k < n))"
proof -
  note r = heap_reprD [OF assms(1)]
  note rd = read_block [OF r(1,3)]
  show "\<exists>p. GetPrevUsedHeader k m = Some p \<and> (p = 0 \<or> (\<exists>c. B p = Some c))"
  proof (cases "b_prev b = 0")
    case True
    then show ?thesis using rd(4) [OF assms(3)] by (simp add: GetPrevUsedHeader_def Let_def)
  next
    case False
    then obtain c where c: "B (b_prev b) = Some c" "\<not> b_last c" "block_end (b_prev b) c = k" using blocks_okD(12) [OF r(1) assms(3)] by blast
    show ?thesis
    proof (cases "b_used c \<or> b_prev c = 0")
      case True
      then show ?thesis using rd(4) [OF assms(3)] rd(1,4) [OF c(1)] False c(1) by (auto simp: GetPrevUsedHeader_def Let_def)
    next
      case F2: False
      then obtain d where d: "B (b_prev c) = Some d" "\<not> b_last d" "block_end (b_prev c) d = b_prev b" using blocks_okD(12) [OF r(1) c(1)] by blast
      then have "b_used d" using assms(2) c(1) F2 unfolding adj_def by metis
      then show ?thesis using rd(4) [OF assms(3)] rd(1,4) [OF c(1)] rd(1) [OF d(1)] F2 False d(1) by (simp add: GetPrevUsedHeader_def Let_def)
    qed
  qed
  show "\<exists>n. GetNextUsedHeader k m = Some n \<and> (n = 0 \<or> (\<exists>c. B n = Some c \<and> b_used c \<and> k < n))"
  proof (cases "b_last b")
    case True
    then show ?thesis using rd(5) [OF assms(3)] by (simp add: GetNextUsedHeader_def)
  next
    case False
    then obtain c where c: "B (block_end k b) = Some c" using blocks_okD(11) [OF r(1) assms(3)] by blast
    have n: "GetNextHeader k m = Some (block_end k b)" "block_end k b \<noteq> 0" using rd(5) [OF assms(3)] False blocks_okD(2) [OF r(1) c] by simp_all
    show ?thesis
    proof (cases "b_used c \<or> b_last c")
      case True
      then show ?thesis using n rd(1,5) [OF c] c by (auto simp: GetNextUsedHeader_def)
    next
      case F2: False
      then obtain d where d: "B (block_end (block_end k b) c) = Some d" using blocks_okD(11) [OF r(1) c] by blast
      then have "b_used d" using assms(2) c F2 by (auto simp: adj_def)
      then show ?thesis using n rd(1,5) [OF c] rd(1) [OF d] F2 d by (auto simp: GetNextUsedHeader_def)
    qed
  qed
qed

lemma crossing_map_defined:
  assumes "heap_repr S B F m" "\<forall>x y. \<not> adj B x y" "B k = Some b"
  shows "\<exists>args. crossing_map_args k a m = Some args"
proof -
  note r = heap_reprD [OF assms(1)]
  note rd = read_block [OF r(1,3)]
  have d: "\<exists>s. GetSize x m = Some s" "\<exists>a. GetMemory x m = Some a" if "\<exists>c. B x = Some c" for x using that rd(2,10) by blast+
  obtain p where p: "GetPrevUsedHeader k m = Some p" "p = 0 \<or> (\<exists>c. B p = Some c)" using used_neighbours(1) [OF assms] by blast
  obtain n where n: "GetNextUsedHeader k m = Some n" "n = 0 \<or> (\<exists>c. B n = Some c)" using used_neighbours(2) [OF assms] by blast
  obtain po ps where "p \<noteq> 0 \<Longrightarrow> GetMemory p m = Some po" "p \<noteq> 0 \<Longrightarrow> GetSize p m = Some ps" using p(2) d [of p] by blast
  moreover obtain no where "n \<noteq> 0 \<Longrightarrow> GetMemory n m = Some no" using n(2) d(2) [of n] by blast
  ultimately show ?thesis using p(1) n(1) rd(2) [OF assms(3)] by (cases "p = 0"; cases "n = 0") (simp_all add: crossing_map_args_def)
qed

lemma leads_keep:
  assumes "heap_repr S B F m" "heap_repr S B F' m'" "leads B h m k" "unchanged (links_of S B) m m'"
  shows "leads B h m' k"
proof -
  note r = heap_reprD [OF assms(1)] and r' = heap_reprD [OF assms(2)]
  obtain c where c: "B k = Some c" "h = k \<or> k + 32 \<le> h" "h < block_end k c" "GetNextHeader h m = Some (if b_last c then 0 else block_end k c)"
    using assms(3) by (auto simp: leads_def)
  show ?thesis
  proof (cases "h = k")
    case True
    then show ?thesis using leads_self [OF r'(1,3) c(1)] by simp
  next
    case False
    then have k: "k + 32 \<le> h" using c(2) by blast
    have "h \<notin> links_of S B"
    proof
      assume "h \<in> links_of S B"
      then obtain y where y: "y \<in> dom B \<union> heads S" "h = y + 16 \<or> h = y + 24" by (auto simp: links_of_def)
      show False
      proof (cases "y \<in> dom B")
        case True
        then obtain d where d: "B y = Some d" by blast
        have "y \<noteq> k" using y(2) k by auto
        then have "block_end y d \<le> k \<or> block_end k c \<le> y" using blocks_neighbour [OF r(1) d c(1)] by auto
        then show False using y(2) k c(3) blocks_okD(5) [OF r(1) d] by (auto simp: block_end_def)
      next
        case False
        then have "S \<le> y" "y + 32 \<le> S + 512" using y(1) by (auto simp: heads_def list_head_def)
        moreover have "block_end k c \<le> S \<or> S + 512 \<le> k" using r(2) c(1) unfolding heads_ok_def by blast
        ultimately show False using y(2) k c(3) by auto
      qed
    qed
    then have "GetNextHeader h m' = GetNextHeader h m" using assms(4) GetNextHeader_cong [of m' h m] by (simp add: unchanged_def)
    then show ?thesis using c by (simp add: leads_def)
  qed
qed

lemma free_repr:
  assumes "heap_repr S B (free_set B) (fl_mem e)" "\<forall>x y. \<not> adj B x y" "used_of B k = Some (s, 0)" "fl_blocks e = S"
    "AllocatedByFreeListAllocatorUnsafe (k + 16) e = Some True"
  shows "\<exists>m' B'. FreeUnsafe (k + 16) e = Some (e\<lparr>fl_mem := m'\<rparr>) \<and> heap_repr S B' (free_set B') m' \<and> (\<forall>x y. \<not> adj B' x y) \<and> same_area B B' \<and>
    used_of B' = (used_of B)(k := None) \<and> (\<forall>c. m' c \<noteq> fl_mem e c \<longrightarrow> c \<in> owned S B \<or> k \<le> c \<and> c < k + 16 + s) \<and> (\<exists>k'. leads B' k m' k')"
proof -
  note r = heap_reprD [OF assms(1)]
  obtain b where b: "B k = Some b" "b_used b" "b_size b = s" "b_pad b = 0" using used_ofD [OF assms(3)] by blast
  define b1 where "b1 = b\<lparr>b_used := False\<rparr>"
  define B1 where "B1 = B(k \<mapsto> b1)"
  define m1 where "m1 = (fl_mem e)(k := header_of b1)"
  have bo: "block_ok k b1" using blocks_okD(1) [OF r(1) b(1)] b(4) by (auto simp: b1_def block_ok_def block_end_def)
  have F: "k \<notin> free_set B" "free_set B = free_set B1 - {k}" using b by (auto simp: free_set_def B1_def b1_def)
  have h: "GetFreeListMemoryHeader (k + 16) (fl_mem e) = Some k" using read_block(6) [OF r(1,3) b(1)] by (simp add: GetFreeListMemoryHeader_def)
  obtain args where args: "crossing_map_args k (k + 16) (fl_mem e) = Some args" using crossing_map_defined [OF assms(1,2) b(1)] by blast
  have su: "SetUnused k (fl_mem e) = Some m1" using write_at(3) [OF block_atI [OF r(1,3) b(1)] b(2)] by (simp add: m1_def b1_def)
  have u: "heap_repr S B1 (free_set B1 - {k}) m1" "unchanged (owned S B) (fl_mem e) m1"
    using upd_repr [OF assms(1) b(1) bo _ F(1)] F(2) by (simp_all add: B1_def m1_def b1_def)
  have b1: "B1 k = Some b1" "\<not> b_used b1" by (simp_all add: B1_def b1_def)
  have adj1: "\<forall>x y. adj B1 x y \<longrightarrow> x = k \<or> y = k" using assms(2) by (auto simp: B1_def adj_def split: if_splits)
  obtain k' m2 B2 where c: "TryToCoalescing k m1 = Some (k', m2)" "heap_repr S B2 (free_set B2 - {k'}) m2" "k' \<in> free_set B2" "\<forall>x y. \<not> adj B2 x y"
    "used_of B2 = used_of B1" "owned S B2 \<subseteq> owned S B1" "same_area B1 B2" "unchanged (owned S B1) m1 m2" "leads B2 k m2 k'"
    using coalesce [OF u(1) b1 adj1] by blast
  obtain m3 where m3: "AddMemoryBlock S k' m2 = Some m3" "heap_repr S B2 (free_set B2) m3" "unchanged (owned S B2) m2 m3" "unchanged (links_of S B2) m2 m3"
    using add_to_list [OF c(2,3)] c(3) by (auto simp: insert_absorb)
  have "FreeUnsafe (k + 16) e = Some (e\<lparr>fl_mem := m3\<rparr>)"
    using assms(4,5) h args su c(1) m3(1) by (simp add: FreeUnsafe_def Let_def)
  moreover have "same_area B B2" by (rule same_area_trans [OF _ c(7)]) (unfold B1_def b1_def, rule area_upd [of B k b, OF b(1) same_shape_use(1)])
  moreover have "used_of B1 = (used_of B)(k := None)" by (auto simp: B1_def b1_def used_of_def fun_eq_iff)
  moreover have "c \<in> owned S B \<or> k \<le> c \<and> c < k + 16 + s" if "m3 c \<noteq> fl_mem e c" for c
  proof (cases "c \<in> owned S B1")
    case True
    then consider "c \<in> {S..<S + 512}" | x d where "B1 x = Some d" "x \<le> c" "c < (if b_used d then x + 16 else block_end x d)" by (auto simp: owned_def)
    then show ?thesis
    proof cases
      case 1 then show ?thesis by (simp add: owned_def)
    next
      case (2 x d)
      then show ?thesis using b(3) owned_block [of B x d c S] by (cases "x = k") (auto simp: B1_def b1_def block_end_def)
    qed
  next
    case False
    then have "m3 c = m1 c" using m3(3) c(6,8) by (auto simp: unchanged_def)
    then show ?thesis using u(2) that by (auto simp: unchanged_def)
  qed
  moreover have "leads B2 k m3 k'" by (rule leads_keep [OF c(2) m3(2) c(9) m3(4)])
  ultimately show ?thesis using m3(2) c(4,5) by (intro exI [of _ m3] exI [of _ B2]) auto
qed

end
