(* ===== verification/FreeListPools.thy ===== *)
theory FreeListPools
  imports FreeListOperations
begin

text \<open>
  The pools of the allocator: their list, \<open>AddMemoryPool\<close>, and the invariant \<open>fl_ok\<close> of the whole allocator object that the
  operations keep.
\<close>

subsection \<open>Pools\<close>

type_synonym pools = "(nat \<times> nat) list"

fun pool_list :: "cells \<Rightarrow> nat \<Rightarrow> nat \<Rightarrow> pools \<Rightarrow> bool" where
  "pool_list m prev p [] \<longleftrightarrow> p = 0"
| "pool_list m prev p ((q, s) # ps) \<longleftrightarrow> p = q \<and> pool_GetSize q m = s \<and> pool_GetPrev q m = prev \<and> pool_list m q (pool_GetNext q m) ps"

definition pool_fits :: "nat \<Rightarrow> pools \<Rightarrow> nat \<Rightarrow> nat \<Rightarrow> bool" where
  "pool_fits S ps p s \<longleftrightarrow> p \<noteq> 0 \<and> 16 dvd p \<and> 8 dvd s \<and> 304 \<le> s \<and> p + s < 2 ^ 60 \<and> (p + s \<le> S \<or> S + 512 \<le> p) \<and>
     (\<forall>(q, s')\<in>set ps. q + s' \<le> p \<or> p + s \<le> q)"

fun pools_ok :: "nat \<Rightarrow> pools \<Rightarrow> bool" where
  "pools_ok S [] \<longleftrightarrow> True"
| "pools_ok S ((q, s) # ps) \<longleftrightarrow> pool_fits S ps q s \<and> pools_ok S ps"

definition bodies :: "pools \<Rightarrow> nat set" where
  "bodies ps = (\<Union>(q, s)\<in>set ps. {q + 32..<q + s})"

definition pool_headers :: "pools \<Rightarrow> nat set" where
  "pool_headers ps = (\<Union>(q, s)\<in>set ps. {q..<q + 32})"

lemma pools_okD:
  assumes "pools_ok S ps"
  shows "(q, s) \<in> set ps \<Longrightarrow> q \<noteq> 0 \<and> 304 \<le> s \<and> q + s < 2 ^ 60 \<and> (q + s \<le> S \<or> S + 512 \<le> q)"
    "(q, s) \<in> set ps \<Longrightarrow> (q', s') \<in> set ps \<Longrightarrow> (q, s) = (q', s') \<or> q + s \<le> q' \<or> q' + s' \<le> q"
  using assms by (induction ps) (auto simp: pool_fits_def)

lemma pool_list_cong:
  assumes "\<forall>c\<in>pool_headers ps. m' c = m c"
  shows "pool_list m' prev p ps = pool_list m prev p ps"
  using assms by (induction ps arbitrary: prev p) (auto simp: pool_headers_def pool_GetSize_def pool_GetPrev_def pool_GetNext_def ptr_at_def)

lemma headers_bodies: "pools_ok S ps \<Longrightarrow> pool_headers ps \<inter> ({S..<S + 512} \<union> bodies ps) = {}"
proof -
  assume ok: "pools_ok S ps"
  have "False" if c: "c \<in> pool_headers ps" "c \<in> {S..<S + 512} \<union> bodies ps" for c
  proof -
    obtain q s where q: "(q, s) \<in> set ps" "q \<le> c" "c < q + 32" using c(1) by (auto simp: pool_headers_def)
    note d = pools_okD(1) [OF ok q(1)]
    show False using c(2)
    proof
      assume "c \<in> {S..<S + 512}" then show False using d q by auto
    next
      assume "c \<in> bodies ps"
      then obtain q' s' where q': "(q', s') \<in> set ps" "q' + 32 \<le> c" "c < q' + s'" by (auto simp: bodies_def)
      then show False using pools_okD(2) [OF ok q(1) q'(1)] d q by auto
    qed
  qed
  then show ?thesis by blast
qed

lemma allocated_loop_finds:
  assumes "pools_ok S ps" "pool_list m prev p ps" "k \<in> bodies ps" "k + 16 \<in> bodies ps"
  shows "allocated_loop p (k + 16) m = Some True"
  using assms
proof (induction ps arbitrary: prev p)
  case Nil then show ?case by (simp add: bodies_def)
next
  case (Cons x ps)
  obtain q s where x: "x = (q, s)" by (cases x)
  then have p: "p = q" "pool_GetSize q m = s" "pool_list m q (pool_GetNext q m) ps" "q \<noteq> 0" "304 \<le> s" and ok: "pool_fits S ps q s" "pools_ok S ps"
    using Cons.prems by (auto simp: pool_fits_def)
  show ?case
  proof (cases "k \<in> {q + 32..<q + s}")
    case True
    moreover have "k + 16 < q + s"
    proof (rule ccontr)
      assume "\<not> k + 16 < q + s"
      then have "k + 16 \<in> bodies ps" using Cons.prems(4) x True by (auto simp: bodies_def)
      then obtain q' s' where q': "(q', s') \<in> set ps" "q' + 32 \<le> k + 16" "k + 16 < q' + s'" by (auto simp: bodies_def)
      then have "q' + s' \<le> q \<or> q + s \<le> q'" using ok(1) by (auto simp: pool_fits_def)
      then show False using True q' by auto
    qed
    ultimately show ?thesis using p by (subst allocated_loop.simps) (auto simp: GetFirstMemoryHeader_def)
  next
    case False
    then have kb: "k \<in> bodies ps" using Cons.prems(3) x by (auto simp: bodies_def)
    then obtain q' s' where q': "(q', s') \<in> set ps" "q' + 32 \<le> k" "k < q' + s'" by (auto simp: bodies_def)
    have d: "q' + s' \<le> q \<or> q + s \<le> q'" using ok(1) q'(1) by (auto simp: pool_fits_def)
    have k16: "k + 16 \<notin> {q..<q + s}"
    proof
      assume a: "k + 16 \<in> {q..<q + s}"
      then have "k + 16 < q + 32" using d q' by auto
      then have "k + 16 \<in> bodies ps" using Cons.prems(4) x a by (auto simp: bodies_def)
      then obtain q2 s2 where "(q2, s2) \<in> set ps" "q2 + 32 \<le> k + 16" "k + 16 < q2 + s2" by (auto simp: bodies_def)
      then show False using ok(1) a by (auto simp: pool_fits_def)
    qed
    then have "allocated_loop p (k + 16) m = allocated_loop (pool_GetNext q m) (k + 16) m"
      using p by (subst allocated_loop.simps) (auto simp: GetFirstMemoryHeader_def)
    moreover have "k + 16 \<in> bodies ps" using Cons.prems(4) x k16 by (auto simp: bodies_def)
    ultimately show ?thesis using Cons.IH [OF ok(2) p(3) kb] by simp
  qed
qed

subsection \<open>A new block and a new pool\<close>

lemma new_block_map:
  assumes "blocks_ok B" "heads_ok S B" "block_ok h b" "b_last b" "b_prev b = 0" "{h..<block_end h b} \<inter> region B = {}"
    "block_end h b \<le> S \<or> S + 512 \<le> h"
  shows "blocks_ok (B(h \<mapsto> b))" "heads_ok S (B(h \<mapsto> b))" "B h = None"
proof -
  have apart: "block_end k c \<le> h \<or> block_end h b \<le> k" if k: "B k = Some c" for k c
  proof (rule ccontr)
    assume "\<not> ?thesis"
    then have "max k h \<in> {h..<block_end h b}" "max k h \<in> region B" using regionI [of B k c "max k h"] k by auto
    then show False using assms(6) by blast
  qed
  show n: "B h = None" using apart [of h] by (cases "B h") (auto simp: block_end_def)
  let ?B = "B(h \<mapsto> b)"
  have "finite (dom ?B)" using assms(1) by (simp add: blocks_ok_def)
  moreover have "block_ok k c" if "?B k = Some c" for k c
    using that blocks_okD(1) [OF assms(1), of k] assms(3) by (cases "k = h") auto
  moreover have "block_end k c \<le> k'" if k: "?B k = Some c" "?B k' = Some c'" "k < k'" for k c k' c'
  proof (cases "k = h \<or> k' = h")
    case True
    then show ?thesis using apart [of k c] apart [of k' c'] k by (auto simp: block_end_def split: if_splits)
  qed (use k blocks_okD(10) [OF assms(1)] in auto)
  moreover have "\<exists>c'. ?B (block_end k c) = Some c' \<and> b_prev c' = k" if k: "?B k = Some c" "\<not> b_last c" for k c
  proof -
    have "B k = Some c" using k assms(4) by (cases "k = h") auto
    then show ?thesis using blocks_okD(11) [OF assms(1)] k(2) n by (metis fun_upd_other option.discI)
  qed
  moreover have "\<exists>c'. ?B (b_prev c) = Some c' \<and> \<not> b_last c' \<and> block_end (b_prev c) c' = k" if k: "?B k = Some c" "b_prev c \<noteq> 0" for k c
  proof -
    have "B k = Some c" using k assms(5) by (cases "k = h") auto
    then show ?thesis using blocks_okD(12) [OF assms(1)] k(2) n by (metis fun_upd_other option.discI)
  qed
  ultimately show "blocks_ok ?B" unfolding blocks_ok_def by blast
  show "heads_ok S ?B" using assms(2,7) by (auto simp: heads_ok_def)
qed

lemma pools_ok_snoc: "pools_ok S ps \<Longrightarrow> pool_fits S ps p s \<Longrightarrow> pools_ok S (ps @ [(p, s)])"
  by (induction ps) (auto simp: pool_fits_def)

lemma pool_list_link:
  assumes "pool_list m prev q ps" "ps \<noteq> []" "distinct (map fst ps)"
    "\<forall>(q, s)\<in>set ps. pool_GetPrev q m' = pool_GetPrev q m \<and> pool_GetSize q m' = pool_GetSize q m \<and>
       pool_GetNext q m' = (if q = fst (last ps) then p else pool_GetNext q m)"
    "pool_GetPrev p m' = fst (last ps)" "pool_GetNext p m' = 0" "pool_GetSize p m' = s"
  shows "pool_list m' prev q (ps @ [(p, s)])"
  using assms
proof (induction ps arbitrary: prev q)
  case (Cons x ps)
  obtain r t where x: "x = (r, t)" by (cases x)
  show ?case
  proof (cases "ps = []")
    case True then show ?thesis using Cons.prems x by auto
  next
    case False
    have "r \<noteq> fst (last ps)" using Cons.prems(3) x False by auto
    then show ?thesis using Cons.IH [of r "pool_GetNext r m"] Cons.prems x False by auto
  qed
qed simp

lemma pools_distinct: "pools_ok S ps \<Longrightarrow> distinct (map fst ps)"
proof (induction ps)
  case (Cons x ps)
  have "fst x \<noteq> fst y" if y: "y \<in> set ps" for y
  proof -
    have "304 \<le> snd y" using pools_okD(1) [of S ps "fst y" "snd y"] Cons.prems y by (cases x) auto
    then show ?thesis using Cons.prems y by (cases x; cases y) (force simp: pool_fits_def)
  qed
  then show ?case using Cons by (cases x) auto
qed simp

lemma pool_writes:
  assumes "p < 2 ^ 60" "t < 2 ^ 60" "s < 2 ^ 60"
  shows "t + 16 \<le> p \<or> p + 32 \<le> t \<Longrightarrow> pool_GetPrev p (set_ptr (t + 8) p (pool_Initialize p s t 0 m)) = t"
    "t + 16 \<le> p \<or> p + 32 \<le> t \<Longrightarrow> pool_GetNext p (set_ptr (t + 8) p (pool_Initialize p s t 0 m)) = 0"
    "t + 16 \<le> p \<or> p + 32 \<le> t \<Longrightarrow> pool_GetSize p (set_ptr (t + 8) p (pool_Initialize p s t 0 m)) = s"
    "r + 32 \<le> p \<or> p + 32 \<le> r \<Longrightarrow> r = t \<or> r + 32 \<le> t \<or> t + 32 \<le> r \<Longrightarrow> pool_GetPrev r (set_ptr (t + 8) p (pool_Initialize p s t 0 m)) = pool_GetPrev r m"
    "r + 32 \<le> p \<or> p + 32 \<le> r \<Longrightarrow> r = t \<or> r + 32 \<le> t \<or> t + 32 \<le> r \<Longrightarrow> pool_GetSize r (set_ptr (t + 8) p (pool_Initialize p s t 0 m)) = pool_GetSize r m"
    "r + 32 \<le> p \<or> p + 32 \<le> r \<Longrightarrow> r = t \<or> r + 32 \<le> t \<or> t + 32 \<le> r \<Longrightarrow> pool_GetNext r (set_ptr (t + 8) p (pool_Initialize p s t 0 m)) = (if r = t then p else pool_GetNext r m)"
  using assms by (auto simp: pool_Initialize_def pool_GetPrev_def pool_GetNext_def pool_GetSize_def ptr_at_def set_ptr_def unat_of_nat)

lemma pool_list_snoc:
  assumes "pools_ok S ps" "pool_fits S ps p s" "pool_list m 0 q ps"
  shows "pool_list (if q = 0 then pool_Initialize p s 0 0 m else set_ptr (fst (last ps) + 8) p (pool_Initialize p s (fst (last ps)) 0 m)) 0
    (if q = 0 then p else q) (ps @ [(p, s)])"
proof (cases ps)
  case Nil
  then show ?thesis using assms by (auto simp: pool_Initialize_def pool_GetPrev_def pool_GetNext_def pool_GetSize_def ptr_at_def set_ptr_def unat_of_nat pool_fits_def)
next
  case (Cons x xs)
  define t where "t = fst (last ps)"
  let ?m = "set_ptr (t + 8) p (pool_Initialize p s t 0 m)"
  have last: "(t, snd (last ps)) \<in> set ps" using Cons last_in_set [of ps] by (auto simp: t_def)
  have fit: "p < 2 ^ 60" "s < 2 ^ 60" "304 \<le> s" "\<And>q s'. (q, s') \<in> set ps \<Longrightarrow> q + s' \<le> p \<or> p + s \<le> q" using assms(2) by (auto simp: pool_fits_def)
  have tt: "t < 2 ^ 60" "304 \<le> snd (last ps)" using pools_okD(1) [OF assms(1) last] by auto
  have "q = fst x" using assms(3) Cons by (cases x) auto
  then have "q \<noteq> 0" using pools_okD(1) [OF assms(1), of q "snd x"] Cons by auto
  moreover have "pool_list ?m 0 q (ps @ [(p, s)])"
  proof (rule pool_list_link [OF assms(3) _ pools_distinct [OF assms(1)]])
    show "ps \<noteq> []" using Cons by simp
    show "\<forall>(r, u)\<in>set ps. pool_GetPrev r ?m = pool_GetPrev r m \<and> pool_GetSize r ?m = pool_GetSize r m \<and> pool_GetNext r ?m = (if r = fst (last ps) then p else pool_GetNext r m)"
    proof (clarify)
      fix r u assume r: "(r, u) \<in> set ps"
      have u: "304 \<le> u" using pools_okD(1) [OF assms(1) r] by auto
      have rt: "r = t \<or> r + 32 \<le> t \<or> t + 32 \<le> r" using pools_okD(2) [OF assms(1) r last] u tt by auto
      have rp: "r + 32 \<le> p \<or> p + 32 \<le> r" using fit(4) [OF r] fit(3) u by auto
      show "pool_GetPrev r ?m = pool_GetPrev r m \<and> pool_GetSize r ?m = pool_GetSize r m \<and> pool_GetNext r ?m = (if r = fst (last ps) then p else pool_GetNext r m)"
        using pool_writes(4-6) [OF fit(1) tt(1) fit(2) rp rt] by (simp only: t_def simp_thms)
    qed
    have "t + 16 \<le> p \<or> p + 32 \<le> t" using fit(3) fit(4) [OF last] tt(2) by auto
    then show "pool_GetPrev p ?m = fst (last ps)" "pool_GetNext p ?m = 0" "pool_GetSize p ?m = s"
      using pool_writes(1-3) [OF fit(1) tt(1) fit(2)] by (simp_all only: t_def)
  qed
  ultimately show ?thesis by (simp add: t_def)
qed

lemma insert_block:
  assumes "heap_repr S B (free_set B) m" "block_ok h b" "b_last b" "b_prev b = 0" "\<not> b_used b" "{h..<block_end h b} \<inter> region B = {}"
    "block_end h b \<le> S \<or> S + 512 \<le> h" "\<forall>x y. \<not> adj B x y" "m' = (set_ptr (h + 8) 0 m)(h := header_of b)"
  shows "\<exists>m''. AddMemoryBlock S h m' = Some m'' \<and> heap_repr S (B(h \<mapsto> b)) (free_set (B(h \<mapsto> b))) m'' \<and> (\<forall>x y. \<not> adj (B(h \<mapsto> b)) x y) \<and>
    region (B(h \<mapsto> b)) = region B \<union> {h..<block_end h b} \<and> ends (B(h \<mapsto> b)) = insert (block_end h b) (ends B) \<and> used_of (B(h \<mapsto> b)) = used_of B \<and> unchanged (owned S B \<union> {h..<block_end h b}) m m''"
proof -
  note r = heap_reprD [OF assms(1)]
  note n = new_block_map [OF r(1,2) assms(2-4,6,7)]
  let ?B = "B(h \<mapsto> b)"
  have N: "apart (dom ?B)" using apart_nodes [OF n(1,2)] by (auto simp: apart_def)
  have F: "free_set ?B = insert h (free_set B)" "h \<notin> free_set B" using n(3) assms(5) by (auto simp: free_set_def)
  have e: "h + 16 \<le> block_end h b" by (simp add: block_end_def)
  have m': "block_at m' h b" using assms(2,4,9) by (simp add: block_at_def ptr_at_def set_ptr_def)
  have new: "heap_repr S ?B (free_set B) m'"
  proof (rule reheader [OF assms(1) n(1,2)])
    show "mem_blocks ?B m'"
    proof (rule mem_blocksI)
      fix k c assume k: "?B k = Some c"
      show "block_at m' k c"
      proof (cases "k = h")
        case False
        then have "block_at m k c" using k block_atI [OF r(1,3)] by simp
        then have "block_at (set_ptr (h + 8) 0 m) k c" using block_at_other(2) [OF N, of k h] False k by auto
        then show ?thesis using block_at_other(1) [OF N, of k h] False k assms(9) by auto
      qed (use k m' in simp)
    qed
    show "free_set B \<subseteq> free_set ?B" using F by blast
    show "\<forall>x\<in>free_set B. size_of ?B x = size_of B x" using F(2) by (auto simp: size_of_def)
    show "\<forall>c. m' c \<noteq> m c \<longrightarrow> (\<exists>k\<in>dom ?B. c = k \<or> c = k + 8)" using assms(9) by (auto simp: set_ptr_def)
  qed
  obtain m'' where m'': "AddMemoryBlock S h m' = Some m''" "heap_repr S ?B (free_set ?B) m''" "unchanged (owned S ?B) m' m''"
    using add_to_list [OF new, of h] F by auto
  have nadj: "\<not> adj ?B x y" for x y
  proof
    assume a: "adj ?B x y"
    then have x: "x \<noteq> h" using assms(3) by (auto simp: adj_def)
    then obtain c where c: "B x = Some c" "\<not> b_last c" "\<not> b_used c" "y = block_end x c" using a by (auto simp: adj_def)
    obtain d where d: "B y = Some d" using blocks_okD(11) [OF r(1) c(1,2)] c(4) by blast
    then have "y \<noteq> h" using n(3) by auto
    then show False using a x assms(8) c d by (auto simp: adj_def)
  qed
  have reg: "region ?B = region B \<union> {h..<block_end h b}" using n(3) by (auto simp: region_def split: if_splits)
  have en: "ends ?B = insert (block_end h b) (ends B)" 
  proof -
    have "x \<noteq> h" if "B x = Some c" for x c using that n(3) by auto
    then show ?thesis unfolding ends_def using assms(3) by (auto split: if_splits)
  qed
  have us: "used_of ?B = used_of B" using n(3) assms(5) by (auto simp: used_of_def fun_eq_iff)
  have o: "c \<in> owned S B \<union> {h..<block_end h b}" if "c \<in> owned S ?B" for c
  proof -
    consider "c \<in> {S..<S + 512}" | x d where "?B x = Some d" "x \<le> c" "c < (if b_used d then x + 16 else block_end x d)" using \<open>c \<in> owned S ?B\<close> by (auto simp: owned_def)
    then show ?thesis
    proof cases
      case (2 x d)
      then show ?thesis using owned_block [of B x d c S] assms(5) by (cases "x = h") auto
    qed (simp add: owned_def)
  qed
  have "m'' c = m c" if c: "c \<notin> owned S B \<union> {h..<block_end h b}" for c
  proof -
    have "c \<noteq> h" "c \<noteq> h + 8" using c e by auto
    then have "m' c = m c" using assms(9) by (simp add: set_ptr_def)
    moreover have "m'' c = m' c" using m''(3) o c unfolding unchanged_def by blast
    ultimately show ?thesis by simp
  qed
  then have "unchanged (owned S B \<union> {h..<block_end h b}) m m''" by (simp add: unchanged_def)
  then show ?thesis using m'' nadj reg en us by blast
qed

subsection \<open>The allocator\<close>

text \<open>The state of an allocator whose pools are \<open>ps\<close> and whose memory is cut into the blocks \<open>B\<close>.\<close>

definition fl_ok :: "blocks \<Rightarrow> pools \<Rightarrow> FreeListAlloc \<Rightarrow> bool" where
  "fl_ok B ps e \<longleftrightarrow> heap_repr (fl_blocks e) B (free_set B) (fl_mem e) \<and> (\<forall>x y. \<not> adj B x y) \<and> pools_ok (fl_blocks e) ps \<and>
     pool_list (fl_mem e) 0 (fl_head e) ps \<and> fl_tail e = (if ps = [] then 0 else fst (last ps)) \<and> region B = bodies ps \<and> ends B \<inter> bodies ps = {}"

lemma fl_okD:
  assumes "fl_ok B ps e"
  shows "heap_repr (fl_blocks e) B (free_set B) (fl_mem e)" "\<forall>x y. \<not> adj B x y" "pools_ok (fl_blocks e) ps"
    "pool_list (fl_mem e) 0 (fl_head e) ps" "fl_tail e = (if ps = [] then 0 else fst (last ps))" "region B = bodies ps" "ends B \<inter> bodies ps = {}"
  using assms by (auto simp: fl_ok_def)

lemma pool_writes_at:
  "c \<notin> {p..<p + 32} \<Longrightarrow> pool_Initialize p s t n m c = m c"
  "c \<notin> {p..<p + 32} \<Longrightarrow> c \<noteq> t + 8 \<Longrightarrow> set_ptr (t + 8) p (pool_Initialize p s t n m) c = m c"
  by (auto simp: pool_Initialize_def set_ptr_def)

lemma pool_of_new:
  assumes "pools_ok S ps" "pool_fits S ps p s"
  shows "{p..<p + s} \<inter> ({S..<S + 512} \<union> bodies ps \<union> pool_headers ps) = {}"
proof -
  have "c \<notin> {S..<S + 512} \<union> bodies ps \<union> pool_headers ps" if c: "c \<in> {p..<p + s}" for c
  proof
    assume "c \<in> {S..<S + 512} \<union> bodies ps \<union> pool_headers ps"
    then consider "c \<in> {S..<S + 512}" | q t where "(q, t) \<in> set ps" "q \<le> c" "c < q + t \<or> c < q + 32" by (auto simp: bodies_def pool_headers_def)
    then show False
    proof cases
      case 1 then show False using c assms(2) by (auto simp: pool_fits_def)
    next
      case (2 q t)
      have "304 \<le> t" using pools_okD(1) [OF assms(1) 2(1)] by auto
      moreover have "q + t \<le> p \<or> p + s \<le> q" using assms(2) 2(1) by (auto simp: pool_fits_def)
      ultimately show False using 2 c by auto
    qed
  qed
  then show ?thesis by blast
qed

lemma ends_of_new:
  assumes "pools_ok S ps" "pool_fits S ps p s" "region B = bodies ps" "ends B \<inter> bodies ps = {}"
  shows "insert (p + s) (ends B) \<inter> bodies (ps @ [(p, s)]) = {}"
proof -
  have b: "bodies (ps @ [(p, s)]) = bodies ps \<union> {p + 32..<p + s}" by (auto simp: bodies_def)
  have "c \<notin> {p + 32..<p + s}" if c: "c \<in> ends B" for c
  proof
    assume a: "c \<in> {p + 32..<p + s}"
    obtain h d where h: "B h = Some d" "c = block_end h d" using c by (auto simp: ends_def)
    then have "c - 1 \<in> bodies ps" using regionI [of B h d "c - 1"] assms(3) by (simp add: block_end_def)
    moreover have "c - 1 \<in> {p..<p + s}" using a by auto
    ultimately show False using pool_of_new [OF assms(1,2)] by blast
  qed
  moreover have "p + s \<notin> bodies ps"
  proof
    assume "p + s \<in> bodies ps"
    then obtain q t where q: "(q, t) \<in> set ps" "q + 32 \<le> p + s" "p + s < q + t" by (auto simp: bodies_def)
    then have "q + t \<le> p \<or> p + s \<le> q" using assms(2) by (auto simp: pool_fits_def)
    then show False using q by auto
  qed
  ultimately show ?thesis using assms(4) b by auto
qed

lemma add_pool_link:
  assumes "fl_ok B ps e" "pool_fits (fl_blocks e) ps p s"
  shows "\<exists>m. (if fl_head e = 0 then e\<lparr>fl_mem := pool_Initialize p s 0 0 (fl_mem e), fl_head := p, fl_tail := p\<rparr>
        else e\<lparr>fl_mem := set_ptr (fl_tail e + 8) p (pool_Initialize p s (fl_tail e) 0 (fl_mem e)), fl_tail := p\<rparr>)
      = e\<lparr>fl_mem := m, fl_head := if fl_head e = 0 then p else fl_head e, fl_tail := p\<rparr> \<and>
    pool_list m 0 (if fl_head e = 0 then p else fl_head e) (ps @ [(p, s)]) \<and> unchanged (pool_headers ps \<union> {p..<p + 32}) (fl_mem e) m"
proof -
  note ok = fl_okD [OF assms(1)]
  show ?thesis
  proof (cases "ps = []")
    case True
    then have "fl_head e = 0" using ok(4) by simp
    then show ?thesis using pool_list_snoc [OF ok(3) assms(2) ok(4)] pool_writes_at(1)
      by (intro exI [of _ "pool_Initialize p s 0 0 (fl_mem e)"]) (auto simp: unchanged_def)
  next
    case False
    then obtain q t where l: "last ps = (q, t)" "(q, t) \<in> set ps" using last_in_set by (metis prod.exhaust)
    have "fl_head e = fst (hd ps)" using ok(4) False by (cases ps) auto
    then have h: "fl_head e \<noteq> 0" using pools_okD(1) [OF ok(3), of "fst (hd ps)" "snd (hd ps)"] False by simp
    have "q + 8 \<in> pool_headers ps" unfolding pool_headers_def by (rule UN_I [OF l(2)]) simp
    then have "unchanged (pool_headers ps \<union> {p..<p + 32}) (fl_mem e) (set_ptr (q + 8) p (pool_Initialize p s q 0 (fl_mem e)))"
      unfolding unchanged_def using pool_writes_at(2) [of _ p q s 0 "fl_mem e"] by blast
    then show ?thesis using pool_list_snoc [OF ok(3) assms(2) ok(4)] h ok(5) False l(1)
      by (intro exI [of _ "set_ptr (q + 8) p (pool_Initialize p s q 0 (fl_mem e))"]) simp
  qed
qed

text \<open>The only block of a new pool.\<close>

definition pool_block :: "nat \<Rightarrow> block" where
  "pool_block s = \<lparr>b_size = s - 48, b_used = False, b_last = True, b_prev = 0, b_pad = 0\<rparr>"

lemma add_pool:
  assumes "fl_ok B ps e" "pool_fits (fl_blocks e) ps p s"
  shows "\<exists>e'. AddMemoryPool p s e = Some e' \<and> fl_ok (B(p + 32 \<mapsto> pool_block s)) (ps @ [(p, s)]) e' \<and> fl_blocks e' = fl_blocks e \<and>
    used_of (B(p + 32 \<mapsto> pool_block s)) = used_of B \<and>
    unchanged (owned (fl_blocks e) B \<union> pool_headers ps \<union> {p..<p + s}) (fl_mem e) (fl_mem e')"
proof -
  note ok = fl_okD [OF assms(1)]
  define S where "S = fl_blocks e"
  obtain m where m: "(if fl_head e = 0 then e\<lparr>fl_mem := pool_Initialize p s 0 0 (fl_mem e), fl_head := p, fl_tail := p\<rparr>
        else e\<lparr>fl_mem := set_ptr (fl_tail e + 8) p (pool_Initialize p s (fl_tail e) 0 (fl_mem e)), fl_tail := p\<rparr>)
      = e\<lparr>fl_mem := m, fl_head := if fl_head e = 0 then p else fl_head e, fl_tail := p\<rparr>"
    "pool_list m 0 (if fl_head e = 0 then p else fl_head e) (ps @ [(p, s)])" "unchanged (pool_headers ps \<union> {p..<p + 32}) (fl_mem e) m"
    using add_pool_link [OF assms] by blast
  have fit: "p \<noteq> 0" "16 dvd p" "8 dvd s" "304 \<le> s" "p + s < 2 ^ 60" "p + s \<le> S \<or> S + 512 \<le> p" using assms(2) by (auto simp: pool_fits_def S_def)
  have new: "{p..<p + s} \<inter> ({S..<S + 512} \<union> bodies ps \<union> pool_headers ps) = {}" using pool_of_new [OF ok(3) assms(2)] by (simp add: S_def)
  have hb: "pool_headers ps \<inter> ({S..<S + 512} \<union> bodies ps) = {}" using headers_bodies [OF ok(3)] by (simp add: S_def)
  have own: "owned S B \<subseteq> {S..<S + 512} \<union> bodies ps" using owned_region ok(6) by blast
  have sub: "{p..<p + 32} \<subseteq> {p..<p + s}" using fit(4) by auto
  have "heap_repr S B (free_set B) m"
    by (rule heap_repr_cong [OF ok(1) [folded S_def]]) (use m(3) own new hb sub in \<open>unfold unchanged_def, blast\<close>)
  moreover define h b where "h = p + 32" and "b = pool_block s"
  moreover have e: "block_end h b = p + s" using fit(4) by (simp add: block_end_def h_def b_def pool_block_def)
  moreover have bo: "block_ok h b" using fit e by (auto simp: block_ok_def h_def b_def pool_block_def)
  moreover have "{h..<block_end h b} \<inter> region B = {}" 
  proof -
    have "{h..<block_end h b} \<subseteq> {p..<p + s}" using e by (auto simp: h_def)
    then show ?thesis using new ok(6) by blast
  qed
  moreover have "block_end h b \<le> S \<or> S + 512 \<le> h" using fit(6) e by (auto simp: h_def)
  moreover have "b_last b" "b_prev b = 0" "\<not> b_used b" by (simp_all add: b_def pool_block_def)
  ultimately obtain m' where m': "AddMemoryBlock S h ((set_ptr (h + 8) 0 m)(h := header_of b)) = Some m'" "heap_repr S (B(h \<mapsto> b)) (free_set (B(h \<mapsto> b))) m'"
    "\<forall>x y. \<not> adj (B(h \<mapsto> b)) x y" "region (B(h \<mapsto> b)) = region B \<union> {p + 32..<p + s}" "ends (B(h \<mapsto> b)) = insert (p + s) (ends B)" "used_of (B(h \<mapsto> b)) = used_of B" "unchanged (owned S B \<union> {p + 32..<p + s}) m m'"
    using insert_block [of S B m h b, OF _ _ _ _ _ _ _ ok(2) refl] by (auto simp: h_def)
  let ?e = "e\<lparr>fl_mem := m', fl_head := if fl_head e = 0 then p else fl_head e, fl_tail := p\<rparr>"
  have "Initialize h (s - 48) 0 m = Some ((set_ptr (h + 8) 0 m)(h := header_of (b\<lparr>b_last := False\<rparr>)))"
    using fit(5) by (simp add: Initialize_eq b_def pool_block_def header_of_def)
  moreover have "SetLastBlockInPool h ((set_ptr (h + 8) 0 m)(h := header_of (b\<lparr>b_last := False\<rparr>))) = Some ((set_ptr (h + 8) 0 m)(h := header_of b))"
    using write_at(1) [of "(set_ptr (h + 8) 0 m)(h := header_of (b\<lparr>b_last := False\<rparr>))" h "b\<lparr>b_last := False\<rparr>"] bo
    by (simp add: block_at_def block_ok_def block_end_def b_def pool_block_def ptr_at_def set_ptr_def)
  ultimately have "AddMemoryPool p s e = Some ?e"
    using m(1) m'(1) fit(1,2) by (simp add: AddMemoryPool_def GetFirstMemoryHeader_def h_def S_def)
  moreover have "fl_ok (B(h \<mapsto> b)) (ps @ [(p, s)]) ?e"
  proof -
    have "pool_headers (ps @ [(p, s)]) \<inter> (owned S B \<union> {p + 32..<p + s}) = {}"
    proof -
      have "pool_headers (ps @ [(p, s)]) = pool_headers ps \<union> {p..<p + 32}" by (auto simp: pool_headers_def)
      moreover have "{p..<p + 32} \<inter> {p + 32..<p + s} = {}" "{p + 32..<p + s} \<subseteq> {p..<p + s}" by auto
      ultimately show ?thesis using own new hb sub by blast
    qed
    then have "pool_list m' 0 (fl_head ?e) (ps @ [(p, s)])"
      using m(2) m'(7) by (subst pool_list_cong [of _ m' m]) (unfold unchanged_def, blast, simp)
    moreover have "region (B(h \<mapsto> b)) = bodies (ps @ [(p, s)])" using m'(4) ok(6) by (auto simp: bodies_def)
    moreover have "ends (B(h \<mapsto> b)) \<inter> bodies (ps @ [(p, s)]) = {}" unfolding m'(5) by (rule ends_of_new [OF ok(3) assms(2) ok(6,7)])
    ultimately show ?thesis using m'(2,3) pools_ok_snoc [OF ok(3) assms(2)] by (simp add: fl_ok_def S_def)
  qed
  moreover have "unchanged (owned S B \<union> pool_headers ps \<union> {p..<p + s}) (fl_mem e) m'"
    by (rule unchanged_trans [OF unchanged_mono [OF m(3)] unchanged_mono [OF m'(7)]]) (use sub in auto)
  ultimately show ?thesis using m'(6) by (intro exI [of _ ?e]) (simp add: S_def h_def b_def)
qed

lemma fl_ok_step:
  assumes "fl_ok B ps e" "heap_repr (fl_blocks e) B' (free_set B') m'" "\<forall>x y. \<not> adj B' x y" "same_area B B'"
    "\<And>c. m' c \<noteq> fl_mem e c \<Longrightarrow> c \<in> owned (fl_blocks e) B \<or> c \<in> region B"
  shows "fl_ok B' ps (e\<lparr>fl_mem := m'\<rparr>)"
proof -
  note ok = fl_okD [OF assms(1)]
  have "owned (fl_blocks e) B \<subseteq> {fl_blocks e..<fl_blocks e + 512} \<union> bodies ps" using owned_region ok(6) by blast
  then have "\<forall>c\<in>pool_headers ps. m' c = fl_mem e c" using assms(5) headers_bodies [OF ok(3)] ok(6) by blast
  then have "pool_list m' 0 (fl_head e) ps" using ok(4) pool_list_cong by blast
  then show ?thesis using assms(2,3) same_areaD [OF assms(4)] ok by (simp add: fl_ok_def)
qed

lemma taken_ok: "fl_ok B ps e \<Longrightarrow> taken (fl_blocks e) B (fl_mem e) k s q B' m' \<Longrightarrow> fl_ok B' ps (e\<lparr>fl_mem := m'\<rparr>)"
  by (erule fl_ok_step) (auto simp: taken_def unchanged_def)

text \<open>The memory of a used block is outside of what the allocator changes.\<close>

lemma inside_used:
  assumes "fl_ok B ps e" "used_of B k = Some (s, q)" "k + 16 \<le> c" "c < k + 16 + s"
  shows "c \<notin> owned (fl_blocks e) B" "c \<in> region B" "c \<in> bodies ps"
    "used_of B k' = Some (s', q') \<Longrightarrow> k' \<noteq> k \<Longrightarrow> c < k' \<or> k' + 16 + s' \<le> c"
proof -
  note ok = fl_okD [OF assms(1)] and r = heap_reprD [OF fl_okD(1) [OF assms(1)]]
  obtain b where b: "B k = Some b" "b_used b" "b_size b = s" using used_ofD [OF assms(2)] by blast
  have out: "c < x \<or> block_end x d \<le> c" if x: "B x = Some d" "x \<noteq> k" for x d
    using blocks_okD(10) [OF r(1) x(1) b(1)] blocks_okD(10) [OF r(1) b(1) x(1)] x(2) assms(3,4) b(3) by (cases "x < k") (auto simp: block_end_def)
  show reg: "c \<in> region B" using regionI [of B k b c] b assms(3,4) by (simp add: block_end_def)
  then show "c \<in> bodies ps" using ok(6) by blast
  show "c < k' \<or> k' + 16 + s' \<le> c" if "used_of B k' = Some (s', q')" "k' \<noteq> k"
    using used_ofD [OF that(1)] out that(2) by (auto simp: block_end_def)
  show "c \<notin> owned (fl_blocks e) B" using outside_owned [OF ok(1) b(1,2) assms(3)] assms(4) b(3) by (simp add: block_end_def)
qed

lemma free_ok:
  assumes "fl_ok B ps e" "used_of B k = Some (s, 0)"
  shows "\<exists>m' B'. FreeUnsafe (k + 16) e = Some (e\<lparr>fl_mem := m'\<rparr>) \<and> fl_ok B' ps (e\<lparr>fl_mem := m'\<rparr>) \<and> used_of B' = (used_of B)(k := None) \<and>
    (\<forall>c. m' c \<noteq> fl_mem e c \<longrightarrow> c \<in> owned (fl_blocks e) B \<or> k \<le> c \<and> c < k + 16 + s) \<and> (\<exists>k'. leads B' k m' k')"
proof -
  note ok = fl_okD [OF assms(1)]
  obtain b where b: "B k = Some b" "b_used b" "b_size b = s" using used_ofD [OF assms(2)] by blast
  have s: "256 \<le> s" using blocks_okD(5) [OF heap_reprD(1) [OF ok(1)] b(1)] b(3) by simp
  have reg: "c \<in> region B" if "k \<le> c" "c < k + 16 + s" for c using regionI [of B k b c] b that by (simp add: block_end_def)
  then have "k \<in> bodies ps" "k + 16 \<in> bodies ps" using ok(6) s by auto
  then have "AllocatedByFreeListAllocatorUnsafe (k + 16) e = Some True"
    using allocated_loop_finds [OF ok(3,4)] by (simp add: AllocatedByFreeListAllocatorUnsafe_def)
  then obtain m' B' where f: "FreeUnsafe (k + 16) e = Some (e\<lparr>fl_mem := m'\<rparr>)" "heap_repr (fl_blocks e) B' (free_set B') m'" "\<forall>x y. \<not> adj B' x y" "same_area B B'"
    "used_of B' = (used_of B)(k := None)" "\<forall>c. m' c \<noteq> fl_mem e c \<longrightarrow> c \<in> owned (fl_blocks e) B \<or> k \<le> c \<and> c < k + 16 + s" "\<exists>k'. leads B' k m' k'"
    using free_repr [OF ok(1,2) assms(2) refl] by blast
  moreover have "fl_ok B' ps (e\<lparr>fl_mem := m'\<rparr>)" by (rule fl_ok_step [OF assms(1) f(2-4)]) (use f(6) reg in blast)
  ultimately show ?thesis by blast
qed

lemma write_ok:
  assumes "fl_ok B ps e" "used_of B k = Some (s, q)" "k + 16 \<le> c" "c < k + 16 + s"
  shows "fl_ok B ps (e\<lparr>fl_mem := (fl_mem e)(c := v)\<rparr>)"
proof (rule fl_ok_step [OF assms(1)])
  note ok = fl_okD [OF assms(1)]
  show "heap_repr (fl_blocks e) B (free_set B) ((fl_mem e)(c := v))"
    by (rule heap_repr_cong [OF ok(1)]) (use inside_used(1) [OF assms] in auto)
  show "x \<in> owned (fl_blocks e) B \<or> x \<in> region B" if "((fl_mem e)(c := v)) x \<noteq> fl_mem e x" for x
    using that inside_used(2) [OF assms] by (auto split: if_splits)
qed (use fl_okD(2) [OF assms(1)] in auto)

end
