(* ===== verification/FreeListCollect.thy ===== *)
theory FreeListCollect
  imports FreeListPools
begin

subsection \<open>The blocks of a pool\<close>

text \<open>
  \<open>IterateOverObjects\<close> and \<open>Collect\<close>: the walk over the blocks of all pools, with a visitor that may release the block it is
  called for.
\<close>

lemma pool_end_out: "pools_ok S ps \<Longrightarrow> (p, s) \<in> set ps \<Longrightarrow> p + s \<notin> bodies ps"
proof
  assume ok: "pools_ok S ps" "(p, s) \<in> set ps" and "p + s \<in> bodies ps"
  then obtain q t where q: "(q, t) \<in> set ps" "q + 32 \<le> p + s" "p + s < q + t" by (auto simp: bodies_def)
  then show False using pools_okD(2) [OF ok q(1)] by auto
qed

lemma body_region:
  assumes "fl_ok B ps e" "(p, s) \<in> set ps" "p + 32 \<le> x" "x < p + s"
  shows "x \<in> region B"
  unfolding fl_okD(6) [OF assms(1)] bodies_def by (rule UN_I [OF assms(2)]) (use assms(3,4) in simp)

text \<open>A block that meets a pool lies in the pool, and is the last of it exactly when it ends with it.\<close>

lemma block_in_pool:
  assumes "fl_ok B ps e" "(p, s) \<in> set ps" "B h = Some b" "h \<le> x" "x < block_end h b" "p + 32 \<le> x" "x < p + s"
  shows "p + 32 \<le> h" "block_end h b \<le> p + s" "b_last b \<longleftrightarrow> block_end h b = p + s"
proof -
  note ok = fl_okD [OF assms(1)] and out = pool_end_out [OF fl_okD(3) [OF assms(1)] assms(2)]
  note r = heap_reprD [OF ok(1)]
  show "p + 32 \<le> h"
  proof (rule ccontr)
    assume "\<not> p + 32 \<le> h"
    then have "p + 31 \<in> bodies ps" using regionI [of B h b "p + 31"] assms ok(6) by simp
    moreover have "p + 31 \<in> pool_headers ps" unfolding pool_headers_def by (rule UN_I [OF assms(2)]) simp
    ultimately show False using headers_bodies [OF ok(3)] by blast
  qed
  show le: "block_end h b \<le> p + s"
  proof (rule ccontr)
    assume "\<not> block_end h b \<le> p + s"
    then have "p + s \<in> region B" using regionI [of B h b "p + s"] assms by simp
    then show False using out ok(6) by simp
  qed
  show "b_last b \<longleftrightarrow> block_end h b = p + s"
  proof
    assume "b_last b"
    then have "block_end h b \<notin> bodies ps" using endsI [of B h b] assms(3) ok(7) by blast
    moreover have "p + 32 \<le> block_end h b" using assms(5,6) by simp
    ultimately show "block_end h b = p + s" using body_region [OF assms(1,2), of "block_end h b"] le ok(6) by (metis le_neq_implies_less)
  next
    assume e: "block_end h b = p + s"
    show "b_last b"
    proof (rule ccontr)
      assume "\<not> b_last b"
      then obtain d where "B (block_end h b) = Some d" using blocks_okD(11) [OF r(1) assms(3)] by blast
      then have "p + s \<in> region B" using regionI [of B "p + s" d "p + s"] e by simp
      then show False using out ok(6) by simp
    qed
  qed
qed

lemma pool_first_block: "fl_ok B ps e \<Longrightarrow> (p, s) \<in> set ps \<Longrightarrow> \<exists>b. B (p + 32) = Some b"
proof -
  assume ok: "fl_ok B ps e" "(p, s) \<in> set ps"
  have s: "p + 32 < p + s" using pools_okD(1) [OF fl_okD(3) [OF ok(1)] ok(2)] by auto
  then obtain h b where h: "B h = Some b" "h \<le> p + 32" "p + 32 < block_end h b" using body_region [OF ok, of "p + 32"] by (auto simp: region_def)
  then have "h = p + 32" using block_in_pool(1) [OF ok h(1,2,3) order_refl s] by simp
  then show ?thesis using h(1) by blast
qed

text \<open>The next used block of a pool.\<close>

definition next_ok :: "blocks \<Rightarrow> nat \<Rightarrow> nat \<Rightarrow> nat \<Rightarrow> bool" where
  "next_ok B lim k n \<longleftrightarrow> (n = 0 \<or> k < n \<and> n < lim \<and> used_of B n \<noteq> None) \<and> (\<forall>x. k < x \<longrightarrow> x < (if n = 0 then lim else n) \<longrightarrow> used_of B x = None)"

lemma none_inside: "blocks_ok B \<Longrightarrow> B k = Some c \<Longrightarrow> k < x \<Longrightarrow> x < block_end k c \<Longrightarrow> used_of B x = None"
  using blocks_outside [of B k c x] by (cases "B x") (auto simp: used_of_def)

lemma next_used:
  assumes "fl_ok B ps e" "(p, s) \<in> set ps" "leads B k (fl_mem e) k'" "p + 32 \<le> k" "k < p + s"
  shows "\<exists>n. GetNextUsedHeader k (fl_mem e) = Some n \<and> next_ok B (p + s) k n"
proof -
  note r = heap_reprD [OF fl_okD(1) [OF assms(1)]]
  note rd = read_block [OF r(1,3)]
  obtain c where c: "B k' = Some c" "k' \<le> k" "k < block_end k' c" "GetNextHeader k (fl_mem e) = Some (if b_last c then 0 else block_end k' c)"
    using assms(3) by (auto simp: leads_def)
  define E where "E = block_end k' c"
  note in1 = block_in_pool [OF assms(1,2) c(1,2,3) assms(4,5), folded E_def]
  have no1: "used_of B x = None" if "k < x" "x < E" for x using none_inside [OF r(1) c(1), of x] c(2) that by (simp add: E_def)
  show ?thesis
  proof (cases "b_last c")
    case True
    then have "next_ok B (p + s) k 0" using no1 in1(3) by (simp add: next_ok_def)
    then show ?thesis using c(4) True by (simp add: GetNextUsedHeader_def)
  next
    case False
    then obtain d where d: "B E = Some d" using blocks_okD(11) [OF r(1) c(1)] by (auto simp: E_def)
    have E: "E \<noteq> 0" "E < p + s" "k < E" "p + 32 \<le> E" using blocks_okD(2) [OF r(1) d] in1 False assms(4) c(3) by (auto simp: E_def)
    have g: "GetNextHeader k (fl_mem e) = Some E" using c(4) False by (simp add: E_def)
    show ?thesis
    proof (cases "b_used d")
      case True
      then have "next_ok B (p + s) k E" using no1 E d by (simp add: next_ok_def used_of_def)
      then show ?thesis using g E(1) rd(1) [OF d] True by (simp add: GetNextUsedHeader_def)
    next
      case free: False
      define E2 where "E2 = block_end E d"
      note in2 = block_in_pool [OF assms(1,2) d order_refl _ E(4,2), folded E2_def]
      have no2: "used_of B x = None" if "k < x" "x < E2" for x
        using no1 [of x] none_inside [OF r(1) d, of x] that d free by (cases x E rule: linorder_cases) (auto simp: E2_def used_of_def)
      show ?thesis
      proof (cases "b_last d")
        case True
        then have "next_ok B (p + s) k 0" using no2 in2(3) by (simp add: next_ok_def E2_def)
        then show ?thesis using g E(1) rd(1,5) [OF d] free True by (simp add: GetNextUsedHeader_def)
      next
        case F2: False
        then obtain f where f: "B E2 = Some f" using blocks_okD(11) [OF r(1) d] by (auto simp: E2_def)
        have u: "b_used f" using fl_okD(2) [OF assms(1)] d f free F2 by (auto simp: adj_def E2_def)
        have "E < E2" "E2 \<le> p + s" "E2 \<noteq> p + s" using in2(2,3) F2 by (simp_all add: E2_def)
        then have E2: "E2 \<noteq> 0" "E2 < p + s" "k < E2" using E(3) by linarith+
        then have "next_ok B (p + s) k E2" using no2 f u by (simp add: next_ok_def used_of_def)
        then show ?thesis using g E(1) rd(1,5) [OF d] free F2 rd(1) [OF f] u by (simp add: GetNextUsedHeader_def E2_def)
      qed
    qed
  qed
qed

subsection \<open>The collection\<close>

definition unpadded :: "blocks \<Rightarrow> bool" where
  "unpadded B \<longleftrightarrow> (\<forall>x s q. used_of B x = Some (s, q) \<longrightarrow> q = 0)"

definition sweep :: "(nat \<Rightarrow> bool) \<Rightarrow> nat set \<Rightarrow> blocks \<Rightarrow> nat \<rightharpoonup> nat \<times> u64" where
  "sweep dead R B = (\<lambda>x. if x \<in> R \<and> dead (x + 16) then None else used_of B x)"

lemma unpadded_sweep: "unpadded B \<Longrightarrow> used_of B' = sweep dead R B \<Longrightarrow> unpadded B'"
  by (auto simp: unpadded_def sweep_def split: if_splits)

lemma memory_unpadded:
  assumes "fl_ok B ps e" "unpadded B" "used_of B k = Some (s, q)"
  shows "GetMemory k (fl_mem e) = Some (k + 16)" "q = 0"
proof -
  note r = heap_reprD [OF fl_okD(1) [OF assms(1)]]
  show q: "q = 0" using assms(2,3) by (auto simp: unpadded_def)
  obtain b where b: "B k = Some b" "b_pad b = q" using used_ofD [OF assms(3)] by blast
  show "GetMemory k (fl_mem e) = Some (k + 16)" using read_block(7,8) [OF r(1,3) b(1)] b(2) q by (simp add: GetMemory_def)
qed

text \<open>The memory of the blocks that are used after a step is as it was before.\<close>

definition keeps_used :: "blocks \<Rightarrow> cells \<Rightarrow> cells \<Rightarrow> bool" where
  "keeps_used B m m' \<longleftrightarrow> (\<forall>k s q x. used_of B k = Some (s, q) \<longrightarrow> k + 16 \<le> x \<longrightarrow> x < k + 16 + s \<longrightarrow> m' x = m x)"

lemma keeps_used_refl [simp]: "keeps_used B m m"
  by (simp add: keeps_used_def)

lemma keeps_used_trans: "keeps_used B m m1 \<Longrightarrow> keeps_used B' m1 m2 \<Longrightarrow> used_of B' = sweep dead R B \<Longrightarrow> keeps_used B' m m2"
  by (auto simp: keeps_used_def sweep_def split: if_splits)

lemma free_keeps_used:
  assumes "fl_ok B ps e" "used_of B k = Some (s, q)" "used_of B' = (used_of B)(k := None)"
    "\<forall>c. m' c \<noteq> fl_mem e c \<longrightarrow> c \<in> owned (fl_blocks e) B \<or> k \<le> c \<and> c < k + 16 + s"
  shows "keeps_used B' (fl_mem e) m'"
  unfolding keeps_used_def
proof (intro allI impI)
  fix k' s' q' x assume k': "used_of B' k' = Some (s', q')" and x: "k' + 16 \<le> x" "x < k' + 16 + s'"
  then have u: "used_of B k' = Some (s', q')" "k' \<noteq> k" using assms(3) by (auto split: if_splits)
  show "m' x = fl_mem e x"
  proof (rule ccontr)
    assume "m' x \<noteq> fl_mem e x"
    then have "k \<le> x \<and> x < k + 16 + s" using assms(4) inside_used(1) [OF assms(1) u(1) x] by blast
    then show False using inside_used(4) [OF assms(1) u(1) x assms(2)] u(2) by auto
  qed
qed

lemma collect_visit:
  assumes "fl_ok B ps e" "unpadded B" "B k = Some b"
  shows "\<exists>m' B' k'. (if IsUsed k (fl_mem e) then do { a \<leftarrow> GetMemory k (fl_mem e); (if dead a then FreeUnsafe a e else Some e) } else Some e) = Some (e\<lparr>fl_mem := m'\<rparr>) \<and>
    fl_ok B' ps (e\<lparr>fl_mem := m'\<rparr>) \<and> used_of B' = sweep dead {k} B \<and> leads B' k m' k' \<and> keeps_used B' (fl_mem e) m'"
proof -
  note r = heap_reprD [OF fl_okD(1) [OF assms(1)]]
  note rd = read_block(1) [OF r(1,3) assms(3)]
  show ?thesis
  proof (cases "b_used b \<and> dead (k + 16)")
    case True
    then have u: "used_of B k = Some (b_size b, b_pad b)" using assms(3) by (simp add: used_of_def)
    note g = memory_unpadded [OF assms(1,2) u]
    obtain m' B' where f: "FreeUnsafe (k + 16) e = Some (e\<lparr>fl_mem := m'\<rparr>)" "fl_ok B' ps (e\<lparr>fl_mem := m'\<rparr>)" "used_of B' = (used_of B)(k := None)" "\<exists>k'. leads B' k m' k'"
      "\<forall>c. m' c \<noteq> fl_mem e c \<longrightarrow> c \<in> owned (fl_blocks e) B \<or> k \<le> c \<and> c < k + 16 + b_size b"
      using free_ok [OF assms(1), of k "b_size b"] u g(2) by auto
    moreover have "used_of B' = sweep dead {k} B" using f(3) True by (auto simp: sweep_def fun_eq_iff)
    moreover have "keeps_used B' (fl_mem e) m'" by (rule free_keeps_used [OF assms(1) u f(3,5)])
    ultimately show ?thesis using rd True g(1) by auto
  next
    case False
    then have "used_of B = sweep dead {k} B" using assms(3) by (auto simp: sweep_def used_of_def fun_eq_iff)
    moreover have "(if IsUsed k (fl_mem e) then do { a \<leftarrow> GetMemory k (fl_mem e); (if dead a then FreeUnsafe a e else Some e) } else Some e) = Some (e\<lparr>fl_mem := fl_mem e\<rparr>)"
    proof (cases "b_used b")
      case True
      then have "used_of B k = Some (b_size b, b_pad b)" using assms(3) by (simp add: used_of_def)
      then show ?thesis using memory_unpadded(1) [OF assms(1,2)] rd False True by auto
    qed (use rd in simp)
    ultimately show ?thesis using assms(1) leads_self [OF r(1,3) assms(3)] by (intro exI [of _ "fl_mem e"] exI [of _ B] exI [of _ k]) simp
  qed
qed

abbreviation collector :: "(nat \<Rightarrow> bool) \<Rightarrow> nat \<Rightarrow> FreeListAlloc \<Rightarrow> FreeListAlloc option" where
  "collector dead \<equiv> \<lambda>a e. if dead a then FreeUnsafe a e else Some e"

lemma collect_blocks:
  assumes "(p, s) \<in> set ps" "fl_ok B ps e" "unpadded B" "B k = Some b" "p + 32 \<le> k" "k < p + s"
  shows "\<exists>m' B'. iterate_blocks (collector dead) k e = Some (e\<lparr>fl_mem := m'\<rparr>) \<and> fl_ok B' ps (e\<lparr>fl_mem := m'\<rparr>) \<and> used_of B' = sweep dead {k..<p + s} B \<and>
    keeps_used B' (fl_mem e) m'"
  using assms(2-)
proof (induction "p + s - k" arbitrary: B b k e rule: less_induct)
  case less
  have k: "k \<noteq> 0" using less.prems(4) by simp
  obtain m1 B1 k' where v: "(if IsUsed k (fl_mem e) then do { a \<leftarrow> GetMemory k (fl_mem e); (if dead a then FreeUnsafe a e else Some e) } else Some e) = Some (e\<lparr>fl_mem := m1\<rparr>)"
    "fl_ok B1 ps (e\<lparr>fl_mem := m1\<rparr>)" "used_of B1 = sweep dead {k} B" "leads B1 k m1 k'" "keeps_used B1 (fl_mem e) m1"
    using collect_visit [OF less.prems(1-3)] by blast
  obtain n where n: "GetNextUsedHeader k m1 = Some n" "next_ok B1 (p + s) k n" using next_used [OF v(2) assms(1) _ less.prems(4,5), of k'] v(4) by auto
  have it: "iterate_blocks (collector dead) k e = iterate_blocks (collector dead) n (e\<lparr>fl_mem := m1\<rparr>)"
    using k v(1) n(1) by (subst iterate_blocks.simps) simp
  have no: "used_of B1 x = None" if "k < x" "x < (if n = 0 then p + s else n)" for x using n(2) that by (simp add: next_ok_def)
  show ?case
  proof (cases "n = 0")
    case True
    then have "iterate_blocks (collector dead) n (e\<lparr>fl_mem := m1\<rparr>) = Some (e\<lparr>fl_mem := m1\<rparr>)" by (subst iterate_blocks.simps) simp
    moreover have "used_of B1 = sweep dead {k..<p + s} B"
    proof
      fix x show "used_of B1 x = sweep dead {k..<p + s} B x" using no [of x] True v(3) less.prems(5) by (cases x k rule: linorder_cases) (auto simp: sweep_def split: if_splits)
    qed
    ultimately show ?thesis using it v(2,5) by auto
  next
    case False
    then have n': "k < n" "n < p + s" "used_of B1 n \<noteq> None" using n(2) by (auto simp: next_ok_def)
    then obtain b1 where b1: "B1 n = Some b1" by (auto simp: used_of_def split: option.splits)
    have "p + s - n < p + s - k" using n'(1,2) by linarith
    then obtain m2 B2 where i: "iterate_blocks (collector dead) n (e\<lparr>fl_mem := m1\<rparr>) = Some (e\<lparr>fl_mem := m2\<rparr>)" "fl_ok B2 ps (e\<lparr>fl_mem := m2\<rparr>)"
      "used_of B2 = sweep dead {n..<p + s} B1" "keeps_used B2 m1 m2"
      using less.hyps [OF _ v(2) unpadded_sweep [OF less.prems(2) v(3)] b1] n' less.prems(4,5) by auto
    have "used_of B2 = sweep dead {k..<p + s} B"
    proof
      fix x show "used_of B2 x = sweep dead {k..<p + s} B x"
        using no [of x] False v(3) i(3) n' by (cases x k rule: linorder_cases; cases x n rule: linorder_cases) (auto simp: sweep_def split: if_splits)
    qed
    then show ?thesis using it i(1,2) keeps_used_trans [OF v(5) i(4,3)] by auto
  qed
qed

lemma pool_prev:
  "pool_list m prev p (qs @ (q, s) # rs) \<Longrightarrow> pool_GetPrev q m = (if qs = [] then prev else fst (last qs))"
  by (induction qs arbitrary: prev p) (auto split: if_splits)

lemma collect_pools:
  assumes "fl_ok B ps e" "unpadded B" "ps = qs @ rs"
  shows "\<exists>m' B'. iterate_pools (collector dead) (if qs = [] then 0 else fst (last qs)) e = Some (e\<lparr>fl_mem := m'\<rparr>) \<and> fl_ok B' ps (e\<lparr>fl_mem := m'\<rparr>) \<and>
    used_of B' = sweep dead (bodies qs) B \<and> keeps_used B' (fl_mem e) m'"
  using assms
proof (induction qs arbitrary: rs B e rule: rev_induct)
  case Nil
  have "iterate_pools (collector dead) 0 e = Some (e\<lparr>fl_mem := fl_mem e\<rparr>)" by (subst iterate_pools.simps) simp
  moreover have "used_of B = sweep dead (bodies []) B" by (simp add: sweep_def bodies_def)
  ultimately show ?case using Nil.prems(1) by (intro exI [of _ "fl_mem e"] exI [of _ B]) simp
next
  case (snoc x qs)
  obtain q s where x: "x = (q, s)" by (cases x)
  have q: "(q, s) \<in> set ps" using snoc.prems(3) x by simp
  note d = pools_okD(1) [OF fl_okD(3) [OF snoc.prems(1)] q]
  obtain b where b: "B (q + 32) = Some b" using pool_first_block [OF snoc.prems(1) q] by blast
  obtain m1 B1 where i: "iterate_blocks (collector dead) (q + 32) e = Some (e\<lparr>fl_mem := m1\<rparr>)" "fl_ok B1 ps (e\<lparr>fl_mem := m1\<rparr>)" "used_of B1 = sweep dead {q + 32..<q + s} B" "keeps_used B1 (fl_mem e) m1"
    using collect_blocks [OF q snoc.prems(1,2) b, of dead] d by auto
  have "pool_GetPrev q m1 = (if qs = [] then 0 else fst (last qs))" using fl_okD(4) [OF i(2)] snoc.prems(3) x pool_prev [of m1 0 _ qs q s rs] by simp
  then have it: "iterate_pools (collector dead) q e = iterate_pools (collector dead) (if qs = [] then 0 else fst (last qs)) (e\<lparr>fl_mem := m1\<rparr>)"
    using i(1) d by (subst iterate_pools.simps) (simp add: GetFirstMemoryHeader_def)
  obtain m2 B2 where j: "iterate_pools (collector dead) (if qs = [] then 0 else fst (last qs)) (e\<lparr>fl_mem := m1\<rparr>) = Some (e\<lparr>fl_mem := m2\<rparr>)"
    "fl_ok B2 ps (e\<lparr>fl_mem := m2\<rparr>)" "used_of B2 = sweep dead (bodies qs) B1" "keeps_used B2 m1 m2"
    using snoc.IH [OF i(2) unpadded_sweep [OF snoc.prems(2) i(3)], of "x # rs"] snoc.prems(3) by auto
  have "bodies (qs @ [x]) = bodies qs \<union> {q + 32..<q + s}" by (auto simp: bodies_def x)
  then have "used_of B2 = sweep dead (bodies (qs @ [x])) B" using j(3) i(3) by (auto simp: sweep_def fun_eq_iff)
  then show ?case using it j(1,2) x keeps_used_trans [OF i(4) j(4,3)] by auto
qed

lemma used_in_bodies: "fl_ok B ps e \<Longrightarrow> used_of B x \<noteq> None \<Longrightarrow> x \<in> bodies ps"
proof -
  assume ok: "fl_ok B ps e" and "used_of B x \<noteq> None"
  then obtain b where b: "B x = Some b" by (auto simp: used_of_def split: option.splits)
  have "x \<in> region B" by (rule regionI [of B x b, OF b]) simp_all
  then show ?thesis using fl_okD(6) [OF ok] by simp
qed

lemma collect_ok:
  assumes "fl_ok B ps e" "unpadded B"
  shows "\<exists>m' B'. CollectDead dead e = Some (e\<lparr>fl_mem := m'\<rparr>) \<and> fl_ok B' ps (e\<lparr>fl_mem := m'\<rparr>) \<and> used_of B' = sweep dead UNIV B \<and> keeps_used B' (fl_mem e) m'"
proof -
  obtain m' B' where c: "iterate_pools (collector dead) (if ps = [] then 0 else fst (last ps)) e = Some (e\<lparr>fl_mem := m'\<rparr>)" "fl_ok B' ps (e\<lparr>fl_mem := m'\<rparr>)"
    "used_of B' = sweep dead (bodies ps) B" "keeps_used B' (fl_mem e) m'"
    using collect_pools [OF assms, of ps "[]" dead] by auto
  have "sweep dead (bodies ps) B = sweep dead UNIV B"
  proof
    fix x show "sweep dead (bodies ps) B x = sweep dead UNIV B x" using used_in_bodies [OF assms(1), of x] by (cases "used_of B x") (auto simp: sweep_def)
  qed
  then show ?thesis using c fl_okD(5) [OF assms(1)] by (auto simp: CollectDead_def IterateOverObjects_def)
qed

end
