(* ===== verification/FreeListProperties.thy ===== *)
theory FreeListProperties
  imports FreeListCollect Transitions
begin

text \<open>
  The properties of the free-list allocator. A client adds pools, allocates, releases, writes to its memory and runs
  collections; the invariant of the allocator and the placement of the live allocations hold in every state it can reach.
\<close>

subsection \<open>Clients\<close>

text \<open>
  A client of the allocator: the allocator, the pools it was given and the allocations that are live, by their address
  with the size and the alignment asked for.
\<close>

record fl_client =
  cl_fl :: FreeListAlloc
  cl_pools :: pools
  cl_live :: "nat \<rightharpoonup> nat \<times> nat"

definition fl_init :: "fl_client \<Rightarrow> bool" where
  "fl_init c \<longleftrightarrow> cl_pools c = [] \<and> cl_live c = Map.empty \<and> fl_head (cl_fl c) = 0 \<and> fl_tail (cl_fl c) = 0 \<and>
     fl_blocks (cl_fl c) \<noteq> 0 \<and> fl_blocks (cl_fl c) + 512 < 2 ^ 60 \<and> (\<forall>i<512. fl_mem (cl_fl c) (fl_blocks (cl_fl c) + i) = 0)"

definition default_aligned :: "(nat \<rightharpoonup> nat \<times> nat) \<Rightarrow> bool" where
  "default_aligned L \<longleftrightarrow> (\<forall>r\<in>ran L. snd r \<le> FREELIST_DEFAULT_ALIGNMENT)"

inductive fl_step :: "fl_client \<Rightarrow> fl_client \<Rightarrow> bool" where
  add_memory_pool: "pool_fits (fl_blocks (cl_fl c)) (cl_pools c) p s \<Longrightarrow> AddMemoryPool p s (cl_fl c) = Some e \<Longrightarrow>
    fl_step c (c\<lparr>cl_fl := e, cl_pools := cl_pools c @ [(p, s)]\<rparr>)"
| alloc: "al \<le> 13 \<Longrightarrow> Alloc sz al (cl_fl c) = Some (a, e) \<Longrightarrow>
    fl_step c (c\<lparr>cl_fl := e, cl_live := if a = 0 then cl_live c else (cl_live c)(a \<mapsto> (sz, al))\<rparr>)"
| free: "cl_live c a = Some (sz, al) \<Longrightarrow> al \<le> 3 \<Longrightarrow> FreeUnsafe a (cl_fl c) = Some e \<Longrightarrow>
    fl_step c (c\<lparr>cl_fl := e, cl_live := (cl_live c)(a := None)\<rparr>)"
| collect: "default_aligned (cl_live c) \<Longrightarrow> CollectDead dead (cl_fl c) = Some e \<Longrightarrow>
    fl_step c (c\<lparr>cl_fl := e, cl_live := cl_live c |` {a. \<not> dead a}\<rparr>)"
| client_write: "cl_live c a = Some (sz, al) \<Longrightarrow> a \<le> x \<Longrightarrow> x < a + sz \<Longrightarrow>
    fl_step c (c\<lparr>cl_fl := (cl_fl c)\<lparr>fl_mem := (fl_mem (cl_fl c))(x := v)\<rparr>\<rparr>)"

inductive_cases fl_stepE: "fl_step c c'"

text \<open>The live allocations are in the used blocks, one in each.\<close>

definition in_block :: "blocks \<Rightarrow> nat \<Rightarrow> nat \<times> nat \<Rightarrow> nat \<Rightarrow> bool" where
  "in_block B a r k \<longleftrightarrow> (\<exists>s q. used_of B k = Some (s, q) \<and> k + 16 \<le> a \<and> a + alloc_size (fst r) \<le> k + 16 + s \<and>
     2 ^ snd r dvd a \<and> (snd r \<le> 3 \<longrightarrow> a = k + 16 \<and> q = 0))"

definition live_ok :: "blocks \<Rightarrow> (nat \<rightharpoonup> nat \<times> nat) \<Rightarrow> bool" where
  "live_ok B L \<longleftrightarrow> (\<exists>blk. bij_betw blk (dom L) (dom (used_of B)) \<and> (\<forall>a r. L a = Some r \<longrightarrow> in_block B a r (blk a)))"

definition fl_inv :: "fl_client \<Rightarrow> bool" where
  "fl_inv c \<longleftrightarrow> (\<exists>B. fl_ok B (cl_pools c) (cl_fl c) \<and> live_ok B (cl_live c))"

lemma init_ok:
  assumes "fl_init c" shows "fl_ok Map.empty [] (cl_fl c)"
proof -
  let ?S = "fl_blocks (cl_fl c)" and ?m = "fl_mem (cl_fl c)"
  have z: "?m (?S + i) = 0" if "i < 512" for i using assms that by (simp add: fl_init_def)
  have "list_ok ?S Map.empty {} ?m i []" if "i < 16" for i
    using z [of "32 * i"] z [of "32 * i + 16"] that by (simp add: list_ok_def list_head_def ptr_at_def add.assoc)
  then have "heap_repr ?S Map.empty {} ?m" using assms by (auto simp: heap_repr_def blocks_ok_def heads_ok_def mem_blocks_def fl_init_def)
  moreover have "free_set Map.empty = {}" by (simp add: free_set_def)
  ultimately show ?thesis using assms by (simp add: fl_ok_def adj_def region_def ends_def bodies_def fl_init_def)
qed

lemma alloc_size_ge: "sz \<le> alloc_size sz" "256 \<le> alloc_size sz"
  by (simp_all add: alloc_size_def)

lemma live_alloc:
  assumes "live_ok B L" "used_of B k = None" "used_of B' = (used_of B)(k \<mapsto> (s, q))" "k + 16 \<le> a" "a + alloc_size sz \<le> k + 16 + s"
    "2 ^ al dvd a" "al \<le> 3 \<longrightarrow> a = k + 16 \<and> q = 0" "L a = None"
  shows "live_ok B' (L(a \<mapsto> (sz, al)))"
proof -
  obtain blk where bij: "bij_betw blk (dom L) (dom (used_of B))" and blk: "inj_on blk (dom L)" "\<And>x r. L x = Some r \<Longrightarrow> in_block B x r (blk x)"
    using assms(1) unfolding live_ok_def bij_betw_def by blast
  have new: "in_block B' a (sz, al) k" using assms(3-7) by (simp add: in_block_def)
  have k: "blk x \<noteq> k \<and> in_block B' x r (blk x)" if "L x = Some r" for x r
    using blk(2) [OF that] assms(2,3) unfolding in_block_def by (metis fun_upd_other option.distinct(1))
  have "bij_betw (blk(a := k)) (dom (L(a \<mapsto> (sz, al)))) (dom (used_of B'))"
  proof -
    have "bij_betw (blk(a := k)) (dom L) (dom (used_of B))" using bij by (rule bij_betw_cong [THEN iffD1, rotated]) (use assms(8) in auto)
    then have "bij_betw (blk(a := k)) (dom L \<union> {a}) (dom (used_of B) \<union> {(blk(a := k)) a})"
      by (intro notIn_Un_bij_betw) (use assms(2,8) in \<open>simp_all add: domIff\<close>)
    then show ?thesis using assms(3) by simp
  qed
  moreover have "in_block B' x r ((blk(a := k)) x)" if "(L(a \<mapsto> (sz, al))) x = Some r" for x r
    using that new k [of x r] by (cases "x = a") auto
  ultimately show ?thesis unfolding live_ok_def by blast
qed

lemma live_free:
  assumes "live_ok B L" "L a = Some r" "in_block B a r k" "used_of B' = (used_of B)(k := None)" "snd r \<le> 3"
  shows "live_ok B' (L(a := None))"
proof -
  obtain blk where bij: "bij_betw blk (dom L) (dom (used_of B))" and blk: "inj_on blk (dom L)" "\<And>x r. L x = Some r \<Longrightarrow> in_block B x r (blk x)"
    using assms(1) unfolding live_ok_def bij_betw_def by blast
  have "blk a = k" using blk(2) [OF assms(2)] assms(3,5) by (auto simp: in_block_def)
  have "in_block B' x r (blk x)" if "(L(a := None)) x = Some r" for x r
    using \<open>blk a = k\<close> that blk(2) [of x r] assms(4) inj_onD [OF blk(1), of x a] assms(2) by (auto simp: in_block_def split: if_splits)
  moreover have "bij_betw blk (dom (L(a := None))) (dom (used_of B'))"
  proof -
    have "k \<in> dom (used_of B)" using assms(3) by (auto simp: in_block_def)
    then have "bij_betw blk (dom L - {a}) (dom (used_of B) - {k})" using bij_betw_DiffI [OF bij, of "{a}" "{k}"] \<open>blk a = k\<close> assms(2) by (simp add: domI)
    then show ?thesis by (simp add: assms(4))
  qed
  ultimately show ?thesis unfolding live_ok_def by blast
qed

lemma live_unpadded:
  assumes "live_ok B L" "default_aligned L"
  shows "unpadded B"
  unfolding unpadded_def
proof (intro allI impI)
  fix x s q assume x: "used_of B x = Some (s, q)"
  obtain blk where blk: "bij_betw blk (dom L) (dom (used_of B))" "\<And>x r. L x = Some r \<Longrightarrow> in_block B x r (blk x)" using assms(1) unfolding live_ok_def by blast
  have "x \<in> blk ` dom L" using x blk(1) by (auto simp: bij_betw_def)
  then obtain a r where a: "L a = Some r" "x = blk a" by auto
  have "snd r \<le> 3" using assms(2) ranI [of L a, OF a(1)] by (simp add: default_aligned_def)
  then show "q = 0" using blk(2) [OF a(1)] a(2) x by (auto simp: in_block_def)
qed

lemma live_collect:
  assumes "live_ok B L" "default_aligned L" "used_of B' = sweep dead UNIV B"
  shows "live_ok B' (L |` {a. \<not> dead a})"
proof -
  obtain blk where bij: "bij_betw blk (dom L) (dom (used_of B))" and blk: "\<And>x r. L x = Some r \<Longrightarrow> in_block B x r (blk x)"
    using assms(1) unfolding live_ok_def by blast
  have a: "a = blk a + 16" if "L a = Some r" for a r
  proof -
    have "snd r \<le> 3" using assms(2) ranI [of L a, OF that] by (simp add: default_aligned_def)
    then show ?thesis using blk [OF that] by (auto simp: in_block_def)
  qed
  have "blk ` dom (L |` {a. \<not> dead a}) = dom (used_of B')"
  proof (intro equalityI subsetI)
    fix x assume "x \<in> blk ` dom (L |` {a. \<not> dead a})"
    then obtain c r where c: "L c = Some r" "\<not> dead c" "x = blk c" by (auto simp: restrict_map_def split: if_splits)
    then have "\<not> dead (x + 16)" "x \<in> dom (used_of B)" using a [OF c(1)] blk [OF c(1)] by (auto simp: in_block_def)
    then show "x \<in> dom (used_of B')" using assms(3) by (simp add: sweep_def dom_def)
  next
    fix x assume "x \<in> dom (used_of B')"
    then have x: "x \<in> blk ` dom L" "\<not> dead (x + 16)" using assms(3) bij by (auto simp: sweep_def dom_def bij_betw_def split: if_splits)
    then obtain c r where c: "L c = Some r" "x = blk c" by auto
    then have "\<not> dead c" using a [OF c(1)] x(2) by simp
    then show "x \<in> blk ` dom (L |` {a. \<not> dead a})" using c by (intro image_eqI [of x blk c]) (auto simp: restrict_map_def)
  qed
  then have "bij_betw blk (dom (L |` {a. \<not> dead a})) (dom (used_of B'))" by (intro bij_betw_subset [OF bij]) auto
  moreover have "in_block B' x r (blk x)" if "(L |` {a. \<not> dead a}) x = Some r" for x r
  proof -
    have x: "L x = Some r" "\<not> dead x" using that by (auto simp: restrict_map_def split: if_splits)
    have "used_of B' (blk x) = used_of B (blk x)" using assms(3) a [OF x(1)] x(2) by (simp add: sweep_def)
    then show ?thesis using blk [OF x(1)] by (simp add: in_block_def)
  qed
  ultimately show ?thesis unfolding live_ok_def by blast
qed

lemma live_same: "used_of B' = used_of B \<Longrightarrow> live_ok B L \<Longrightarrow> live_ok B' L"
  by (simp add: live_ok_def in_block_def)

lemma live_block: "live_ok B L \<Longrightarrow> L a = Some r \<Longrightarrow> \<exists>k. in_block B a r k"
  unfolding live_ok_def by blast


lemma in_block_used:
  assumes "fl_ok B ps e" "in_block B a r k" "a \<le> x" "x < a + alloc_size (fst r)"
  obtains s q where "used_of B k = Some (s, q)" "k + 16 \<le> x" "x < k + 16 + s"
  using assms by (auto simp: in_block_def)

lemma fresh_address:
  assumes "fl_ok B ps e" "live_ok B L" "used_of B' = (used_of B)(k \<mapsto> (s, q))" "used_of B k = None" "fl_ok B' ps e'" "k + 16 \<le> a" "a < k + 16 + s"
  shows "L a = None"
proof (rule ccontr)
  assume "L a \<noteq> None"
  then obtain r where r: "L a = Some r" by blast
  obtain k' where k': "in_block B a r k'" using live_block [OF assms(2) r] by blast
  obtain s' q' where u: "used_of B k' = Some (s', q')" "k' + 16 \<le> a" "a < k' + 16 + s'" using in_block_used [OF assms(1) k', of a] alloc_size_ge(2) [of "fst r"] by auto
  then have "k' \<noteq> k" using assms(4) by auto
  then show False using inside_used(4) [OF assms(5), of k s q a k' s' q'] assms(3,6,7) u by auto
qed

subsection \<open>Steps of a client\<close>

lemma alloc_step:
  assumes "fl_ok B ps e" "live_ok B L" "al \<le> 13" "Alloc sz al e = Some (a, e')"
  shows "a = 0 \<and> e' = e \<or> a \<noteq> 0 \<and> L a = None \<and> fl_blocks e' = fl_blocks e \<and> unchanged (owned (fl_blocks e) B) (fl_mem e) (fl_mem e') \<and>
    (\<exists>B'. fl_ok B' ps e' \<and> live_ok B' (L(a \<mapsto> (sz, al))))"
proof -
  note ok = fl_okD [OF assms(1)]
  obtain a1 m' where a1: "Alloc sz al e = Some (a1, e\<lparr>fl_mem := m'\<rparr>)"
    "if alloc_size sz \<le> FREELIST_MAX_ALLOC_SIZE \<and> (\<exists>x\<in>free_set B. padded_size (alloc_size sz) al \<le> size_of B x)
     then \<exists>k s q B'. k \<in> free_set B \<and> (\<forall>x\<in>free_set B. padded_size (alloc_size sz) al \<le> size_of B x \<longrightarrow> size_of B k \<le> size_of B x) \<and>
       taken (fl_blocks e) B (fl_mem e) k s q B' m' \<and> k + 16 \<le> a1 \<and> a1 + alloc_size sz \<le> k + 16 + s \<and> 2 ^ al dvd a1 \<and> (al \<le> 3 \<longrightarrow> a1 = k + 16 \<and> q = 0) \<and>
       (\<forall>c. fl_zeroes e \<and> 8 dvd c \<and> a1 \<le> c \<and> c + 8 \<le> a1 + sz \<longrightarrow> m' c = 0)
     else a1 = 0 \<and> m' = fl_mem e"
    using alloc_repr [OF ok(1,2) assms(3) refl] by blast
  have e: "a1 = a" "e' = e\<lparr>fl_mem := m'\<rparr>" using a1(1) assms(4) by auto
  show ?thesis
  proof (cases "alloc_size sz \<le> FREELIST_MAX_ALLOC_SIZE \<and> (\<exists>x\<in>free_set B. padded_size (alloc_size sz) al \<le> size_of B x)")
    case False
    then show ?thesis using a1(2) e by simp
  next
    case True
    then obtain k s q B' where k: "k \<in> free_set B" "taken (fl_blocks e) B (fl_mem e) k s q B' m'" "k + 16 \<le> a" "a + alloc_size sz \<le> k + 16 + s" "2 ^ al dvd a"
      "al \<le> 3 \<longrightarrow> a = k + 16 \<and> q = 0"
      using a1(2) e(1) by auto
    have ok': "fl_ok B' ps e'" using taken_ok [OF assms(1) k(2)] e(2) by simp
    have u: "used_of B' = (used_of B)(k \<mapsto> (s, q))" "unchanged (owned (fl_blocks e) B) (fl_mem e) m'" using k(2) by (auto simp: taken_def)
    have n: "used_of B k = None" using k(1) by (auto simp: free_set_def used_of_def)
    have "L a = None" using fresh_address [OF assms(1,2) u(1) n ok' k(3)] k(4) alloc_size_ge(2) [of sz] by simp
    then show ?thesis using ok' live_alloc [OF assms(2) n u(1) k(3-6)] u(2) e(2) k(3) by auto
  qed
qed

lemma free_step:
  assumes "fl_ok B ps e" "live_ok B L" "L a = Some (sz, al)" "al \<le> 3"
  shows "\<exists>e' B' k s. FreeUnsafe a e = Some e' \<and> fl_blocks e' = fl_blocks e \<and> fl_ok B' ps e' \<and> live_ok B' (L(a := None)) \<and> in_block B a (sz, al) k \<and> used_of B k = Some (s, 0) \<and>
    (\<forall>c. fl_mem e' c \<noteq> fl_mem e c \<longrightarrow> c \<in> owned (fl_blocks e) B \<or> k \<le> c \<and> c < k + 16 + s)"
proof -
  obtain k where k: "in_block B a (sz, al) k" using live_block [OF assms(2,3)] by blast
  then obtain s where s: "used_of B k = Some (s, 0)" "a = k + 16" using assms(4) by (auto simp: in_block_def)
  obtain m' B' where m': "FreeUnsafe (k + 16) e = Some (e\<lparr>fl_mem := m'\<rparr>)" "fl_ok B' ps (e\<lparr>fl_mem := m'\<rparr>)" "used_of B' = (used_of B)(k := None)"
    "\<forall>c. m' c \<noteq> fl_mem e c \<longrightarrow> c \<in> owned (fl_blocks e) B \<or> k \<le> c \<and> c < k + 16 + s"
    using free_ok [OF assms(1) s(1)] by blast
  have "live_ok B' (L(a := None))" by (rule live_free [OF assms(2,3) k m'(3)]) (use assms(4) in simp)
  then show ?thesis using m' s k by (intro exI [of _ "e\<lparr>fl_mem := m'\<rparr>"] exI [of _ B']) auto
qed

lemma fl_inv_step:
  assumes "fl_inv c" "fl_step c c'"
  shows "fl_inv c'"
proof -
  obtain B where B: "fl_ok B (cl_pools c) (cl_fl c)" "live_ok B (cl_live c)" using assms(1) by (auto simp: fl_inv_def)
  from assms(2) show ?thesis
  proof cases
    case (add_memory_pool p s e)
    obtain B' where "fl_ok B' (cl_pools c @ [(p, s)]) e" "used_of B' = used_of B" using add_pool [OF B(1) add_memory_pool(2)] add_memory_pool(3) by auto
    then show ?thesis using add_memory_pool(1) live_same [OF _ B(2)] unfolding fl_inv_def by (intro exI [of _ B']) simp
  next
    case (alloc al sz a e)
    consider "a = 0" "e = cl_fl c" | B' where "fl_ok B' (cl_pools c) e" "live_ok B' ((cl_live c)(a \<mapsto> (sz, al)))" "a \<noteq> 0" using alloc_step [OF B alloc(2,3)] by blast
    then show ?thesis
    proof cases
      case 1 then show ?thesis using alloc(1) B unfolding fl_inv_def by (intro exI [of _ B]) simp
    next
      case (2 B') then show ?thesis using alloc(1) unfolding fl_inv_def by (intro exI [of _ B']) simp
    qed
  next
    case (free a sz al e)
    obtain B' where "fl_ok B' (cl_pools c) e" "live_ok B' ((cl_live c)(a := None))" using free_step [OF B free(2,3)] free(4) by auto
    then show ?thesis using free(1) unfolding fl_inv_def by (intro exI [of _ B']) simp
  next
    case (collect dead e)
    obtain B' where "fl_ok B' (cl_pools c) e" "used_of B' = sweep dead UNIV B" using collect_ok [OF B(1) live_unpadded [OF B(2) collect(2)], of dead] collect(3) by auto
    then show ?thesis using collect(1) live_collect [OF B(2) collect(2)] unfolding fl_inv_def by (intro exI [of _ B']) simp
  next
    case (client_write a sz al x v)
    obtain k where k: "in_block B a (sz, al) k" using live_block [OF B(2) client_write(2)] by blast
    obtain s q where "used_of B k = Some (s, q)" "k + 16 \<le> x" "x < k + 16 + s"
      using in_block_used [OF B(1) k client_write(3)] client_write(4) alloc_size_ge(1) [of sz] by auto
    then have "fl_ok B (cl_pools c) ((cl_fl c)\<lparr>fl_mem := (fl_mem (cl_fl c))(x := v)\<rparr>)" by (rule write_ok [OF B(1)])
    then show ?thesis using B(2) client_write(1) unfolding fl_inv_def by (intro exI [of _ B]) simp
  qed
qed

interpretation fl: inductive_invariant fl_init fl_step fl_inv
proof
  show "fl_inv c" if "fl_init c" for c
  proof -
    have "used_of Map.empty = Map.empty" by (simp add: used_of_def fun_eq_iff)
    then have "live_ok Map.empty (cl_live c)" using that by (simp add: live_ok_def fl_init_def bij_betw_def)
    moreover have "cl_pools c = []" using that by (simp add: fl_init_def)
    ultimately show ?thesis using init_ok [OF that] unfolding fl_inv_def by metis
  qed
qed (rule fl_inv_step)

lemma reachable_fl: "reachable fl_init fl_step c \<Longrightarrow> (\<And>B. fl_ok B (cl_pools c) (cl_fl c) \<Longrightarrow> live_ok B (cl_live c) \<Longrightarrow> P) \<Longrightarrow> P"
  using fl.reachable_inv unfolding fl_inv_def by blast





subsection \<open>Runs\<close>

definition new_allocator :: "nat \<Rightarrow> FreeListAlloc" where
  "new_allocator blocks = \<lparr>fl_blocks = blocks, fl_head = 0, fl_tail = 0, fl_zeroes = False, fl_mem = (\<lambda>_. 0)\<rparr>"

lemmas fl_header_defs = ptr_at_def set_ptr_def GetPaddingStatus_def SetPaddingStatus_def Initialize_def IsUsed_def SetUsed_def SetUnused_def
  IsPaddingHeader_def IsPaddingSizeStoredAfterHeader_def IsPaddingHeaderStoredAfterHeader_def set_padding_def SetAsPaddingHeader_def
  SetPaddingSizeStoredAfterHeader_def SetPaddingHeaderStoredAfterHeader_def SetPaddingSize_def GetPaddingSize_def IsLastBlockInPool_def
  SetLastBlockInPool_def GetSize_def GetPrevHeader_def SetPrevHeader_def GetNextHeader_def GetPrevUsedHeader_def GetNextUsedHeader_def
  CanBeCoalescedWithNext_def CanBeCoalescedWithPrev_def GetMemory_def GetNextFree_def GetPrevFree_def SetNextFree_def SetPrevFree_def
  InsertNext_def PopFromFreeList_def

lemmas fl_list_defs = FREELIST_ALLOCATOR_MIN_SIZE_def FREELIST_MAX_ALLOC_SIZE_def SEGREGATED_LIST_SIZE_def
  SEGREGATED_LIST_FREE_BLOCK_RANGE_def list_head_def GetIndex_def GetFirstBlock_def FindTheMostSuitableBlockInOrderedList_def
  AddMemoryBlock_def FindMemoryBlock_def AlignUp_def GetAlignmentInBytes_def

lemmas fl_alloc_defs = CoalesceMemoryBlocks_def SplitMemoryBlocks_def TryToCoalescing_def GetFromSegregatedList_def
  CanCreateNewBlockFromRemainder_def add_padding_header_def take_block_def record_padding_def MemoryInit_def Alloc_def pool_GetPrev_def pool_GetNext_def
  pool_GetSize_def GetFirstMemoryHeader_def pool_Initialize_def AddMemoryPool_def AllocatedByFreeListAllocatorUnsafe_def
  GetFreeListMemoryHeader_def FreeUnsafe_def crossing_map_args_def

definition fl_state1 :: FreeListAlloc where
  "fl_state1 = \<lparr>fl_blocks = 1024, fl_head = 65536, fl_tail = 65536, fl_zeroes = False, fl_mem = (\<lambda>_. 0)(65552 := 4194304, 65568 := 0x3FFFD02, 65592 := 1504, 1520 := 65568)\<rparr>"

definition fl_state2 :: FreeListAlloc where
  "fl_state2 = fl_state1\<lparr>fl_mem := (\<lambda>_. 0)(1520 := 65856, 65880 := 1504, 65568 := 4365, 65584 := 4100, 65864 := 65568, 65592 := 65568,
     65552 := 4194304, 65856 := 67103490)\<rparr>"

definition fl_state3 :: FreeListAlloc where
  "fl_state3 = fl_state1\<lparr>fl_mem := (\<lambda>_. 0)(1520 := 66128, 66152 := 1504, 65880 := 1504, 65856 := 4097, 65568 := 4365, 65584 := 4100, 65864 := 65568,
     66136 := 65856, 65592 := 65568, 65552 := 4194304, 66128 := 67099138)\<rparr>"

definition fl_state4 :: FreeListAlloc where
  "fl_state4 = fl_state1\<lparr>fl_mem := (\<lambda>_. 0)(1040 := 65568, 1520 := 66128, 66152 := 1504, 65880 := 1504, 65592 := 1024, 65856 := 4097, 65568 := 4364,
     65864 := 65568, 66136 := 65856, 65552 := 4194304, 66128 := 67099138)\<rparr>"

definition fl_state5 :: FreeListAlloc where
  "fl_state5 = fl_state1\<lparr>fl_mem := (\<lambda>_. 0)(1520 := 66128, 66152 := 1504, 65880 := 1504, 65592 := 1024, 65856 := 4097, 65568 := 4365,
     65864 := 65568, 66136 := 65856, 65552 := 4194304, 66128 := 67099138)\<rparr>"

definition fl_state6 :: FreeListAlloc where
  "fl_state6 = fl_state1\<lparr>fl_mem := (\<lambda>_. 0)(1520 := 66584, 66608 := 1504, 65592 := 1504, 65568 := 16001, 66592 := 65568, 65552 := 4194304,
     66584 := 67091842)\<rparr>"

definition fl_state7 :: FreeListAlloc where
  "fl_state7 = fl_state1\<lparr>fl_mem := (\<lambda>_. 0)(66600 := 24, 1520 := 66880, 66904 := 1504, 65592 := 1504, 66608 := 4100, 66584 := 4489, 65568 := 16001,
     66592 := 65568, 66888 := 66584, 66616 := 66584, 65552 := 4194304, 66880 := 67087106)\<rparr>"


lemmas fl_run_defs = fl_state1_def fl_alloc_defs fl_header_defs fl_list_defs most_suitable_loop.simps allocated_loop.simps Let_def fun_upd_twist upt_rec

lemma fl_run1: "AddMemoryPool 65536 4194304 (new_allocator 1024) = Some fl_state1"
  by (simp add: new_allocator_def fl_run_defs) (rule ext, simp)

lemma fl_run2: "Alloc 256 5 fl_state1 = Some (65600, fl_state2)"
  by (simp add: fl_run_defs fl_state2_def) (rule ext, simp)

lemma fl_run3: "Alloc 256 3 fl_state2 = Some (65872, fl_state3)"
  by (simp add: fl_run_defs fl_state2_def fl_state3_def) (rule ext, simp)

lemma fl_run4: "FreeUnsafe 65600 fl_state3 = Some fl_state4"
  by (simp add: fl_run_defs fl_state3_def fl_state4_def) (rule ext, simp)

lemma fl_run5: "Alloc 272 3 fl_state4 = Some (65600, fl_state5)"
  by (simp add: fl_run_defs fl_state4_def fl_state5_def) (rule ext, simp)

lemma fl_run6: "Alloc 1000 3 fl_state1 = Some (65584, fl_state6)"
  by (simp add: fl_run_defs fl_state6_def) (rule ext, simp)

lemma fl_run7: "Alloc 256 5 fl_state6 = Some (66624, fl_state7)"
  by (simp add: fl_run_defs fl_state6_def fl_state7_def) (rule ext, simp)


definition fl_client1 :: fl_client where
  "fl_client1 = \<lparr>cl_fl = fl_state1, cl_pools = [(65536, 4194304)], cl_live = Map.empty\<rparr>"

definition fl_client2 :: fl_client where
  "fl_client2 = fl_client1\<lparr>cl_fl := fl_state7, cl_live := [65584 \<mapsto> (1000, 3), 66624 \<mapsto> (256, 5)]\<rparr>"

lemma new_pool_fits: "pool_fits 1024 [] 65536 4194304"
  by (simp add: pool_fits_def)

lemma init_client: "fl_init \<lparr>cl_fl = new_allocator 1024, cl_pools = [], cl_live = Map.empty\<rparr>"
  by (simp add: fl_init_def new_allocator_def)

lemma reachable_fl_client1: "reachable fl_init fl_step fl_client1"
proof -
  let ?c = "\<lparr>cl_fl = new_allocator 1024, cl_pools = [], cl_live = Map.empty\<rparr>"
  have "fl_step ?c fl_client1" using fl_step.add_memory_pool [of ?c 65536 4194304 fl_state1] new_pool_fits fl_run1 by (simp add: fl_client1_def new_allocator_def)
  then show ?thesis by (rule reachable.more [OF reachable.start [of fl_init, OF init_client]])
qed

lemma reachable_fl_client2: "reachable fl_init fl_step fl_client2"
proof -
  let ?c = "fl_client1\<lparr>cl_fl := fl_state6, cl_live := [65584 \<mapsto> (1000, 3)]\<rparr>"
  have "fl_step fl_client1 ?c" using fl_step.alloc [of 3 1000 fl_client1 65584 fl_state6] fl_run6 by (simp add: fl_client1_def)
  moreover have "fl_step ?c fl_client2" using fl_step.alloc [of 5 256 ?c 66624 fl_state7] fl_run7 by (simp add: fl_client1_def fl_client2_def)
  ultimately show ?thesis using reachable.more reachable_fl_client1 by metis
qed



lemma fl_state1_ok: "fl_ok [65568 \<mapsto> pool_block 4194304] [(65536, 4194304)] fl_state1"
  using add_pool [OF init_ok [OF init_client], of 65536 4194304] new_pool_fits fl_run1 by (simp add: new_allocator_def)

subsection \<open>Properties\<close>











text \<open>
  C12: An allocation takes a free block of the smallest size that is large enough for the request with its alignment, and the used
  blocks are then the old ones and that one; with a configuration that initialises memory the whole cells of the request are zero.
  The null pointer is returned only when the request is above the largest size of the allocator or no free block is large enough,
  and then nothing changes.
\<close>

theorem freelist_best_fit:
  assumes "fl_ok B ps e" "al \<le> 13"
  shows "\<exists>a e'. Alloc sz al e = Some (a, e') \<and>
    (if alloc_size sz \<le> FREELIST_MAX_ALLOC_SIZE \<and> (\<exists>x\<in>free_set B. padded_size (alloc_size sz) al \<le> size_of B x)
     then \<exists>k s q B'. k \<in> free_set B \<and> (\<forall>x\<in>free_set B. padded_size (alloc_size sz) al \<le> size_of B x \<longrightarrow> size_of B k \<le> size_of B x) \<and>
       fl_ok B' ps e' \<and> used_of B' = (used_of B)(k \<mapsto> (s, q)) \<and> k + 16 \<le> a \<and> a + sz \<le> k + 16 + s \<and> 2 ^ al dvd a \<and>
       (\<forall>c. fl_zeroes e \<and> 8 dvd c \<and> a \<le> c \<and> c + 8 \<le> a + sz \<longrightarrow> fl_mem e' c = 0)
     else a = 0 \<and> e' = e)"
proof -
  obtain a m' where a: "Alloc sz al e = Some (a, e\<lparr>fl_mem := m'\<rparr>)"
    "if alloc_size sz \<le> FREELIST_MAX_ALLOC_SIZE \<and> (\<exists>x\<in>free_set B. padded_size (alloc_size sz) al \<le> size_of B x)
     then \<exists>k s q B'. k \<in> free_set B \<and> (\<forall>x\<in>free_set B. padded_size (alloc_size sz) al \<le> size_of B x \<longrightarrow> size_of B k \<le> size_of B x) \<and>
       taken (fl_blocks e) B (fl_mem e) k s q B' m' \<and> k + 16 \<le> a \<and> a + alloc_size sz \<le> k + 16 + s \<and> 2 ^ al dvd a \<and> (al \<le> 3 \<longrightarrow> a = k + 16 \<and> q = 0) \<and>
       (\<forall>c. fl_zeroes e \<and> 8 dvd c \<and> a \<le> c \<and> c + 8 \<le> a + sz \<longrightarrow> m' c = 0)
     else a = 0 \<and> m' = fl_mem e"
    using alloc_repr [OF fl_okD(1,2) [OF assms(1)] assms(2) refl] by blast
  show ?thesis
  proof (rule exI [of _ a], rule exI [of _ "e\<lparr>fl_mem := m'\<rparr>"], intro conjI a(1))
    show "if alloc_size sz \<le> FREELIST_MAX_ALLOC_SIZE \<and> (\<exists>x\<in>free_set B. padded_size (alloc_size sz) al \<le> size_of B x)
     then \<exists>k s q B'. k \<in> free_set B \<and> (\<forall>x\<in>free_set B. padded_size (alloc_size sz) al \<le> size_of B x \<longrightarrow> size_of B k \<le> size_of B x) \<and>
       fl_ok B' ps (e\<lparr>fl_mem := m'\<rparr>) \<and> used_of B' = (used_of B)(k \<mapsto> (s, q)) \<and> k + 16 \<le> a \<and> a + sz \<le> k + 16 + s \<and> 2 ^ al dvd a \<and>
       (\<forall>c. fl_zeroes e \<and> 8 dvd c \<and> a \<le> c \<and> c + 8 \<le> a + sz \<longrightarrow> fl_mem (e\<lparr>fl_mem := m'\<rparr>) c = 0)
     else a = 0 \<and> e\<lparr>fl_mem := m'\<rparr> = e" (is "if ?c then _ else _")
    proof (cases ?c)
      case True
      then obtain k s q B' where k: "k \<in> free_set B" "\<forall>x\<in>free_set B. padded_size (alloc_size sz) al \<le> size_of B x \<longrightarrow> size_of B k \<le> size_of B x"
        "taken (fl_blocks e) B (fl_mem e) k s q B' m'" "k + 16 \<le> a" "a + alloc_size sz \<le> k + 16 + s" "2 ^ al dvd a"
        "\<forall>c. fl_zeroes e \<and> 8 dvd c \<and> a \<le> c \<and> c + 8 \<le> a + sz \<longrightarrow> m' c = 0"
        using a(2) unfolding if_P [OF True] by blast
      have "a + sz \<le> k + 16 + s" using k(5) alloc_size_ge(1) [of sz] by linarith
      moreover have "used_of B' = (used_of B)(k \<mapsto> (s, q))" using k(3) by (simp add: taken_def)
      ultimately show ?thesis using k taken_ok [OF assms(1) k(3)] unfolding if_P [OF True]
        by (intro exI [of _ k] exI [of _ s] exI [of _ q] exI [of _ B'] conjI) simp_all
    next
      case False
      then show ?thesis using a(2) unfolding if_not_P [OF False] by simp
    qed
  qed
qed

theorem freelist_best_fit_witness: "\<exists>a e'. Alloc 100000 3 fl_state1 = Some (a, e') \<and> 65584 \<le> a \<and> 2 ^ 3 dvd a"
proof -
  have f: "free_set [65568 \<mapsto> pool_block 4194304] = {65568}" by (auto simp: free_set_def pool_block_def split: if_splits)
  have s: "size_of [65568 \<mapsto> pool_block 4194304] 65568 = 4194256" by (simp add: size_of_def pool_block_def)
  have n: "alloc_size 100000 = 100000" by (simp add: alloc_size_def AlignUp_def)
  show ?thesis using freelist_best_fit [OF fl_state1_ok, of 3 100000] by (auto simp: f s n padded_size_def FREELIST_MAX_ALLOC_SIZE_def)
qed

text \<open>
  Releasing an allocation removes its block from the used blocks and nothing else; the heap is well formed again, in particular
  no two free blocks are neighbours.
\<close>

theorem freelist_free:
  assumes "fl_ok B ps e" "used_of B k = Some (s, 0)"
  shows "\<exists>e' B'. FreeUnsafe (k + 16) e = Some e' \<and> fl_ok B' ps e' \<and> used_of B' = (used_of B)(k := None)"
  using free_ok [OF assms] by blast

theorem freelist_free_witness: "\<exists>B e'. fl_ok B (cl_pools fl_client2) (cl_fl fl_client2) \<and> used_of B 65568 \<noteq> None \<and> FreeUnsafe (65568 + 16) (cl_fl fl_client2) = Some e'"
proof -
  obtain B where B: "fl_ok B (cl_pools fl_client2) (cl_fl fl_client2)" "live_ok B (cl_live fl_client2)" using reachable_fl_client2 by (rule reachable_fl)
  obtain k where "in_block B 65584 (1000, 3) k" using live_block [OF B(2), of 65584 "(1000, 3)"] by (auto simp: fl_client2_def)
  then obtain s where s: "used_of B 65568 = Some (s, 0)" by (auto simp: in_block_def)
  show ?thesis using freelist_free [OF B(1) s] B(1) s by blast
qed



text \<open>
  Releasing an allocation that was aligned to more than 8 bytes keeps the padding of its block recorded in the header. The next
  allocation that takes the block starts behind that padding and reaches past the end of the block: here over the header of the block
  of another live allocation.
\<close>

theorem freelist_stale_padding:
  "\<exists>e1 e2 e3 e4 e5. AddMemoryPool 65536 4194304 (new_allocator 1024) = Some e1 \<and> Alloc 256 5 e1 = Some (65600, e2) \<and> Alloc 256 3 e2 = Some (65872, e3) \<and>
     FreeUnsafe 65600 e3 = Some e4 \<and> Alloc 272 3 e4 = Some (65600, e5) \<and>
     GetFreeListMemoryHeader 65872 (fl_mem e5) = Some 65856 \<and> 65856 \<in> {65600..<65600 + 272 :: nat} \<and> IsUsed 65856 (fl_mem e5)"
  using fl_run1 fl_run2 fl_run3 fl_run4 fl_run5 by (auto simp: GetFreeListMemoryHeader_def fl_state5_def fl_state1_def fl_header_defs)

end
