(* ===== verification/Spec2Isabelle.thy ===== *)
theory Spec2Isabelle
  imports Leb128 MarkWord FutexMutex FutexRWLock BytecodeSafe TaggedValue FloatToInt ObjectProperties LoopProperties EmitterProperties FreeListProperties
begin

text \<open>
  The Ark runtime core: a verification library beside the sources under \<open>src/\<close>.

  \<^bold>\<open>The program.\<close> The runtime executes bytecode of abc files. \<open>libpandabase\<close> has the utilities (bits, LEB128, locks, pools),
  \<open>libpandafile\<close> reads and writes the file format and encodes instructions, and \<open>runtime\<close> interprets the instructions over
  frames, a managed heap whose objects start with a mark word, and threads that synchronise with futex locks. The
  assembler and the front ends produce instructions with the bytecode emitter; the interpreter decodes what it emits.

  \<^bold>\<open>The shared base.\<close> \<open>Prelude\<close> names the integer types (\<open>u8\<close> to \<open>u64\<close>, words of HOL-Library) and holds the lemmas on words and
  lists used everywhere. \<open>Transitions\<close> defines reachability under interleaved steps and the locale \<open>inductive_invariant\<close>: a
  component gives its initial states, its steps and its invariant, and gets what follows from the invariant in every
  reachable state. It is interpreted for the mutex (\<open>mx\<close>), for the reader-writer lock (\<open>rw\<close>) and for the clients of the
  free-list allocator (\<open>fl\<close>).

  \<^bold>\<open>Utilities and file format.\<close>
  \<^item> \<open>BitUtils\<close>: all functions of \<open>libpandabase/utils/bit_utils.h\<close>.
  \<^item> \<open>Leb128\<close>: the encoders, decoders and size functions of \<open>libpandabase/utils/leb128.h\<close>. Decoding inverts encoding for every
    value of every width, the size functions are exact, and one theorem shows numbers out of range that are accepted.
  \<^item> \<open>Bytecode\<close>, \<open>BytecodeSafe\<close>: the formats of \<open>isa/isa.yaml\<close>, the operand offsets as \<open>isa/isapi.rb\<close> computes them, the bit field
    reader of \<open>libpandafile/bytecode_instruction.h\<close> in fast and safe mode, and the emission of one instruction. Decoding an
    emitted instruction of any format gives its operands back; the safe mode never leaves its window.
  \<^item> \<open>BytecodeEmitter\<close>, \<open>EmitterItems\<close>, \<open>EmitterProperties\<close>: the class \<open>BytecodeEmitter\<close> of \<open>libpandafile/bytecode_emitter.cpp\<close>:
    labels, jumps, \<open>Build\<close> with its widening of jumps and its update of displacements. \<open>EmitterItems\<close> abstracts the
    byte vector to a list of items (\<open>holds\<close>) and \<open>ReserveSpaceForOffsets\<close> to a function on items; \<open>EmitterProperties\<close> shows
    that a built program decodes to the calls that emitted it with the jumps resolved. Two more theorems say which programs
    pass the check of the labels, which includes some with an unbound label, and where a far conditional jump breaks a
    short one.

  \<^bold>\<open>Objects and locks.\<close>
  \<^item> \<open>MarkWord\<close>: \<open>runtime/mark_word.h\<close> and \<open>mark_word.cpp\<close> for the three configurations of \<open>object_header_config.h\<close>. The words
    refine a tagged union of object states with the collector's two flags beside it.
  \<^item> \<open>FutexMutex\<close>, \<open>FutexRWLock\<close>: \<open>Mutex\<close>, \<open>RecursiveMutex\<close> and \<open>RWLock\<close> of \<open>libpandabase/os/unix/futex/mutex.cpp\<close>, one step per atomic
    access or futex call, any number of threads, all interleavings. Mutual exclusion, no lost wakeup, no failed
    assertion, and a quiescent lock can be destroyed. The clients keep the contract of the locks: only the holder
    unlocks, and a thread does not lock a lock again that it holds unless the mutex is recursive. A futex wait fails
    with \<open>EAGAIN\<close> or \<open>EINTR\<close> only.
  \<^item> \<open>TaggedValue\<close>: the NaN-boxed values of \<open>runtime/include/coretypes/tagged_value.h\<close>; every constructor is inverted by its
    accessor and recognised by its test only.

  \<^bold>\<open>The free-list allocator.\<close> \<open>runtime/mem/freelist.h\<close> and \<open>freelist_allocator-inl.h\<close>, on a memory of 8-byte cells.
  \<^item> \<open>FreeListAllocator\<close>: the block headers with their status bits, the links of the free blocks, the segregated lists, and
    the operations of the allocator: \<open>Alloc\<close>, \<open>FreeUnsafe\<close>, \<open>AddMemoryPool\<close>, \<open>Collect\<close> and the removal of pools.
  \<^item> \<open>FreeListHeaders\<close>, \<open>FreeListLists\<close>, \<open>FreeListBlocks\<close>, \<open>FreeListCoalesce\<close>, \<open>FreeListOperations\<close>, \<open>FreeListPools\<close>,
    \<open>FreeListCollect\<close>: the memory represents a map from addresses to blocks (\<open>heap_repr\<close>, \<open>fl_ok\<close>), and each operation is a
    function on that map: cutting and joining blocks, taking them off their list and adding them, walking over a pool
    while its blocks are released.
  \<^item> \<open>FreeListProperties\<close>: in every state a client can reach the live allocations are aligned, disjoint and inside the pools; no
    assertion fails; live memory keeps its contents; the best fit is taken; a collection releases exactly the dead objects;
    and when all is released every pool is one free block again. Clients release and collect allocations
    with an alignment of at most 8 bytes only, because the last theorem shows that releasing a padded block leaves its
    padding recorded and a later allocation then overlaps another one.

  \<^bold>\<open>The interpreter.\<close>
  \<^item> \<open>MathHelpers\<close>, \<open>FloatToInt\<close>: \<open>runtime/interpreter/math_helpers.h\<close> and the conversions of \<open>interpreter-inl.h\<close>, on words and
    on IEEE bit patterns.
  \<^item> \<open>VRegister\<close>, \<open>ManagedHeap\<close>, \<open>InterpreterCache\<close>, \<open>InterpreterState\<close>: registers with tags and frames, the bytes of objects and
    arrays, the cache of resolved entities, and the state of a handler with its program counter and dispatch.
  \<^item> \<open>InterpreterOps\<close>, \<open>InterpreterObjects\<close>, \<open>InterpreterCalls\<close>: one definition per handler of \<open>interpreter-inl.h\<close>.
  \<^item> \<open>InterpreterLoop\<close>: the generated \<open>ExecuteImpl\<close> with its table of 329 entries.
  \<^item> \<open>ObjectProperties\<close>: array and field accesses are checked and touch one element. \<open>CallProperties\<close>: arguments, calls,
    returns and unwinding. \<open>LoopStates\<close>, \<open>LoopHandlers\<close>, \<open>LoopProperties\<close>: rules for every handler (collected in \<open>vcg\<close>), from
    which the loop keeps its invariant: while safepoints and the resolution of strings do not throw, a pending exception
    always goes to the exception handler, and the loop returns only from the frame it was entered with. Other theorems show what
    happens when a safepoint throws at a jump or at a call.

  \<^bold>\<open>Conventions.\<close> \<open>None\<close> is undefined behaviour, a failed \<open>ASSERT\<close>, a fatal log or a loop that does not end; theorems that an
  operation succeeds therefore say that none of these happens. Code outside \<open>src/\<close> and the template parameter
  \<open>RuntimeIfaceT\<close> are arguments of the definitions (records \<open>rt\<close>, \<open>exec_env\<close>); what is relied on is a named hypothesis
  (\<open>quiet_rt\<close>; \<open>runtime_reports\<close>: a failed call of the runtime leaves an exception pending; \<open>polls_quiet\<close>: safepoints and the
  resolution of strings leave none; \<open>runtime_ok\<close>: both) and each theorem that uses one is applied to a concrete runtime in its witness.
  Handlers and locks have no fuel. Stack unwinding recurses on the number of frames, since each round pops one.
  \<open>ExecuteImpl\<close> takes the number of labels it may visit, because a program may run forever: its theorems hold for every
  bound, and those on \<open>loop_reach\<close> (the labels a run visits) need none. The emitter's program is below \<open>2^31\<close>
  bytes, the range of its positions. The loops of the free-list allocator are partial functions, and its theorems say that they
  return. Pointers and \<open>size_t\<close> are 64 bits wide.

  \<^bold>\<open>Not modelled.\<close>
  \<^item> Memory orders of the atomic accesses: steps are sequentially consistent. \<open>ConditionVariable\<close> of the futex file.
  \<^item> \<open>IterateOverObjectsInRange\<close>, \<open>IsLive\<close> and the adapters of the free-list allocator; its crossing map and memory statistics, which do
    not touch its memory.
  \<^item> The garbage collectors, the other allocators, the class linker and the runtime's services
    (\<open>runtime/mem/gc\<close>, \<open>class_linker.cpp\<close>, \<open>thread.cpp\<close>, \<open>panda_vm.cpp\<close>): the interpreter reaches them through its runtime interface,
    which is a parameter.
  \<^item> The readers and writers of whole abc files (\<open>file.cpp\<close>, \<open>file_items.cpp\<close>, the data accessors), the assembler, the
    disassembler and the bytecode verifier: text and file formats that none of the modelled parts calls.
  \<^item> The operating system layer, the logging, the profiler, the debugger and trace support, the zip archive reader: calls of
    the system with no state of the program in them.
  \<^item> \<open>std::fmod\<close> and the arithmetic of floating point numbers: library code, parameters of the model.
\<close>

end
